(* ===== verification/Prelude.thy ===== *)
theory Prelude
  imports Complex_Main
begin

section \<open>Prelude: shared types, statement results, tables\<close>

text \<open>
  What every component of the development shares.

  \<^item> The type synonyms of the model: identifiers, timestamps, JavaScript strings.
  \<^item> The exceptions the TypeScript code throws, as one datatype, so that a fallible
    operation returns \<open>exn + 'a\<close> with \<open>Inl\<close> for a throw.
  \<^item> SQL statements over a table kept as a list of rows: \<open>update_where\<close>,
    \<open>delete_where\<close>, \<open>affected\<close>, \<open>row_with\<close>, and the generic lemmas on them that carry
    the component proofs (collection \<open>table_simps\<close>).
\<close>

named_theorems table_simps
named_theorems wf_intros
named_theorems step_defs

subsection \<open>Basic types\<close>

text \<open>
  A \<open>timestamp\<close> counts microseconds, the resolution of Postgres' \<open>timestamptz\<close>;
  \<open>interval_ms n\<close> is the SQL expression \<open>interval '1 millisecond' * n\<close>.
  A JavaScript string is a \<^typ>\<open>string\<close>, one \<^typ>\<open>char\<close> for one UTF-16 code unit below 256.
\<close>

type_synonym uuid = string
type_synonym timestamp = int

definition interval_ms :: "int \<Rightarrow> int" where
  "interval_ms n = 1000 * n"

lemma interval_ms_mono [simp]: "interval_ms a \<le> interval_ms b \<longleftrightarrow> a \<le> b"
  by (simp add: interval_ms_def)

lemma interval_ms_nonneg [simp]: "0 \<le> interval_ms n \<longleftrightarrow> 0 \<le> n"
  by (simp add: interval_ms_def)

text \<open>What the code throws: driver errors, Nest's HTTP exceptions, the enrichment error.\<close>

datatype exn =
    UniqueViolation string
  | ForeignKeyViolation string
  | EntityNotFoundError string
  | JsError string
  | BadRequestException string
  | ConflictException string
  | NotFoundException string
  | TransientEnrichmentError string
  | UnrecoverableError string

fun exn_message :: "exn \<Rightarrow> string" where
  "exn_message (UniqueViolation m) = m"
| "exn_message (ForeignKeyViolation m) = m"
| "exn_message (EntityNotFoundError m) = m"
| "exn_message (JsError m) = m"
| "exn_message (BadRequestException m) = m"
| "exn_message (ConflictException m) = m"
| "exn_message (NotFoundException m) = m"
| "exn_message (TransientEnrichmentError m) = m"
| "exn_message (UnrecoverableError m) = m"

subsection \<open>Statements over a table\<close>

text \<open>\<open>UPDATE t SET f WHERE p\<close>, the number of rows it touches, \<open>DELETE FROM t WHERE p\<close>.\<close>

definition update_where :: "('r \<Rightarrow> bool) \<Rightarrow> ('r \<Rightarrow> 'r) \<Rightarrow> 'r list \<Rightarrow> 'r list" where
  "update_where p f rs = map (\<lambda>r. if p r then f r else r) rs"

definition affected :: "('r \<Rightarrow> bool) \<Rightarrow> 'r list \<Rightarrow> nat" where
  "affected p rs = length (filter p rs)"

definition delete_where :: "('r \<Rightarrow> bool) \<Rightarrow> 'r list \<Rightarrow> 'r list" where
  "delete_where p rs = filter (\<lambda>r. \<not> p r) rs"

text \<open>The first row whose column \<open>c\<close> is \<open>v\<close> (\<open>SELECT ... WHERE c = v\<close>).\<close>

definition row_with :: "('r \<Rightarrow> 'c) \<Rightarrow> 'c \<Rightarrow> 'r list \<Rightarrow> 'r option" where
  "row_with c v rs = List.find (\<lambda>r. c r = v) rs"

definition values_of :: "('r \<Rightarrow> 'c) \<Rightarrow> 'r list \<Rightarrow> 'c set" where
  "values_of c rs = c ` set rs"

definition unique_by :: "('r \<Rightarrow> 'c) \<Rightarrow> 'r list \<Rightarrow> bool" where
  "unique_by c rs \<longleftrightarrow> distinct (map c rs)"

lemma update_where_Nil [simp]: "update_where p f [] = []"
  by (simp add: update_where_def)

lemma update_where_Cons [simp]:
  "update_where p f (r # rs) = (if p r then f r else r) # update_where p f rs"
  by (simp add: update_where_def)

lemma length_update_where [simp]: "length (update_where p f rs) = length rs"
  by (simp add: update_where_def)

lemma update_where_append [simp]:
  "update_where p f (rs @ ss) = update_where p f rs @ update_where p f ss"
  by (simp add: update_where_def)

lemma set_update_where:
  "set (update_where p f rs) = {f r |r. r \<in> set rs \<and> p r} \<union> {r \<in> set rs. \<not> p r}"
  by (auto simp: update_where_def)

lemma update_where_no_match: "(\<And>r. r \<in> set rs \<Longrightarrow> \<not> p r) \<Longrightarrow> update_where p f rs = rs"
  by (induction rs) auto

lemma map_update_where:
  assumes "\<And>r. r \<in> set rs \<Longrightarrow> p r \<Longrightarrow> c (f r) = c r"
  shows "map c (update_where p f rs) = map c rs"
  using assms by (induction rs) auto

lemma affected_0_iff: "affected p rs = 0 \<longleftrightarrow> (\<forall>r \<in> set rs. \<not> p r)"
  by (simp add: affected_def filter_empty_conv)

lemma affected_pos_iff: "0 < affected p rs \<longleftrightarrow> (\<exists>r \<in> set rs. p r)"
  by (induction rs) (auto simp: affected_def)

lemma affected_Nil [simp]: "affected p [] = 0"
  by (simp add: affected_def)

lemma affected_Cons [simp]: "affected p (r # rs) = (if p r then Suc (affected p rs) else affected p rs)"
  by (simp add: affected_def)

lemma delete_where_Nil [simp]: "delete_where p [] = []"
  by (simp add: delete_where_def)

lemma delete_where_Cons [simp]:
  "delete_where p (r # rs) = (if p r then delete_where p rs else r # delete_where p rs)"
  by (simp add: delete_where_def)

lemma set_delete_where [simp]: "set (delete_where p rs) = {r \<in> set rs. \<not> p r}"
  by (auto simp: delete_where_def)

lemma length_delete_where: "length (delete_where p rs) + affected p rs = length rs"
  by (induction rs) auto

lemma row_with_Nil [simp]: "row_with c v [] = None"
  by (simp add: row_with_def)

lemma row_with_Cons [simp]:
  "row_with c v (r # rs) = (if c r = v then Some r else row_with c v rs)"
  by (simp add: row_with_def)

lemma row_with_append:
  "row_with c v (rs @ ss) = (case row_with c v rs of Some r \<Rightarrow> Some r | None \<Rightarrow> row_with c v ss)"
  by (induction rs) auto

lemma row_with_SomeD: "row_with c v rs = Some r \<Longrightarrow> r \<in> set rs \<and> c r = v"
  by (induction rs) (auto split: if_splits)

lemma row_with_None_iff: "row_with c v rs = None \<longleftrightarrow> v \<notin> values_of c rs"
  by (induction rs) (auto simp: values_of_def)

lemma row_with_unique:
  assumes "unique_by c rs" and "r \<in> set rs"
  shows "row_with c (c r) rs = Some r"
  using assms by (induction rs) (auto simp: unique_by_def)

lemma unique_by_inj: "unique_by c rs \<Longrightarrow> r \<in> set rs \<Longrightarrow> s \<in> set rs \<Longrightarrow> c r = c s \<Longrightarrow> r = s"
  by (metis option.inject row_with_unique)

text \<open>
  Updating the rows whose column \<open>c\<close> is \<open>v\<close>, possibly under a further guard, as a change of
  what \<open>row_with\<close> answers.
\<close>

lemma row_with_update_where:
  assumes "\<And>r. r \<in> set rs \<Longrightarrow> p r \<Longrightarrow> c (f r) = c r"
  shows "row_with c v (update_where p f rs) =
    map_option (\<lambda>r. if p r then f r else r) (row_with c v rs)"
  using assms by (induction rs) auto

lemma row_with_delete_where_other:
  assumes "\<And>r. r \<in> set rs \<Longrightarrow> p r \<Longrightarrow> c r \<noteq> v"
  shows "row_with c v (delete_where p rs) = row_with c v rs"
  using assms by (induction rs) auto

lemma values_of_update_where:
  assumes "\<And>r. r \<in> set rs \<Longrightarrow> p r \<Longrightarrow> c (f r) = c r"
  shows "values_of c (update_where p f rs) = values_of c rs"
  using map_update_where [of rs p c f] assms by (simp add: values_of_def flip: set_map)

lemma values_of_Nil [simp]: "values_of c [] = {}"
  by (simp add: values_of_def)

lemma values_of_append [simp]: "values_of c (rs @ ss) = values_of c rs \<union> values_of c ss"
  by (auto simp: values_of_def)

lemma values_of_Cons [simp]: "values_of c (r # rs) = insert (c r) (values_of c rs)"
  by (auto simp: values_of_def)

lemma values_of_delete_where: "values_of c (delete_where p rs) = c ` {r \<in> set rs. \<not> p r}"
  by (simp add: values_of_def)

lemma unique_by_Nil [simp]: "unique_by c []"
  by (simp add: unique_by_def)

lemma unique_by_update_where:
  assumes "\<And>r. r \<in> set rs \<Longrightarrow> p r \<Longrightarrow> c (f r) = c r"
  shows "unique_by c (update_where p f rs) \<longleftrightarrow> unique_by c rs"
  using map_update_where [of rs p c f] assms by (simp add: unique_by_def)

lemma unique_by_snoc [simp]:
  "unique_by c (rs @ [r]) \<longleftrightarrow> unique_by c rs \<and> c r \<notin> values_of c rs"
  by (auto simp: unique_by_def values_of_def)

lemma unique_by_delete_where: "unique_by c rs \<Longrightarrow> unique_by c (delete_where p rs)"
  by (simp add: unique_by_def delete_where_def distinct_map_filter)

lemma affected_unique:
  assumes "unique_by c rs"
  shows "affected (\<lambda>r. c r = v \<and> p r) rs =
    (case row_with c v rs of Some r \<Rightarrow> if p r then 1 else 0 | None \<Rightarrow> 0)"
  using assms
proof (induction rs)
  case Nil
  then show ?case by simp
next
  case (Cons r rs)
  show ?case
  proof (cases "c r = v")
    case True
    with Cons.prems have "v \<notin> values_of c rs"
      by (auto simp: unique_by_def values_of_def)
    then have "affected (\<lambda>r. c r = v \<and> p r) rs = 0"
      by (auto simp: affected_0_iff values_of_def)
    with True show ?thesis by simp
  next
    case False
    with Cons show ?thesis by (simp add: unique_by_def)
  qed
qed

text \<open>What holds of every row of a table, after a statement.\<close>

lemma list_all_update_where:
  assumes "list_all P rs" and "\<And>r. P r \<Longrightarrow> p r \<Longrightarrow> P (f r)"
  shows "list_all P (update_where p f rs)"
  using assms by (auto simp: list_all_iff set_update_where)

lemma list_all_delete_where: "list_all P rs \<Longrightarrow> list_all P (delete_where p rs)"
  by (simp add: list_all_iff)

text \<open>Summing over the rows of a table, by primary key.\<close>

lemma sum_list_row_with:
  assumes "unique_by c rs"
  shows "sum_list (map g rs) = (\<Sum>v \<in> values_of c rs. g (the (row_with c v rs)))"
  using assms
proof (induction rs)
  case Nil
  then show ?case by simp
next
  case (Cons r rs)
  then have new: "c r \<notin> values_of c rs" and u: "unique_by c rs"
    by (auto simp: unique_by_def values_of_def)
  have "(\<Sum>v \<in> values_of c rs. g (the (row_with c v (r # rs)))) =
      (\<Sum>v \<in> values_of c rs. g (the (row_with c v rs)))"
    using new by (intro sum.cong) auto
  moreover have "finite (values_of c rs)" by (simp add: values_of_def)
  ultimately show ?case using Cons.IH [OF u] new by simp
qed

lemmas table_rows [table_simps] =
  row_with_append row_with_update_where values_of_update_where unique_by_update_where
  unique_by_delete_where values_of_delete_where

end
