(* ===== verification/Js_Values.thy ===== *)
theory Js_Values
  imports Prelude "HOL-Library.Char_ord" "HOL-Library.List_Lexorder"
begin

section \<open>JavaScript strings and JSON values\<close>

text \<open>
  The part of the language the code uses on values: \<open>String.prototype\<close> methods, and JSON
  values as \<open>JSON.parse\<close> builds them, with objects as association lists in the order
  \<open>Object.keys\<close> enumerates them. A finite double is a rational number.

  A string is a list of UTF-16 code units, each below 256 (one \<^typ>\<open>char\<close>). Case mapping is
  \<open>toLowerCase\<close> and \<open>toUpperCase\<close> on ASCII letters; the other code units of this range that
  change case never occur in a keyword or enum name of the program.
\<close>

subsection \<open>Strings\<close>

definition str_slice :: "nat \<Rightarrow> string \<Rightarrow> string" where
  "str_slice n s = take n s"

fun starts_with :: "string \<Rightarrow> string \<Rightarrow> bool" where
  "starts_with [] s = True"
| "starts_with (c # cs) [] = False"
| "starts_with (c # cs) (d # ds) = (c = d \<and> starts_with cs ds)"

text \<open>\<open>s.includes(k)\<close>.\<close>

fun str_includes :: "string \<Rightarrow> string \<Rightarrow> bool" where
  "str_includes [] k = (k = [])"
| "str_includes (c # cs) k = (starts_with k (c # cs) \<or> str_includes cs k)"

definition code :: "char \<Rightarrow> nat" where
  "code c = of_char c"

definition is_digit :: "char \<Rightarrow> bool" where
  "is_digit c \<longleftrightarrow> 48 \<le> code c \<and> code c \<le> 57"

definition is_upper :: "char \<Rightarrow> bool" where
  "is_upper c \<longleftrightarrow> 65 \<le> code c \<and> code c \<le> 90"

definition is_lower :: "char \<Rightarrow> bool" where
  "is_lower c \<longleftrightarrow> 97 \<le> code c \<and> code c \<le> 122"

definition char_lower :: "char \<Rightarrow> char" where
  "char_lower c = (if is_upper c then char_of (code c + 32) else c)"

definition char_upper :: "char \<Rightarrow> char" where
  "char_upper c = (if is_lower c then char_of (code c - 32) else c)"

definition str_lower :: "string \<Rightarrow> string" where
  "str_lower = map char_lower"

definition str_upper :: "string \<Rightarrow> string" where
  "str_upper = map char_upper"

text \<open>\<open>s.trim()\<close>: white space and line terminators of this range are 9 to 13, 32 and 160.\<close>

definition is_space :: "char \<Rightarrow> bool" where
  "is_space c \<longleftrightarrow> (9 \<le> code c \<and> code c \<le> 13) \<or> code c = 32 \<or> code c = 160"

definition str_trim :: "string \<Rightarrow> string" where
  "str_trim s = rev (dropWhile is_space (rev (dropWhile is_space s)))"

definition str_join :: "string \<Rightarrow> string list \<Rightarrow> string" where
  "str_join sep ss = (case ss of [] \<Rightarrow> [] | x # xs \<Rightarrow> x @ concat (map (\<lambda>y. sep @ y) xs))"

text \<open>\<open>s.split(c)\<close> for a one-character separator.\<close>

fun str_split :: "char \<Rightarrow> string \<Rightarrow> string list" where
  "str_split c [] = [[]]"
| "str_split c (x # xs) =
     (if x = c then [] # str_split c xs
      else (case str_split c xs of [] \<Rightarrow> [[x]] | p # ps \<Rightarrow> (x # p) # ps))"

lemma starts_with_iff: "starts_with k s \<longleftrightarrow> (\<exists>t. s = k @ t)"
  by (induction k s rule: starts_with.induct) auto

lemma str_includes_iff: "str_includes s k \<longleftrightarrow> (\<exists>a b. s = a @ k @ b)"
proof (induction s)
  case Nil
  then show ?case by auto
next
  case (Cons c cs)
  show ?case
  proof
    assume "str_includes (c # cs) k"
    then consider t where "c # cs = k @ t" | a b where "cs = a @ k @ b"
      using Cons.IH by (auto simp: starts_with_iff)
    then show "\<exists>a b. c # cs = a @ k @ b"
    proof cases
      case 1
      then show ?thesis by (metis append_Nil)
    next
      case 2
      then show ?thesis by (metis append_Cons)
    qed
  next
    assume "\<exists>a b. c # cs = a @ k @ b"
    then obtain a b where "c # cs = a @ k @ b" by blast
    then have "starts_with k (c # cs) \<or> (\<exists>a' b'. cs = a' @ k @ b')"
      by (cases a) (auto simp: starts_with_iff)
    then show "str_includes (c # cs) k"
      using Cons.IH by simp
  qed
qed

lemma length_str_slice [simp]: "length (str_slice n s) \<le> n"
  by (simp add: str_slice_def)

lemma length_str_trim_le: "length (str_trim s) \<le> length s"
  by (metis length_dropWhile_le length_rev order_trans str_trim_def)

lemma str_split_nonempty [simp]: "str_split c s \<noteq> []"
  by (induction s) (auto split: list.splits)

lemma str_split_free: "c \<notin> set s \<Longrightarrow> str_split c s = [s]"
  by (induction s) auto

lemma str_split_append_sep:
  "c \<notin> set s \<Longrightarrow> str_split c (s @ c # t) = s # str_split c t"
  by (induction s) auto

text \<open>Concatenation around a separator is injective in the part before it.\<close>

lemma sep_append_inject:
  assumes "c \<notin> set a" and "c \<notin> set b"
  shows "a @ c # x = b @ c # y \<longleftrightarrow> a = b \<and> x = y"
  using assms
proof (induction a arbitrary: b)
  case Nil
  then show ?case by (cases b) auto
next
  case (Cons z zs)
  then show ?case by (cases b) auto
qed

subsection \<open>JSON values\<close>

datatype json =
    JNull
  | JBool bool
  | JNum rat
  | JStr string
  | JArr "json list"
  | JObj "(string \<times> json) list"

text \<open>\<open>o[k]\<close> on the own properties of an object; \<open>None\<close> is \<open>undefined\<close>.\<close>

definition js_get :: "string \<Rightarrow> (string \<times> json) list \<Rightarrow> json option" where
  "js_get k ps = map_of ps k"

definition json_field :: "string \<Rightarrow> json \<Rightarrow> json option" where
  "json_field k j = (case j of JObj ps \<Rightarrow> js_get k ps | _ \<Rightarrow> None)"

definition json_str :: "json option \<Rightarrow> string option" where
  "json_str j = (case j of Some (JStr s) \<Rightarrow> Some s | _ \<Rightarrow> None)"

text \<open>A column or field that is \<open>null\<close> when absent.\<close>

definition str_or_null :: "string option \<Rightarrow> json" where
  "str_or_null s = (case s of Some t \<Rightarrow> JStr t | None \<Rightarrow> JNull)"

subsection \<open>Maps in insertion order\<close>

text \<open>\<open>Map.set\<close>, and setting a property that is not an array index: a known key keeps its place.\<close>

fun map_set :: "'k \<Rightarrow> 'v \<Rightarrow> ('k \<times> 'v) list \<Rightarrow> ('k \<times> 'v) list" where
  "map_set k v [] = [(k, v)]"
| "map_set k v ((k', v') # m) = (if k' = k then (k, v) # m else (k', v') # map_set k v m)"

lemma map_of_map_set: "map_of (map_set k v m) = (map_of m)(k \<mapsto> v)"
  by (induction k v m rule: map_set.induct) (auto simp: fun_eq_iff)

lemma keys_map_set: "map fst (map_set k v m) = (if k \<in> fst ` set m then map fst m else map fst m @ [k])"
  by (induction k v m rule: map_set.induct) auto

lemma length_map_set: "length (map_set k v m) = (if k \<in> fst ` set m then length m else Suc (length m))"
  by (metis keys_map_set length_append_singleton length_map)

end
