(* ===== verification/Config.thy ===== *)
theory Config
  imports Js_Values
begin

section \<open>Configuration (src/config/env.validation.ts)\<close>

text \<open>
  \<open>EnvVars\<close> as a record, the constraints \<open>envSchema\<close> places on a parsed environment
  (\<open>env_valid\<close>), its defaults, and the repository's own transforms: \<open>envBool\<close> and the
  preprocessing of \<open>optionalUrl\<close>. The zod parser itself is not under src/: \<open>validateEnv\<close>
  takes it as a parameter.
\<close>

record EnvVars =
  NODE_ENV :: string
  PORT :: int
  LOG_LEVEL :: string
  POSTGRES_HOST :: string
  POSTGRES_PORT :: int
  POSTGRES_USER :: string
  POSTGRES_PASSWORD :: string
  POSTGRES_DB :: string
  DB_RUN_MIGRATIONS_ON_BOOT :: bool
  REDIS_HOST :: string
  REDIS_PORT :: int
  REDIS_PASSWORD :: "string option"
  PIPELINE_MAX_ATTEMPTS :: int
  PIPELINE_BACKOFF_BASE_MS :: int
  PIPELINE_BACKOFF_MAX_MS :: int
  IDEMPOTENCY_LEASE_MS :: int
  OUTBOX_RELAY_POLL_INTERVAL_MS :: int
  OUTBOX_RELAY_BATCH_SIZE :: int
  OUTBOX_MAX_ATTEMPTS :: int
  OUTBOX_BACKOFF_BASE_MS :: int
  WEBHOOK_TARGET_URL :: string
  MISTRAL_API_KEY :: "string option"
  MISTRAL_MODEL :: string
  MISTRAL_TIMEOUT_MS :: int
  MISTRAL_MAX_RETRIES :: int
  MISTRAL_SERVER_URL :: "string option"
  ENRICHMENT_UPGRADE_MAX_ATTEMPTS :: int
  ENRICHMENT_UPGRADE_BACKOFF_MS :: int
  RECONCILE_SWEEP_INTERVAL_MS :: int
  RECONCILE_DEGRADED_AFTER_MS :: int
  RECONCILE_BATCH_SIZE :: int
  TRUST_PROXY :: bool
  RATE_LIMIT_TTL_MS :: int
  RATE_LIMIT_GLOBAL :: int
  RATE_LIMIT_WRITES :: int
  RETENTION_ENABLED :: bool
  RETENTION_SWEEP_INTERVAL_MS :: int
  RETENTION_MAX_AGE_MS :: int
  CIRCUIT_BREAKER_ERROR_THRESHOLD_PERCENT :: int
  CIRCUIT_BREAKER_VOLUME_THRESHOLD :: int
  CIRCUIT_BREAKER_TIMEOUT_MS :: int
  CIRCUIT_BREAKER_RESET_MS :: int

text \<open>The checks of the schema on the parsed values, in its order.\<close>

definition env_valid :: "EnvVars \<Rightarrow> bool" where
  "env_valid e \<longleftrightarrow>
     NODE_ENV e \<in> {''development'', ''test'', ''production''}
   \<and> 0 < PORT e
   \<and> LOG_LEVEL e \<in> {''trace'', ''debug'', ''info'', ''warn'', ''error'', ''fatal''}
   \<and> POSTGRES_HOST e \<noteq> [] \<and> 0 < POSTGRES_PORT e \<and> POSTGRES_USER e \<noteq> []
   \<and> POSTGRES_PASSWORD e \<noteq> [] \<and> POSTGRES_DB e \<noteq> []
   \<and> REDIS_HOST e \<noteq> [] \<and> 0 < REDIS_PORT e
   \<and> 1 \<le> PIPELINE_MAX_ATTEMPTS e
   \<and> 0 \<le> PIPELINE_BACKOFF_BASE_MS e \<and> 0 \<le> PIPELINE_BACKOFF_MAX_MS e
   \<and> 1000 \<le> IDEMPOTENCY_LEASE_MS e
   \<and> 100 \<le> OUTBOX_RELAY_POLL_INTERVAL_MS e \<and> 1 \<le> OUTBOX_RELAY_BATCH_SIZE e
   \<and> 1 \<le> OUTBOX_MAX_ATTEMPTS e \<and> 0 \<le> OUTBOX_BACKOFF_BASE_MS e
   \<and> MISTRAL_MODEL e \<noteq> [] \<and> 100 \<le> MISTRAL_TIMEOUT_MS e \<and> 0 \<le> MISTRAL_MAX_RETRIES e
   \<and> 0 \<le> ENRICHMENT_UPGRADE_MAX_ATTEMPTS e \<and> 1000 \<le> ENRICHMENT_UPGRADE_BACKOFF_MS e
   \<and> 1000 \<le> RECONCILE_SWEEP_INTERVAL_MS e \<and> 0 \<le> RECONCILE_DEGRADED_AFTER_MS e
   \<and> 1 \<le> RECONCILE_BATCH_SIZE e
   \<and> 1000 \<le> RATE_LIMIT_TTL_MS e \<and> 1 \<le> RATE_LIMIT_GLOBAL e \<and> 1 \<le> RATE_LIMIT_WRITES e
   \<and> 60000 \<le> RETENTION_SWEEP_INTERVAL_MS e \<and> 60000 \<le> RETENTION_MAX_AGE_MS e
   \<and> 1 \<le> CIRCUIT_BREAKER_ERROR_THRESHOLD_PERCENT e
   \<and> CIRCUIT_BREAKER_ERROR_THRESHOLD_PERCENT e \<le> 100
   \<and> 1 \<le> CIRCUIT_BREAKER_VOLUME_THRESHOLD e
   \<and> 100 \<le> CIRCUIT_BREAKER_TIMEOUT_MS e \<and> 1000 \<le> CIRCUIT_BREAKER_RESET_MS e"

text \<open>The value of every \<open>.default(...)\<close>: the environment parsed from no variables at all.\<close>

definition env_defaults :: EnvVars where
  "env_defaults = \<lparr>
     NODE_ENV = ''development'', PORT = 3000, LOG_LEVEL = ''info'',
     POSTGRES_HOST = ''localhost'', POSTGRES_PORT = 5432, POSTGRES_USER = ''triage'',
     POSTGRES_PASSWORD = ''triage'', POSTGRES_DB = ''triage'',
     DB_RUN_MIGRATIONS_ON_BOOT = False,
     REDIS_HOST = ''localhost'', REDIS_PORT = 6379, REDIS_PASSWORD = None,
     PIPELINE_MAX_ATTEMPTS = 5, PIPELINE_BACKOFF_BASE_MS = 2000,
     PIPELINE_BACKOFF_MAX_MS = 60000,
     IDEMPOTENCY_LEASE_MS = 300000,
     OUTBOX_RELAY_POLL_INTERVAL_MS = 1000, OUTBOX_RELAY_BATCH_SIZE = 20,
     OUTBOX_MAX_ATTEMPTS = 10, OUTBOX_BACKOFF_BASE_MS = 2000,
     WEBHOOK_TARGET_URL = ''http://localhost:3000/_sink/webhook'',
     MISTRAL_API_KEY = None, MISTRAL_MODEL = ''mistral-small-latest'',
     MISTRAL_TIMEOUT_MS = 10000, MISTRAL_MAX_RETRIES = 2, MISTRAL_SERVER_URL = None,
     ENRICHMENT_UPGRADE_MAX_ATTEMPTS = 5, ENRICHMENT_UPGRADE_BACKOFF_MS = 30000,
     RECONCILE_SWEEP_INTERVAL_MS = 60000, RECONCILE_DEGRADED_AFTER_MS = 300000,
     RECONCILE_BATCH_SIZE = 50,
     TRUST_PROXY = False,
     RATE_LIMIT_TTL_MS = 60000, RATE_LIMIT_GLOBAL = 120, RATE_LIMIT_WRITES = 20,
     RETENTION_ENABLED = False, RETENTION_SWEEP_INTERVAL_MS = 3600000,
     RETENTION_MAX_AGE_MS = 604800000,
     CIRCUIT_BREAKER_ERROR_THRESHOLD_PERCENT = 50, CIRCUIT_BREAKER_VOLUME_THRESHOLD = 5,
     CIRCUIT_BREAKER_TIMEOUT_MS = 12000, CIRCUIT_BREAKER_RESET_MS = 30000\<rparr>"

text \<open>
  \<open>envBool(d)\<close>: the enum rejects any other string (\<open>None\<close>); \<open>None\<close> as the input is an
  unset variable.
\<close>

definition envBool :: "bool \<Rightarrow> string option \<Rightarrow> bool option" where
  "envBool d v = (case v of
       None \<Rightarrow> Some d
     | Some s \<Rightarrow>
         if s \<in> {''true'', ''false'', ''1'', ''0'', ''''} then
           (if s = '''' then Some d else Some (s = ''true'' \<or> s = ''1''))
         else None)"

definition optionalUrl_pre :: "string option \<Rightarrow> string option" where
  "optionalUrl_pre v = (if v = Some '''' then None else v)"

text \<open>\<open>validateEnv\<close>, over the parser's result: the issues, or the parsed environment.\<close>

type_synonym zod_issue = "string list \<times> string"

definition issue_line :: "zod_issue \<Rightarrow> string" where
  "issue_line i =
     ''  - '' @ (let p = str_join ''.'' (fst i) in if p = [] then ''(root)'' else p)
     @ '': '' @ snd i"

definition validateEnv ::
  "('c \<Rightarrow> zod_issue list + EnvVars) \<Rightarrow> 'c \<Rightarrow> exn + EnvVars" where
  "validateEnv safeParse config = (case safeParse config of
       Inl issues \<Rightarrow>
         Inl (JsError (''Invalid environment configuration:'' @ [CHR 0x0A]
                @ str_join [CHR 0x0A] (map issue_line issues)))
     | Inr env \<Rightarrow> Inr env)"

lemma env_defaults_valid: "env_valid env_defaults"
  by (simp add: env_valid_def env_defaults_def)

lemma env_validD:
  assumes "env_valid e"
  shows "1 \<le> PIPELINE_MAX_ATTEMPTS e" "1000 \<le> IDEMPOTENCY_LEASE_MS e"
    "1 \<le> OUTBOX_RELAY_BATCH_SIZE e" "1 \<le> OUTBOX_MAX_ATTEMPTS e" "0 \<le> OUTBOX_BACKOFF_BASE_MS e"
    "0 \<le> MISTRAL_MAX_RETRIES e" "0 \<le> ENRICHMENT_UPGRADE_MAX_ATTEMPTS e"
    "1000 \<le> ENRICHMENT_UPGRADE_BACKOFF_MS e" "1000 \<le> RECONCILE_SWEEP_INTERVAL_MS e"
    "0 \<le> RECONCILE_DEGRADED_AFTER_MS e" "1 \<le> RECONCILE_BATCH_SIZE e"
    "60000 \<le> RETENTION_MAX_AGE_MS e" "100 \<le> OUTBOX_RELAY_POLL_INTERVAL_MS e"
  using assms by (simp_all add: env_valid_def)

end
