(* ===== verification/Entities.thy ===== *)
theory Entities
  imports Js_Values
begin

section \<open>Entities and schema\<close>

text \<open>
  The five tables of the database: the enums of src/tickets/ticket.enums.ts,
  src/idempotency/idempotency.enums.ts and the entity files, one record per entity class,
  and the constraints of src/migrations/1700000000000-InitialSchema.ts.

  A table is the list of its rows in the order they were inserted. \<open>schema_ok\<close> says that a
  database satisfies every PRIMARY KEY, UNIQUE and FOREIGN KEY of the migration; the \<open>insert\<close>
  and \<open>delete\<close> statements check them as Postgres does and answer the driver's error.
\<close>

subsection \<open>Enums\<close>

datatype TicketCategory = BILLING | TECHNICAL | ACCOUNT | FEATURE_REQUEST | COMPLAINT | OTHER

datatype TicketPriority = LOW | MEDIUM | HIGH | URGENT

datatype EnrichmentStatus = ES_PENDING | ES_ENRICHED | ES_DEGRADED | ES_FAILED

datatype EnrichmentSource = ES_AI | ES_FALLBACK

datatype IdempotencyStatus = IK_PENDING | IK_COMPLETED | IK_FAILED

datatype OutboxStatus = OB_PENDING | OB_SENT | OB_FAILED

datatype DeadLetterStatus = DL_PENDING | DL_REPLAYED

text \<open>The string values of the two enums the classifier speaks.\<close>

fun category_name :: "TicketCategory \<Rightarrow> string" where
  "category_name BILLING = ''BILLING''"
| "category_name TECHNICAL = ''TECHNICAL''"
| "category_name ACCOUNT = ''ACCOUNT''"
| "category_name FEATURE_REQUEST = ''FEATURE_REQUEST''"
| "category_name COMPLAINT = ''COMPLAINT''"
| "category_name OTHER = ''OTHER''"

fun priority_name :: "TicketPriority \<Rightarrow> string" where
  "priority_name LOW = ''LOW''"
| "priority_name MEDIUM = ''MEDIUM''"
| "priority_name HIGH = ''HIGH''"
| "priority_name URGENT = ''URGENT''"

fun source_name :: "EnrichmentSource \<Rightarrow> string" where
  "source_name ES_AI = ''AI''"
| "source_name ES_FALLBACK = ''FALLBACK''"

definition all_categories :: "TicketCategory list" where
  "all_categories = [BILLING, TECHNICAL, ACCOUNT, FEATURE_REQUEST, COMPLAINT, OTHER]"

definition all_priorities :: "TicketPriority list" where
  "all_priorities = [LOW, MEDIUM, HIGH, URGENT]"

lemma set_all_categories [simp]: "c \<in> set all_categories"
  by (cases c) (simp_all add: all_categories_def)

lemma set_all_priorities [simp]: "p \<in> set all_priorities"
  by (cases p) (simp_all add: all_priorities_def)

lemma category_name_inject [simp]: "category_name a = category_name b \<longleftrightarrow> a = b"
  by (cases a; cases b) simp_all

lemma priority_name_inject [simp]: "priority_name a = priority_name b \<longleftrightarrow> a = b"
  by (cases a; cases b) simp_all

text \<open>
  The order of a ticket's life: submitted, triaged without the model (or left failed), triaged by it.
\<close>

definition status_rank :: "EnrichmentStatus \<Rightarrow> nat" where
  "status_rank st = (case st of ES_PENDING \<Rightarrow> 0 | ES_FAILED \<Rightarrow> 1 | ES_DEGRADED \<Rightarrow> 2 | ES_ENRICHED \<Rightarrow> 3)"

lemma status_rank_inject: "status_rank a = status_rank b \<longleftrightarrow> a = b"
  by (cases a; cases b) (simp_all add: status_rank_def)

instantiation EnrichmentStatus :: linorder
begin

definition less_eq_EnrichmentStatus :: "EnrichmentStatus \<Rightarrow> EnrichmentStatus \<Rightarrow> bool" where
  "less_eq_EnrichmentStatus a b \<longleftrightarrow> status_rank a \<le> status_rank b"

definition less_EnrichmentStatus :: "EnrichmentStatus \<Rightarrow> EnrichmentStatus \<Rightarrow> bool" where
  "less_EnrichmentStatus a b \<longleftrightarrow> status_rank a < status_rank b"

instance
  by standard (auto simp: less_eq_EnrichmentStatus_def less_EnrichmentStatus_def status_rank_inject [symmetric])

end

lemma status_order [simp]:
  "ES_PENDING \<le> st" "st \<le> ES_ENRICHED" "st \<le> ES_PENDING \<longleftrightarrow> st = ES_PENDING"
  "ES_ENRICHED \<le> st \<longleftrightarrow> st = ES_ENRICHED" "ES_DEGRADED \<le> st \<longleftrightarrow> st = ES_DEGRADED \<or> st = ES_ENRICHED"
  "st \<le> ES_DEGRADED \<longleftrightarrow> st \<noteq> ES_ENRICHED"
  by (cases st; simp add: less_eq_EnrichmentStatus_def status_rank_def)+

subsection \<open>Rows\<close>

record event_row =
  ev_id :: uuid
  ev_idempotencyKey :: string
  ev_payload :: json
  ev_source :: "string option"
  ev_receivedAt :: timestamp

record ticket_row =
  tk_id :: uuid
  tk_eventId :: uuid
  tk_subject :: string
  tk_body :: string
  tk_requesterEmail :: "string option"
  tk_enrichmentStatus :: EnrichmentStatus
  tk_category :: "TicketCategory option"
  tk_priority :: "TicketPriority option"
  tk_summary :: "string option"
  tk_confidence :: "rat option"
  tk_enrichmentSource :: "EnrichmentSource option"
  tk_enrichmentAttempts :: int
  tk_enrichedAt :: "timestamp option"
  tk_createdAt :: timestamp
  tk_updatedAt :: timestamp

record idem_row =
  ik_id :: uuid
  ik_key :: string
  ik_requestHash :: string
  ik_status :: IdempotencyStatus
  ik_ticketId :: "uuid option"
  ik_responseCode :: "int option"
  ik_responseBody :: "json option"
  ik_lockedAt :: "timestamp option"
  ik_createdAt :: timestamp
  ik_updatedAt :: timestamp

record outbox_row =
  ob_id :: uuid
  ob_aggregateType :: string
  ob_aggregateId :: uuid
  ob_eventType :: string
  ob_payload :: json
  ob_status :: OutboxStatus
  ob_attempts :: int
  ob_nextAttemptAt :: timestamp
  ob_lastError :: "string option"
  ob_dedupKey :: string
  ob_createdAt :: timestamp
  ob_dispatchedAt :: "timestamp option"

record dead_letter_row =
  dl_id :: uuid
  dl_queue :: string
  dl_jobId :: string
  dl_idempotencyKey :: string
  dl_payload :: json
  dl_errorMessage :: string
  dl_errorStack :: "string option"
  dl_attemptsMade :: int
  dl_status :: DeadLetterStatus
  dl_failedAt :: timestamp
  dl_replayedAt :: "timestamp option"
  dl_createdAt :: timestamp

record db =
  events :: "event_row list"
  tickets :: "ticket_row list"
  idempotency_keys :: "idem_row list"
  outbox_messages :: "outbox_row list"
  dead_letters :: "dead_letter_row list"

definition empty_db :: db where
  "empty_db = \<lparr>events = [], tickets = [], idempotency_keys = [], outbox_messages = [],
     dead_letters = []\<rparr>"

subsection \<open>The constraints of the migration\<close>

definition tickets_fk_ok :: "db \<Rightarrow> bool" where
  "tickets_fk_ok d \<longleftrightarrow> (\<forall>t \<in> set (tickets d). tk_eventId t \<in> values_of ev_id (events d))"

definition idem_fk_ok :: "db \<Rightarrow> bool" where
  "idem_fk_ok d \<longleftrightarrow> (\<forall>k \<in> set (idempotency_keys d). \<forall>t. ik_ticketId k = Some t \<longrightarrow>
     t \<in> values_of tk_id (tickets d))"

definition schema_ok :: "db \<Rightarrow> bool" where
  "schema_ok d \<longleftrightarrow>
     unique_by ev_id (events d)
   \<and> unique_by tk_id (tickets d) \<and> tickets_fk_ok d
   \<and> unique_by ik_id (idempotency_keys d) \<and> unique_by ik_key (idempotency_keys d)
   \<and> idem_fk_ok d
   \<and> unique_by ob_id (outbox_messages d) \<and> unique_by ob_dedupKey (outbox_messages d)
   \<and> unique_by dl_id (dead_letters d)"

text \<open>INSERT statements. \<open>None\<close> of an ignored insert is \<open>ON CONFLICT DO NOTHING\<close>.\<close>

definition insert_event :: "event_row \<Rightarrow> db \<Rightarrow> exn + db" where
  "insert_event r d =
     (if ev_id r \<in> values_of ev_id (events d) then Inl (UniqueViolation ''events_pkey'')
      else Inr (d\<lparr>events := events d @ [r]\<rparr>))"

definition insert_ticket :: "ticket_row \<Rightarrow> db \<Rightarrow> exn + db" where
  "insert_ticket r d =
     (if tk_id r \<in> values_of tk_id (tickets d) then Inl (UniqueViolation ''tickets_pkey'')
      else if tk_eventId r \<notin> values_of ev_id (events d)
        then Inl (ForeignKeyViolation ''fk_tickets_event'')
      else Inr (d\<lparr>tickets := tickets d @ [r]\<rparr>))"

definition insert_dead_letter :: "dead_letter_row \<Rightarrow> db \<Rightarrow> exn + db" where
  "insert_dead_letter r d =
     (if dl_id r \<in> values_of dl_id (dead_letters d)
      then Inl (UniqueViolation ''dead_letters_pkey'')
      else Inr (d\<lparr>dead_letters := dead_letters d @ [r]\<rparr>))"

text \<open>
  DELETE statements that a foreign key watches: \<open>ON DELETE RESTRICT\<close> of \<open>tickets.event_id\<close>,
  \<open>ON DELETE SET NULL\<close> of \<open>idempotency_keys.ticket_id\<close>.
\<close>

definition delete_events :: "(event_row \<Rightarrow> bool) \<Rightarrow> db \<Rightarrow> exn + (nat \<times> db)" where
  "delete_events p d =
     (if \<exists>e \<in> set (events d). p e \<and> ev_id e \<in> values_of tk_eventId (tickets d)
      then Inl (ForeignKeyViolation ''fk_tickets_event'')
      else Inr (affected p (events d), d\<lparr>events := delete_where p (events d)\<rparr>))"

definition delete_tickets :: "(ticket_row \<Rightarrow> bool) \<Rightarrow> db \<Rightarrow> nat \<times> db" where
  "delete_tickets p d =
     (let gone = values_of tk_id (filter p (tickets d)) in
      (affected p (tickets d),
       d\<lparr>tickets := delete_where p (tickets d),
         idempotency_keys := update_where
           (\<lambda>k. case ik_ticketId k of Some t \<Rightarrow> t \<in> gone | None \<Rightarrow> False)
           (\<lambda>k. k\<lparr>ik_ticketId := None\<rparr>) (idempotency_keys d)\<rparr>))"

lemma schema_ok_empty: "schema_ok empty_db"
  by (simp add: schema_ok_def empty_db_def tickets_fk_ok_def idem_fk_ok_def)

text \<open>Each statement keeps the constraints, whatever the row.\<close>

lemma insert_event_schema_ok:
  assumes "schema_ok d" and "insert_event r d = Inr d'"
  shows "schema_ok d'"
  using assms
  by (auto simp: insert_event_def schema_ok_def tickets_fk_ok_def idem_fk_ok_def split: if_splits)

lemma insert_ticket_schema_ok:
  assumes "schema_ok d" and "insert_ticket r d = Inr d'"
  shows "schema_ok d'"
  using assms
  by (fastforce simp: insert_ticket_def schema_ok_def tickets_fk_ok_def idem_fk_ok_def
      split: if_splits)

lemma insert_dead_letter_schema_ok:
  assumes "schema_ok d" and "insert_dead_letter r d = Inr d'"
  shows "schema_ok d'"
  using assms
  by (auto simp: insert_dead_letter_def schema_ok_def tickets_fk_ok_def idem_fk_ok_def
      split: if_splits)

lemma delete_events_schema_ok:
  assumes "schema_ok d" and "delete_events p d = Inr (n, d')"
  shows "schema_ok d'"
proof -
  from assms(2) have free: "\<forall>e \<in> set (events d). p e \<longrightarrow> ev_id e \<notin> values_of tk_eventId (tickets d)"
    and d': "d' = d\<lparr>events := delete_where p (events d)\<rparr>"
    by (auto simp: delete_events_def split: if_splits)
  have "tickets_fk_ok d'"
    unfolding tickets_fk_ok_def
  proof
    fix t assume t: "t \<in> set (tickets d')"
    then have "t \<in> set (tickets d)" by (simp add: d')
    moreover from this assms(1) obtain e where "e \<in> set (events d)" "ev_id e = tk_eventId t"
      by (force simp: schema_ok_def tickets_fk_ok_def values_of_def)
    ultimately have "e \<in> set (events d')"
      using free by (force simp: d' values_of_def)
    with \<open>ev_id e = tk_eventId t\<close> show "tk_eventId t \<in> values_of ev_id (events d')"
      by (force simp: values_of_def)
  qed
  with assms(1) show ?thesis
    by (simp add: schema_ok_def idem_fk_ok_def d' unique_by_delete_where)
qed

lemma delete_tickets_schema_ok:
  assumes "schema_ok d"
  shows "schema_ok (snd (delete_tickets p d))"
proof -
  let ?d = "snd (delete_tickets p d)"
  have "idem_fk_ok ?d"
    using assms
    by (fastforce simp: delete_tickets_def Let_def schema_ok_def idem_fk_ok_def
        set_update_where values_of_def split: option.splits)
  moreover have "tickets_fk_ok ?d"
    using assms by (auto simp: delete_tickets_def Let_def schema_ok_def tickets_fk_ok_def)
  ultimately show ?thesis
    using assms
    by (simp add: delete_tickets_def Let_def schema_ok_def unique_by_delete_where
        unique_by_update_where)
qed

lemmas schema_ok_statements [wf_intros] =
  insert_event_schema_ok insert_ticket_schema_ok insert_dead_letter_schema_ok
  delete_events_schema_ok delete_tickets_schema_ok

end
