(* ===== verification/Idempotency.thy ===== *)
theory Idempotency
  imports Config Entities
begin

section \<open>The idempotency ledger (src/idempotency/idempotency.service.ts)\<close>

text \<open>
  \<open>claim\<close> is three SQL statements, each atomic on its own: the insert that may win the key,
  the read of the row that beat it, and the conditional update that reclaims an abandoned one.
  They are separate definitions here, so that \<open>claim\<close> is their composition and
  \<open>claim_step\<close> runs one of them at a time for concurrent claimers. \<open>now()\<close> is an argument of
  each statement. An update through TypeORM also sets \<open>updated_at\<close> (\<open>@UpdateDateColumn\<close>).
\<close>

datatype claim_result =
    CR_NEW
  | CR_REPLAY idem_row
  | CR_IN_FLIGHT idem_row
  | CR_CONFLICT idem_row

definition new_idem_row :: "uuid \<Rightarrow> timestamp \<Rightarrow> string \<Rightarrow> string \<Rightarrow> idem_row" where
  "new_idem_row nid now key h = \<lparr>ik_id = nid, ik_key = key, ik_requestHash = h,
     ik_status = IK_PENDING, ik_ticketId = None, ik_responseCode = None,
     ik_responseBody = None, ik_lockedAt = Some now, ik_createdAt = now, ik_updatedAt = now\<rparr>"

text \<open>Statement 1: \<open>INSERT ... ON CONFLICT DO NOTHING RETURNING id\<close>; whether a row came back.\<close>

definition claim_insert ::
  "uuid \<Rightarrow> timestamp \<Rightarrow> string \<Rightarrow> string \<Rightarrow> db \<Rightarrow> bool \<times> db" where
  "claim_insert nid now key h d =
     (if nid \<in> values_of ik_id (idempotency_keys d) \<or> key \<in> values_of ik_key (idempotency_keys d)
      then (False, d)
      else (True, d\<lparr>idempotency_keys := idempotency_keys d @ [new_idem_row nid now key h]\<rparr>))"

text \<open>Statement 2: \<open>findOneByOrFail\<close>, and what the row alone decides.\<close>

definition claim_read :: "string \<Rightarrow> db \<Rightarrow> exn + idem_row" where
  "claim_read key d = (case row_with ik_key key (idempotency_keys d) of
       None \<Rightarrow> Inl (EntityNotFoundError ''IdempotencyKeyEntity'')
     | Some r \<Rightarrow> Inr r)"

definition claim_decide :: "string \<Rightarrow> idem_row \<Rightarrow> claim_result option" where
  "claim_decide h existing =
     (if ik_requestHash existing \<noteq> h then Some (CR_CONFLICT existing)
      else if ik_status existing = IK_COMPLETED then Some (CR_REPLAY existing)
      else None)"

text \<open>Statement 3: the conditional update, with the number of rows it affected.\<close>

definition reclaimable :: "int \<Rightarrow> timestamp \<Rightarrow> idem_row \<Rightarrow> bool" where
  "reclaimable lease now r \<longleftrightarrow>
     ik_status r = IK_FAILED
   \<or> (ik_status r = IK_PENDING
      \<and> (case ik_lockedAt r of None \<Rightarrow> True | Some l \<Rightarrow> l < now - interval_ms lease))"

definition claim_reclaim :: "int \<Rightarrow> timestamp \<Rightarrow> string \<Rightarrow> db \<Rightarrow> nat \<times> db" where
  "claim_reclaim lease now key d =
     (let p = (\<lambda>r. ik_key r = key \<and> reclaimable lease now r) in
      (affected p (idempotency_keys d),
       d\<lparr>idempotency_keys := update_where p
           (\<lambda>r. r\<lparr>ik_status := IK_PENDING, ik_lockedAt := Some now, ik_updatedAt := now\<rparr>)
           (idempotency_keys d)\<rparr>))"

definition claim ::
  "EnvVars \<Rightarrow> uuid \<Rightarrow> timestamp \<Rightarrow> timestamp \<Rightarrow> string \<Rightarrow> string \<Rightarrow> db \<Rightarrow>
   (exn + claim_result) \<times> db" where
  "claim env nid t1 t3 key h d =
     (case claim_insert nid t1 key h d of
        (True, d1) \<Rightarrow> (Inr CR_NEW, d1)
      | (False, d1) \<Rightarrow>
          (case claim_read key d1 of
             Inl e \<Rightarrow> (Inl e, d1)
           | Inr existing \<Rightarrow>
               (case claim_decide h existing of
                  Some res \<Rightarrow> (Inr res, d1)
                | None \<Rightarrow>
                    (case claim_reclaim (IDEMPOTENCY_LEASE_MS env) t3 key d1 of
                       (n, d2) \<Rightarrow>
                         if 0 < n then (Inr CR_NEW, d2)
                         else (Inr (CR_IN_FLIGHT existing), d2)))))"

text \<open>\<open>SELECT ... FOR UPDATE\<close> inside the ingestion transaction.\<close>

definition vanished_msg :: "string \<Rightarrow> string" where
  "vanished_msg key = ''idempotency row vanished for key '' @ key"

definition lockForUpdate :: "string \<Rightarrow> db \<Rightarrow> exn + idem_row" where
  "lockForUpdate key d = (case filter (\<lambda>r. ik_key r = key) (idempotency_keys d) of
       [] \<Rightarrow> Inl (JsError (vanished_msg key))
     | r # _ \<Rightarrow> Inr r)"

definition attachTicket :: "timestamp \<Rightarrow> string \<Rightarrow> uuid \<Rightarrow> db \<Rightarrow> db" where
  "attachTicket now key ticketId d = d\<lparr>idempotency_keys :=
     update_where (\<lambda>r. ik_key r = key)
       (\<lambda>r. r\<lparr>ik_ticketId := Some ticketId, ik_updatedAt := now\<rparr>) (idempotency_keys d)\<rparr>"

definition markCompleted ::
  "timestamp \<Rightarrow> string \<Rightarrow> uuid \<Rightarrow> int \<Rightarrow> json \<Rightarrow> db \<Rightarrow> db" where
  "markCompleted now key ticketId responseCode responseBody d = d\<lparr>idempotency_keys :=
     update_where (\<lambda>r. ik_key r = key)
       (\<lambda>r. r\<lparr>ik_status := IK_COMPLETED, ik_ticketId := Some ticketId,
             ik_responseCode := Some responseCode, ik_responseBody := Some responseBody,
             ik_lockedAt := None, ik_updatedAt := now\<rparr>) (idempotency_keys d)\<rparr>"

definition markFailed :: "timestamp \<Rightarrow> string \<Rightarrow> db \<Rightarrow> db" where
  "markFailed now key d = d\<lparr>idempotency_keys :=
     update_where (\<lambda>r. ik_key r = key)
       (\<lambda>r. r\<lparr>ik_status := IK_FAILED, ik_lockedAt := None, ik_updatedAt := now\<rparr>)
       (idempotency_keys d)\<rparr>"

lemmas idem_op_defs [step_defs] =
  claim_insert_def claim_reclaim_def attachTicket_def markCompleted_def markFailed_def

subsection \<open>Frames: the ledger's operations touch no other table\<close>

lemma claim_insert_frame:
  assumes "claim_insert nid t key h d = (b, d')"
  shows "events d' = events d" "tickets d' = tickets d" "outbox_messages d' = outbox_messages d"
    "dead_letters d' = dead_letters d"
  using assms by (auto simp: claim_insert_def split: if_splits)

lemma claim_reclaim_frame:
  assumes "claim_reclaim l t key d = (n, d')"
  shows "events d' = events d" "tickets d' = tickets d" "outbox_messages d' = outbox_messages d"
    "dead_letters d' = dead_letters d"
  using assms by (auto simp: claim_reclaim_def Let_def)

lemma mark_frames [simp]:
  "events (attachTicket t key i d) = events d" "tickets (attachTicket t key i d) = tickets d"
  "outbox_messages (attachTicket t key i d) = outbox_messages d"
  "dead_letters (attachTicket t key i d) = dead_letters d"
  "events (markCompleted t key i c b d) = events d" "tickets (markCompleted t key i c b d) = tickets d"
  "outbox_messages (markCompleted t key i c b d) = outbox_messages d"
  "dead_letters (markCompleted t key i c b d) = dead_letters d"
  "events (markFailed t key d) = events d" "tickets (markFailed t key d) = tickets d"
  "outbox_messages (markFailed t key d) = outbox_messages d"
  "dead_letters (markFailed t key d) = dead_letters d"
  by (simp_all add: attachTicket_def markCompleted_def markFailed_def)

lemma claim_frame:
  assumes "claim env nid t1 t3 key h d = (res, d')"
  shows "events d' = events d \<and> tickets d' = tickets d \<and> outbox_messages d' = outbox_messages d
    \<and> dead_letters d' = dead_letters d"
  using assms
  by (auto simp: claim_def claim_insert_frame claim_reclaim_frame split: prod.splits bool.splits sum.splits option.splits if_splits)

subsection \<open>What each operation does to the row of a key\<close>

abbreviation key_row :: "string \<Rightarrow> db \<Rightarrow> idem_row option" where
  "key_row k d \<equiv> row_with ik_key k (idempotency_keys d)"

lemma claim_insert_cases:
  "claim_insert nid t key h d =
     (if nid \<in> values_of ik_id (idempotency_keys d) \<or> key_row key d \<noteq> None then (False, d)
      else (True, d\<lparr>idempotency_keys := idempotency_keys d @ [new_idem_row nid t key h]\<rparr>))"
  by (simp add: claim_insert_def row_with_None_iff)

lemma new_idem_row_simps [simp]:
  "ik_id (new_idem_row nid t key h) = nid" "ik_key (new_idem_row nid t key h) = key"
  "ik_requestHash (new_idem_row nid t key h) = h"
  "ik_status (new_idem_row nid t key h) = IK_PENDING"
  "ik_lockedAt (new_idem_row nid t key h) = Some t"
  "ik_ticketId (new_idem_row nid t key h) = None"
  by (simp_all add: new_idem_row_def)

lemma key_row_reclaim:
  assumes "claim_reclaim lease t key d = (n, d')"
  shows "key_row k d' = map_option (\<lambda>r. if k = key \<and> reclaimable lease t r
     then r\<lparr>ik_status := IK_PENDING, ik_lockedAt := Some t, ik_updatedAt := t\<rparr> else r) (key_row k d)"
proof -
  have "idempotency_keys d' = update_where (\<lambda>r. ik_key r = key \<and> reclaimable lease t r)
       (\<lambda>r. r\<lparr>ik_status := IK_PENDING, ik_lockedAt := Some t, ik_updatedAt := t\<rparr>)
       (idempotency_keys d)"
    using assms by (auto simp: claim_reclaim_def Let_def)
  then show ?thesis
    by (auto simp: row_with_update_where map_option_case split: option.splits
        dest!: row_with_SomeD)
qed

lemma claim_reclaim_count:
  assumes "unique_by ik_key (idempotency_keys d)" and "claim_reclaim lease t key d = (n, d')"
  shows "0 < n \<longleftrightarrow> (\<exists>r. key_row key d = Some r \<and> reclaimable lease t r)"
  using assms affected_unique [of ik_key "idempotency_keys d" key "reclaimable lease t"]
  by (auto simp: claim_reclaim_def Let_def split: option.splits if_splits)

lemma key_row_attach:
  "key_row k (attachTicket t key i d) =
     map_option (\<lambda>r. if k = key then r\<lparr>ik_ticketId := Some i, ik_updatedAt := t\<rparr> else r)
       (key_row k d)"
  by (auto simp: attachTicket_def row_with_update_where map_option_case split: option.splits
      dest!: row_with_SomeD)

lemma key_row_completed:
  "key_row k (markCompleted t key i c b d) =
     map_option (\<lambda>r. if k = key then r\<lparr>ik_status := IK_COMPLETED, ik_ticketId := Some i,
             ik_responseCode := Some c, ik_responseBody := Some b, ik_lockedAt := None,
             ik_updatedAt := t\<rparr> else r)
       (key_row k d)"
  by (auto simp: markCompleted_def row_with_update_where map_option_case split: option.splits
      dest!: row_with_SomeD)

lemma key_row_failed:
  "key_row k (markFailed t key d) =
     map_option (\<lambda>r. if k = key then r\<lparr>ik_status := IK_FAILED, ik_lockedAt := None,
             ik_updatedAt := t\<rparr> else r)
       (key_row k d)"
  by (auto simp: markFailed_def row_with_update_where map_option_case split: option.splits
      dest!: row_with_SomeD)

lemmas key_rows = key_row_attach key_row_completed key_row_failed

lemma lockForUpdate_key_row:
  "lockForUpdate key d = (case key_row key d of
      None \<Rightarrow> Inl (JsError (vanished_msg key)) | Some r \<Rightarrow> Inr r)"
proof -
  have find: "row_with ik_key key rs = (case filter (\<lambda>r. ik_key r = key) rs of [] \<Rightarrow> None | r # _ \<Rightarrow> Some r)"
    for rs by (induction rs) auto
  show ?thesis by (simp add: lockForUpdate_def find split: list.splits)
qed

subsection \<open>Schema constraints\<close>

lemma schema_ok_idem_update:
  assumes "schema_ok d"
    and "\<And>r. r \<in> set (idempotency_keys d) \<Longrightarrow> p r \<Longrightarrow>
      ik_id (f r) = ik_id r \<and> ik_key (f r) = ik_key r"
    and "\<And>r t. r \<in> set (idempotency_keys d) \<Longrightarrow> p r \<Longrightarrow> ik_ticketId (f r) = Some t \<Longrightarrow>
      t \<in> values_of tk_id (tickets d)"
  shows "schema_ok (d\<lparr>idempotency_keys := update_where p f (idempotency_keys d)\<rparr>)"
  using assms
  by (auto simp: schema_ok_def tickets_fk_ok_def idem_fk_ok_def unique_by_update_where
      set_update_where)

lemma claim_insert_schema_ok:
  assumes "schema_ok d" and "claim_insert nid t key h d = (b, d')"
  shows "schema_ok d'"
  using assms
  by (auto simp: claim_insert_def schema_ok_def tickets_fk_ok_def idem_fk_ok_def split: if_splits)

lemma claim_reclaim_schema_ok:
  assumes "schema_ok d" and "claim_reclaim lease t key d = (n, d')"
  shows "schema_ok d'"
proof -
  have "schema_ok (d\<lparr>idempotency_keys := update_where
     (\<lambda>r. ik_key r = key \<and> reclaimable lease t r)
     (\<lambda>r. r\<lparr>ik_status := IK_PENDING, ik_lockedAt := Some t, ik_updatedAt := t\<rparr>)
     (idempotency_keys d)\<rparr>)"
    using assms(1) by (intro schema_ok_idem_update) (auto simp: schema_ok_def idem_fk_ok_def)
  with assms(2) show ?thesis by (auto simp: claim_reclaim_def Let_def)
qed

lemma attachTicket_schema_ok:
  assumes "schema_ok d" and "i \<in> values_of tk_id (tickets d)"
  shows "schema_ok (attachTicket t key i d)"
  unfolding attachTicket_def using assms by (intro schema_ok_idem_update) auto

lemma markCompleted_schema_ok:
  assumes "schema_ok d" and "i \<in> values_of tk_id (tickets d)"
  shows "schema_ok (markCompleted t key i c b d)"
  unfolding markCompleted_def using assms by (intro schema_ok_idem_update) auto

lemma markFailed_schema_ok:
  assumes "schema_ok d"
  shows "schema_ok (markFailed t key d)"
  unfolding markFailed_def using assms
  by (intro schema_ok_idem_update) (auto simp: schema_ok_def idem_fk_ok_def)

lemmas idem_schema_ok [wf_intros] =
  claim_insert_schema_ok claim_reclaim_schema_ok attachTicket_schema_ok markCompleted_schema_ok
  markFailed_schema_ok

lemma claim_schema_ok:
  assumes "schema_ok d" and "claim env nid t1 t3 key h d = (res, d')"
  shows "schema_ok d'"
  using assms
  by (auto simp: claim_def split: prod.splits bool.splits sum.splits option.splits if_splits
      intro: claim_insert_schema_ok claim_reclaim_schema_ok)

end
