(* ===== verification/Claim_Race.thy ===== *)
theory Claim_Race
  imports Idempotency
begin

section \<open>Claiming a key: the four outcomes, and the race\<close>

text \<open>
  \<open>claim\<close> as a function of the key's row, then any number of concurrent claimers. A claimer
  runs one SQL statement at a time (\<open>claim_step\<close>); between two statements of one claimer the
  others run theirs, the winner attaches its ticket or completes the key, and the rest of the
  database changes arbitrarily. The race is over a window no longer than the lease.
\<close>

subsection \<open>The outcomes of one claim\<close>

text \<open>The documented decision table, on the row the key has.\<close>

definition claim_outcome ::
  "int \<Rightarrow> timestamp \<Rightarrow> string \<Rightarrow> idem_row option \<Rightarrow> claim_result" where
  "claim_outcome lease now h r = (case r of
       None \<Rightarrow> CR_NEW
     | Some x \<Rightarrow>
         if ik_requestHash x \<noteq> h then CR_CONFLICT x
         else if ik_status x = IK_COMPLETED then CR_REPLAY x
         else if reclaimable lease now x then CR_NEW
         else CR_IN_FLIGHT x)"

lemma claim_decides_aux:
  assumes "schema_ok d" and "nid \<notin> values_of ik_id (idempotency_keys d)"
    and "claim env nid t1 t3 key h d = (res, d')"
  shows "res = Inr (claim_outcome (IDEMPOTENCY_LEASE_MS env) t3 h (key_row key d))
    \<and> (\<forall>k. k \<noteq> key \<longrightarrow> key_row k d' = key_row k d)
    \<and> (if res = Inr CR_NEW
       then \<exists>r l. key_row key d' = Some r \<and> ik_status r = IK_PENDING \<and> ik_requestHash r = h
              \<and> ik_lockedAt r = Some l \<and> l \<in> {t1, t3}
       else d' = d)"
proof (cases "key_row key d")
  case None
  then have "claim env nid t1 t3 key h d = (Inr CR_NEW,
      d\<lparr>idempotency_keys := idempotency_keys d @ [new_idem_row nid t1 key h]\<rparr>)"
    using assms(2) by (simp add: claim_def claim_insert_cases)
  with None assms(3) show ?thesis
    by (auto simp: claim_outcome_def row_with_append split: option.splits)
next
  case (Some x)
  have uniq: "unique_by ik_key (idempotency_keys d)"
    using assms(1) by (simp add: schema_ok_def)
  obtain n d2 where rec: "claim_reclaim (IDEMPOTENCY_LEASE_MS env) t3 key d = (n, d2)"
    by fastforce
  have pos: "0 < n \<longleftrightarrow> reclaimable (IDEMPOTENCY_LEASE_MS env) t3 x"
    using claim_reclaim_count [OF uniq rec] Some by simp
  have start: "claim env nid t1 t3 key h d =
      (case claim_decide h x of
         Some r \<Rightarrow> (Inr r, d)
       | None \<Rightarrow> if 0 < n then (Inr CR_NEW, d2) else (Inr (CR_IN_FLIGHT x), d2))"
    using Some rec by (simp add: claim_def claim_insert_cases claim_read_def split: option.splits)
  show ?thesis
  proof (cases "claim_decide h x")
    case (Some r)
    with assms(3) start have "res = Inr r" "d' = d" by simp_all
    with Some \<open>key_row key d = Some x\<close> show ?thesis
      by (auto simp: claim_decide_def claim_outcome_def split: if_splits)
  next
    case None
    then have x: "ik_requestHash x = h" "ik_status x \<noteq> IK_COMPLETED"
      by (auto simp: claim_decide_def split: if_splits)
    show ?thesis
    proof (cases "reclaimable (IDEMPOTENCY_LEASE_MS env) t3 x")
      case True
      with None pos start assms(3) have out: "res = Inr CR_NEW" "d' = d2" by simp_all
      have rows: "key_row k d2 = key_row k d" if "k \<noteq> key" for k
        using that by (simp add: key_row_reclaim [OF rec] option.map_ident)
      show ?thesis
        using out rows True x \<open>key_row key d = Some x\<close>
        by (simp add: claim_outcome_def key_row_reclaim [OF rec])
    next
      case False
      with None pos start assms(3) have out: "res = Inr (CR_IN_FLIGHT x)" "d' = d2" by simp_all
      have "d2 = d"
      proof -
        have "update_where (\<lambda>r. ik_key r = key \<and> reclaimable (IDEMPOTENCY_LEASE_MS env) t3 r) f
            (idempotency_keys d) = idempotency_keys d" for f
          using row_with_unique [OF uniq] \<open>key_row key d = Some x\<close> False
          by (intro update_where_no_match) auto
        with rec show ?thesis by (auto simp: claim_reclaim_def Let_def)
      qed
      with out x False \<open>key_row key d = Some x\<close> show ?thesis
        by (simp add: claim_outcome_def)
    qed
  qed
qed

text \<open>
  C15: \<open>claim\<close> answers exactly the documented table: NEW for an unknown key and for an abandoned
  or failed one, CONFLICT for another payload whatever the state, REPLAY for a completed key,
  IN_FLIGHT otherwise; and it leaves the key pending under the caller's lease exactly when it
  answers NEW, every other key's row untouched.
\<close>

theorem claim_decides:
  assumes "schema_ok d" and "nid \<notin> values_of ik_id (idempotency_keys d)"
    and "claim env nid t1 t3 key h d = (res, d')"
  shows "res = Inr (claim_outcome (IDEMPOTENCY_LEASE_MS env) t3 h (key_row key d))
    \<and> (\<forall>k. k \<noteq> key \<longrightarrow> key_row k d' = key_row k d)
    \<and> (if res = Inr CR_NEW
       then \<exists>r l. key_row key d' = Some r \<and> ik_status r = IK_PENDING \<and> ik_requestHash r = h
              \<and> ik_lockedAt r = Some l \<and> l \<in> {t1, t3}
       else d' = d)"
  using claim_decides_aux [OF assms] .

text \<open>A concrete ledger for the witnesses: one failed key.\<close>

definition failed_ledger :: db where
  "failed_ledger = empty_db\<lparr>idempotency_keys :=
     [(new_idem_row ''r1'' 0 ''k-1'' ''h-1'')\<lparr>ik_status := IK_FAILED, ik_lockedAt := None\<rparr>]\<rparr>"

lemma failed_ledger_ok: "schema_ok failed_ledger"
  by (simp add: failed_ledger_def schema_ok_def empty_db_def tickets_fk_ok_def idem_fk_ok_def
      unique_by_def)

theorem claim_decides_witness:
  "fst (claim env_defaults ''r2'' 5 5 ''k-1'' ''h-1'' failed_ledger) = Inr CR_NEW"
proof -
  have fresh: "''r2'' \<notin> values_of ik_id (idempotency_keys failed_ledger)"
    by (simp add: failed_ledger_def)
  obtain res d' where run: "claim env_defaults ''r2'' 5 5 ''k-1'' ''h-1'' failed_ledger = (res, d')"
    by fastforce
  from claim_decides [OF failed_ledger_ok fresh run]
  have "res = Inr (claim_outcome 300000 5 ''h-1'' (key_row ''k-1'' failed_ledger))"
    by (simp add: env_defaults_def)
  also have "\<dots> = Inr CR_NEW"
    by (simp add: failed_ledger_def claim_outcome_def reclaimable_def)
  finally show ?thesis using run by simp
qed

subsection \<open>Concurrent claimers\<close>

text \<open>Where a claimer is: before each of its three statements, or done.\<close>

datatype claim_pc = CStart | CRead | CReclaim idem_row | CDone claim_result | CThrew exn

definition claim_step ::
  "EnvVars \<Rightarrow> uuid \<Rightarrow> timestamp \<Rightarrow> string \<Rightarrow> string \<Rightarrow> claim_pc \<Rightarrow> db \<Rightarrow> claim_pc \<times> db" where
  "claim_step env nid now key h pc d = (case pc of
       CStart \<Rightarrow>
         (case claim_insert nid now key h d of
            (won, d') \<Rightarrow> (if won then CDone CR_NEW else CRead, d'))
     | CRead \<Rightarrow>
         (case claim_read key d of
            Inl e \<Rightarrow> (CThrew e, d)
          | Inr existing \<Rightarrow>
              (case claim_decide h existing of
                 Some res \<Rightarrow> (CDone res, d)
               | None \<Rightarrow> (CReclaim existing, d)))
     | CReclaim existing \<Rightarrow>
         (case claim_reclaim (IDEMPOTENCY_LEASE_MS env) now key d of
            (n, d') \<Rightarrow> (CDone (if 0 < n then CR_NEW else CR_IN_FLIGHT existing), d'))
     | _ \<Rightarrow> (pc, d))"

definition pc_result :: "claim_pc \<Rightarrow> exn + claim_result" where
  "pc_result pc = (case pc of CDone r \<Rightarrow> Inr r | CThrew e \<Rightarrow> Inl e
     | _ \<Rightarrow> Inl (JsError ''still running''))"

text \<open>\<open>claim\<close> is the three steps run with nothing in between.\<close>

lemma claim_is_three_steps:
  "claim env nid t1 t3 key h d =
     (let (pc1, d1) = claim_step env nid t1 key h CStart d;
          (pc2, d2) = claim_step env nid t2 key h pc1 d1;
          (pc3, d3) = claim_step env nid t3 key h pc2 d2
      in (pc_result pc3, d3))"
  by (auto simp: claim_def claim_step_def pc_result_def Let_def
      split: prod.splits sum.splits option.splits bool.splits)

type_synonym race_state = "db \<times> (nat \<Rightarrow> claim_pc)"

text \<open>
  One step of the race: a claimer's next statement, the winner attaching its ticket or completing
  its key, or a change elsewhere in the database.
\<close>

inductive race_step ::
  "EnvVars \<Rightarrow> (nat \<Rightarrow> uuid) \<Rightarrow> (nat \<Rightarrow> string) \<Rightarrow> (nat \<Rightarrow> string) \<Rightarrow> timestamp \<Rightarrow> timestamp \<Rightarrow>
   race_state \<Rightarrow> race_state \<Rightarrow> bool"
  for env :: EnvVars and nid :: "nat \<Rightarrow> uuid" and key h :: "nat \<Rightarrow> string"
    and T0 T1 :: timestamp where
  race_claim:
    "T0 \<le> t \<Longrightarrow> t \<le> T1 \<Longrightarrow> claim_step env (nid i) t (key i) (h i) (pcs i) d = (pc', d') \<Longrightarrow>
     race_step env nid key h T0 T1 (d, pcs) (d', pcs(i := pc'))"
| race_attach:
    "pcs i = CDone CR_NEW \<Longrightarrow>
     race_step env nid key h T0 T1 (d, pcs) (attachTicket t (key i) tid d, pcs)"
| race_complete:
    "pcs i = CDone CR_NEW \<Longrightarrow>
     race_step env nid key h T0 T1 (d, pcs) (markCompleted t (key i) tid c b d, pcs)"
| race_elsewhere:
    "idempotency_keys d' = idempotency_keys d \<Longrightarrow>
     race_step env nid key h T0 T1 (d, pcs) (d', pcs)"

inductive race_reach ::
  "EnvVars \<Rightarrow> (nat \<Rightarrow> uuid) \<Rightarrow> (nat \<Rightarrow> string) \<Rightarrow> (nat \<Rightarrow> string) \<Rightarrow> timestamp \<Rightarrow> timestamp \<Rightarrow>
   db \<Rightarrow> race_state \<Rightarrow> bool"
  for env :: EnvVars and nid :: "nat \<Rightarrow> uuid" and key h :: "nat \<Rightarrow> string"
    and T0 T1 :: timestamp and d0 :: db where
  race_start: "race_reach env nid key h T0 T1 d0 (d0, \<lambda>_. CStart)"
| race_next: "race_reach env nid key h T0 T1 d0 s \<Longrightarrow> race_step env nid key h T0 T1 s s' \<Longrightarrow>
    race_reach env nid key h T0 T1 d0 s'"

text \<open>
  The invariant: at most one claimer per key has won, and once one has, the key is taken for the
  rest of the window (completed, or pending under a lease not older than the window).
\<close>

definition taken :: "timestamp \<Rightarrow> idem_row \<Rightarrow> bool" where
  "taken T0 r \<longleftrightarrow> ik_status r = IK_COMPLETED
     \<or> (ik_status r = IK_PENDING \<and> (\<exists>l. ik_lockedAt r = Some l \<and> T0 \<le> l))"

definition race_inv :: "(nat \<Rightarrow> string) \<Rightarrow> timestamp \<Rightarrow> race_state \<Rightarrow> bool" where
  "race_inv key T0 s \<longleftrightarrow>
     unique_by ik_key (idempotency_keys (fst s))
   \<and> (\<forall>i j. snd s i = CDone CR_NEW \<longrightarrow> snd s j = CDone CR_NEW \<longrightarrow> key i = key j \<longrightarrow> i = j)
   \<and> (\<forall>i. snd s i = CDone CR_NEW \<longrightarrow> (\<exists>r. key_row (key i) (fst s) = Some r \<and> taken T0 r))"

lemma taken_not_reclaimable:
  assumes "taken T0 r" and "t \<le> T1" and "T1 \<le> T0 + interval_ms lease"
  shows "\<not> reclaimable lease t r"
  using assms by (auto simp: taken_def reclaimable_def)

lemma unique_key_insert:
  "unique_by ik_key (idempotency_keys d) \<Longrightarrow> claim_insert nid t key h d = (b, d') \<Longrightarrow>
   unique_by ik_key (idempotency_keys d')"
  by (auto simp: claim_insert_def split: if_splits)

lemma unique_key_reclaim:
  "unique_by ik_key (idempotency_keys d) \<Longrightarrow> claim_reclaim lease t key d = (n, d') \<Longrightarrow>
   unique_by ik_key (idempotency_keys d')"
  by (auto simp: claim_reclaim_def Let_def unique_by_update_where)

text \<open>A statement that does not win leaves the invariant to the others: rows and winners stay.\<close>

lemma race_inv_idle:
  assumes "race_inv key T0 (d, pcs)" and "pc' \<noteq> CDone CR_NEW" and "pcs i \<noteq> CDone CR_NEW"
  shows "race_inv key T0 (d, pcs(i := pc'))"
  using assms by (auto simp: race_inv_def)

lemma race_inv_win:
  assumes inv: "race_inv key T0 (d, pcs)"
    and uniq: "unique_by ik_key (idempotency_keys d')"
    and old: "\<And>r. key_row (key i) d = Some r \<Longrightarrow> \<not> taken T0 r"
    and new: "\<exists>r. key_row (key i) d' = Some r \<and> taken T0 r"
    and others: "\<And>k. k \<noteq> key i \<Longrightarrow> key_row k d' = key_row k d"
  shows "race_inv key T0 (d', pcs(i := CDone CR_NEW))"
proof -
  have none: "pcs j \<noteq> CDone CR_NEW" if "key j = key i" for j
  proof
    assume "pcs j = CDone CR_NEW"
    with inv that obtain r where "key_row (key i) d = Some r" "taken T0 r"
      by (auto simp: race_inv_def)
    with old show False by blast
  qed
  let ?p = "pcs(i := CDone CR_NEW)"
  have one: "a = b" if "?p a = CDone CR_NEW" "?p b = CDone CR_NEW" "key a = key b" for a b
    using that inv none [of a] none [of b]
    by (cases "a = i"; cases "b = i") (auto simp: race_inv_def)
  have held: "\<exists>r. key_row (key a) d' = Some r \<and> taken T0 r" if "?p a = CDone CR_NEW" for a
  proof (cases "key a = key i")
    case True
    with new show ?thesis by simp
  next
    case False
    with that have "pcs a = CDone CR_NEW" by (auto split: if_splits)
    with inv False show ?thesis by (simp add: race_inv_def others)
  qed
  show ?thesis
    unfolding race_inv_def fst_conv snd_conv using uniq one held by blast
qed

text \<open>Updates that keep every taken row taken keep the invariant.\<close>

lemma race_inv_update:
  assumes inv: "race_inv key T0 (d, pcs)"
    and uniq: "unique_by ik_key (idempotency_keys d')"
    and rows: "\<And>k r. key_row k d = Some r \<Longrightarrow> taken T0 r \<Longrightarrow>
      \<exists>r'. key_row k d' = Some r' \<and> taken T0 r'"
  shows "race_inv key T0 (d', pcs)"
proof -
  have "\<exists>r. key_row (key a) d' = Some r \<and> taken T0 r" if "pcs a = CDone CR_NEW" for a
    using inv that rows by (auto simp: race_inv_def)
  with inv uniq show ?thesis by (simp add: race_inv_def)
qed

lemma race_inv_claim:
  assumes inv: "race_inv key T0 (d, pcs)"
    and t: "T0 \<le> t" "t \<le> T1" and window: "T1 \<le> T0 + interval_ms (IDEMPOTENCY_LEASE_MS env)"
    and step: "claim_step env (nid i) t (key i) (h i) (pcs i) d = (pc', d')"
  shows "race_inv key T0 (d', pcs(i := pc'))"
proof (cases "pcs i")
  case CStart
  from step CStart obtain won where ins: "claim_insert (nid i) t (key i) (h i) d = (won, d')"
    and pc': "pc' = (if won then CDone CR_NEW else CRead)"
    by (auto simp: claim_step_def split: prod.splits)
  show ?thesis
  proof (cases won)
    case True
    with ins have absent: "key_row (key i) d = None"
      and d': "d' = d\<lparr>idempotency_keys :=
        idempotency_keys d @ [new_idem_row (nid i) t (key i) (h i)]\<rparr>"
      by (auto simp: claim_insert_cases split: if_splits)
    have "race_inv key T0 (d', pcs(i := CDone CR_NEW))"
    proof (rule race_inv_win [OF inv])
      show "unique_by ik_key (idempotency_keys d')"
        using inv ins by (auto simp: race_inv_def intro: unique_key_insert)
      show "\<exists>r. key_row (key i) d' = Some r \<and> taken T0 r"
        using absent t by (simp add: d' row_with_append taken_def)
      show "key_row k d' = key_row k d" if "k \<noteq> key i" for k
        using that by (simp add: d' row_with_append split: option.splits)
    qed (simp add: absent)
    with True pc' show ?thesis by simp
  next
    case False
    with ins have "d' = d" by (auto simp: claim_insert_def split: if_splits)
    with False pc' CStart inv show ?thesis by (auto intro: race_inv_idle)
  qed
next
  case CRead
  with step have "d' = d" and "pc' \<noteq> CDone CR_NEW"
    by (auto simp: claim_step_def claim_decide_def split: sum.splits option.splits if_splits)
  with CRead inv show ?thesis by (auto intro: race_inv_idle)
next
  case (CReclaim existing)
  from step CReclaim obtain n
    where rec: "claim_reclaim (IDEMPOTENCY_LEASE_MS env) t (key i) d = (n, d')"
    and pc': "pc' = CDone (if 0 < n then CR_NEW else CR_IN_FLIGHT existing)"
    by (auto simp: claim_step_def split: prod.splits)
  have uniq: "unique_by ik_key (idempotency_keys d)" using inv by (simp add: race_inv_def)
  have count: "0 < n \<longleftrightarrow> (\<exists>r. key_row (key i) d = Some r
      \<and> reclaimable (IDEMPOTENCY_LEASE_MS env) t r)"
    by (rule claim_reclaim_count [OF uniq rec])
  show ?thesis
  proof (cases "0 < n")
    case True
    then obtain r where r: "key_row (key i) d = Some r"
      and can: "reclaimable (IDEMPOTENCY_LEASE_MS env) t r"
      using count by blast
    have "race_inv key T0 (d', pcs(i := CDone CR_NEW))"
    proof (rule race_inv_win [OF inv unique_key_reclaim [OF uniq rec]])
      show "\<not> taken T0 r'" if "key_row (key i) d = Some r'" for r'
        using that r can taken_not_reclaimable [OF _ t(2) window] by auto
      show "\<exists>r. key_row (key i) d' = Some r \<and> taken T0 r"
        using r can t by (auto simp: key_row_reclaim [OF rec] taken_def)
      show "key_row k d' = key_row k d" if "k \<noteq> key i" for k
        using that by (simp add: key_row_reclaim [OF rec] option.map_ident)
    qed
    with True pc' show ?thesis by simp
  next
    case False
    have "key_row k d' = key_row k d" for k
      using False count by (auto simp: key_row_reclaim [OF rec] map_option_case split: option.splits)
    then have "race_inv key T0 (d', pcs)"
      using inv unique_key_reclaim [OF uniq rec] by (simp add: race_inv_def)
    with False pc' CReclaim show ?thesis by (auto intro: race_inv_idle)
  qed
next
  case (CDone res)
  with step have "d' = d" "pc' = pcs i" by (auto simp: claim_step_def)
  with inv show ?thesis by simp
next
  case (CThrew e)
  with step have "d' = d" "pc' = pcs i" by (auto simp: claim_step_def)
  with inv show ?thesis by simp
qed

lemma race_step_inv:
  assumes "race_step env nid key h T0 T1 s s'" and "race_inv key T0 s"
    and "T1 \<le> T0 + interval_ms (IDEMPOTENCY_LEASE_MS env)"
  shows "race_inv key T0 s'"
  using assms
proof (induction rule: race_step.induct)
  case (race_claim t i pcs d pc' d')
  then show ?case by (intro race_inv_claim)
next
  case (race_attach pcs i d t tid)
  show ?case
  proof (rule race_inv_update [OF race_attach.prems(1)])
    show "unique_by ik_key (idempotency_keys (attachTicket t (key i) tid d))"
      using race_attach.prems(1) by (simp add: race_inv_def attachTicket_def unique_by_update_where)
  qed (auto simp: key_row_attach taken_def)
next
  case (race_complete pcs i d t tid c b)
  show ?case
  proof (rule race_inv_update [OF race_complete.prems(1)])
    show "unique_by ik_key (idempotency_keys (markCompleted t (key i) tid c b d))"
      using race_complete.prems(1) by (simp add: race_inv_def markCompleted_def unique_by_update_where)
  qed (auto simp: key_row_completed taken_def)
next
  case (race_elsewhere d' d pcs)
  then show ?case by (simp add: race_inv_def)
qed

lemma race_reach_inv:
  assumes "race_reach env nid key h T0 T1 d0 s" and "unique_by ik_key (idempotency_keys d0)"
    and "T1 \<le> T0 + interval_ms (IDEMPOTENCY_LEASE_MS env)"
  shows "race_inv key T0 s"
  using assms
  by (induction rule: race_reach.induct) (auto simp: race_inv_def [of _ _ "(d0, _)"]
      intro: race_step_inv)

text \<open>
  C4: of any number of concurrent claimers of one key, at most one is told NEW within a lease
  window, in every interleaving of their SQL statements, from any ledger (the key unknown, failed,
  stale, pending or completed), while the winner attaches its ticket and completes the key.
\<close>

theorem claim_race_one_winner:
  assumes "schema_ok d0" and "T1 \<le> T0 + interval_ms (IDEMPOTENCY_LEASE_MS env)"
    and "race_reach env nid key h T0 T1 d0 (d, pcs)"
    and "pcs i = CDone CR_NEW" and "pcs j = CDone CR_NEW" and "key i = key j"
  shows "i = j"
proof -
  have "unique_by ik_key (idempotency_keys d0)" using assms(1) by (simp add: schema_ok_def)
  from race_reach_inv [OF assms(3) this assms(2)] assms(4-6) show ?thesis
    by (auto simp: race_inv_def)
qed

text \<open>Two claimers of a fresh key: the first inserts it, the second runs all its statements after.\<close>

definition raced_row :: idem_row where
  "raced_row = new_idem_row ''r1'' 5 ''k-1'' ''h-1''"

definition raced_db :: db where
  "raced_db = empty_db\<lparr>idempotency_keys := [raced_row]\<rparr>"

definition raced_pcs :: "nat \<Rightarrow> claim_pc" where
  "raced_pcs = (\<lambda>_. CStart)(0 := CDone CR_NEW, 1 := CDone (CR_IN_FLIGHT raced_row))"

abbreviation raced :: "race_state \<Rightarrow> bool" where
  "raced \<equiv> race_reach env_defaults (\<lambda>_. ''r1'') (\<lambda>_. ''k-1'') (\<lambda>_. ''h-1'') 0 10 empty_db"

lemma raced_next:
  assumes "raced (d, pcs)" and "claim_step env_defaults ''r1'' 5 ''k-1'' ''h-1'' (pcs i) d = (pc', d')"
  shows "raced (d', pcs(i := pc'))"
  using assms by (intro race_next [OF assms(1)] race_claim [where t = 5]) simp_all

lemma raced_reach: "raced (raced_db, raced_pcs)"
proof -
  have "raced (empty_db, \<lambda>_. CStart)" by (rule race_start)
  then have "raced (raced_db, (\<lambda>_. CStart)(0 := CDone CR_NEW))"
    by (rule raced_next)
       (simp add: claim_step_def claim_insert_def empty_db_def raced_db_def raced_row_def)
  then have "raced (raced_db, (\<lambda>_. CStart)(0 := CDone CR_NEW, 1 := CRead))"
    by (rule raced_next) (simp add: claim_step_def claim_insert_def raced_db_def raced_row_def)
  then have "raced (raced_db, (\<lambda>_. CStart)(0 := CDone CR_NEW, 1 := CRead, 1 := CReclaim raced_row))"
    by (rule raced_next)
       (simp add: claim_step_def claim_read_def claim_decide_def raced_db_def raced_row_def)
  then have "raced (raced_db, (\<lambda>_. CStart)(0 := CDone CR_NEW, 1 := CRead, 1 := CReclaim raced_row,
      1 := CDone (CR_IN_FLIGHT raced_row)))"
    by (rule raced_next)
       (simp add: claim_step_def claim_reclaim_def raced_db_def raced_row_def reclaimable_def
          interval_ms_def env_defaults_def)
  then show ?thesis by (simp add: raced_pcs_def)
qed

theorem claim_race_one_winner_witness:
  "raced (raced_db, raced_pcs) \<and> (\<exists>!i. raced_pcs i = CDone CR_NEW)"
proof -
  have window: "(10::int) \<le> 0 + interval_ms (IDEMPOTENCY_LEASE_MS env_defaults)"
    by (simp add: interval_ms_def env_defaults_def)
  have won: "raced_pcs 0 = CDone CR_NEW" by (simp add: raced_pcs_def)
  have "i = 0" if "raced_pcs i = CDone CR_NEW" for i
    by (rule claim_race_one_winner [OF schema_ok_empty window raced_reach that won refl])
  with raced_reach won show ?thesis by blast
qed

text \<open>
  The statement \<open>markFailed\<close> writes over any state: a slow first owner whose ingestion throws after a second
  owner has reclaimed and completed the key takes it from COMPLETED back to FAILED, where the next
  duplicate is told NEW and drives the key again instead of being replayed. The attached ticket
  survives.
\<close>

lemma markFailed_reopens_completed_key:
  assumes "schema_ok d" and "key_row key d = Some r" and "ik_status r = IK_COMPLETED"
    and "nid \<notin> values_of ik_id (idempotency_keys d)"
  shows "fst (claim env nid t1 t3 key (ik_requestHash r) d) = Inr (CR_REPLAY r)
    \<and> fst (claim env nid t1 t3 key (ik_requestHash r) (markFailed t key d)) = Inr CR_NEW
    \<and> (\<exists>r'. key_row key (markFailed t key d) = Some r' \<and> ik_ticketId r' = ik_ticketId r)"
proof -
  let ?d = "markFailed t key d"
  have row: "key_row key ?d = Some (r\<lparr>ik_status := IK_FAILED, ik_lockedAt := None, ik_updatedAt := t\<rparr>)"
    using assms(2) by (simp add: key_row_failed)
  have fresh: "nid \<notin> values_of ik_id (idempotency_keys ?d)"
    using assms(4) by (simp add: markFailed_def values_of_update_where)
  obtain res d1 where run: "claim env nid t1 t3 key (ik_requestHash r) d = (res, d1)" by fastforce
  obtain res' d2 where run': "claim env nid t1 t3 key (ik_requestHash r) ?d = (res', d2)"
    by fastforce
  from claim_decides_aux [OF assms(1,4) run] assms(2,3)
  have "res = Inr (CR_REPLAY r)" by (simp add: claim_outcome_def)
  moreover from claim_decides_aux [OF markFailed_schema_ok [OF assms(1)] fresh run'] row
  have "res' = Inr CR_NEW" by (simp add: claim_outcome_def reclaimable_def)
  ultimately show ?thesis using run run' row by simp
qed

definition completed_ledger :: db where
  "completed_ledger = empty_db\<lparr>idempotency_keys :=
     [(new_idem_row ''r1'' 0 ''k-1'' ''h-1'')\<lparr>ik_status := IK_COMPLETED, ik_lockedAt := None\<rparr>]\<rparr>"

lemma markFailed_reopens_completed_key_witness:
  "fst (claim env_defaults ''r2'' 5 5 ''k-1'' ''h-1'' (markFailed 4 ''k-1'' completed_ledger)) =
     Inr CR_NEW"
proof -
  let ?r = "(new_idem_row ''r1'' 0 ''k-1'' ''h-1'')\<lparr>ik_status := IK_COMPLETED, ik_lockedAt := None\<rparr>"
  have ok: "schema_ok completed_ledger"
    by (simp add: completed_ledger_def schema_ok_def empty_db_def tickets_fk_ok_def idem_fk_ok_def
        unique_by_def)
  have row: "key_row ''k-1'' completed_ledger = Some ?r"
    by (simp add: completed_ledger_def)
  have fresh: "''r2'' \<notin> values_of ik_id (idempotency_keys completed_ledger)"
    by (simp add: completed_ledger_def)
  show ?thesis
    using markFailed_reopens_completed_key [OF ok row _ fresh, of env_defaults 5 5 4] by simp
qed

end
