(* ===== verification/Transaction.thy ===== *)
theory Transaction
  imports Entities
begin

section \<open>Transactions (src/common/database/transaction.helper.ts)\<close>

text \<open>
  \<open>runInTransaction\<close> with the driver calls it makes. The work is a function of the database
  and of an outside world \<open>'w\<close> (HTTP calls made inside the transaction), which no rollback
  restores. Any driver call may throw: \<open>tx_faults\<close> says which do, and with what. A COMMIT that
  throws is taken to have committed nothing.

  The locale \<open>atomic_runner\<close> is the contract the callers of the helper rely on: the database
  afterwards is the one before, or the one the work returned.
\<close>

record tx_faults =
  connect_err :: "exn option"
  start_err :: "exn option"
  commit_err :: "exn option"
  rollback_err :: "exn option"
  release_err :: "exn option"

definition no_faults :: tx_faults where
  "no_faults = \<lparr>connect_err = None, start_err = None, commit_err = None, rollback_err = None,
     release_err = None\<rparr>"

datatype tx_call = TxConnect | TxStart | TxWork | TxCommit | TxRollback | TxRelease

record ('a, 'w) tx_result =
  tx_value :: "exn + 'a"
  tx_db :: db
  tx_world :: 'w
  tx_calls :: "tx_call list"

type_synonym ('a, 'w) tx_work = "'w \<Rightarrow> db \<Rightarrow> (exn + ('a \<times> db)) \<times> 'w"

text \<open>An error thrown by a later driver call replaces the one in flight.\<close>

definition or_throw :: "exn option \<Rightarrow> exn + 'a \<Rightarrow> exn + 'a" where
  "or_throw err v = (case err of Some e \<Rightarrow> Inl e | None \<Rightarrow> v)"

definition tx_body ::
  "tx_faults \<Rightarrow> exn + ('a \<times> db) \<Rightarrow> db \<Rightarrow> (exn + 'a) \<times> db \<times> tx_call list" where
  "tx_body F out d = (case out of
       Inr (a, d') \<Rightarrow>
         (case commit_err F of
            None \<Rightarrow> (Inr a, d', [TxCommit])
          | Some e \<Rightarrow> (or_throw (rollback_err F) (Inl e), d, [TxCommit, TxRollback]))
     | Inl e \<Rightarrow> (or_throw (rollback_err F) (Inl e), d, [TxRollback]))"

definition runInTransaction ::
  "tx_faults \<Rightarrow> ('a, 'w) tx_work \<Rightarrow> 'w \<Rightarrow> db \<Rightarrow> ('a, 'w) tx_result" where
  "runInTransaction F work w d =
     (case connect_err F of
        Some e \<Rightarrow> \<lparr>tx_value = Inl e, tx_db = d, tx_world = w, tx_calls = [TxConnect]\<rparr>
      | None \<Rightarrow>
     (case start_err F of
        Some e \<Rightarrow> \<lparr>tx_value = Inl e, tx_db = d, tx_world = w, tx_calls = [TxConnect, TxStart]\<rparr>
      | None \<Rightarrow>
        (let (out, w') = work w d;
             (v, d', calls) = tx_body F out d
         in \<lparr>tx_value = or_throw (release_err F) v, tx_db = d', tx_world = w',
              tx_calls = [TxConnect, TxStart, TxWork] @ calls @ [TxRelease]\<rparr>)))"

lemma or_throw_simps [simp]:
  "or_throw None v = v"
  "or_throw (Some e) v = Inl e"
  by (simp_all add: or_throw_def)

lemma or_throw_Inr_iff [simp]: "or_throw err v = Inr a \<longleftrightarrow> err = None \<and> v = Inr a"
  by (simp add: or_throw_def split: option.splits)

lemma no_faults_simps [simp]:
  "connect_err no_faults = None" "start_err no_faults = None" "commit_err no_faults = None"
  "rollback_err no_faults = None" "release_err no_faults = None"
  by (simp_all add: no_faults_def)

lemma tx_body_cases:
  assumes "tx_body F out d = (v, d', calls)"
  shows "(\<exists>a. out = Inr (a, d') \<and> v = Inr a \<and> calls = [TxCommit] \<and> commit_err F = None)
    \<or> (d' = d \<and> (\<exists>e. v = Inl e) \<and> last calls = TxRollback \<and> TxRelease \<notin> set calls
        \<and> calls \<noteq> [])"
  using assms
  by (auto simp: tx_body_def or_throw_def split: sum.splits prod.splits option.splits)

text \<open>The whole helper without driver faults: the work's result and database, or a rollback.\<close>

lemma runInTransaction_no_faults:
  "runInTransaction no_faults work w d =
     (case work w d of
        (Inr (a, d'), w') \<Rightarrow>
          \<lparr>tx_value = Inr a, tx_db = d', tx_world = w',
            tx_calls = [TxConnect, TxStart, TxWork, TxCommit, TxRelease]\<rparr>
      | (Inl e, w') \<Rightarrow>
          \<lparr>tx_value = Inl e, tx_db = d, tx_world = w',
            tx_calls = [TxConnect, TxStart, TxWork, TxRollback, TxRelease]\<rparr>)"
  by (simp add: runInTransaction_def tx_body_def split: sum.splits prod.splits)

subsection \<open>The contract\<close>

locale atomic_runner =
  fixes run :: "('a, 'w) tx_work \<Rightarrow> 'w \<Rightarrow> db \<Rightarrow> ('a, 'w) tx_result"
  assumes run_atomic:
      "tx_db (run work w d) = d \<or> (\<exists>a. fst (work w d) = Inr (a, tx_db (run work w d)))"
    and run_value:
      "tx_value (run work w d) = Inr a \<Longrightarrow> fst (work w d) = Inr (a, tx_db (run work w d))"
    and run_world:
      "tx_world (run work w d) = snd (work w d)
       \<or> (tx_world (run work w d) = w \<and> tx_db (run work w d) = d)"
begin

text \<open>An invariant of the database that the work keeps is kept by the transaction.\<close>

lemma run_invariant:
  assumes "I d" and "\<And>a d'. fst (work w d) = Inr (a, d') \<Longrightarrow> I d'"
  shows "I (tx_db (run work w d))"
  using run_atomic [of work w d] assms by metis

text \<open>
  The same for an invariant of world and database that survives the world moving on without the
  database (a rollback after outside effects).
\<close>

lemma run_world_invariant:
  assumes "J w d" and "J (snd (work w d)) d"
    and "\<And>a d'. fst (work w d) = Inr (a, d') \<Longrightarrow> J (snd (work w d)) d'"
  shows "J (tx_world (run work w d)) (tx_db (run work w d))"
  using run_atomic [of work w d] run_world [of work w d] assms by metis

text \<open>A transaction whose work throws changes nothing.\<close>

lemma run_throw_rolls_back:
  assumes "fst (work w d) = Inl e"
  shows "tx_db (run work w d) = d \<and> (\<exists>e'. tx_value (run work w d) = Inl e')"
  using run_atomic [of work w d] run_value [of work w d] assms
  by (cases "tx_value (run work w d)") auto

end

lemma runInTransaction_atomic:
  "tx_db (runInTransaction F work w d) = d
   \<or> (\<exists>a. fst (work w d) = Inr (a, tx_db (runInTransaction F work w d)))"
  by (auto simp: runInTransaction_def split: option.splits prod.splits dest!: tx_body_cases)

lemma runInTransaction_value:
  "tx_value (runInTransaction F work w d) = Inr a \<Longrightarrow>
   fst (work w d) = Inr (a, tx_db (runInTransaction F work w d))"
  by (auto simp: runInTransaction_def split: option.splits prod.splits dest!: tx_body_cases)

lemma runInTransaction_world:
  "tx_world (runInTransaction F work w d) = snd (work w d)
   \<or> (tx_world (runInTransaction F work w d) = w \<and> tx_db (runInTransaction F work w d) = d)"
  by (auto simp: runInTransaction_def split: option.splits prod.splits)

interpretation tx: atomic_runner "runInTransaction F" for F
  by unfold_locales
     (fact runInTransaction_atomic, fact runInTransaction_value, fact runInTransaction_world)

subsection \<open>The lifecycle\<close>

text \<open>
  C33: a transaction that began is over in every case: its database is the work's if it committed and
  the old one otherwise, a caller told a value has the work's result committed, a work that throws
  is rolled back and reported as an error, exactly one of COMMIT or ROLLBACK ends it unless COMMIT
  itself failed, and the connection is released once.
\<close>

theorem runInTransaction_lifecycle:
  assumes "connect_err F = None" and "start_err F = None"
    and "r = runInTransaction F work w d" and "work w d = (out, w')"
  shows "tx_world r = w' \<and> count_list (tx_calls r) TxRelease = 1 \<and> last (tx_calls r) = TxRelease
    \<and> (case out of
         Inr (a, d') \<Rightarrow>
           (if commit_err F = None
            then tx_db r = d' \<and> TxRollback \<notin> set (tx_calls r)
               \<and> tx_value r = (case release_err F of None \<Rightarrow> Inr a | Some e \<Rightarrow> Inl e)
            else tx_db r = d \<and> TxRollback \<in> set (tx_calls r) \<and> (\<exists>e. tx_value r = Inl e))
       | Inl e \<Rightarrow>
           tx_db r = d \<and> TxRollback \<in> set (tx_calls r) \<and> TxCommit \<notin> set (tx_calls r)
         \<and> (if rollback_err F = None \<and> release_err F = None then tx_value r = Inl e
            else (\<exists>e'. tx_value r = Inl e')))"
  using assms
  by (auto simp: runInTransaction_def tx_body_def or_throw_def split: sum.splits prod.splits option.splits)

definition take_note :: "(string, string list) tx_work" where
  "take_note w d = (Inr (''ok'', d\<lparr>events := []\<rparr>), w @ [''called''])"

theorem runInTransaction_lifecycle_witness:
  "tx_world (runInTransaction no_faults take_note [] empty_db) = [''called'']
   \<and> tx_value (runInTransaction no_faults take_note [] empty_db) = Inr ''ok''"
  using runInTransaction_lifecycle [of no_faults _ take_note "[]" empty_db, OF _ _ refl]
  by (simp add: take_note_def)

text \<open>
  The connection is released exactly when both \<open>connect\<close> and \<open>startTransaction\<close> succeeded. They
  run before the \<open>try\<close>, so a connection whose BEGIN fails is handed out and never given back,
  though the helper exists so that no error path leaks one.
\<close>

lemma released_iff_started:
  "TxRelease \<in> set (tx_calls (runInTransaction F work w d)) \<longleftrightarrow>
     connect_err F = None \<and> start_err F = None"
  by (auto simp: runInTransaction_def tx_body_def split: option.splits prod.splits sum.splits)

end
