(* ===== verification/Producer.thy ===== *)
theory Producer
  imports Config Js_Values
begin

section \<open>The pipeline queue and its producer (src/pipeline/pipeline.producer.ts)\<close>

text \<open>
  The job payload, its JSON form, the four ways of enqueueing, and the job ids they use. BullMQ is
  not part of the repository: its \<open>Queue\<close> is a record of the operations the code calls, over an
  unknown state, with \<open>bull_laws\<close> for what its documentation promises of them. An \<open>add\<close> or
  \<open>remove\<close> that throws may still have taken effect (a lost reply).
\<close>

subsection \<open>Job data\<close>

record job_data =
  jd_idempotencyKey :: string
  jd_ticketId :: uuid
  jd_eventId :: uuid
  jd_correlationId :: "string option"
  jd_replayOf :: "string option"
  jd_upgradeAttempt :: "int option"

text \<open>
  The payload as stored in a \<open>jsonb\<close> column, absent properties left out, and the cast
  \<open>payload as PipelineJobData\<close> that reads it back: a property not of its type is as good as absent.
\<close>

definition opt_field :: "string \<Rightarrow> json option \<Rightarrow> (string \<times> json) list" where
  "opt_field k v = (case v of Some j \<Rightarrow> [(k, j)] | None \<Rightarrow> [])"

definition job_json :: "job_data \<Rightarrow> json" where
  "job_json d = JObj ([(''idempotencyKey'', JStr (jd_idempotencyKey d)),
      (''ticketId'', JStr (jd_ticketId d)), (''eventId'', JStr (jd_eventId d))]
    @ opt_field ''correlationId'' (map_option JStr (jd_correlationId d))
    @ opt_field ''replayOfDeadLetterId'' (map_option JStr (jd_replayOf d))
    @ opt_field ''upgradeAttempt'' (map_option (\<lambda>n. JNum (of_int n)) (jd_upgradeAttempt d)))"

definition json_int :: "json option \<Rightarrow> int option" where
  "json_int j = (case j of Some (JNum x) \<Rightarrow> Some \<lfloor>x\<rfloor> | _ \<Rightarrow> None)"

text \<open>A missing key, ticket or event id would read as \<open>undefined\<close> in a template literal.\<close>

definition str_field :: "string \<Rightarrow> json \<Rightarrow> string" where
  "str_field k j = (case json_str (json_field k j) of Some s \<Rightarrow> s | None \<Rightarrow> ''undefined'')"

definition job_of_json :: "json \<Rightarrow> job_data" where
  "job_of_json j = \<lparr>jd_idempotencyKey = str_field ''idempotencyKey'' j,
     jd_ticketId = str_field ''ticketId'' j, jd_eventId = str_field ''eventId'' j,
     jd_correlationId = json_str (json_field ''correlationId'' j),
     jd_replayOf = json_str (json_field ''replayOfDeadLetterId'' j),
     jd_upgradeAttempt = json_int (json_field ''upgradeAttempt'' j)\<rparr>"

lemma job_json_roundtrip: "job_of_json (job_json d) = d"
  by (cases d; cases "jd_correlationId d"; cases "jd_replayOf d"; cases "jd_upgradeAttempt d")
     (simp_all add: job_of_json_def job_json_def opt_field_def json_field_def js_get_def json_str_def
        json_int_def str_field_def)

subsection \<open>The queue\<close>

record job_opts =
  jo_jobId :: string
  jo_delay :: "int option"
  jo_attempts :: int
  jo_backoff :: string
  jo_completeAge :: int
  jo_completeCount :: "int option"
  jo_failAge :: int

record bull_job =
  bj_data :: job_data
  bj_opts :: job_opts
  bj_failed :: bool

record 'q bull =
  bull_add :: "string \<Rightarrow> job_data \<Rightarrow> job_opts \<Rightarrow> 'q \<Rightarrow> (exn + string) \<times> 'q"
  bull_getJob :: "string \<Rightarrow> 'q \<Rightarrow> exn + string option"
  bull_isFailed :: "string \<Rightarrow> 'q \<Rightarrow> exn + bool"
  bull_remove :: "string \<Rightarrow> 'q \<Rightarrow> (exn + unit) \<times> 'q"

definition new_job :: "job_data \<Rightarrow> job_opts \<Rightarrow> bull_job" where
  "new_job d opts = \<lparr>bj_data = d, bj_opts = opts, bj_failed = False\<rparr>"

text \<open>The custom ids BullMQ takes: nothing like an integer, \<open>:\<close> only between exactly three parts.\<close>

definition integer_like :: "string \<Rightarrow> bool" where
  "integer_like s \<longleftrightarrow> (let t = (if starts_with ''-'' s then tl s else s) in t \<noteq> [] \<and> list_all is_digit t)"

definition bull_id_ok :: "string \<Rightarrow> bool" where
  "bull_id_ok i \<longleftrightarrow> i \<noteq> [] \<and> \<not> integer_like i
     \<and> (CHR '':'' \<in> set i \<longrightarrow> length (str_split (CHR '':'') i) = 3)"

text \<open>
  \<open>jobs q\<close> is what the queue holds, by id. An \<open>add\<close> for an id it holds changes nothing and answers
  that id; \<open>isFailed\<close> of a job it holds tells its state.
\<close>

definition bull_laws :: "'q bull \<Rightarrow> ('q \<Rightarrow> string \<rightharpoonup> bull_job) \<Rightarrow> bool" where
  "bull_laws Q jobs \<longleftrightarrow>
     (\<forall>nm d opts q i q'. bull_add Q nm d opts q = (Inr i, q') \<longrightarrow> i = jo_jobId opts
        \<and> jobs q' = (if jobs q i = None then (jobs q)(i \<mapsto> new_job d opts) else jobs q))
   \<and> (\<forall>nm d opts q e q'. bull_add Q nm d opts q = (Inl e, q') \<longrightarrow>
        jobs q' = jobs q \<or> jobs q (jo_jobId opts) = None \<and> jobs q' = (jobs q)(jo_jobId opts \<mapsto> new_job d opts))
   \<and> (\<forall>i q r. bull_getJob Q i q = Inr r \<longrightarrow> r = (if jobs q i = None then None else Some i))
   \<and> (\<forall>i q b j. bull_isFailed Q i q = Inr b \<and> jobs q i = Some j \<longrightarrow> b = bj_failed j)
   \<and> (\<forall>i q q'. bull_remove Q i q = (Inr (), q') \<longrightarrow> jobs q' = (jobs q)(i := None))
   \<and> (\<forall>i q e q'. bull_remove Q i q = (Inl e, q') \<longrightarrow> jobs q' = jobs q \<or> jobs q' = (jobs q)(i := None))"

lemma bull_add_ok:
  assumes "bull_laws Q jobs" and "bull_add Q nm d opts q = (Inr i, q')"
  shows "i = jo_jobId opts
    \<and> jobs q' = (if jobs q i = None then (jobs q)(i \<mapsto> new_job d opts) else jobs q)"
  using assms by (simp add: bull_laws_def)

lemma bull_add_err:
  assumes "bull_laws Q jobs" and "bull_add Q nm d opts q = (Inl e, q')"
  shows "jobs q' = jobs q
    \<or> jobs q (jo_jobId opts) = None \<and> jobs q' = (jobs q)(jo_jobId opts \<mapsto> new_job d opts)"
  using assms unfolding bull_laws_def by metis

lemma bull_getJob_ok:
  assumes "bull_laws Q jobs" and "bull_getJob Q i q = Inr r"
  shows "r = (if jobs q i = None then None else Some i)"
  using assms by (simp add: bull_laws_def)

lemma bull_isFailed_ok:
  assumes "bull_laws Q jobs" and "bull_isFailed Q i q = Inr b" and "jobs q i = Some j"
  shows "b = bj_failed j"
  using assms unfolding bull_laws_def by metis

lemma bull_remove_ok:
  assumes "bull_laws Q jobs" and "bull_remove Q i q = (Inr u, q')"
  shows "jobs q' = (jobs q)(i := None)"
  using assms by (simp add: bull_laws_def)

lemma bull_remove_err:
  assumes "bull_laws Q jobs" and "bull_remove Q i q = (Inl e, q')"
  shows "jobs q' = jobs q \<or> jobs q' = (jobs q)(i := None)"
  using assms unfolding bull_laws_def by metis

subsection \<open>The producer\<close>

definition ENRICH_TICKET_JOB :: string where
  "ENRICH_TICKET_JOB = ''enrich-ticket''"

definition standard_opts :: "EnvVars \<Rightarrow> string \<Rightarrow> job_opts" where
  "standard_opts env jobId = \<lparr>jo_jobId = jobId, jo_delay = None,
     jo_attempts = PIPELINE_MAX_ATTEMPTS env, jo_backoff = ''custom'',
     jo_completeAge = 3600, jo_completeCount = Some 1000, jo_failAge = 86400\<rparr>"

definition enqueue :: "'q bull \<Rightarrow> EnvVars \<Rightarrow> job_data \<Rightarrow> 'q \<Rightarrow> (exn + string) \<times> 'q" where
  "enqueue Q env d q = bull_add Q ENRICH_TICKET_JOB d (standard_opts env (jd_idempotencyKey d)) q"

definition replay_job_id :: "string \<Rightarrow> uuid \<Rightarrow> string" where
  "replay_job_id key deadLetterId = key @ '':replay:'' @ deadLetterId"

definition enqueueReplay ::
  "'q bull \<Rightarrow> EnvVars \<Rightarrow> job_data \<Rightarrow> uuid \<Rightarrow> 'q \<Rightarrow> (exn + string) \<times> 'q" where
  "enqueueReplay Q env d deadLetterId q =
     bull_add Q ENRICH_TICKET_JOB (d\<lparr>jd_replayOf := Some deadLetterId\<rparr>)
       (standard_opts env (replay_job_id (jd_idempotencyKey d) deadLetterId)) q"

definition upgrade_job_id :: "(int \<Rightarrow> string) \<Rightarrow> string \<Rightarrow> int \<Rightarrow> string" where
  "upgrade_job_id show_int key n = key @ '':upgrade:'' @ show_int n"

definition enqueueUpgrade ::
  "(int \<Rightarrow> string) \<Rightarrow> 'q bull \<Rightarrow> EnvVars \<Rightarrow> job_data \<Rightarrow> int \<Rightarrow> 'q \<Rightarrow> (exn + string) \<times> 'q" where
  "enqueueUpgrade show_int Q env d delayMs q =
     (let n = (case jd_upgradeAttempt d of Some n \<Rightarrow> n | None \<Rightarrow> 1) in
      bull_add Q ENRICH_TICKET_JOB d
        ((standard_opts env (upgrade_job_id show_int (jd_idempotencyKey d) n))\<lparr>jo_delay := Some delayMs\<rparr>) q)"

definition reconcileJobTtlSeconds :: "EnvVars \<Rightarrow> int" where
  "reconcileJobTtlSeconds env = max 5 \<lfloor>real_of_int (RECONCILE_SWEEP_INTERVAL_MS env) / 1000 / 2\<rfloor>"

definition reconcile_job_id :: "string \<Rightarrow> string" where
  "reconcile_job_id key = key @ '':reconcile:0''"

definition reconcile_opts :: "EnvVars \<Rightarrow> string \<Rightarrow> job_opts" where
  "reconcile_opts env jobId = (standard_opts env jobId)
     \<lparr>jo_completeAge := reconcileJobTtlSeconds env, jo_completeCount := None,
      jo_failAge := reconcileJobTtlSeconds env\<rparr>"

text \<open>
  \<open>enqueueReconcile\<close>: a failed job under the id is removed, then the add; the answer is whether the
  id came back and there was no job before.
\<close>

definition clear_failed :: "'q bull \<Rightarrow> string \<Rightarrow> 'q \<Rightarrow> (exn + bool) \<times> 'q" where
  "clear_failed Q jobId q = (case bull_getJob Q jobId q of
       Inl e \<Rightarrow> (Inl e, q)
     | Inr None \<Rightarrow> (Inr False, q)
     | Inr (Some j) \<Rightarrow>
         (case bull_isFailed Q j q of
            Inl e \<Rightarrow> (Inl e, q)
          | Inr False \<Rightarrow> (Inr True, q)
          | Inr True \<Rightarrow> (case bull_remove Q j q of
                (Inl e, q') \<Rightarrow> (Inl e, q')
              | (Inr _, q') \<Rightarrow> (Inr True, q'))))"

definition enqueueReconcile ::
  "'q bull \<Rightarrow> EnvVars \<Rightarrow> job_data \<Rightarrow> 'q \<Rightarrow> (exn + bool) \<times> 'q" where
  "enqueueReconcile Q env d q =
     (let jobId = reconcile_job_id (jd_idempotencyKey d) in
      case clear_failed Q jobId q of
        (Inl e, q1) \<Rightarrow> (Inl e, q1)
      | (Inr existing, q1) \<Rightarrow>
          (case bull_add Q ENRICH_TICKET_JOB d (reconcile_opts env jobId) q1 of
             (Inl e, q2) \<Rightarrow> (Inl e, q2)
           | (Inr i, q2) \<Rightarrow> (Inr (i = jobId \<and> \<not> existing), q2)))"

lemmas producer_defs [step_defs] =
  enqueue_def enqueueReplay_def enqueueUpgrade_def enqueueReconcile_def

subsection \<open>A queue that satisfies the laws\<close>

text \<open>
  For concrete inputs: a list of jobs, refusing the ids BullMQ refuses, and failing every call
  while it is down.
\<close>

record ref_queue =
  rq_jobs :: "(string \<times> bull_job) list"
  rq_up :: bool

definition redis_down :: exn where
  "redis_down = JsError ''Connection is closed.''"

definition ref_bull :: "ref_queue bull" where
  "ref_bull = \<lparr>
     bull_add = (\<lambda>nm d opts q.
       if \<not> rq_up q then (Inl redis_down, q)
       else if \<not> bull_id_ok (jo_jobId opts) then (Inl (JsError ''Custom Id''), q)
       else if map_of (rq_jobs q) (jo_jobId opts) = None
         then (Inr (jo_jobId opts), q\<lparr>rq_jobs := (jo_jobId opts, new_job d opts) # rq_jobs q\<rparr>)
       else (Inr (jo_jobId opts), q)),
     bull_getJob = (\<lambda>i q. if \<not> rq_up q then Inl redis_down
       else Inr (if map_of (rq_jobs q) i = None then None else Some i)),
     bull_isFailed = (\<lambda>i q. if \<not> rq_up q then Inl redis_down
       else Inr (case map_of (rq_jobs q) i of Some j \<Rightarrow> bj_failed j | None \<Rightarrow> False)),
     bull_remove = (\<lambda>i q. if \<not> rq_up q then (Inl redis_down, q)
       else (Inr (), q\<lparr>rq_jobs := filter (\<lambda>(k, _). k \<noteq> i) (rq_jobs q)\<rparr>))\<rparr>"

definition ref_jobs :: "ref_queue \<Rightarrow> string \<rightharpoonup> bull_job" where
  "ref_jobs q = map_of (rq_jobs q)"

definition empty_queue :: ref_queue where
  "empty_queue = \<lparr>rq_jobs = [], rq_up = True\<rparr>"

lemma map_of_filter_key: "map_of (filter (\<lambda>(k, _). k \<noteq> i) xs) = (map_of xs)(i := None)"
  by (induction xs) (auto simp: fun_eq_iff)

lemma ref_bull_laws: "bull_laws ref_bull ref_jobs"
  by (simp add: bull_laws_def ref_bull_def ref_jobs_def map_of_filter_key)

end
