(* ===== verification/Job_Ids.thy ===== *)
theory Job_Ids
  imports Producer
begin

section \<open>Job ids: which exist, which BullMQ takes, what a second add does\<close>

text \<open>
  \<open>assertUsableAsJobId\<close> of src/events/events.service.ts guards the keys the producer's ids are built
  from. Together they keep every id acceptable to BullMQ and all of them apart; the producer's
  operations are then described by what they do to the jobs the queue holds.
\<close>

subsection \<open>The guard\<close>

definition is_alnum :: "char \<Rightarrow> bool" where
  "is_alnum c \<longleftrightarrow> is_digit c \<or> is_upper c \<or> is_lower c"

definition key_char :: "char \<Rightarrow> bool" where
  "key_char c \<longleftrightarrow> is_alnum c \<or> c \<in> {CHR ''.'', CHR ''_'', CHR ''~'', CHR ''-''}"

text \<open>\<open>/^[A-Za-z0-9][A-Za-z0-9._~-]{0,254}$/\<close>.\<close>

definition matches_key_pattern :: "string \<Rightarrow> bool" where
  "matches_key_pattern k = (case k of
     [] \<Rightarrow> False
   | c # cs \<Rightarrow> is_alnum c \<and> list_all key_char cs \<and> length cs \<le> 254)"

definition bad_key_msg :: string where
  "bad_key_msg = ''idempotencyKey must be 1-255 characters of letters, digits, dot, underscore, tilde or hyphen (no colons)''"

definition digits_key_msg :: string where
  "digits_key_msg = ''idempotencyKey must not consist only of digits''"

definition assertUsableAsJobId :: "string \<Rightarrow> exn + unit" where
  "assertUsableAsJobId key =
     (if \<not> matches_key_pattern key then Inl (BadRequestException bad_key_msg)
      else if key \<noteq> [] \<and> list_all is_digit key then Inl (BadRequestException digits_key_msg)
      else Inr ())"

lemma assertUsable_cases:
  assumes "assertUsableAsJobId key = Inr ()"
  shows "matches_key_pattern key" "\<not> list_all is_digit key" "key \<noteq> []"
  using assms by (auto simp: assertUsableAsJobId_def matches_key_pattern_def split: if_splits list.splits)

lemma key_char_no_colon: "key_char c \<Longrightarrow> c \<noteq> CHR '':''"
  by (auto simp: key_char_def is_alnum_def is_digit_def is_upper_def is_lower_def code_def)

lemma usable_no_colon:
  assumes "assertUsableAsJobId key = Inr ()"
  shows "CHR '':'' \<notin> set key"
proof -
  have "list_all key_char key"
    using assertUsable_cases(1) [OF assms]
    by (auto simp: matches_key_pattern_def key_char_def split: list.splits)
  then show ?thesis using key_char_no_colon by (auto simp: list_all_iff)
qed

lemma usable_not_integer:
  assumes "assertUsableAsJobId key = Inr ()"
  shows "\<not> integer_like key"
proof -
  from assertUsable_cases [OF assms] obtain c cs where key: "key = c # cs" "is_alnum c"
    by (auto simp: matches_key_pattern_def split: list.splits)
  then have "c \<noteq> CHR ''-''"
    by (auto simp: is_alnum_def is_digit_def is_upper_def is_lower_def code_def)
  with key(1) have "\<not> starts_with ''-'' key" by simp
  with assertUsable_cases(2) [OF assms] show ?thesis by (simp add: integer_like_def)
qed

subsection \<open>The ids of a key\<close>

datatype job_kind = First | Replay uuid | Upgrade int | Reconcile

fun job_id :: "(int \<Rightarrow> string) \<Rightarrow> string \<Rightarrow> job_kind \<Rightarrow> string" where
  "job_id show_int key First = key"
| "job_id show_int key (Replay dl) = replay_job_id key dl"
| "job_id show_int key (Upgrade n) = upgrade_job_id show_int key n"
| "job_id show_int key Reconcile = reconcile_job_id key"

text \<open>How a suffix looks: dead-letter ids are UUIDs, attempt numbers decimals; no colons in either.\<close>

fun kind_ok :: "(int \<Rightarrow> string) \<Rightarrow> job_kind \<Rightarrow> bool" where
  "kind_ok show_int (Replay dl) = (CHR '':'' \<notin> set dl)"
| "kind_ok show_int (Upgrade n) = (CHR '':'' \<notin> set (show_int n))"
| "kind_ok show_int k = True"

fun kind_suffix :: "(int \<Rightarrow> string) \<Rightarrow> job_kind \<Rightarrow> string" where
  "kind_suffix show_int First = ''''"
| "kind_suffix show_int (Replay dl) = '':replay:'' @ dl"
| "kind_suffix show_int (Upgrade n) = '':upgrade:'' @ show_int n"
| "kind_suffix show_int Reconcile = '':reconcile:0''"

lemma job_id_suffix: "job_id show_int key k = key @ kind_suffix show_int k"
  by (cases k) (simp_all add: replay_job_id_def upgrade_job_id_def reconcile_job_id_def)

lemma kind_suffix_inject:
  assumes "inj show_int"
  shows "kind_suffix show_int a = kind_suffix show_int b \<longleftrightarrow> a = b"
  using assms by (cases a; cases b) (auto simp: inj_def)

lemma suffix_colon: "kind_suffix show_int k = [] \<or> (\<exists>t. kind_suffix show_int k = CHR '':'' # t)"
  by (cases k) auto

lemma three_parts:
  assumes "CHR '':'' \<notin> set a" and "CHR '':'' \<notin> set b" and "CHR '':'' \<notin> set c"
  shows "length (str_split (CHR '':'') (a @ CHR '':'' # b @ CHR '':'' # c)) = 3"
  using assms by (simp add: str_split_append_sep str_split_free)

lemma colon_not_digits: "CHR '':'' \<in> set s \<Longrightarrow> \<not> list_all is_digit s"
proof
  assume "CHR '':'' \<in> set s" and "list_all is_digit s"
  then have "is_digit (CHR '':'')" by (simp add: list_all_iff)
  then show False by (simp add: is_digit_def code_def)
qed

lemma job_id_ok:
  assumes "assertUsableAsJobId key = Inr ()" and "kind_ok show_int k"
  shows "bull_id_ok (job_id show_int key k)"
proof (cases "k = First")
  case True
  with assms usable_no_colon usable_not_integer assertUsable_cases(3) show ?thesis
    by (simp add: bull_id_ok_def)
next
  case False
  then have colon: "CHR '':'' \<in> set (job_id show_int key k)"
    by (cases k) (auto simp: job_id_suffix)
  then have "\<not> list_all is_digit (job_id show_int key k)" by (rule colon_not_digits)
  moreover have "\<not> list_all is_digit (tl (job_id show_int key k))"
  proof -
    obtain c cs where key: "key = c # cs" using assertUsable_cases(3) [OF assms(1)] by (cases key) auto
    with False have "CHR '':'' \<in> set (tl (job_id show_int key k))" by (cases k) (auto simp: job_id_suffix)
    then show ?thesis by (rule colon_not_digits)
  qed
  ultimately have "\<not> integer_like (job_id show_int key k)"
    by (auto simp: integer_like_def Let_def)
  moreover have "length (str_split (CHR '':'') (job_id show_int key k)) = 3"
    using three_parts [OF usable_no_colon [OF assms(1)], of "''replay''"]
      three_parts [OF usable_no_colon [OF assms(1)], of "''upgrade''"]
      three_parts [OF usable_no_colon [OF assms(1)], of "''reconcile''" "''0''"] assms(2) False
    by (cases k) (simp_all add: job_id_suffix)
  ultimately show ?thesis using colon by (auto simp: bull_id_ok_def)
qed

text \<open>
  C25: a key the guard lets in can be enqueued in every way the pipeline knows: as a first run, a
  replay, an upgrade or a reconcile, its job id is one BullMQ takes; and no two of these ids, of the
  same key or of different keys, are ever the same, so none suppresses another.
\<close>

theorem job_ids_usable_and_distinct:
  assumes "assertUsableAsJobId key = Inr ()" and "assertUsableAsJobId key' = Inr ()"
    and "kind_ok show_int k" and "kind_ok show_int k'" and "inj show_int"
  shows "bull_id_ok (job_id show_int key k)
    \<and> (job_id show_int key k = job_id show_int key' k' \<longleftrightarrow> key = key' \<and> k = k')"
proof
  show "bull_id_ok (job_id show_int key k)" by (rule job_id_ok [OF assms(1,3)])
  have free: "CHR '':'' \<notin> set key" "CHR '':'' \<notin> set key'"
    using assms(1,2) by (simp_all add: usable_no_colon)
  have "key @ kind_suffix show_int k = key' @ kind_suffix show_int k' \<longleftrightarrow>
      key = key' \<and> kind_suffix show_int k = kind_suffix show_int k'"
    using suffix_colon [of show_int k] suffix_colon [of show_int k'] free
    by (elim disjE exE) (auto simp: sep_append_inject)
  then show "job_id show_int key k = job_id show_int key' k' \<longleftrightarrow> key = key' \<and> k = k'"
    by (simp add: job_id_suffix kind_suffix_inject [OF assms(5)])
qed

definition tally :: "int \<Rightarrow> string" where
  "tally n = (if n < 0 then ''-'' else '''') @ replicate (nat \<bar>n\<bar>) (CHR ''1'')"

lemma tally_inj: "inj tally"
proof (rule injI)
  fix m n assume eq: "tally m = tally n"
  have hd: "(hd (tally n) = CHR ''-'') = (n < 0)" if "tally n \<noteq> []" for n
    using that by (cases "nat \<bar>n\<bar>") (auto simp: tally_def split: if_splits)
  have len: "length (tally n) = nat \<bar>n\<bar> + (if n < 0 then 1 else 0)" for n by (simp add: tally_def)
  from eq len [of m] len [of n] hd [of m] hd [of n] show "m = n"
    by (cases "tally n = []") (auto split: if_splits)
qed

theorem job_ids_usable_and_distinct_witness:
  "bull_id_ok ''order-1:upgrade:11'' \<and> job_id tally ''order-1'' (Upgrade 2) \<noteq> job_id tally ''order-1'' Reconcile"
proof -
  have "assertUsableAsJobId ''order-1'' = Inr ()"
    by (simp add: assertUsableAsJobId_def matches_key_pattern_def is_alnum_def key_char_def is_digit_def
        is_upper_def is_lower_def code_def)
  from job_ids_usable_and_distinct [OF this this _ _ tally_inj, of "Upgrade 2" Reconcile]
  show ?thesis by (simp add: tally_def upgrade_job_id_def numeral_2_eq_2)
qed

subsection \<open>Adding twice\<close>

lemma enqueue_laws:
  assumes "bull_laws Q jobs" and "enqueue Q env d q = (Inr i, q')"
  shows "i = jd_idempotencyKey d"
    and "jobs q' = (if jobs q i = None then (jobs q)(i \<mapsto> new_job d (standard_opts env i)) else jobs q)"
  using bull_add_ok [OF assms(1) assms(2) [unfolded enqueue_def]] by (auto simp: standard_opts_def)

lemma enqueueReplay_laws:
  assumes "bull_laws Q jobs" and "enqueueReplay Q env d dl q = (Inr i, q')"
  shows "i = replay_job_id (jd_idempotencyKey d) dl \<and> jobs q' = (if jobs q i = None
    then (jobs q)(i \<mapsto> new_job (d\<lparr>jd_replayOf := Some dl\<rparr>) (standard_opts env i)) else jobs q)"
  using bull_add_ok [OF assms(1) assms(2) [unfolded enqueueReplay_def]] by (auto simp: standard_opts_def)

lemma enqueueUpgrade_laws:
  assumes "bull_laws Q jobs" and "enqueueUpgrade show_int Q env d delay q = (Inr i, q')"
    and "jd_upgradeAttempt d = Some n"
  shows "i = upgrade_job_id show_int (jd_idempotencyKey d) n \<and> jobs q' = (if jobs q i = None
    then (jobs q)(i \<mapsto> new_job d ((standard_opts env i)\<lparr>jo_delay := Some delay\<rparr>)) else jobs q)"
  using bull_add_ok [OF assms(1) assms(2) [unfolded enqueueUpgrade_def Let_def]] assms(3)
  by (auto simp: standard_opts_def)

text \<open>
  Enqueueing is idempotent per key: the first one creates the run, with the configured number of
  attempts, and every later one of the same key answers the same job and leaves the queue as it is.
\<close>

lemma enqueue_once_per_key:
  assumes "bull_laws Q jobs" and "enqueue Q env d q = (Inr i, q1)"
    and "enqueue Q env d' q1 = (Inr j, q2)" and "jd_idempotencyKey d' = jd_idempotencyKey d"
  shows "i = jd_idempotencyKey d \<and> j = i \<and> jobs q2 = jobs q1
    \<and> (jobs q i = None \<longrightarrow> (\<exists>job. jobs q1 = (jobs q)(i \<mapsto> job) \<and> bj_data job = d
         \<and> jo_attempts (bj_opts job) = PIPELINE_MAX_ATTEMPTS env \<and> \<not> bj_failed job))
    \<and> (jobs q i \<noteq> None \<longrightarrow> jobs q1 = jobs q)"
  using enqueue_laws [OF assms(1,2)] enqueue_laws [OF assms(1,3)] assms(4)
  by (auto simp: new_job_def standard_opts_def split: if_splits)

definition order_job :: job_data where
  "order_job = \<lparr>jd_idempotencyKey = ''order-1'', jd_ticketId = ''t1'', jd_eventId = ''e1'',
     jd_correlationId = None, jd_replayOf = None, jd_upgradeAttempt = None\<rparr>"

lemma order_id_ok: "bull_id_ok ''order-1''"
  by (simp add: bull_id_ok_def integer_like_def is_digit_def code_def)

lemma enqueue_once_per_key_witness:
  "fst (enqueue ref_bull env_defaults order_job (snd (enqueue ref_bull env_defaults order_job empty_queue)))
     = Inr ''order-1''
   \<and> length (rq_jobs (snd (enqueue ref_bull env_defaults order_job
        (snd (enqueue ref_bull env_defaults order_job empty_queue))))) = 1"
proof -
  let ?q1 = "empty_queue\<lparr>rq_jobs := [(''order-1'', new_job order_job (standard_opts env_defaults ''order-1''))]\<rparr>"
  have one: "enqueue ref_bull env_defaults order_job empty_queue = (Inr ''order-1'', ?q1)"
    by (simp add: enqueue_def ref_bull_def empty_queue_def order_job_def standard_opts_def order_id_ok)
  have two: "enqueue ref_bull env_defaults order_job ?q1 = (Inr ''order-1'', ?q1)"
    by (simp add: enqueue_def ref_bull_def empty_queue_def order_job_def standard_opts_def order_id_ok)
  from enqueue_once_per_key [OF ref_bull_laws one two] one two show ?thesis by simp
qed

subsection \<open>Reconcile jobs\<close>

lemma enqueueReconcile_case_aux:
  assumes "bull_laws Q jobs" and "enqueueReconcile Q env d q = (Inr redriven, q')"
    and "i = reconcile_job_id (jd_idempotencyKey d)"
  shows "case jobs q i of
      None \<Rightarrow> redriven \<and> jobs q' = (jobs q)(i \<mapsto> new_job d (reconcile_opts env i))
    | Some job \<Rightarrow> \<not> redriven \<and> jobs q' = (if bj_failed job
        then (jobs q)(i \<mapsto> new_job d (reconcile_opts env i)) else jobs q)"
proof -
  note add = bull_add_ok [OF assms(1)] and get = bull_getJob_ok [OF assms(1)]
    and failed = bull_isFailed_ok [OF assms(1)] and remove = bull_remove_ok [OF assms(1)]
  have [simp]: "jo_jobId (reconcile_opts env i) = i" by (simp add: reconcile_opts_def standard_opts_def)
  obtain existing q1 i' where clear: "clear_failed Q i q = (Inr existing, q1)"
    and rest': "bull_add Q ENRICH_TICKET_JOB d (reconcile_opts env i) q1 = (Inr i', q')"
    and answer': "redriven = (i' = i \<and> \<not> existing)"
    using assms(2,3) by (auto simp: enqueueReconcile_def Let_def split: sum.splits prod.splits)
  have i': "i' = i" using add [OF rest'] by simp
  have rest: "bull_add Q ENRICH_TICKET_JOB d (reconcile_opts env i) q1 = (Inr i, q')"
    and answer: "redriven = (\<not> existing)" using rest' answer' i' by simp_all
  show ?thesis
  proof (cases "jobs q i")
    case None
    from clear obtain r where got: "bull_getJob Q i q = Inr r"
      by (auto simp: clear_failed_def split: sum.splits)
    with get None have "r = None" by fastforce
    with clear got have "existing = False" "q1 = q" by (simp_all add: clear_failed_def)
    with None answer add [OF rest] show ?thesis by simp
  next
    case (Some job)
    from clear obtain r where "bull_getJob Q i q = Inr r"
      by (auto simp: clear_failed_def split: sum.splits)
    with get Some have got: "bull_getJob Q i q = Inr (Some i)" by fastforce
    show ?thesis
    proof (cases "bj_failed job")
      case True
      with clear got failed [OF _ Some] remove have "existing" "jobs q1 = (jobs q)(i := None)"
        by (auto simp: clear_failed_def split: sum.splits bool.splits prod.splits)
      with Some True answer add [OF rest] show ?thesis by simp
    next
      case False
      with clear got failed [OF _ Some] have "existing" "q1 = q"
        by (auto simp: clear_failed_def split: sum.splits bool.splits prod.splits)
      with Some False answer add [OF rest] show ?thesis by simp
    qed
  qed
qed

text \<open>
  What a successful \<open>enqueueReconcile\<close> does. Without a job under the id it adds one and says so;
  a live job suppresses it and it says so; but a failed job is replaced by a new one while the
  answer is still \<open>false\<close>: \<open>!existing\<close> looks at the handle of the job just removed, so a real
  re-drive goes uncounted.
\<close>

lemma enqueueReconcile_answers:
  assumes "bull_laws Q jobs" and "enqueueReconcile Q env d q = (Inr redriven, q')"
    and "i = reconcile_job_id (jd_idempotencyKey d)"
  shows "case jobs q i of
      None \<Rightarrow> redriven \<and> jobs q' = (jobs q)(i \<mapsto> new_job d (reconcile_opts env i))
    | Some job \<Rightarrow> \<not> redriven \<and> jobs q' = (if bj_failed job
        then (jobs q)(i \<mapsto> new_job d (reconcile_opts env i)) else jobs q)"
  using enqueueReconcile_case_aux [OF assms] .

definition failed_reconcile :: ref_queue where
  "failed_reconcile = \<lparr>rq_jobs = [(''order-1:reconcile:0'',
     \<lparr>bj_data = order_job, bj_opts = standard_opts env_defaults ''order-1:reconcile:0'', bj_failed = True\<rparr>)],
     rq_up = True\<rparr>"

lemma enqueueReconcile_answers_witness:
  "\<exists>q'. enqueueReconcile ref_bull env_defaults order_job failed_reconcile = (Inr False, q')
     \<and> \<not> bj_failed (the (ref_jobs q' ''order-1:reconcile:0''))"
proof -
  have "bull_id_ok ''order-1:reconcile:0''"
    by (simp add: bull_id_ok_def integer_like_def is_digit_def code_def)
  then have "\<exists>q'. enqueueReconcile ref_bull env_defaults order_job failed_reconcile = (Inr False, q')"
    by (simp add: enqueueReconcile_def clear_failed_def ref_bull_def failed_reconcile_def order_job_def
        reconcile_job_id_def reconcile_opts_def standard_opts_def Let_def)
  then obtain q' where run: "enqueueReconcile ref_bull env_defaults order_job failed_reconcile = (Inr False, q')"
    by blast
  from enqueueReconcile_answers [OF ref_bull_laws run refl]
  have "\<not> bj_failed (the (ref_jobs q' ''order-1:reconcile:0''))"
    by (simp add: ref_jobs_def failed_reconcile_def order_job_def reconcile_job_id_def new_job_def)
  with run show ?thesis by blast
qed

text \<open>
  How long a finished reconcile job blocks its id. It is gone before the next sweep exactly when
  sweeps are more than five seconds apart; the configuration allows one second, and then a ticket
  still degraded is not eligible again by the next pass.
\<close>

lemma reconcile_ttl_below_interval_iff:
  assumes "env_valid env"
  shows "1000 * reconcileJobTtlSeconds env < RECONCILE_SWEEP_INTERVAL_MS env \<longleftrightarrow>
    5000 < RECONCILE_SWEEP_INTERVAL_MS env"
proof -
  let ?i = "RECONCILE_SWEEP_INTERVAL_MS env"
  have "real_of_int ?i / 1000 / 2 = real_of_int ?i / real_of_int 2000" by simp
  then have "\<lfloor>real_of_int ?i / 1000 / 2\<rfloor> = ?i div 2000" by (simp only: floor_divide_of_int_eq)
  moreover have "1000 \<le> ?i" using env_validD(9) [OF assms] .
  ultimately show ?thesis by (simp add: reconcileJobTtlSeconds_def max_def) linarith
qed

lemma reconcile_ttl_below_interval_iff_witness:
  "\<not> 1000 * reconcileJobTtlSeconds (env_defaults\<lparr>RECONCILE_SWEEP_INTERVAL_MS := 2000\<rparr>) < 2000"
proof -
  have "env_valid (env_defaults\<lparr>RECONCILE_SWEEP_INTERVAL_MS := 2000\<rparr>)"
    by (simp add: env_valid_def env_defaults_def)
  from reconcile_ttl_below_interval_iff [OF this] show ?thesis by simp
qed

end
