(* ===== verification/Tickets.thy ===== *)
theory Tickets
  imports Entities
begin

section \<open>Reading tickets (src/tickets)\<close>

text \<open>\<open>TicketsService.findByIdOrThrow\<close> and the public view of \<open>TicketsController\<close>.\<close>

abbreviation tk_row :: "uuid \<Rightarrow> db \<Rightarrow> ticket_row option" where
  "tk_row i d \<equiv> row_with tk_id i (tickets d)"

definition ticket_missing :: "uuid \<Rightarrow> exn" where
  "ticket_missing i = NotFoundException (''ticket '' @ i @ '' not found'')"

definition findByIdOrThrow :: "uuid \<Rightarrow> db \<Rightarrow> exn + ticket_row" where
  "findByIdOrThrow i d = (case tk_row i d of None \<Rightarrow> Inl (ticket_missing i) | Some t \<Rightarrow> Inr t)"

record enrichment_view =
  vw_status :: EnrichmentStatus
  vw_source :: "EnrichmentSource option"
  vw_category :: "TicketCategory option"
  vw_priority :: "TicketPriority option"
  vw_summary :: "string option"
  vw_confidence :: "rat option"
  vw_attempts :: int
  vw_enrichedAt :: "timestamp option"

record ticket_view =
  vt_id :: uuid
  vt_subject :: string
  vt_body :: string
  vt_requesterEmail :: "string option"
  vt_enrichment :: enrichment_view
  vt_createdAt :: timestamp
  vt_updatedAt :: timestamp

definition toView :: "ticket_row \<Rightarrow> ticket_view" where
  "toView t = \<lparr>vt_id = tk_id t, vt_subject = tk_subject t, vt_body = tk_body t,
     vt_requesterEmail = tk_requesterEmail t,
     vt_enrichment = \<lparr>vw_status = tk_enrichmentStatus t, vw_source = tk_enrichmentSource t,
       vw_category = tk_category t, vw_priority = tk_priority t, vw_summary = tk_summary t,
       vw_confidence = tk_confidence t, vw_attempts = tk_enrichmentAttempts t,
       vw_enrichedAt = tk_enrichedAt t\<rparr>,
     vt_createdAt = tk_createdAt t, vt_updatedAt = tk_updatedAt t\<rparr>"

definition getTicket :: "uuid \<Rightarrow> db \<Rightarrow> exn + ticket_view" where
  "getTicket i d = (case findByIdOrThrow i d of Inl e \<Rightarrow> Inl e | Inr t \<Rightarrow> Inr (toView t))"

lemma findByIdOrThrow_ok:
  "findByIdOrThrow i d = Inr t \<longleftrightarrow> tk_row i d = Some t"
  by (auto simp: findByIdOrThrow_def split: option.splits)

text \<open>Updating the rows with one primary key, possibly under a guard.\<close>

lemma tk_row_update:
  assumes "tickets d' = update_where (\<lambda>t. tk_id t = i \<and> p t) f (tickets d)"
    and "\<And>t. tk_id (f t) = tk_id t"
  shows "tk_row j d' = map_option (\<lambda>t. if j = i \<and> p t then f t else t) (tk_row j d)"
  using assms
  by (auto simp: row_with_update_where map_option_case split: option.splits dest!: row_with_SomeD)

lemma schema_ok_ticket_update:
  assumes "schema_ok d" and "\<And>t. tk_id (f t) = tk_id t" and "\<And>t. tk_eventId (f t) = tk_eventId t"
  shows "schema_ok (d\<lparr>tickets := update_where p f (tickets d)\<rparr>)"
proof -
  have "values_of tk_id (update_where p f (tickets d)) = values_of tk_id (tickets d)"
    by (rule values_of_update_where) (simp add: assms(2))
  moreover have "unique_by tk_id (update_where p f (tickets d))"
    using assms(1,2) by (simp add: unique_by_update_where schema_ok_def)
  moreover have "tickets_fk_ok (d\<lparr>tickets := update_where p f (tickets d)\<rparr>)"
    using assms(1,3) by (auto simp: schema_ok_def tickets_fk_ok_def set_update_where)
  ultimately show ?thesis using assms(1) by (simp add: schema_ok_def idem_fk_ok_def)
qed

end
