(* ===== verification/Canonical_Hash.thy ===== *)
theory Canonical_Hash
  imports Js_Values
begin

section \<open>The content hash (src/common/hash/canonical-hash.ts)\<close>

text \<open>
  \<open>canonicalize\<close>, \<open>JSON.stringify\<close> on its result, and \<open>hashPayload\<close>. SHA-256 and the printing of
  a number are parameters. A JavaScript object enumerates its array-index keys first, by number,
  then the others in insertion order, and assigning to \<open>__proto__\<close> adds no key: \<open>js_put\<close>.
  \<open>denote\<close> is what a payload means, an object being a finite map.
\<close>

subsection \<open>Canonical form\<close>

definition digits_val :: "string \<Rightarrow> nat" where
  "digits_val s = foldl (\<lambda>n c. 10 * n + (code c - 48)) 0 s"

definition is_array_index :: "string \<Rightarrow> bool" where
  "is_array_index s \<longleftrightarrow> s \<noteq> [] \<and> list_all is_digit s \<and> (s = ''0'' \<or> hd s \<noteq> CHR ''0'')
     \<and> digits_val s < 2 ^ 32 - 1"

fun put_index :: "string \<Rightarrow> 'v \<Rightarrow> (string \<times> 'v) list \<Rightarrow> (string \<times> 'v) list" where
  "put_index k v [] = [(k, v)]"
| "put_index k v ((k', v') # ps) =
     (if k' = k then (k, v) # ps
      else if is_array_index k' \<and> digits_val k' < digits_val k then (k', v') # put_index k v ps
      else (k, v) # (k', v') # ps)"

text \<open>\<open>o[k] = v\<close> on a plain object.\<close>

definition js_put :: "string \<Rightarrow> 'v \<Rightarrow> (string \<times> 'v) list \<Rightarrow> (string \<times> 'v) list" where
  "js_put k v ps =
     (if k = ''__proto__'' then ps
      else if is_array_index k then put_index k v ps
      else map_set k v ps)"

text \<open>\<open>reduce\<close> over the sorted keys, starting from an empty object.\<close>

definition rebuild :: "(string \<times> 'v) list \<Rightarrow> (string \<times> 'v) list" where
  "rebuild ps = fold (\<lambda>(k, v) acc. js_put k v acc) (sort_key fst ps) []"

fun canonicalize :: "json \<Rightarrow> json" where
  "canonicalize (JArr xs) = JArr (map canonicalize xs)"
| "canonicalize (JObj ps) = JObj (rebuild (map (\<lambda>(k, v). (k, canonicalize v)) ps))"
| "canonicalize v = v"

subsection \<open>JSON.stringify\<close>

definition hex_digit :: "nat \<Rightarrow> char" where
  "hex_digit n = ''0123456789abcdef'' ! n"

text \<open>The one-letter escapes.\<close>

definition short_escapes :: "(char \<times> char) list" where
  "short_escapes = [(CHR 0x22, CHR 0x22), (CHR 0x5C, CHR 0x5C), (CHR 0x08, CHR ''b''),
     (CHR 0x09, CHR ''t''), (CHR 0x0A, CHR ''n''), (CHR 0x0C, CHR ''f''), (CHR 0x0D, CHR ''r'')]"

definition escape :: "char \<Rightarrow> string" where
  "escape c = (case map_of short_escapes c of
       Some e \<Rightarrow> [CHR 0x5C, e]
     | None \<Rightarrow>
         if code c < 32
         then [CHR 0x5C, CHR ''u'', CHR ''0'', CHR ''0'', hex_digit (code c div 16), hex_digit (code c mod 16)]
         else [c])"

definition quoted :: "string \<Rightarrow> string" where
  "quoted s = CHR 0x22 # concat (map escape s) @ [CHR 0x22]"

fun stringify :: "(rat \<Rightarrow> string) \<Rightarrow> json \<Rightarrow> string" where
  "stringify num JNull = ''null''"
| "stringify num (JBool b) = (if b then ''true'' else ''false'')"
| "stringify num (JNum x) = num x"
| "stringify num (JStr s) = quoted s"
| "stringify num (JArr xs) = ''['' @ str_join '','' (map (stringify num) xs) @ '']''"
| "stringify num (JObj ps) =
     ''{'' @ str_join '','' (map (\<lambda>(k, v). quoted k @ '':'' @ stringify num v) ps) @ ''}''"

definition canonical_text :: "(rat \<Rightarrow> string) \<Rightarrow> json \<Rightarrow> string" where
  "canonical_text num payload = stringify num (canonicalize payload)"

definition hashPayload :: "(rat \<Rightarrow> string) \<Rightarrow> (string \<Rightarrow> string) \<Rightarrow> json \<Rightarrow> string" where
  "hashPayload num sha256Hex payload = sha256Hex (canonical_text num payload)"

subsection \<open>What a payload means\<close>

datatype jval =
    VNull
  | VBool bool
  | VNum rat
  | VStr string
  | VArr "jval list"
  | VObj "string \<rightharpoonup> jval"

fun denote :: "json \<Rightarrow> jval" where
  "denote JNull = VNull"
| "denote (JBool b) = VBool b"
| "denote (JNum x) = VNum x"
| "denote (JStr s) = VStr s"
| "denote (JArr xs) = VArr (map denote xs)"
| "denote (JObj ps) = VObj (map_of (map (\<lambda>(k, v). (k, denote v)) ps))"

text \<open>A payload of distinct keys, none of them \<open>__proto__\<close>.\<close>

fun plain_json :: "json \<Rightarrow> bool" where
  "plain_json (JArr xs) = list_all plain_json xs"
| "plain_json (JObj ps) =
     (distinct (map fst ps) \<and> ''__proto__'' \<notin> fst ` set ps \<and> list_all (\<lambda>(k, v). plain_json v) ps)"
| "plain_json v = True"

subsection \<open>Objects\<close>

lemma map_of_put_index: "map_of (put_index k v ps) = (map_of ps)(k \<mapsto> v)"
  by (induction k v ps rule: put_index.induct) (auto simp: fun_eq_iff)

lemma map_of_js_put: "k \<noteq> ''__proto__'' \<Longrightarrow> map_of (js_put k v ps) = (map_of ps)(k \<mapsto> v)"
  by (simp add: js_put_def map_of_put_index map_of_map_set)

lemma map_of_fold_put:
  assumes "''__proto__'' \<notin> fst ` set ps"
  shows "map_of (fold (\<lambda>(k, v) acc. js_put k v acc) ps acc) = map_of acc ++ map_of (rev ps)"
  using assms
proof (induction ps arbitrary: acc)
  case Nil
  then show ?case by simp
next
  case (Cons p ps)
  obtain k v where p: "p = (k, v)" by (cases p)
  with Cons.prems have "k \<noteq> ''__proto__''" by auto
  with Cons p show ?case by (auto simp: map_of_js_put map_add_def fun_eq_iff split: option.splits)
qed

lemma map_of_rebuild:
  assumes "distinct (map fst ps)" and "''__proto__'' \<notin> fst ` set ps"
  shows "map_of (rebuild ps) = map_of ps"
proof -
  have "distinct (map fst (rev (sort_key fst ps)))" using assms(1) by (simp add: distinct_map rev_map)
  then have "map_of (rev (sort_key fst ps)) = map_of ps"
    using assms(1) by (simp add: map_of_inject_set)
  with assms(2) show ?thesis by (simp add: rebuild_def map_of_fold_put)
qed

text \<open>Rebuilding forgets the order in which the keys came.\<close>

lemma rebuild_order:
  assumes "distinct (map fst ps)" and "distinct (map fst qs)" and "map_of ps = map_of qs"
  shows "rebuild ps = rebuild qs"
proof -
  have "set ps = set qs" using assms by (simp add: map_of_inject_set)
  moreover have "inj_on fst (set ps \<union> set qs)"
    using calculation assms(1) by (simp add: distinct_map)
  ultimately have "sort_key fst ps = sort_key fst qs"
    using assms(1,2) by (intro map_sorted_distinct_set_unique [where f = fst]) (simp_all add: distinct_map)
  then show ?thesis by (simp add: rebuild_def)
qed

lemma denote_obj: "denote (JObj ps) = VObj (map_option denote \<circ> map_of ps)"
  by (simp add: map_of_map)

lemma canonicalize_obj:
  "canonicalize (JObj ps) = JObj (rebuild (map (\<lambda>(k, v). (k, canonicalize v)) ps))"
  by simp

lemma keys_map [simp]:
  "map fst (map (\<lambda>(k, v). (k, f v)) ps) = map fst ps"
  "fst ` set (map (\<lambda>(k, v). (k, f v)) ps) = fst ` set ps"
  by (simp_all add: case_prod_beta' image_image)

lemma map_of_canonical:
  assumes "plain_json (JObj ps)"
  shows "map_of (rebuild (map (\<lambda>(k, v). (k, canonicalize v)) ps)) = map_option canonicalize \<circ> map_of ps"
  using assms map_of_rebuild [of "map (\<lambda>(k, v). (k, canonicalize v)) ps"]
  by (simp only: plain_json.simps keys_map map_of_map) simp

text \<open>Canonicalisation keeps the meaning, and two payloads of one meaning have one canonical form.\<close>

lemma denote_canonicalize: "plain_json j \<Longrightarrow> denote (canonicalize j) = denote j"
proof (induction j)
  case (JArr xs)
  then show ?case by (simp add: list_all_iff)
next
  case (JObj ps)
  have "map_option denote \<circ> (map_option canonicalize \<circ> map_of ps) = map_option denote \<circ> map_of ps"
  proof
    fix k
    show "(map_option denote \<circ> (map_option canonicalize \<circ> map_of ps)) k = (map_option denote \<circ> map_of ps) k"
    proof (cases "map_of ps k")
      case (Some v)
      then have kv: "(k, v) \<in> set ps" by (rule map_of_SomeD)
      with JObj.prems have "plain_json v" by (auto simp: list_all_iff)
      with JObj.IH [OF kv] Some show ?thesis by simp
    qed simp
  qed
  then show ?case
    by (simp only: canonicalize_obj denote_obj map_of_canonical [OF JObj.prems])
qed simp_all

lemma canonicalize_denote:
  "plain_json a \<Longrightarrow> plain_json b \<Longrightarrow> denote a = denote b \<Longrightarrow> canonicalize a = canonicalize b"
proof (induction a arbitrary: b)
  case (JArr xs)
  then obtain ys where b: "b = JArr ys" by (cases b) auto
  with JArr.prems have len: "map denote xs = map denote ys" by simp
  have "map canonicalize xs = map canonicalize ys"
  proof (rule nth_equalityI)
    show "length (map canonicalize xs) = length (map canonicalize ys)"
      using len by (metis length_map)
    fix i assume i: "i < length (map canonicalize xs)"
    with len have "i < length ys" "denote (xs ! i) = denote (ys ! i)"
      by (metis length_map, metis length_map nth_map)
    with JArr i b show "map canonicalize xs ! i = map canonicalize ys ! i"
      by (simp add: list_all_length)
  qed
  with b show ?case by simp
next
  case (JObj ps)
  then obtain qs where b: "b = JObj qs" by (cases b) auto
  with JObj.prems have same: "map_option denote \<circ> map_of ps = map_option denote \<circ> map_of qs"
    by (simp only: denote_obj jval.inject)
  have "map_option canonicalize \<circ> map_of ps = map_option canonicalize \<circ> map_of qs"
  proof
    fix k
    from fun_cong [OF same, of k]
    have k: "map_option denote (map_of ps k) = map_option denote (map_of qs k)" by simp
    show "(map_option canonicalize \<circ> map_of ps) k = (map_option canonicalize \<circ> map_of qs) k"
    proof (cases "map_of ps k")
      case None
      with k show ?thesis by simp
    next
      case (Some v)
      with k obtain v' where v': "map_of qs k = Some v'" "denote v = denote v'" by (cases "map_of qs k") auto
      from Some have kv: "(k, v) \<in> set ps" by (rule map_of_SomeD)
      from v'(1) have kv': "(k, v') \<in> set qs" by (rule map_of_SomeD)
      have "plain_json v" "plain_json v'"
        using JObj.prems(1,2) kv kv' b by (auto simp: list_all_iff)
      with JObj.IH [OF kv _ _ _ v'(2)] Some v' show ?thesis by simp
    qed
  qed
  then show ?case
    using JObj.prems(1,2) b
      rebuild_order [of "map (\<lambda>(k, v). (k, canonicalize v)) ps" "map (\<lambda>(k, v). (k, canonicalize v)) qs"]
    by (simp only: canonicalize_obj plain_json.simps keys_map map_of_map)
next
  case (JNum x)
  then show ?case by (cases b) auto
next
  case (JBool x)
  then show ?case by (cases b) auto
next
  case (JStr x)
  then show ?case by (cases b) auto
next
  case JNull
  then show ?case by (cases b) auto
qed

lemma canonicalize_iff:
  assumes "plain_json a" and "plain_json b"
  shows "canonicalize a = canonicalize b \<longleftrightarrow> denote a = denote b"
  using assms canonicalize_denote denote_canonicalize by metis

subsection \<open>Nothing is lost in the text\<close>

definition num_char :: "char \<Rightarrow> bool" where
  "num_char c \<longleftrightarrow> is_digit c \<or> c \<in> {CHR ''-'', CHR ''+'', CHR ''.'', CHR ''e''}"

text \<open>What the printing of numbers promises: different numbers, different texts of digits.\<close>

definition number_printer :: "(rat \<Rightarrow> string) \<Rightarrow> bool" where
  "number_printer num \<longleftrightarrow> inj num \<and> (\<forall>x. num x \<noteq> [] \<and> list_all num_char (num x))"

lemma hex_digit_inject:
  assumes "m < 16" and "n < 16"
  shows "hex_digit m = hex_digit n \<longleftrightarrow> m = n"
proof -
  have "distinct ''0123456789abcdef''" by simp
  moreover have "m < length ''0123456789abcdef''" "n < length ''0123456789abcdef''"
    using assms by simp_all
  ultimately show ?thesis unfolding hex_digit_def by (rule nth_eq_iff_index_eq)
qed

lemma code_inject: "code a = code b \<longleftrightarrow> a = b"
  by (metis char_of_char code_def)

text \<open>No escape of a character is a prefix of another's, and none begins with a quote.\<close>

lemma escape_cases:
  obtains (short) e where "map_of short_escapes c = Some e" "escape c = [CHR 0x5C, e]" "e \<noteq> CHR ''u''"
  | (control) "map_of short_escapes c = None" "code c < 32" "escape c = [CHR 0x5C, CHR ''u'', CHR ''0'', CHR ''0'',
        hex_digit (code c div 16), hex_digit (code c mod 16)]"
  | (plain) "map_of short_escapes c = None" "escape c = [c]" "c \<noteq> CHR 0x5C" "c \<noteq> CHR 0x22"
proof (cases "map_of short_escapes c")
  case None
  then have "c \<noteq> CHR 0x5C" "c \<noteq> CHR 0x22" by (auto simp: short_escapes_def)
  with None show thesis by (cases "code c < 32") (auto simp: escape_def intro: control plain)
next
  case (Some e)
  then have "e \<noteq> CHR ''u''" by (auto simp: short_escapes_def split: if_splits)
  with Some show thesis by (auto simp: escape_def intro: short)
qed

lemma short_escapes_inject:
  "map_of short_escapes c = Some e \<Longrightarrow> map_of short_escapes d = Some e \<Longrightarrow> c = d"
  by (auto simp: short_escapes_def split: if_splits)

lemma control_inject:
  assumes "code c < 32" and "code d < 32" and "hex_digit (code c div 16) = hex_digit (code d div 16)"
    and "hex_digit (code c mod 16) = hex_digit (code d mod 16)"
  shows "c = d"
proof -
  have "code c div 16 = code d div 16" "code c mod 16 = code d mod 16"
    using assms by (simp_all add: hex_digit_inject)
  then have "code c = code d" by (metis div_mult_mod_eq)
  then show ?thesis by (simp add: code_inject)
qed

lemma escape_prefix_free:
  assumes "escape c @ r = escape d @ r'"
  shows "c = d \<and> r = r'"
  using assms
  by (cases c rule: escape_cases; cases d rule: escape_cases)
     (auto dest: short_escapes_inject control_inject)

lemma escape_quote: "\<exists>x t. escape c = x # t \<and> x \<noteq> CHR 0x22"
  by (cases c rule: escape_cases) auto

lemma quoted_cancel:
  assumes "quoted s @ r = quoted t @ r'"
  shows "s = t \<and> r = r'"
proof -
  have "concat (map escape s) @ CHR 0x22 # r = concat (map escape t) @ CHR 0x22 # r' \<Longrightarrow> s = t \<and> r = r'"
  proof (induction s arbitrary: t)
    case Nil
    then show ?case using escape_quote by (cases t) (auto, metis Cons_eq_appendI list.inject)
  next
    case (Cons c s)
    show ?case
    proof (cases t)
      case Nil
      with Cons.prems show ?thesis using escape_quote [of c] by auto
    next
      case (Cons d t')
      with Cons.prems have "escape c @ (concat (map escape s) @ CHR 0x22 # r)
          = escape d @ (concat (map escape t') @ CHR 0x22 # r')" by simp
      from escape_prefix_free [OF this] Cons.IH [of t'] Cons show ?thesis by simp
    qed
  qed
  then show ?thesis using assms by (simp add: quoted_def)
qed

text \<open>What may follow a value in a text: nothing, a comma, or the end of an array or object.\<close>

definition ends :: "string \<Rightarrow> bool" where
  "ends r \<longleftrightarrow> (case r of [] \<Rightarrow> True | c # cs \<Rightarrow> c \<in> {CHR '','', CHR '']'', CHR ''}''})"

lemma ends_simps [simp]:
  "ends []" "ends (c # cs) \<longleftrightarrow> c \<in> {CHR '','', CHR '']'', CHR ''}''}"
  by (simp_all add: ends_def)

lemma num_char_apart:
  "\<not> num_char (CHR '','')" "\<not> num_char (CHR '']'')" "\<not> num_char (CHR ''}'')"
  "\<not> num_char (CHR ''n'')" "\<not> num_char (CHR ''t'')" "\<not> num_char (CHR ''f'')"
  "\<not> num_char (CHR 0x22)" "\<not> num_char (CHR ''['')" "\<not> num_char (CHR ''{'')"
  by (simp_all add: num_char_def is_digit_def code_def)

lemma number_text:
  assumes "number_printer num" and "ends r"
  shows "takeWhile num_char (num x @ r) = num x"
proof -
  have "\<forall>c \<in> set (num x). num_char c" using assms(1) by (simp add: number_printer_def list_all_iff)
  moreover have "takeWhile num_char r = []" using assms(2) num_char_apart by (cases r) auto
  ultimately show ?thesis by simp
qed

lemma number_cancel:
  assumes "number_printer num" and "num x @ r = num y @ r'" and "ends r" and "ends r'"
  shows "x = y \<and> r = r'"
proof -
  have "num x = num y"
    using number_text [OF assms(1,3), of x] number_text [OF assms(1,4), of y] assms(2) by simp
  with assms(1,2) show ?thesis by (auto simp: number_printer_def inj_def)
qed

lemma ends_tail:
  "c \<in> {CHR '']'', CHR ''}''} \<Longrightarrow> ends (concat (map (\<lambda>x. '','' @ f x) xs) @ c # r)"
  by (cases xs) auto

lemma tail_cancel:
  assumes "\<And>x y e e'. x \<in> set xs \<Longrightarrow> f x @ e = f y @ e' \<Longrightarrow> ends e \<Longrightarrow> ends e' \<Longrightarrow> x = y \<and> e = e'"
    and "c \<in> {CHR '']'', CHR ''}''}"
    and "concat (map (\<lambda>x. '','' @ f x) xs) @ c # r = concat (map (\<lambda>x. '','' @ f x) ys) @ c # r'"
  shows "xs = ys \<and> r = r'"
  using assms(1,3)
proof (induction xs arbitrary: ys)
  case Nil
  with assms(2) show ?case by (cases ys) auto
next
  case (Cons x xs)
  show ?case
  proof (cases ys)
    case Nil
    with Cons.prems(2) assms(2) show ?thesis by auto
  next
    case (Cons y ys')
    with Cons.prems(2) have eq: "f x @ (concat (map (\<lambda>x. '','' @ f x) xs) @ c # r)
        = f y @ (concat (map (\<lambda>x. '','' @ f x) ys') @ c # r')" by simp
    from Cons.prems(1) [OF _ eq ends_tail [OF assms(2)] ends_tail [OF assms(2)]]
    have "x = y"
      and rest: "concat (map (\<lambda>x. '','' @ f x) xs) @ c # r = concat (map (\<lambda>x. '','' @ f x) ys') @ c # r'"
      by simp_all
    moreover have "xs = ys' \<and> r = r'"
    proof (rule Cons.IH [OF _ rest])
      fix z w e e'
      assume "z \<in> set xs" and "f z @ e = f w @ e'" and "ends e" and "ends e'"
      with Cons.prems(1) [of z e w e'] show "z = w \<and> e = e'" by simp
    qed
    ultimately show ?thesis using Cons by simp
  qed
qed

lemma join_cancel:
  assumes cancel: "\<And>x y e e'. x \<in> set xs \<Longrightarrow> f x @ e = f y @ e' \<Longrightarrow> ends e \<Longrightarrow> ends e' \<Longrightarrow> x = y \<and> e = e'"
    and c: "c \<in> {CHR '']'', CHR ''}''}" and lead: "\<And>x. \<exists>h t. f x = h # t \<and> h \<noteq> c"
    and eq: "str_join '','' (map f xs) @ c # r = str_join '','' (map f ys) @ c # r'"
  shows "xs = ys \<and> r = r'"
proof (cases xs)
  case Nil
  show ?thesis
  proof (cases ys)
    case (Cons y ys')
    with eq Nil lead [of y] show ?thesis by (auto simp: str_join_def)
  qed (use eq Nil in simp)
next
  case xs: (Cons x xs')
  show ?thesis
  proof (cases ys)
    case Nil
    with eq xs lead [of x] show ?thesis by (auto simp: str_join_def)
  next
    case (Cons y ys')
    with eq xs have fx: "f x @ (concat (map (\<lambda>x. '','' @ f x) xs') @ c # r)
        = f y @ (concat (map (\<lambda>x. '','' @ f x) ys') @ c # r')"
      by (simp add: str_join_def comp_def)
    from cancel [OF _ fx ends_tail [OF c] ends_tail [OF c]] xs have "x = y"
      and rest: "concat (map (\<lambda>x. '','' @ f x) xs') @ c # r = concat (map (\<lambda>x. '','' @ f x) ys') @ c # r'"
      by simp_all
    moreover have "xs' = ys' \<and> r = r'"
      by (rule tail_cancel [OF _ c rest]) (use cancel xs in auto)
    ultimately show ?thesis using xs Cons by simp
  qed
qed

text \<open>The character a value's text begins with tells its constructor.\<close>

fun lead_ok :: "json \<Rightarrow> char \<Rightarrow> bool" where
  "lead_ok JNull c = (c = CHR ''n'')"
| "lead_ok (JBool b) c = (c = (if b then CHR ''t'' else CHR ''f''))"
| "lead_ok (JNum x) c = num_char c"
| "lead_ok (JStr s) c = (c = CHR 0x22)"
| "lead_ok (JArr xs) c = (c = CHR ''['')"
| "lead_ok (JObj ps) c = (c = CHR ''{'')"

lemma stringify_lead:
  assumes "number_printer num"
  shows "\<exists>c t. stringify num j = c # t \<and> lead_ok j c"
proof (cases j)
  case (JNum x)
  from assms have "num x \<noteq> []" "\<forall>c \<in> set (num x). num_char c"
    by (simp_all add: number_printer_def list_all_iff)
  with JNum show ?thesis by (cases "num x") auto
qed (simp_all add: quoted_def)

lemma lead_bracket: "lead_ok j c \<Longrightarrow> c \<noteq> CHR '']'' \<and> c \<noteq> CHR ''}''"
  by (cases j) (auto simp: num_char_apart)

lemma stringify_cancel:
  assumes num: "number_printer num"
  shows "stringify num a @ r = stringify num b @ r' \<Longrightarrow> ends r \<Longrightarrow> ends r' \<Longrightarrow> a = b \<and> r = r'"
proof (induction a arbitrary: b r r')
  case (JArr xs)
  obtain c t where "stringify num b = c # t" "lead_ok b c" using stringify_lead [OF num] by blast
  with JArr.prems(1) have "lead_ok b CHR ''[''" by simp
  then obtain ys where b: "b = JArr ys" by (cases b) (auto simp: num_char_apart split: if_splits)
  have "xs = ys \<and> r = r'"
  proof (rule join_cancel [where f = "stringify num" and c = "CHR '']''"])
    show "\<exists>h t. stringify num x = h # t \<and> h \<noteq> CHR '']''" for x
      using stringify_lead [OF num, of x] lead_bracket by blast
  qed (use JArr b in auto)
  with b show ?case by simp
next
  case (JObj ps)
  obtain c t where "stringify num b = c # t" "lead_ok b c" using stringify_lead [OF num] by blast
  with JObj.prems(1) have "lead_ok b CHR ''{''" by simp
  then obtain qs where b: "b = JObj qs" by (cases b) (auto simp: num_char_apart split: if_splits)
  let ?f = "\<lambda>(k, v). quoted k @ '':'' @ stringify num v"
  have "ps = qs \<and> r = r'"
  proof (rule join_cancel [where f = ?f and c = "CHR ''}''"])
    show "\<exists>h t. ?f p = h # t \<and> h \<noteq> CHR ''}''" for p by (cases p) (simp add: quoted_def)
    show "str_join '','' (map ?f ps) @ CHR ''}'' # r = str_join '','' (map ?f qs) @ CHR ''}'' # r'"
      using JObj.prems(1) b by simp
  next
    fix p q e e'
    assume p: "p \<in> set ps" and eq: "?f p @ e = ?f q @ e'" and ends: "ends e" "ends e'"
    obtain k v k' v' where kv: "p = (k, v)" "q = (k', v')" by (metis prod.exhaust)
    with eq have "quoted k @ ('':'' @ stringify num v @ e) = quoted k' @ ('':'' @ stringify num v' @ e')"
      by simp
    from quoted_cancel [OF this] have k: "k = k'" and v: "stringify num v @ e = stringify num v' @ e'"
      by simp_all
    have "v \<in> Basic_BNFs.snds p" using kv by simp
    from JObj.IH [OF p this v ends] k kv show "p = q \<and> e = e'" by simp
  qed simp
  with b show ?case by simp
next
  case (JNum x)
  obtain c t where ct: "stringify num b = c # t" "lead_ok b c" using stringify_lead [OF num] by blast
  obtain c' t' where ct': "num x = c' # t'" "num_char c'"
    using stringify_lead [OF num, of "JNum x"] by auto
  with ct JNum.prems(1) have "lead_ok b c'" by simp
  with ct' obtain y where b: "b = JNum y" by (cases b) (auto simp: num_char_apart split: if_splits)
  with number_cancel [OF num _ JNum.prems(2,3), of x y] JNum.prems(1) show ?case by simp
next
  case (JStr s)
  obtain c t where "stringify num b = c # t" "lead_ok b c" using stringify_lead [OF num] by blast
  with JStr.prems(1) have "lead_ok b CHR 0x22" by (simp add: quoted_def)
  then obtain u where b: "b = JStr u" by (cases b) (auto simp: num_char_apart split: if_splits)
  with quoted_cancel [of s r u r'] JStr.prems(1) show ?case by simp
next
  case (JBool x)
  obtain c t where "stringify num b = c # t" "lead_ok b c" using stringify_lead [OF num] by blast
  with JBool.prems(1) have "lead_ok b (if x then CHR ''t'' else CHR ''f'')" by (simp split: if_splits)
  then have "b = JBool x" by (cases b) (auto simp: num_char_apart split: if_splits)
  with JBool.prems(1) show ?case by simp
next
  case JNull
  obtain c t where "stringify num b = c # t" "lead_ok b c" using stringify_lead [OF num] by blast
  with JNull.prems(1) have "lead_ok b CHR ''n''" by simp
  then have "b = JNull" by (cases b) (auto simp: num_char_apart split: if_splits)
  with JNull.prems(1) show ?case by simp
qed

lemma stringify_inject:
  assumes "number_printer num"
  shows "stringify num a = stringify num b \<longleftrightarrow> a = b"
  using stringify_cancel [OF assms, of a "[]" b "[]"] by auto

subsection \<open>The request hash is the identity of the content\<close>

lemma hash_iff_content:
  assumes "plain_json a" and "plain_json b" and "number_printer num"
    and "inj_on sha256Hex {canonical_text num a, canonical_text num b}"
  shows "hashPayload num sha256Hex a = hashPayload num sha256Hex b \<longleftrightarrow> denote a = denote b"
proof -
  have "hashPayload num sha256Hex a = hashPayload num sha256Hex b \<longleftrightarrow>
      canonical_text num a = canonical_text num b"
    by (simp add: hashPayload_def inj_on_eq_iff [OF assms(4)])
  also have "\<dots> \<longleftrightarrow> canonicalize a = canonicalize b"
    using assms(3) by (simp add: canonical_text_def stringify_inject)
  finally show ?thesis using assms(1,2) by (simp add: canonicalize_iff)
qed

text \<open>
  C21: two payloads have the same hash exactly when they have the same content, whatever the order of
  the keys of their objects at any depth. So a key reused with another content is always found out,
  and a retry that serialises its fields in another order is not taken for a conflict. SHA-256 only
  has to tell the two texts apart.
\<close>

theorem hash_identifies_content:
  assumes "plain_json a" and "plain_json b" and "number_printer num"
    and "inj_on sha256Hex {canonical_text num a, canonical_text num b}"
  shows "hashPayload num sha256Hex a = hashPayload num sha256Hex b \<longleftrightarrow> denote a = denote b"
  using hash_iff_content [OF assms] .

text \<open>A printer of rationals to instantiate the hypothesis: sign, numerator and denominator in unary.\<close>

definition unary :: "rat \<Rightarrow> string" where
  "unary x = (case quotient_of x of (p, q) \<Rightarrow>
     (if p < 0 then ''-'' else ''+'') @ replicate (nat \<bar>p\<bar>) (CHR ''1'') @ ''.'' @ replicate (nat q) (CHR ''1''))"

definition ones :: "nat \<Rightarrow> string" where
  "ones n = replicate n (CHR ''1'')"

lemma ones_simps:
  "CHR ''.'' \<notin> set (ones n)" "ones m = ones n \<longleftrightarrow> m = n" "list_all num_char (ones n)"
  by (simp_all add: ones_def list_all_iff num_char_def is_digit_def code_def)

lemma unary_printer: "number_printer unary"
proof -
  have shape: "unary x = (if p < 0 then CHR ''-'' else CHR ''+'') # ones (nat \<bar>p\<bar>) @ CHR ''.'' # ones (nat q)"
    if "quotient_of x = (p, q)" for x p q
    using that by (simp add: unary_def ones_def)
  have "x = y" if eq: "unary x = unary y" for x y
  proof -
    obtain p q p' q' where qs: "quotient_of x = (p, q)" "quotient_of y = (p', q')" by (metis prod.exhaust)
    have pos: "0 < q" "0 < q'" using qs quotient_of_denom_pos by blast+
    from eq have sign: "p < 0 \<longleftrightarrow> p' < 0"
      and rest: "ones (nat \<bar>p\<bar>) @ CHR ''.'' # ones (nat q) = ones (nat \<bar>p'\<bar>) @ CHR ''.'' # ones (nat q')"
      by (simp_all add: shape [OF qs(1)] shape [OF qs(2)] split: if_splits)
    from rest have "nat \<bar>p\<bar> = nat \<bar>p'\<bar> \<and> nat q = nat q'"
      by (simp add: sep_append_inject ones_simps)
    with sign pos have "p = p'" "q = q'" by linarith+
    with qs show ?thesis using quotient_of_div by metis
  qed
  moreover have "unary x \<noteq> [] \<and> list_all num_char (unary x)" for x
    by (cases "quotient_of x") (auto simp: shape ones_simps num_char_def is_digit_def code_def)
  ultimately show ?thesis by (simp add: number_printer_def inj_def)
qed

theorem hash_identifies_content_witness:
  "hashPayload unary id (JObj [(''a'', JNull), (''b'', JObj [(''x'', JNull), (''y'', JBool True)])])
     = hashPayload unary id (JObj [(''b'', JObj [(''y'', JBool True), (''x'', JNull)]), (''a'', JNull)])
   \<and> hashPayload unary id (JObj [(''a'', JNull)]) \<noteq> hashPayload unary id (JObj [(''a'', JBool False)])"
proof -
  let ?a = "JObj [(''a'', JNull), (''b'', JObj [(''x'', JNull), (''y'', JBool True)])]"
  let ?b = "JObj [(''b'', JObj [(''y'', JBool True), (''x'', JNull)]), (''a'', JNull)]"
  have "hashPayload unary id ?a = hashPayload unary id ?b \<longleftrightarrow> denote ?a = denote ?b"
    by (rule hash_identifies_content [OF _ _ unary_printer]) simp_all
  moreover have "denote ?a = denote ?b" by (simp add: fun_eq_iff)
  moreover have "hashPayload unary id (JObj [(''a'', JNull)]) = hashPayload unary id (JObj [(''a'', JBool False)])
      \<longleftrightarrow> denote (JObj [(''a'', JNull)]) = denote (JObj [(''a'', JBool False)])"
    by (rule hash_identifies_content [OF _ _ unary_printer]) simp_all
  ultimately show ?thesis by (auto dest: fun_cong [where x = "''a''"])
qed

text \<open>
  Outside this fragment content can be lost: a key \<open>__proto__\<close> disappears in \<open>canonicalize\<close>.
\<close>

lemma proto_key_lost: "canonicalize (JObj [(''__proto__'', v)]) = canonicalize (JObj [])"
  by (simp add: rebuild_def js_put_def)

end
