(* ===== verification/Observability.thy ===== *)
theory Observability
  imports Prelude
begin

section \<open>Metrics (src/observability/metrics.service.ts) and correlation ids\<close>

text \<open>
  The counters the code increments, one constructor per metric with its label values, as a
  function from counters to counts; the gauges the same way. What is registered, the histograms
  included, and the text a scrape reads are in \<open>Metrics_Text\<close>; observations of latencies are not modelled.

  The correlation scope of src/common/correlation/correlation.ts is the id in force while a
  function runs: an argument of what runs inside it. \<open>fresh\<close> is what \<open>randomUUID()\<close> returned.
\<close>

datatype counter =
    EventsIngested string
  | EventsProcessed
  | EventsFailed string
  | EnrichmentResults string string
  | OutboxDispatched
  | OutboxFailed
  | RetentionPruned string

datatype gauge =
    QueueDepth string
  | DlqDepth
  | CircuitBreakerState string
  | OutboxPending

record metrics =
  counters :: "counter \<Rightarrow> nat"
  gauges :: "gauge \<Rightarrow> real"

definition no_metrics :: metrics where
  "no_metrics = \<lparr>counters = (\<lambda>_. 0), gauges = (\<lambda>_. 0)\<rparr>"

definition inc_by :: "nat \<Rightarrow> counter \<Rightarrow> metrics \<Rightarrow> metrics" where
  "inc_by n c m = m\<lparr>counters := (counters m)(c := counters m c + n)\<rparr>"

definition inc :: "counter \<Rightarrow> metrics \<Rightarrow> metrics" where
  "inc = inc_by 1"

definition set_gauge :: "gauge \<Rightarrow> real \<Rightarrow> metrics \<Rightarrow> metrics" where
  "set_gauge g v m = m\<lparr>gauges := (gauges m)(g := v)\<rparr>"

lemma counters_inc [simp]:
  "counters (inc_by n c m) c' = (if c' = c then counters m c + n else counters m c')"
  "counters (inc c m) c' = (if c' = c then Suc (counters m c) else counters m c')"
  "counters (set_gauge g v m) = counters m"
  by (simp_all add: inc_def inc_by_def set_gauge_def)

text \<open>\<open>runWithCorrelation\<close>: the id in scope for \<open>f\<close>.\<close>

definition runWithCorrelation :: "string \<Rightarrow> string option \<Rightarrow> (string \<Rightarrow> 'a) \<Rightarrow> 'a" where
  "runWithCorrelation fresh correlationId f =
     f (case correlationId of Some c \<Rightarrow> c | None \<Rightarrow> fresh)"

end
