(* ===== verification/Events.thy ===== *)
theory Events
  imports Claim_Race Transaction Job_Ids Tickets Canonical_Hash Observability
begin

section \<open>Ingestion (src/events/events.service.ts)\<close>

text \<open>
  \<open>POST /events\<close>: the request body, the key and hash derived from it, and the orchestration of the
  ledger, the ticket transaction and the queue. The statements of \<open>createTicketIfAbsent\<close> run under
  the row lock that \<open>lockForUpdate\<close> takes, as one transaction. What a run takes from outside (clock,
  fresh ids, the queue, which calls fail) is \<open>ingest_host\<close>; a failing ledger update changes nothing.
\<close>

subsection \<open>The request\<close>

text \<open>A property that is absent and one that is \<open>null\<close> read the same through \<open>??\<close>: both are \<open>None\<close>.\<close>

record create_event =
  ce_idempotencyKey :: "string option"
  ce_subject :: string
  ce_body :: string
  ce_requesterEmail :: "string option"
  ce_source :: "string option"
  ce_metadata :: "(string \<times> json) list option"

text \<open>The decorators of \<open>CreateEventDto\<close>; \<open>isEmail\<close> is validator.js.\<close>

definition max_len :: "nat \<Rightarrow> string option \<Rightarrow> bool" where
  "max_len n v = (case v of None \<Rightarrow> True | Some s \<Rightarrow> length s \<le> n)"

definition dto_ok :: "(string \<Rightarrow> bool) \<Rightarrow> create_event \<Rightarrow> bool" where
  "dto_ok isEmail dto \<longleftrightarrow> max_len 255 (ce_idempotencyKey dto)
     \<and> 1 \<le> length (ce_subject dto) \<and> length (ce_subject dto) \<le> 500
     \<and> 1 \<le> length (ce_body dto) \<and> length (ce_body dto) \<le> 10000
     \<and> (case ce_requesterEmail dto of None \<Rightarrow> True | Some e \<Rightarrow> isEmail e)
     \<and> max_len 100 (ce_source dto)"

definition request_payload :: "create_event \<Rightarrow> json" where
  "request_payload dto = JObj [(''subject'', JStr (ce_subject dto)), (''body'', JStr (ce_body dto)),
     (''requesterEmail'', str_or_null (ce_requesterEmail dto)), (''source'', str_or_null (ce_source dto)),
     (''metadata'', case ce_metadata dto of None \<Rightarrow> JNull | Some m \<Rightarrow> JObj m)]"

text \<open>The DTO as the \<open>jsonb\<close> payload of the event row.\<close>

definition dto_json :: "create_event \<Rightarrow> json" where
  "dto_json dto = JObj (opt_field ''idempotencyKey'' (map_option JStr (ce_idempotencyKey dto))
     @ [(''subject'', JStr (ce_subject dto)), (''body'', JStr (ce_body dto))]
     @ opt_field ''requesterEmail'' (map_option JStr (ce_requesterEmail dto))
     @ opt_field ''source'' (map_option JStr (ce_source dto))
     @ opt_field ''metadata'' (map_option JObj (ce_metadata dto)))"

definition event_key :: "string \<Rightarrow> create_event \<Rightarrow> string option \<Rightarrow> string" where
  "event_key requestHash dto headerKey = (case headerKey of
       Some k \<Rightarrow> k
     | None \<Rightarrow> (case ce_idempotencyKey dto of Some k \<Rightarrow> k | None \<Rightarrow> requestHash))"

subsection \<open>The answer\<close>

datatype ingest_status = Accepted | Processing | Replayed

fun ingest_status_name :: "ingest_status \<Rightarrow> string" where
  "ingest_status_name Accepted = ''accepted''"
| "ingest_status_name Processing = ''processing''"
| "ingest_status_name Replayed = ''replayed''"

record ingest_result =
  ir_status :: ingest_status
  ir_idempotencyKey :: string
  ir_ticketId :: "uuid option"
  ir_jobId :: "string option"

definition response_body :: "string \<Rightarrow> uuid \<Rightarrow> string \<Rightarrow> json" where
  "response_body key ticketId jobId = JObj [(''status'', JStr (ingest_status_name Accepted)),
     (''idempotencyKey'', JStr key), (''ticketId'', JStr ticketId), (''jobId'', JStr jobId)]"

subsection \<open>The surroundings of a run\<close>

record 'q api =
  ap_db :: db
  ap_queue :: 'q
  ap_metrics :: metrics

record 'q ingest_host =
  ih_bull :: "'q bull"
  ih_num :: "rat \<Rightarrow> string"
  ih_sha256 :: "string \<Rightarrow> string"
  ih_correlation :: "string option"
  ih_idemId :: uuid
  ih_eventId :: uuid
  ih_ticketId :: uuid
  ih_claim_at :: timestamp
  ih_reclaim_at :: timestamp
  ih_create_at :: timestamp
  ih_end_at :: timestamp
  ih_faults :: tx_faults
  ih_failed_err :: "exn option"
  ih_completed_err :: "exn option"

definition count_event :: "string \<Rightarrow> 'q api \<Rightarrow> 'q api" where
  "count_event result s = s\<lparr>ap_metrics := inc (EventsIngested result) (ap_metrics s)\<rparr>"

subsection \<open>Creating the ticket\<close>

definition new_event_row :: "uuid \<Rightarrow> timestamp \<Rightarrow> string \<Rightarrow> create_event \<Rightarrow> event_row" where
  "new_event_row i now key dto = \<lparr>ev_id = i, ev_idempotencyKey = key, ev_payload = dto_json dto,
     ev_source = ce_source dto, ev_receivedAt = now\<rparr>"

definition new_ticket_row :: "uuid \<Rightarrow> timestamp \<Rightarrow> uuid \<Rightarrow> create_event \<Rightarrow> ticket_row" where
  "new_ticket_row i now eventId dto = \<lparr>tk_id = i, tk_eventId = eventId, tk_subject = ce_subject dto,
     tk_body = ce_body dto, tk_requesterEmail = ce_requesterEmail dto,
     tk_enrichmentStatus = ES_PENDING, tk_category = None, tk_priority = None, tk_summary = None,
     tk_confidence = None, tk_enrichmentSource = None, tk_enrichmentAttempts = 0,
     tk_enrichedAt = None, tk_createdAt = now, tk_updatedAt = now\<rparr>"

definition create_work ::
  "uuid \<Rightarrow> uuid \<Rightarrow> timestamp \<Rightarrow> string \<Rightarrow> create_event \<Rightarrow> (uuid \<times> uuid, 'w) tx_work" where
  "create_work eventId ticketId now key dto w d =
     ((case lockForUpdate key d of
         Inl e \<Rightarrow> Inl e
       | Inr idem \<Rightarrow>
           (case ik_ticketId idem of
              Some t \<Rightarrow>
                (case tk_row t d of
                   None \<Rightarrow> Inl (EntityNotFoundError ''TicketEntity'')
                 | Some existing \<Rightarrow> Inr ((tk_id existing, tk_eventId existing), d))
            | None \<Rightarrow>
                (case insert_event (new_event_row eventId now key dto) d of
                   Inl e \<Rightarrow> Inl e
                 | Inr d1 \<Rightarrow>
                     (case insert_ticket (new_ticket_row ticketId now eventId dto) d1 of
                        Inl e \<Rightarrow> Inl e
                      | Inr d2 \<Rightarrow> Inr ((ticketId, eventId), attachTicket now key ticketId d2))))), w)"

definition createTicketIfAbsent ::
  "'q ingest_host \<Rightarrow> string \<Rightarrow> create_event \<Rightarrow> db \<Rightarrow> (uuid \<times> uuid, unit) tx_result" where
  "createTicketIfAbsent H key dto d = runInTransaction (ih_faults H)
     (create_work (ih_eventId H) (ih_ticketId H) (ih_create_at H) key dto) () d"

subsection \<open>A claimed key\<close>

text \<open>The \<open>catch\<close>: the key is marked FAILED and the error rethrown, unless marking throws itself.\<close>

definition give_up :: "'q ingest_host \<Rightarrow> string \<Rightarrow> exn \<Rightarrow> 'q api \<Rightarrow> (exn + 'a) \<times> 'q api" where
  "give_up H key e s = (case ih_failed_err H of
       Some e' \<Rightarrow> (Inl e', s)
     | None \<Rightarrow> (Inl e, s\<lparr>ap_db := markFailed (ih_end_at H) key (ap_db s)\<rparr>))"

definition event_job :: "'q ingest_host \<Rightarrow> string \<Rightarrow> uuid \<Rightarrow> uuid \<Rightarrow> job_data" where
  "event_job H key ticketId eventId = \<lparr>jd_idempotencyKey = key, jd_ticketId = ticketId,
     jd_eventId = eventId, jd_correlationId = ih_correlation H, jd_replayOf = None,
     jd_upgradeAttempt = None\<rparr>"

definition processNew ::
  "'q ingest_host \<Rightarrow> EnvVars \<Rightarrow> string \<Rightarrow> create_event \<Rightarrow> 'q api \<Rightarrow> (exn + ingest_result) \<times> 'q api" where
  "processNew H env key dto s =
     (let r = createTicketIfAbsent H key dto (ap_db s); s1 = s\<lparr>ap_db := tx_db r\<rparr> in
      case tx_value r of
        Inl e \<Rightarrow> give_up H key e s1
      | Inr (ticketId, eventId) \<Rightarrow>
          (case enqueue (ih_bull H) env (event_job H key ticketId eventId) (ap_queue s1) of
             (Inl e, q) \<Rightarrow> give_up H key e (s1\<lparr>ap_queue := q\<rparr>)
           | (Inr jobId, q) \<Rightarrow>
               (let s2 = s1\<lparr>ap_queue := q\<rparr> in
                case ih_completed_err H of
                  Some e \<Rightarrow> (Inl e, s2)
                | None \<Rightarrow>
                    (Inr \<lparr>ir_status = Accepted, ir_idempotencyKey = key, ir_ticketId = Some ticketId,
                       ir_jobId = Some jobId\<rparr>,
                     count_event ''accepted'' (s2\<lparr>ap_db := markCompleted (ih_end_at H) key ticketId 202
                       (response_body key ticketId jobId) (ap_db s2)\<rparr>)))))"

subsection \<open>The endpoint\<close>

definition replay_answer :: "string \<Rightarrow> idem_row \<Rightarrow> ingest_result" where
  "replay_answer key record =
     (let body = (case ik_responseBody record of Some b \<Rightarrow> b | None \<Rightarrow> JObj []) in
      \<lparr>ir_status = Replayed, ir_idempotencyKey = key,
       ir_ticketId = (case ik_ticketId record of
           Some t \<Rightarrow> Some t | None \<Rightarrow> json_str (json_field ''ticketId'' body)),
       ir_jobId = json_str (json_field ''jobId'' body)\<rparr>)"

definition conflict_error :: exn where
  "conflict_error = ConflictException ''idempotency key was already used with a different payload''"

definition answer_claim ::
  "'q ingest_host \<Rightarrow> EnvVars \<Rightarrow> string \<Rightarrow> create_event \<Rightarrow> claim_result \<Rightarrow> 'q api \<Rightarrow>
   (exn + ingest_result) \<times> 'q api" where
  "answer_claim H env key dto outcome s = (case outcome of
       CR_CONFLICT record \<Rightarrow> (Inl conflict_error, count_event ''conflict'' s)
     | CR_REPLAY record \<Rightarrow> (Inr (replay_answer key record), count_event ''duplicate'' s)
     | CR_IN_FLIGHT record \<Rightarrow>
         (Inr \<lparr>ir_status = Processing, ir_idempotencyKey = key, ir_ticketId = ik_ticketId record,
            ir_jobId = None\<rparr>, count_event ''duplicate'' s)
     | CR_NEW \<Rightarrow> processNew H env key dto s)"

definition ingest ::
  "'q ingest_host \<Rightarrow> EnvVars \<Rightarrow> create_event \<Rightarrow> string option \<Rightarrow> 'q api \<Rightarrow>
   (exn + ingest_result) \<times> 'q api" where
  "ingest H env dto headerKey s =
     (let requestHash = hashPayload (ih_num H) (ih_sha256 H) (request_payload dto);
          key = event_key requestHash dto headerKey
      in case assertUsableAsJobId key of
           Inl e \<Rightarrow> (Inl e, s)
         | Inr _ \<Rightarrow>
             (case claim env (ih_idemId H) (ih_claim_at H) (ih_reclaim_at H) key requestHash (ap_db s) of
                (Inl e, d) \<Rightarrow> (Inl e, s\<lparr>ap_db := d\<rparr>)
              | (Inr outcome, d) \<Rightarrow> answer_claim H env key dto outcome (s\<lparr>ap_db := d\<rparr>)))"

subsection \<open>The claim, as ingestion needs it\<close>

lemma claim_replays:
  assumes "key_row key d = Some x" and "ik_requestHash x = h" and "ik_status x = IK_COMPLETED"
  shows "claim env nid t1 t3 key h d = (Inr (CR_REPLAY x), d)"
  using assms by (simp add: claim_def claim_insert_cases claim_read_def claim_decide_def)

lemma claim_conflicts:
  assumes "key_row key d = Some x" and "ik_requestHash x \<noteq> h"
  shows "claim env nid t1 t3 key h d = (Inr (CR_CONFLICT x), d)"
  using assms by (simp add: claim_def claim_insert_cases claim_read_def claim_decide_def)

lemma claim_wins:
  assumes "key_row key d = None" and "nid \<notin> values_of ik_id (idempotency_keys d)"
  shows "claim env nid t1 t3 key h d =
    (Inr CR_NEW, d\<lparr>idempotency_keys := idempotency_keys d @ [new_idem_row nid t1 key h]\<rparr>)"
  using assms by (simp add: claim_def claim_insert_cases)

lemma claim_reclaims_failed:
  assumes "schema_ok d" and "key_row key d = Some x" and "ik_requestHash x = h" and "ik_status x = IK_FAILED"
  shows "fst (claim env nid t1 t3 key h d) = Inr CR_NEW"
proof -
  obtain n d2 where rec: "claim_reclaim (IDEMPOTENCY_LEASE_MS env) t3 key d = (n, d2)" by fastforce
  have "0 < n"
    using claim_reclaim_count [OF _ rec] assms by (auto simp: schema_ok_def reclaimable_def)
  with rec assms show ?thesis
    by (simp add: claim_def claim_insert_cases claim_read_def claim_decide_def)
qed

text \<open>A key under a lease: taken over once the lease is over, in flight before.\<close>

lemma claim_under_lease:
  assumes "schema_ok d" and "key_row key d = Some x" and "ik_requestHash x = h" and "ik_status x = IK_PENDING"
    and "ik_lockedAt x = Some l"
  shows "fst (claim env nid t1 t3 key h d) =
    Inr (if l < t3 - interval_ms (IDEMPOTENCY_LEASE_MS env) then CR_NEW else CR_IN_FLIGHT x)"
proof -
  obtain n d2 where rec: "claim_reclaim (IDEMPOTENCY_LEASE_MS env) t3 key d = (n, d2)" by fastforce
  have "0 < n \<longleftrightarrow> l < t3 - interval_ms (IDEMPOTENCY_LEASE_MS env)"
    using claim_reclaim_count [OF _ rec] assms by (auto simp: schema_ok_def reclaimable_def)
  with rec assms show ?thesis
    by (simp add: claim_def claim_insert_cases claim_read_def claim_decide_def)
qed

text \<open>A claim keeps the ticket and the hash of a row that exists, and answers with rows of the key.\<close>

lemma claim_keeps_row:
  assumes "claim env nid t1 t3 key h d = (res, d')" and "key_row key d = Some x"
  obtains x' where "key_row key d' = Some x'" "ik_ticketId x' = ik_ticketId x"
    "ik_requestHash x' = ik_requestHash x"
    "res = Inr CR_NEW \<or> res \<in> {Inr (CR_REPLAY x), Inr (CR_IN_FLIGHT x), Inr (CR_CONFLICT x)}"
proof -
  obtain n d2 where rec: "claim_reclaim (IDEMPOTENCY_LEASE_MS env) t3 key d = (n, d2)" by fastforce
  have start: "claim env nid t1 t3 key h d =
      (case claim_decide h x of
         Some r \<Rightarrow> (Inr r, d)
       | None \<Rightarrow> if 0 < n then (Inr CR_NEW, d2) else (Inr (CR_IN_FLIGHT x), d2))"
    using assms(2) rec by (simp add: claim_def claim_insert_cases claim_read_def split: option.splits)
  have row2: "\<exists>x'. key_row key d2 = Some x' \<and> ik_ticketId x' = ik_ticketId x \<and> ik_requestHash x' = ik_requestHash x"
    by (simp add: key_row_reclaim [OF rec] assms(2))
  show thesis
  proof (cases "claim_decide h x")
    case None
    with start assms(1) have "d' = d2" "res = Inr CR_NEW \<or> res = Inr (CR_IN_FLIGHT x)"
      by (auto split: if_splits)
    with row2 that show thesis by blast
  next
    case (Some r)
    with start assms have "d' = d" "res = Inr r" "r = CR_CONFLICT x \<or> r = CR_REPLAY x"
      by (auto simp: claim_decide_def split: if_splits)
    with assms(2) that show thesis by blast
  qed
qed

subsection \<open>Creating at most one ticket\<close>

lemma create_work_cases:
  assumes "fst (create_work eventId ticketId now key dto w d) = Inr ((t, e), d')"
  obtains (reused) idem tk where "key_row key d = Some idem" "ik_ticketId idem = Some t"
      "tk_row t d = Some tk" "e = tk_eventId tk" "d' = d"
    | (created) idem where "key_row key d = Some idem" "ik_ticketId idem = None" "t = ticketId" "e = eventId"
      "eventId \<notin> values_of ev_id (events d)" "ticketId \<notin> values_of tk_id (tickets d)"
      "d' = attachTicket now key ticketId
        (d\<lparr>events := events d @ [new_event_row eventId now key dto],
           tickets := tickets d @ [new_ticket_row ticketId now eventId dto]\<rparr>)"
proof (cases "lockForUpdate key d")
  case (Inl err)
  with assms show thesis by (simp add: create_work_def)
next
  case (Inr idem)
  then have row: "key_row key d = Some idem" by (simp add: lockForUpdate_key_row split: option.splits)
  show thesis
  proof (cases "ik_ticketId idem")
    case None
    with Inr assms show thesis
      by (intro created [OF row])
         (auto simp: create_work_def insert_event_def insert_ticket_def new_event_row_def
            new_ticket_row_def split: if_splits)
  next
    case (Some i)
    with Inr assms obtain tk where tk: "tk_row i d = Some tk" "t = tk_id tk" "e = tk_eventId tk" "d' = d"
      by (auto simp: create_work_def split: option.splits)
    moreover have "tk_id tk = i" using row_with_SomeD [OF tk(1)] by simp
    ultimately show thesis using reused [OF row] Some by simp
  qed
qed

lemma create_work_schema_ok:
  assumes "schema_ok d" and "fst (create_work eventId ticketId now key dto w d) = Inr (r, d')"
  shows "schema_ok d'"
proof -
  obtain t e where "r = (t, e)" by fastforce
  with assms(2) have "fst (create_work eventId ticketId now key dto w d) = Inr ((t, e), d')" by simp
  then show ?thesis
  proof (cases rule: create_work_cases)
    case reused
    with assms(1) show ?thesis by simp
  next
    case created
    let ?d1 = "d\<lparr>events := events d @ [new_event_row eventId now key dto],
           tickets := tickets d @ [new_ticket_row ticketId now eventId dto]\<rparr>"
    have "schema_ok ?d1"
      using assms(1) created(5,6)
      by (fastforce simp: schema_ok_def tickets_fk_ok_def idem_fk_ok_def new_event_row_def new_ticket_row_def)
    then show ?thesis
      unfolding created(7) by (rule attachTicket_schema_ok) (simp add: new_ticket_row_def)
  qed
qed

text \<open>
  The transaction: nothing, or its work. The row of the key keeps its hash, status and lease; once it names a ticket, that
  stays and no row is added.
\<close>

lemma createTicket_row:
  assumes "key_row key d = Some x" and "d' = tx_db (createTicketIfAbsent H key dto d)"
  obtains x' where "key_row key d' = Some x'" "ik_requestHash x' = ik_requestHash x"
    "ik_ticketId x \<noteq> None \<longrightarrow> d' = d" "ik_status x' = ik_status x" "ik_lockedAt x' = ik_lockedAt x"
proof (cases "d' = d")
  case True
  with assms(1) show thesis by (intro that [of x]) auto
next
  case False
  with tx.run_atomic [of "ih_faults H"] assms(2) obtain r where
    "fst (create_work (ih_eventId H) (ih_ticketId H) (ih_create_at H) key dto () d) = Inr (r, d')"
    unfolding createTicketIfAbsent_def by metis
  moreover obtain t e where "r = (t, e)" by fastforce
  ultimately have "fst (create_work (ih_eventId H) (ih_ticketId H) (ih_create_at H) key dto () d) = Inr ((t, e), d')"
    by simp
  then show thesis
  proof (cases rule: create_work_cases)
    case reused
    with False show thesis by simp
  next
    case (created idem)
    with assms(1) have row: "key_row key d' = Some (x\<lparr>ik_ticketId := Some t, ik_updatedAt := ih_create_at H\<rparr>)"
      by (simp add: key_row_attach)
    with created assms(1) show thesis by (intro that [OF row]) auto
  qed
qed

lemma createTicket_value:
  assumes "tx_value (createTicketIfAbsent H key dto d) = Inr (t, e)"
    and "key_row key d = Some x" and "ik_ticketId x = Some t0"
  shows "t = t0 \<and> tx_db (createTicketIfAbsent H key dto d) = d"
proof -
  have "fst (create_work (ih_eventId H) (ih_ticketId H) (ih_create_at H) key dto () d)
      = Inr ((t, e), tx_db (createTicketIfAbsent H key dto d))"
    using assms(1) unfolding createTicketIfAbsent_def by (rule tx.run_value)
  then show ?thesis
    by (cases rule: create_work_cases) (use assms(2,3) in auto)
qed

lemma createTicket_schema_ok:
  assumes "schema_ok d"
  shows "schema_ok (tx_db (createTicketIfAbsent H key dto d))"
  unfolding createTicketIfAbsent_def
  by (rule tx.run_invariant) (fact assms, rule create_work_schema_ok [OF assms])

subsection \<open>What ingestion guarantees\<close>

text \<open>A run that claimed its key: what becomes of the key's row, the tickets and the answer.\<close>

lemma give_up_facts:
  assumes "give_up H key e s = (res, s')"
  shows "(\<exists>e'. res = Inl e') \<and> ap_queue s' = ap_queue s
    \<and> ap_db s' = (if ih_failed_err H = None then markFailed (ih_end_at H) key (ap_db s) else ap_db s)"
  using assms by (auto simp: give_up_def split: option.splits)

lemma processNew_cases:
  assumes "processNew H env key dto s = (res, s')"
  obtains (gave_up) e where "res = Inl e" "ap_db s' =
      (let d = tx_db (createTicketIfAbsent H key dto (ap_db s)) in
       if ih_failed_err H = None then markFailed (ih_end_at H) key d else d)"
    | (unfinished) t e x where "tx_value (createTicketIfAbsent H key dto (ap_db s)) = Inr (t, e)"
      "res = Inl x" "ih_completed_err H = Some x" "ap_db s' = tx_db (createTicketIfAbsent H key dto (ap_db s))"
    | (accepted) t e jobId q where "tx_value (createTicketIfAbsent H key dto (ap_db s)) = Inr (t, e)"
      "enqueue (ih_bull H) env (event_job H key t e) (ap_queue s) = (Inr jobId, q)"
      "res = Inr \<lparr>ir_status = Accepted, ir_idempotencyKey = key, ir_ticketId = Some t, ir_jobId = Some jobId\<rparr>"
      "s' = count_event ''accepted'' (s\<lparr>ap_queue := q, ap_db := markCompleted (ih_end_at H) key t 202
         (response_body key t jobId) (tx_db (createTicketIfAbsent H key dto (ap_db s)))\<rparr>)"
proof (cases "tx_value (createTicketIfAbsent H key dto (ap_db s))")
  case (Inl e)
  with assms have "give_up H key e (s\<lparr>ap_db := tx_db (createTicketIfAbsent H key dto (ap_db s))\<rparr>) = (res, s')"
    by (simp add: processNew_def Let_def)
  from give_up_facts [OF this] gave_up show thesis by (auto simp: Let_def)
next
  case (Inr p)
  obtain t e where p: "p = (t, e)" by (rule prod.exhaust)
  obtain out q where enq: "enqueue (ih_bull H) env (event_job H key t e) (ap_queue s) = (out, q)"
    by (rule prod.exhaust)
  show thesis
  proof (cases out)
    case (Inl x)
    with Inr p enq assms have "give_up H key x (s\<lparr>ap_db := tx_db (createTicketIfAbsent H key dto (ap_db s)),
        ap_queue := q\<rparr>) = (res, s')"
      by (simp add: processNew_def Let_def)
    from give_up_facts [OF this] gave_up show thesis by (auto simp: Let_def)
  next
    case (Inr jobId)
    with \<open>tx_value _ = Inr p\<close> p enq assms show thesis
      by (cases "ih_completed_err H")
         (auto simp: processNew_def Let_def intro: unfinished accepted)
  qed
qed

lemma count_event_simps [simp]:
  "ap_db (count_event r s) = ap_db s" "ap_queue (count_event r s) = ap_queue s"
  by (simp_all add: count_event_def)

text \<open>
  C8: one ticket per key, across every retry. Once the row of a key names a ticket, no later
  submission under this key, whatever it carries, whichever of its steps fails and whatever state the
  key is in, adds a ticket or an event; the row keeps that ticket; and every answer that is given,
  accepted again, in flight or replayed, names it.
\<close>

theorem resubmission_keeps_ticket:
  assumes "key_row key (ap_db s) = Some x" and "ik_ticketId x = Some t"
    and "key = event_key (hashPayload (ih_num H) (ih_sha256 H) (request_payload dto)) dto headerKey"
    and "ingest H env dto headerKey s = (res, s')"
  shows "tickets (ap_db s') = tickets (ap_db s) \<and> events (ap_db s') = events (ap_db s)
    \<and> (\<exists>x'. key_row key (ap_db s') = Some x' \<and> ik_ticketId x' = Some t \<and> ik_requestHash x' = ik_requestHash x)
    \<and> (\<forall>ans. res = Inr ans \<longrightarrow> ir_ticketId ans = Some t)"
proof (cases "assertUsableAsJobId key")
  case (Inl e)
  with assms show ?thesis by (auto simp: ingest_def Let_def)
next
  case (Inr u)
  let ?h = "hashPayload (ih_num H) (ih_sha256 H) (request_payload dto)"
  obtain out d where cl: "claim env (ih_idemId H) (ih_claim_at H) (ih_reclaim_at H) key ?h (ap_db s) = (out, d)"
    by (rule prod.exhaust)
  obtain y where y: "key_row key d = Some y" "ik_ticketId y = Some t" "ik_requestHash y = ik_requestHash x"
    and outs: "out = Inr CR_NEW \<or> out \<in> {Inr (CR_REPLAY x), Inr (CR_IN_FLIGHT x), Inr (CR_CONFLICT x)}"
    using claim_keeps_row [OF cl assms(1)] assms(2) by metis
  have frame: "tickets d = tickets (ap_db s)" "events d = events (ap_db s)" using claim_frame [OF cl] by simp_all
  show ?thesis
  proof (cases "out = Inr CR_NEW")
    case False
    with outs assms Inr cl y frame show ?thesis
      by (auto simp: ingest_def Let_def answer_claim_def replay_answer_def)
  next
    case True
    with assms Inr cl have run: "processNew H env key dto (s\<lparr>ap_db := d\<rparr>) = (res, s')"
      by (simp add: ingest_def Let_def answer_claim_def)
    have same: "tx_db (createTicketIfAbsent H key dto d) = d"
      using createTicket_row [OF y(1) refl] y(2) by (metis option.distinct(1))
    from run show ?thesis
    proof (cases rule: processNew_cases)
      case gave_up
      with same y frame show ?thesis by (auto simp: Let_def key_row_failed)
    next
      case unfinished
      with same y frame show ?thesis by simp
    next
      case accepted
      with same y frame createTicket_value [of H key dto d, OF _ y(1,2)] show ?thesis
        by (auto simp: key_row_completed)
    qed
  qed
qed

text \<open>The first submission under a key, nothing failing.\<close>

lemma first_create:
  assumes "schema_ok d" and "key_row key d = Some x" and "ik_ticketId x = None"
    and "ih_eventId H \<notin> values_of ev_id (events d)" and "ih_ticketId H \<notin> values_of tk_id (tickets d)"
    and "ih_faults H = no_faults"
  shows "tx_value (createTicketIfAbsent H key dto d) = Inr (ih_ticketId H, ih_eventId H)
    \<and> tx_db (createTicketIfAbsent H key dto d) = attachTicket (ih_create_at H) key (ih_ticketId H)
        (d\<lparr>events := events d @ [new_event_row (ih_eventId H) (ih_create_at H) key dto],
           tickets := tickets d @ [new_ticket_row (ih_ticketId H) (ih_create_at H) (ih_eventId H) dto]\<rparr>)"
proof -
  have "create_work (ih_eventId H) (ih_ticketId H) (ih_create_at H) key dto () d =
     (Inr ((ih_ticketId H, ih_eventId H), attachTicket (ih_create_at H) key (ih_ticketId H)
        (d\<lparr>events := events d @ [new_event_row (ih_eventId H) (ih_create_at H) key dto],
           tickets := tickets d @ [new_ticket_row (ih_ticketId H) (ih_create_at H) (ih_eventId H) dto]\<rparr>)), ())"
    using assms(2-5)
    by (simp add: create_work_def lockForUpdate_key_row insert_event_def insert_ticket_def
        new_event_row_def new_ticket_row_def)
  then show ?thesis by (simp add: createTicketIfAbsent_def assms(6) runInTransaction_no_faults)
qed

abbreviation request_hash :: "'q ingest_host \<Rightarrow> create_event \<Rightarrow> string" where
  "request_hash H dto \<equiv> hashPayload (ih_num H) (ih_sha256 H) (request_payload dto)"

lemma replay_answers:
  assumes "assertUsableAsJobId key = Inr ()" and "key_row key (ap_db s) = Some x" and "ik_status x = IK_COMPLETED"
    and "ik_requestHash x = request_hash H dto" and "key = event_key (request_hash H dto) dto headerKey"
  shows "ingest H env dto headerKey s = (Inr (replay_answer key x), count_event ''duplicate'' s)"
  using assms claim_replays [OF assms(2) assms(4) assms(3)]
  by (simp add: ingest_def Let_def answer_claim_def)

text \<open>The same, answered with a conflict.\<close>

lemma conflict_answers:
  assumes "assertUsableAsJobId key = Inr ()" and "key_row key (ap_db s) = Some x"
    and "ik_requestHash x \<noteq> request_hash H dto" and "key = event_key (request_hash H dto) dto headerKey"
  shows "ingest H env dto headerKey s = (Inl conflict_error, count_event ''conflict'' s)"
  using assms claim_conflicts [OF assms(2,3)]
  by (simp add: ingest_def Let_def answer_claim_def)

lemma accepted_then_replayed_aux:
  assumes "schema_ok (ap_db s)" and "key = event_key (request_hash H dto) dto headerKey"
    and "assertUsableAsJobId key = Inr ()" and "key_row key (ap_db s) = None"
    and "ih_idemId H \<notin> values_of ik_id (idempotency_keys (ap_db s))"
    and "ih_eventId H \<notin> values_of ev_id (events (ap_db s))"
    and "ih_ticketId H \<notin> values_of tk_id (tickets (ap_db s))"
    and "ih_faults H = no_faults" and "ih_completed_err H = None"
    and "enqueue (ih_bull H) env (event_job H key (ih_ticketId H) (ih_eventId H)) (ap_queue s) = (Inr jobId, q)"
  shows "\<exists>s1. ingest H env dto headerKey s = (Inr \<lparr>ir_status = Accepted, ir_idempotencyKey = key,
         ir_ticketId = Some (ih_ticketId H), ir_jobId = Some jobId\<rparr>, s1) \<and> ap_queue s1 = q
    \<and> tickets (ap_db s1) = tickets (ap_db s) @ [new_ticket_row (ih_ticketId H) (ih_create_at H) (ih_eventId H) dto]
    \<and> events (ap_db s1) = events (ap_db s) @ [new_event_row (ih_eventId H) (ih_create_at H) key dto]
    \<and> (\<exists>x. key_row key (ap_db s1) = Some x \<and> ik_status x = IK_COMPLETED \<and> ik_ticketId x = Some (ih_ticketId H)
        \<and> ik_requestHash x = request_hash H dto)
    \<and> (\<forall>H' env' dto' headerKey'. request_hash H' dto' = request_hash H dto
         \<and> event_key (request_hash H' dto') dto' headerKey' = key \<longrightarrow>
         (\<exists>s2. ingest H' env' dto' headerKey' s1 = (Inr \<lparr>ir_status = Replayed, ir_idempotencyKey = key,
             ir_ticketId = Some (ih_ticketId H), ir_jobId = Some jobId\<rparr>, s2)
           \<and> ap_db s2 = ap_db s1 \<and> ap_queue s2 = ap_queue s1))"
proof -
  let ?h = "request_hash H dto" and ?d = "ap_db s"
  let ?row = "new_idem_row (ih_idemId H) (ih_claim_at H) key ?h"
  let ?d1 = "?d\<lparr>idempotency_keys := idempotency_keys ?d @ [?row]\<rparr>"
  have cl: "claim env (ih_idemId H) (ih_claim_at H) (ih_reclaim_at H) key ?h ?d = (Inr CR_NEW, ?d1)"
    by (rule claim_wins [OF assms(4,5)])
  have row1: "key_row key ?d1 = Some ?row" using assms(4) by (simp add: row_with_append)
  have ok1: "schema_ok ?d1"
    using claim_schema_ok [OF assms(1) cl] .
  have create: "tx_value (createTicketIfAbsent H key dto ?d1) = Inr (ih_ticketId H, ih_eventId H)"
    "tx_db (createTicketIfAbsent H key dto ?d1) = attachTicket (ih_create_at H) key (ih_ticketId H)
        (?d1\<lparr>events := events ?d1 @ [new_event_row (ih_eventId H) (ih_create_at H) key dto],
           tickets := tickets ?d1 @ [new_ticket_row (ih_ticketId H) (ih_create_at H) (ih_eventId H) dto]\<rparr>)"
    using first_create [OF ok1 row1 _ _ _ assms(8)] assms(6,7) by simp_all
  let ?d2 = "tx_db (createTicketIfAbsent H key dto ?d1)"
  let ?s1 = "count_event ''accepted'' (s\<lparr>ap_queue := q, ap_db := markCompleted (ih_end_at H) key
      (ih_ticketId H) 202 (response_body key (ih_ticketId H) jobId) ?d2\<rparr>)"
  have run: "ingest H env dto headerKey s = (Inr \<lparr>ir_status = Accepted, ir_idempotencyKey = key,
         ir_ticketId = Some (ih_ticketId H), ir_jobId = Some jobId\<rparr>, ?s1)"
    using assms(2,3,9,10) cl create(1)
    by (simp add: ingest_def Let_def answer_claim_def processNew_def)
  obtain x where x: "key_row key (ap_db ?s1) = Some x" "ik_status x = IK_COMPLETED"
      "ik_ticketId x = Some (ih_ticketId H)" "ik_requestHash x = ?h"
      "ik_responseBody x = Some (response_body key (ih_ticketId H) jobId)"
    using row1 by (simp add: key_rows create(2))
  have answer: "replay_answer key x = \<lparr>ir_status = Replayed, ir_idempotencyKey = key,
      ir_ticketId = Some (ih_ticketId H), ir_jobId = Some jobId\<rparr>"
    by (simp add: replay_answer_def x response_body_def json_field_def js_get_def json_str_def)
  have added: "tickets (ap_db ?s1) = tickets ?d @ [new_ticket_row (ih_ticketId H) (ih_create_at H) (ih_eventId H) dto]"
    "events (ap_db ?s1) = events ?d @ [new_event_row (ih_eventId H) (ih_create_at H) key dto]"
    by (simp_all add: create(2))
  have replay: "\<exists>s2. ingest H' env' dto' headerKey' ?s1 = (Inr \<lparr>ir_status = Replayed, ir_idempotencyKey = key,
             ir_ticketId = Some (ih_ticketId H), ir_jobId = Some jobId\<rparr>, s2)
           \<and> ap_db s2 = ap_db ?s1 \<and> ap_queue s2 = ap_queue ?s1"
    if "request_hash H' dto' = ?h" "event_key (request_hash H' dto') dto' headerKey' = key"
    for H' env' dto' headerKey'
    using replay_answers [OF assms(3) x(1,2), of H' dto' headerKey' env'] x(4) that answer by simp
  show ?thesis
    by (intro exI [of _ ?s1] conjI run added) (use x replay in \<open>auto\<close>)
qed

text \<open>
  C2: accepted once, replayed forever. The first submission of a usable key, with nothing failing,
  creates one event and one PENDING ticket with the submitted fields, links them to the key, enqueues
  the job under the key and answers \<open>accepted\<close>; any later submission of the same content under the
  same key, by whatever host, at whatever time, changes neither database nor queue and answers
  \<open>replayed\<close> with the very same ticket and job.
\<close>

theorem accepted_then_replayed:
  assumes "schema_ok (ap_db s)" and "key = event_key (request_hash H dto) dto headerKey"
    and "assertUsableAsJobId key = Inr ()" and "key_row key (ap_db s) = None"
    and "ih_idemId H \<notin> values_of ik_id (idempotency_keys (ap_db s))"
    and "ih_eventId H \<notin> values_of ev_id (events (ap_db s))"
    and "ih_ticketId H \<notin> values_of tk_id (tickets (ap_db s))"
    and "ih_faults H = no_faults" and "ih_completed_err H = None"
    and "enqueue (ih_bull H) env (event_job H key (ih_ticketId H) (ih_eventId H)) (ap_queue s) = (Inr jobId, q)"
  shows "\<exists>s1. ingest H env dto headerKey s = (Inr \<lparr>ir_status = Accepted, ir_idempotencyKey = key,
         ir_ticketId = Some (ih_ticketId H), ir_jobId = Some jobId\<rparr>, s1) \<and> ap_queue s1 = q
    \<and> tickets (ap_db s1) = tickets (ap_db s) @ [new_ticket_row (ih_ticketId H) (ih_create_at H) (ih_eventId H) dto]
    \<and> events (ap_db s1) = events (ap_db s) @ [new_event_row (ih_eventId H) (ih_create_at H) key dto]
    \<and> (\<exists>x. key_row key (ap_db s1) = Some x \<and> ik_status x = IK_COMPLETED \<and> ik_ticketId x = Some (ih_ticketId H)
        \<and> ik_requestHash x = request_hash H dto)
    \<and> (\<forall>H' env' dto' headerKey'. request_hash H' dto' = request_hash H dto
         \<and> event_key (request_hash H' dto') dto' headerKey' = key \<longrightarrow>
         (\<exists>s2. ingest H' env' dto' headerKey' s1 = (Inr \<lparr>ir_status = Replayed, ir_idempotencyKey = key,
             ir_ticketId = Some (ih_ticketId H), ir_jobId = Some jobId\<rparr>, s2)
           \<and> ap_db s2 = ap_db s1 \<and> ap_queue s2 = ap_queue s1))"
  by (rule accepted_then_replayed_aux [OF assms])

text \<open>
  C35: what is refused writes nothing. A key the guard rejects, from the header, from the body or
  derived, is answered 400 with the whole state unchanged; and a key already used for other content
  is answered 409 with database and queue unchanged, however the payloads order their properties.
\<close>

theorem refused_requests_write_nothing:
  assumes "key = event_key (request_hash H dto) dto headerKey"
  shows "(assertUsableAsJobId key = Inl e \<longrightarrow> ingest H env dto headerKey s = (Inl e, s))
    \<and> (assertUsableAsJobId key = Inr () \<and> key_row key (ap_db s) = Some x
        \<and> ik_requestHash x = request_hash H dto0
        \<and> denote (request_payload dto0) \<noteq> denote (request_payload dto)
        \<and> plain_json (request_payload dto0) \<and> plain_json (request_payload dto) \<and> number_printer (ih_num H)
        \<and> inj_on (ih_sha256 H) {canonical_text (ih_num H) (request_payload dto0),
            canonical_text (ih_num H) (request_payload dto)} \<longrightarrow>
        (\<exists>s'. ingest H env dto headerKey s = (Inl conflict_error, s')
          \<and> ap_db s' = ap_db s \<and> ap_queue s' = ap_queue s))"
proof (intro conjI impI)
  assume "assertUsableAsJobId key = Inl e"
  with assms show "ingest H env dto headerKey s = (Inl e, s)" by (simp add: ingest_def Let_def)
next
  assume a: "assertUsableAsJobId key = Inr () \<and> key_row key (ap_db s) = Some x
        \<and> ik_requestHash x = request_hash H dto0
        \<and> denote (request_payload dto0) \<noteq> denote (request_payload dto)
        \<and> plain_json (request_payload dto0) \<and> plain_json (request_payload dto) \<and> number_printer (ih_num H)
        \<and> inj_on (ih_sha256 H) {canonical_text (ih_num H) (request_payload dto0),
            canonical_text (ih_num H) (request_payload dto)}"
  then have "ik_requestHash x \<noteq> request_hash H dto"
    using hash_iff_content [of "request_payload dto0" "request_payload dto"] by metis
  with a have "claim env (ih_idemId H) (ih_claim_at H) (ih_reclaim_at H) key (request_hash H dto) (ap_db s)
      = (Inr (CR_CONFLICT x), ap_db s)"
    by (intro claim_conflicts) simp_all
  with a assms show "\<exists>s'. ingest H env dto headerKey s = (Inl conflict_error, s')
          \<and> ap_db s' = ap_db s \<and> ap_queue s' = ap_queue s"
    by (simp add: ingest_def Let_def answer_claim_def)
qed

text \<open>
  C34: a failed ingestion leaves the key retryable. Whatever made a submission throw, from the ticket
  transaction to the last write of the ledger: either nothing was written, or the key's row is there under
  the same content and can be claimed again. If the writes of the ledger worked, it is FAILED, and the very
  next submission claims it as NEW without waiting; if marking it FAILED or COMPLETED threw as well, it may
  instead be left PENDING under the lease of this run: a submission within the lease is told it is in
  flight, and the first one after the lease claims it as NEW. The constraints of the schema hold in any case.
\<close>

theorem failed_ingest_is_retryable:
  assumes "schema_ok (ap_db s)" and "key = event_key (request_hash H dto) dto headerKey"
    and "ingest H env dto headerKey s = (Inl e, s')"
    and "ih_idemId H \<notin> values_of ik_id (idempotency_keys (ap_db s))"
  shows "schema_ok (ap_db s') \<and> (ap_db s' = ap_db s \<and> ap_queue s' = ap_queue s
    \<or> (\<exists>x. key_row key (ap_db s') = Some x \<and> ik_requestHash x = request_hash H dto
        \<and> (ik_status x = IK_FAILED
             \<and> (\<forall>nid t1 t3 env'. fst (claim env' nid t1 t3 key (request_hash H dto) (ap_db s')) = Inr CR_NEW)
          \<or> (ih_failed_err H \<noteq> None \<or> ih_completed_err H \<noteq> None) \<and> ik_status x = IK_PENDING
             \<and> (\<exists>l \<in> {ih_claim_at H, ih_reclaim_at H}. ik_lockedAt x = Some l
                \<and> (\<forall>nid t1 t3 env'. fst (claim env' nid t1 t3 key (request_hash H dto) (ap_db s')) =
                     Inr (if l < t3 - interval_ms (IDEMPOTENCY_LEASE_MS env') then CR_NEW else CR_IN_FLIGHT x))))))"
proof (cases "assertUsableAsJobId key")
  case (Inl x)
  with assms show ?thesis by (simp add: ingest_def Let_def)
next
  case (Inr u)
  let ?h = "request_hash H dto"
  obtain out d where cl: "claim env (ih_idemId H) (ih_claim_at H) (ih_reclaim_at H) key ?h (ap_db s) = (out, d)"
    by (rule prod.exhaust)
  have dec: "if out = Inr CR_NEW then \<exists>r l. key_row key d = Some r \<and> ik_status r = IK_PENDING \<and> ik_requestHash r = ?h
        \<and> ik_lockedAt r = Some l \<and> l \<in> {ih_claim_at H, ih_reclaim_at H} else d = ap_db s"
    and total: "\<exists>o'. out = Inr o'"
    using claim_decides_aux [OF assms(1,4) cl] by blast+
  have ok: "schema_ok d" using claim_schema_ok [OF assms(1) cl] .
  show ?thesis
  proof (cases "out = Inr CR_NEW")
    case False
    with dec total Inr assms(2,3) cl assms(1) show ?thesis
      by (auto simp: ingest_def Let_def answer_claim_def split: claim_result.splits)
  next
    case True
    with dec obtain r l where r: "key_row key d = Some r" "ik_requestHash r = ?h" "ik_status r = IK_PENDING"
        "ik_lockedAt r = Some l" and l: "l \<in> {ih_claim_at H, ih_reclaim_at H}" by auto
    let ?d = "tx_db (createTicketIfAbsent H key dto d)"
    obtain r' where r': "key_row key ?d = Some r'" "ik_requestHash r' = ?h" "ik_status r' = IK_PENDING"
        "ik_lockedAt r' = Some l"
      using createTicket_row [OF r(1) refl, of H dto] r(2-4) by (metis (no_types, lifting))
    have ok': "schema_ok ?d" by (rule createTicket_schema_ok [OF ok])
    from True Inr assms(2,3) cl have run: "processNew H env key dto (s\<lparr>ap_db := d\<rparr>) = (Inl e, s')"
      by (simp add: ingest_def Let_def answer_claim_def)
    have leased: ?thesis if db: "ap_db s' = ?d" and errs: "ih_failed_err H \<noteq> None \<or> ih_completed_err H \<noteq> None"
      using ok' r' l errs claim_under_lease [OF ok' r'] unfolding db by blast
    from run show ?thesis
    proof (cases rule: processNew_cases)
      case gave_up
      show ?thesis
      proof (cases "ih_failed_err H")
        case None
        with gave_up have db: "ap_db s' = markFailed (ih_end_at H) key ?d" by (simp add: Let_def)
        have "schema_ok (ap_db s')" unfolding db by (rule markFailed_schema_ok [OF ok'])
        have row: "key_row key (ap_db s') = Some (r'\<lparr>ik_status := IK_FAILED, ik_lockedAt := None, ik_updatedAt := ih_end_at H\<rparr>)"
          by (simp add: db key_row_failed r'(1))
        have "fst (claim env' nid t1 t3 key ?h (ap_db s')) = Inr CR_NEW" for nid t1 t3 env'
          by (rule claim_reclaims_failed [OF \<open>schema_ok (ap_db s')\<close> row]) (simp_all add: r'(2))
        with \<open>schema_ok (ap_db s')\<close> row r'(2) show ?thesis by auto
      next
        case (Some x)
        with gave_up show ?thesis by (intro leased) (simp_all add: Let_def)
      qed
    next
      case unfinished
      then show ?thesis by (intro leased) simp_all
    next
      case accepted
      then show ?thesis by simp
    qed
  qed
qed

subsection \<open>Concrete requests\<close>

definition order_request :: create_event where
  "order_request = \<lparr>ce_idempotencyKey = Some ''order-1'', ce_subject = ''Refund'', ce_body = ''Please'',
     ce_requesterEmail = None, ce_source = Some ''web'', ce_metadata = None\<rparr>"

definition order_host :: "ref_queue ingest_host" where
  "order_host = \<lparr>ih_bull = ref_bull, ih_num = unary, ih_sha256 = id, ih_correlation = Some ''c1'',
     ih_idemId = ''k1'', ih_eventId = ''e1'', ih_ticketId = ''t1'', ih_claim_at = 1, ih_reclaim_at = 2,
     ih_create_at = 3, ih_end_at = 4, ih_faults = no_faults, ih_failed_err = None, ih_completed_err = None\<rparr>"

definition order_api :: "ref_queue api" where
  "order_api = \<lparr>ap_db = empty_db, ap_queue = empty_queue, ap_metrics = no_metrics\<rparr>"

lemma order_key: "event_key h order_request None = ''order-1''"
  by (simp add: event_key_def order_request_def)

lemma order_usable: "assertUsableAsJobId ''order-1'' = Inr ()"
  by (simp add: assertUsableAsJobId_def matches_key_pattern_def is_alnum_def key_char_def is_digit_def
      is_upper_def is_lower_def code_def)

definition linked_db :: db where
  "linked_db = empty_db\<lparr>idempotency_keys :=
     [(new_idem_row ''k0'' 0 ''order-1'' ''h'')\<lparr>ik_ticketId := Some ''t0'', ik_status := IK_FAILED\<rparr>]\<rparr>"

theorem resubmission_keeps_ticket_witness:
  "tickets (ap_db (snd (ingest order_host env_defaults order_request None (order_api\<lparr>ap_db := linked_db\<rparr>)))) = []"
proof -
  let ?s = "order_api\<lparr>ap_db := linked_db\<rparr>"
  obtain res s' where run: "ingest order_host env_defaults order_request None ?s = (res, s')" by (rule prod.exhaust)
  have row: "key_row ''order-1'' (ap_db ?s) =
      Some ((new_idem_row ''k0'' 0 ''order-1'' ''h'')\<lparr>ik_ticketId := Some ''t0'', ik_status := IK_FAILED\<rparr>)"
    by (simp add: linked_db_def)
  have "tickets (ap_db s') = tickets (ap_db ?s)"
    by (rule resubmission_keeps_ticket [OF row _ order_key [symmetric] run, THEN conjunct1]) simp
  moreover have "tickets (ap_db ?s) = []" by (simp add: linked_db_def empty_db_def)
  ultimately show ?thesis using run by (metis snd_conv)
qed

theorem accepted_then_replayed_witness:
  "\<exists>s1. fst (ingest order_host env_defaults order_request None order_api) = Inr \<lparr>ir_status = Accepted,
       ir_idempotencyKey = ''order-1'', ir_ticketId = Some ''t1'', ir_jobId = Some ''order-1''\<rparr>
     \<and> s1 = snd (ingest order_host env_defaults order_request None order_api) \<and> length (tickets (ap_db s1)) = 1
     \<and> fst (ingest order_host env_defaults order_request None s1) = Inr \<lparr>ir_status = Replayed,
       ir_idempotencyKey = ''order-1'', ir_ticketId = Some ''t1'', ir_jobId = Some ''order-1''\<rparr>"
proof -
  have enq: "enqueue (ih_bull order_host) env_defaults (event_job order_host ''order-1'' ''t1'' ''e1'') empty_queue
      = (Inr ''order-1'', empty_queue\<lparr>rq_jobs := [(''order-1'', new_job (event_job order_host ''order-1'' ''t1'' ''e1'')
          (standard_opts env_defaults ''order-1''))]\<rparr>)"
    by (simp add: enqueue_def ref_bull_def empty_queue_def order_host_def standard_opts_def order_id_ok event_job_def)
  have h: "ih_idemId order_host = ''k1''" "ih_eventId order_host = ''e1''" "ih_ticketId order_host = ''t1''"
    "ih_faults order_host = no_faults" "ih_completed_err order_host = None"
    by (simp_all add: order_host_def)
  have s: "ap_db order_api = empty_db" "ap_queue order_api = empty_queue" by (simp_all add: order_api_def)
  have e: "schema_ok empty_db" "idempotency_keys empty_db = []" "events empty_db = []" "tickets empty_db = []"
    by (simp_all add: schema_ok_empty) (simp_all add: empty_db_def)
  have none: "key_row ''order-1'' empty_db = None" by (simp add: e)
  have fresh: "i \<notin> values_of ik_id []" "i \<notin> values_of ev_id []" "i \<notin> values_of tk_id []" for i by simp_all
  note once = accepted_then_replayed [of order_api "''order-1''" order_host order_request None env_defaults, unfolded h s e,
      OF e(1) order_key [symmetric] order_usable none [unfolded e] fresh refl refl enq]
  obtain s1 where run: "ingest order_host env_defaults order_request None order_api = (Inr \<lparr>ir_status = Accepted,
       ir_idempotencyKey = ''order-1'', ir_ticketId = Some ''t1'', ir_jobId = Some ''order-1''\<rparr>, s1)"
      and added: "tickets (ap_db s1) = [] @ [new_ticket_row ''t1'' (ih_create_at order_host) ''e1'' order_request]"
      and again: "\<forall>H' env' dto' headerKey'. request_hash H' dto' = request_hash order_host order_request
         \<and> event_key (request_hash H' dto') dto' headerKey' = ''order-1'' \<longrightarrow>
         (\<exists>s2. ingest H' env' dto' headerKey' s1 = (Inr \<lparr>ir_status = Replayed, ir_idempotencyKey = ''order-1'',
             ir_ticketId = Some ''t1'', ir_jobId = Some ''order-1''\<rparr>, s2)
           \<and> ap_db s2 = ap_db s1 \<and> ap_queue s2 = ap_queue s1)"
    using once by (elim exE conjE) (rule that)
  from again [THEN spec, THEN spec, THEN spec, THEN spec, THEN mp, OF conjI, OF refl order_key]
  obtain s2 where "ingest order_host env_defaults order_request None s1 = (Inr \<lparr>ir_status = Replayed,
       ir_idempotencyKey = ''order-1'', ir_ticketId = Some ''t1'', ir_jobId = Some ''order-1''\<rparr>, s2)" by blast
  with run added show ?thesis by simp
qed

theorem failed_ingest_is_retryable_witness:
  "fst (ingest order_host env_defaults order_request None (order_api\<lparr>ap_queue := empty_queue\<lparr>rq_up := False\<rparr>\<rparr>)) = Inl redis_down
   \<and> fst (claim env_defaults ''k2'' 9 9 ''order-1'' (request_hash order_host order_request)
        (ap_db (snd (ingest order_host env_defaults order_request None (order_api\<lparr>ap_queue := empty_queue\<lparr>rq_up := False\<rparr>\<rparr>)))))
      = Inr CR_NEW"
proof -
  let ?h = "request_hash order_host order_request" and ?s = "order_api\<lparr>ap_queue := empty_queue\<lparr>rq_up := False\<rparr>\<rparr>"
  let ?row = "new_idem_row ''k1'' 1 ''order-1'' ?h"
  let ?d = "empty_db\<lparr>idempotency_keys := idempotency_keys empty_db @ [?row]\<rparr>"
  have h: "ih_idemId order_host = ''k1''" "ih_eventId order_host = ''e1''" "ih_ticketId order_host = ''t1''"
    "ih_faults order_host = no_faults" "ih_claim_at order_host = 1" "ih_failed_err order_host = None"
    "ih_completed_err order_host = None" "ih_bull order_host = ref_bull"
    by (simp_all add: order_host_def)
  have e: "idempotency_keys empty_db = []" "events empty_db = []" "tickets empty_db = []" by (simp_all add: empty_db_def)
  have cl: "claim env_defaults ''k1'' 1 (ih_reclaim_at order_host) ''order-1'' ?h empty_db = (Inr CR_NEW, ?d)"
    by (rule claim_wins) (simp_all add: e)
  have ok: "schema_ok ?d" using claim_schema_ok [OF schema_ok_empty cl] .
  have row: "key_row ''order-1'' ?d = Some ?row" by (simp add: e)
  have create: "tx_value (createTicketIfAbsent order_host ''order-1'' order_request ?d) = Inr (''t1'', ''e1'')"
    using first_create [OF ok row, of order_host order_request] by (simp add: h e)
  have down: "enqueue ref_bull env_defaults j (empty_queue\<lparr>rq_up := False\<rparr>) = (Inl redis_down, empty_queue\<lparr>rq_up := False\<rparr>)" for j
    by (simp add: enqueue_def ref_bull_def)
  have "fst (ingest order_host env_defaults order_request None ?s) = Inl redis_down"
    using cl create down
    by (simp add: ingest_def Let_def order_key order_usable h answer_claim_def processNew_def give_up_def order_api_def)
  moreover obtain out s' where run: "ingest order_host env_defaults order_request None ?s = (out, s')" by (rule prod.exhaust)
  ultimately have run': "ingest order_host env_defaults order_request None ?s = (Inl redis_down, s')" by simp
  have "ap_db s' = empty_db \<or> fst (claim env_defaults ''k2'' 9 9 ''order-1'' ?h (ap_db s')) = Inr CR_NEW"
    using failed_ingest_is_retryable [OF _ order_key [symmetric] run'] by (auto simp: order_api_def schema_ok_empty h e)
  moreover have "fst (claim env_defaults ''k2'' 9 9 ''order-1'' ?h empty_db) = Inr CR_NEW"
    by (subst claim_wins) (simp_all add: e)
  ultimately show ?thesis using run' by auto
qed

theorem refused_requests_write_nothing_witness:
  "ingest order_host env_defaults order_request (Some ''a:b'') order_api = (Inl (BadRequestException bad_key_msg), order_api)
   \<and> (\<exists>s'. ingest order_host env_defaults (order_request\<lparr>ce_body := ''Now''\<rparr>) None (order_api\<lparr>ap_db := empty_db\<lparr>idempotency_keys :=
        [new_idem_row ''k0'' 0 ''order-1'' (request_hash order_host order_request)]\<rparr>\<rparr>) = (Inl conflict_error, s'))"
proof
  have "assertUsableAsJobId ''a:b'' = Inl (BadRequestException bad_key_msg)"
    by (simp add: assertUsableAsJobId_def matches_key_pattern_def is_alnum_def key_char_def is_digit_def
        is_upper_def is_lower_def code_def)
  with refused_requests_write_nothing [of "''a:b''" order_host order_request "Some ''a:b''"]
  show "ingest order_host env_defaults order_request (Some ''a:b'') order_api = (Inl (BadRequestException bad_key_msg), order_api)"
    by (simp add: event_key_def)
next
  let ?dto = "order_request\<lparr>ce_body := ''Now''\<rparr>"
  let ?row = "new_idem_row ''k0'' 0 ''order-1'' (request_hash order_host order_request)"
  let ?s = "order_api\<lparr>ap_db := empty_db\<lparr>idempotency_keys := [?row]\<rparr>\<rparr>"
  have key: "''order-1'' = event_key (request_hash order_host ?dto) ?dto None"
    by (simp add: event_key_def order_request_def)
  have "denote (request_payload order_request) \<noteq> denote (request_payload ?dto)"
    by (auto simp: request_payload_def order_request_def dest: fun_cong [where x = "''body''"])
  moreover have "plain_json (request_payload order_request)" "plain_json (request_payload ?dto)"
    by (simp_all add: request_payload_def order_request_def str_or_null_def)
  moreover have "number_printer (ih_num order_host)" "inj_on (ih_sha256 order_host) A" for A
    by (simp_all add: order_host_def unary_printer)
  ultimately show "\<exists>s'. ingest order_host env_defaults ?dto None ?s = (Inl conflict_error, s')"
    using refused_requests_write_nothing [OF key, of undefined env_defaults ?s ?row order_request] order_usable
    by (simp del: hashPayload_def) blast
qed

end
