(* ===== verification/Backoff.thy ===== *)
theory Backoff
  imports Config
begin

section \<open>Backoff with jitter (src/common/backoff/backoff.ts)\<close>

text \<open>
  \<open>backoffWithJitter\<close> over the reals, \<open>r\<close> being what \<open>Math.random()\<close> returned. Its factors are
  integers times powers of two, which doubles represent exactly up to the cap of
  \<open>Number.MAX_SAFE_INTEGER\<close>; only the product with the random number is rounded in the code.
  Its three callers: the BullMQ strategy, the relay's redelivery and the upgrade chain.
\<close>

definition MAX_SAFE_INTEGER :: int where
  "MAX_SAFE_INTEGER = 2 ^ 53 - 1"

definition backoff_exp :: "int \<Rightarrow> int \<Rightarrow> int option \<Rightarrow> int" where
  "backoff_exp attempt baseMs maxMs =
     (let cap = (case maxMs of Some m \<Rightarrow> m | None \<Rightarrow> MAX_SAFE_INTEGER)
      in min cap (baseMs * 2 ^ nat (max 0 (attempt - 1))))"

definition backoffWithJitter :: "real \<Rightarrow> int \<Rightarrow> int \<Rightarrow> int option \<Rightarrow> int" where
  "backoffWithJitter r attempt baseMs maxMs =
     (let half = real_of_int (backoff_exp attempt baseMs maxMs) / 2
      in \<lfloor>half + r * half\<rfloor>)"

text \<open>
  \<open>pipelineBackoffStrategy\<close> reads the two variables from \<open>process.env\<close> itself; \<open>num\<close> is the
  conversion \<open>Number(...)\<close> of a set variable.
\<close>

definition pipelineBackoffStrategy ::
  "(string \<Rightarrow> int) \<Rightarrow> (string \<Rightarrow> string option) \<Rightarrow> real \<Rightarrow> int \<Rightarrow> int" where
  "pipelineBackoffStrategy num process_env r attemptsMade =
     (let baseMs = (case process_env ''PIPELINE_BACKOFF_BASE_MS'' of
                      Some s \<Rightarrow> num s | None \<Rightarrow> 2000);
          maxMs = (case process_env ''PIPELINE_BACKOFF_MAX_MS'' of
                      Some s \<Rightarrow> num s | None \<Rightarrow> 60000)
      in backoffWithJitter r attemptsMade baseMs (Some maxMs))"

text \<open>What \<open>Math.random()\<close> returns.\<close>

definition random_range :: "real \<Rightarrow> bool" where
  "random_range r \<longleftrightarrow> 0 \<le> r \<and> r < 1"

lemma backoff_exp_nonneg:
  assumes "0 \<le> baseMs" and "\<And>m. maxMs = Some m \<Longrightarrow> 0 \<le> m"
  shows "0 \<le> backoff_exp attempt baseMs maxMs"
  using assms by (cases maxMs) (auto simp: backoff_exp_def Let_def MAX_SAFE_INTEGER_def)

lemma backoff_half_bounds:
  assumes "0 \<le> e" and "random_range r"
  shows "e div 2 \<le> \<lfloor>real_of_int e / 2 + r * (real_of_int e / 2)\<rfloor>"
    and "\<lfloor>real_of_int e / 2 + r * (real_of_int e / 2)\<rfloor> \<le> e"
    and "0 \<le> \<lfloor>real_of_int e / 2 + r * (real_of_int e / 2)\<rfloor>"
proof -
  have low: "real_of_int e / 2 \<le> real_of_int e / 2 + r * (real_of_int e / 2)"
    using assms by (simp add: random_range_def)
  have "e div 2 = \<lfloor>real_of_int e / 2\<rfloor>"
    using floor_divide_of_int_eq [of e 2, where ?'a = real] by simp
  also have "\<dots> \<le> \<lfloor>real_of_int e / 2 + r * (real_of_int e / 2)\<rfloor>"
    using low by (rule floor_mono)
  finally show "e div 2 \<le> \<lfloor>real_of_int e / 2 + r * (real_of_int e / 2)\<rfloor>" .
  have "0 \<le> e div 2" using assms(1) by simp
  also have "e div 2 \<le> \<lfloor>real_of_int e / 2 + r * (real_of_int e / 2)\<rfloor>" by fact
  finally show "0 \<le> \<lfloor>real_of_int e / 2 + r * (real_of_int e / 2)\<rfloor>" .
  have "r * (real_of_int e / 2) \<le> 1 * (real_of_int e / 2)"
    using assms by (intro mult_right_mono) (simp_all add: random_range_def)
  then have "real_of_int e / 2 + r * (real_of_int e / 2) \<le> real_of_int e" by simp
  then show "\<lfloor>real_of_int e / 2 + r * (real_of_int e / 2)\<rfloor> \<le> e" by linarith
qed

text \<open>
  C40: a backoff delay lies between half the exponential term and the whole of it, whatever the
  random draw; so it is never negative, never above the cap, and the k-th retry waits at least half
  of \<open>base * 2^(k-1)\<close> until the cap is reached.
\<close>

theorem backoff_bounds:
  assumes "0 \<le> baseMs" and "\<forall>m. maxMs = Some m \<longrightarrow> 0 \<le> m" and "random_range r"
  shows "backoff_exp attempt baseMs maxMs div 2 \<le> backoffWithJitter r attempt baseMs maxMs
    \<and> backoffWithJitter r attempt baseMs maxMs \<le> backoff_exp attempt baseMs maxMs
    \<and> backoff_exp attempt baseMs maxMs
        \<le> (case maxMs of Some m \<Rightarrow> m | None \<Rightarrow> MAX_SAFE_INTEGER)
    \<and> 0 \<le> backoffWithJitter r attempt baseMs maxMs"
proof -
  have nn: "0 \<le> backoff_exp attempt baseMs maxMs"
    using assms(1,2) by (intro backoff_exp_nonneg) auto
  note b = backoff_half_bounds [OF nn assms(3)]
  have cap: "backoff_exp attempt baseMs maxMs
      \<le> (case maxMs of Some m \<Rightarrow> m | None \<Rightarrow> MAX_SAFE_INTEGER)"
    by (simp add: backoff_exp_def Let_def)
  from b cap show ?thesis by (simp add: backoffWithJitter_def Let_def)
qed

theorem backoff_bounds_witness:
  "backoff_exp 3 2000 None = 8000
   \<and> 4000 \<le> backoffWithJitter (1 / 4) 3 2000 None \<and> backoffWithJitter (1 / 4) 3 2000 None \<le> 8000"
proof -
  have r: "random_range (1 / 4)" by (simp add: random_range_def)
  have e: "backoff_exp 3 2000 None = 8000"
    by (simp add: backoff_exp_def MAX_SAFE_INTEGER_def)
  from backoff_bounds [OF _ _ r, of 2000 None 3] e show ?thesis by simp
qed

text \<open>The facts the callers use.\<close>

lemma backoff_nonneg:
  assumes "0 \<le> baseMs" and "random_range r"
  shows "0 \<le> backoffWithJitter r attempt baseMs None"
proof -
  have nn: "0 \<le> backoff_exp attempt baseMs None"
    using assms(1) by (intro backoff_exp_nonneg) auto
  from backoff_half_bounds(3) [OF this assms(2)] show ?thesis
    by (simp add: backoffWithJitter_def Let_def)
qed

lemma backoff_le_exp:
  assumes "0 \<le> baseMs" and "random_range r"
  shows "backoffWithJitter r attempt baseMs None \<le> backoff_exp attempt baseMs None"
proof -
  have nn: "0 \<le> backoff_exp attempt baseMs None"
    using assms(1) by (intro backoff_exp_nonneg) auto
  from backoff_half_bounds(2) [OF this assms(2)] show ?thesis
    by (simp add: backoffWithJitter_def Let_def)
qed

text \<open>The exponential term never shrinks as failures persist.\<close>

lemma backoff_exp_mono:
  assumes "0 \<le> baseMs" and "a \<le> b"
  shows "backoff_exp a baseMs maxMs \<le> backoff_exp b baseMs maxMs"
proof -
  have "(2::int) ^ nat (max 0 (a - 1)) \<le> 2 ^ nat (max 0 (b - 1))"
    using assms(2) by (intro power_increasing) auto
  then have "baseMs * 2 ^ nat (max 0 (a - 1)) \<le> baseMs * 2 ^ nat (max 0 (b - 1))"
    using assms(1) by (rule mult_left_mono)
  then show ?thesis by (auto simp: backoff_exp_def Let_def min_def)
qed

end
