(* ===== verification/Single_Flight.thy ===== *)
theory Single_Flight
  imports Prelude
begin

section \<open>One pass at a time: the guard of the periodic tasks\<close>

text \<open>
  The relay and both sweepers share one pattern: a flag is tested and set when a pass begins
  (\<open>if (this.stopped || this.running) return; this.running = true\<close>) and cleared in a \<open>finally\<close>.
  Timers may fire while a pass is waiting for the database, so passes are started and finished
  by separate events. The locale states what the pattern guarantees; each of the three classes
  interprets it with its own flags.
\<close>

datatype flight_event = Enter nat | Leave nat

text \<open>A schedule of timer firings and completions, with the set of passes in progress.\<close>

fun flight ::
  "('s \<Rightarrow> 's option) \<Rightarrow> ('s \<Rightarrow> 's) \<Rightarrow> flight_event list \<Rightarrow> 's \<times> nat set \<Rightarrow> 's \<times> nat set" where
  "flight en lv [] (s, A) = (s, A)"
| "flight en lv (Enter i # es) (s, A) =
     (case en s of None \<Rightarrow> flight en lv es (s, A) | Some s' \<Rightarrow> flight en lv es (s', insert i A))"
| "flight en lv (Leave i # es) (s, A) =
     (if i \<in> A then flight en lv es (lv s, A - {i}) else flight en lv es (s, A))"

locale single_flight =
  fixes enter :: "'s \<Rightarrow> 's option" and leave :: "'s \<Rightarrow> 's" and busy :: "'s \<Rightarrow> bool"
  assumes enter_idle: "enter s = Some s' \<Longrightarrow> \<not> busy s \<and> busy s'"
    and leave_idle: "\<not> busy (leave s)"
begin

lemma flight_invariant:
  assumes "flight enter leave es (s, A) = (s', A')"
    and "A = {} \<and> \<not> busy s \<or> (\<exists>i. A = {i}) \<and> busy s"
  shows "A' = {} \<and> \<not> busy s' \<or> (\<exists>i. A' = {i}) \<and> busy s'"
  using assms
proof (induction es arbitrary: s A)
  case Nil
  then show ?case by auto
next
  case (Cons e es)
  show ?case
  proof (cases e)
    case (Enter i)
    show ?thesis
    proof (cases "enter s")
      case None
      with Cons Enter show ?thesis by simp
    next
      case (Some s1)
      with enter_idle have "\<not> busy s" "busy s1" by blast+
      with Cons.prems have "A = {}" by auto
      with Cons.prems(1) Enter Some have "flight enter leave es (s1, {i}) = (s', A')" by simp
      from Cons.IH [OF this] \<open>busy s1\<close> show ?thesis by blast
    qed
  next
    case (Leave i)
    show ?thesis
    proof (cases "i \<in> A")
      case True
      with Cons.prems have "A = {i}" by auto
      with Cons.prems(1) Leave have "flight enter leave es (leave s, {}) = (s', A')" by simp
      from Cons.IH [OF this] leave_idle show ?thesis by blast
    next
      case False
      with Cons Leave show ?thesis by simp
    qed
  qed
qed

text \<open>Whatever the timers do, at most one pass is in progress, and the flag says whether one is.\<close>

lemma flight_exclusive:
  assumes "\<not> busy s" and "flight enter leave es (s, {}) = (s', A)"
  shows "finite A \<and> card A \<le> 1 \<and> (busy s' \<longleftrightarrow> A \<noteq> {})"
  using flight_invariant [OF assms(2)] assms(1) by auto

end

end
