(* ===== verification/Outbox.thy ===== *)
theory Outbox
  imports Transaction Config Backoff Observability Single_Flight
begin

section \<open>The transactional outbox (src/outbox)\<close>

text \<open>
  \<open>OutboxService.emit\<close> as an insert that ignores a known dedup key, and the relay: the polling
  query, the dispatch of one row, the batch inside one transaction, and the tick that reschedules.
  The dispatcher is a parameter over a world \<open>'w\<close>, which a rollback does not restore; so are the
  rows other relays hold locks on, the random draws and the minted correlation ids.
\<close>

subsection \<open>OutboxService\<close>

record emit_input =
  em_aggregateType :: string
  em_aggregateId :: uuid
  em_eventType :: string
  em_version :: string
  em_payload :: json

definition buildDedupKey :: "emit_input \<Rightarrow> string" where
  "buildDedupKey i = em_aggregateType i @ '':'' @ em_aggregateId i @ '':'' @ em_eventType i
     @ '':'' @ em_version i"

definition new_outbox_row :: "uuid \<Rightarrow> timestamp \<Rightarrow> emit_input \<Rightarrow> outbox_row" where
  "new_outbox_row nid now i = \<lparr>ob_id = nid, ob_aggregateType = em_aggregateType i,
     ob_aggregateId = em_aggregateId i, ob_eventType = em_eventType i, ob_payload = em_payload i,
     ob_status = OB_PENDING, ob_attempts = 0, ob_nextAttemptAt = now, ob_lastError = None,
     ob_dedupKey = buildDedupKey i, ob_createdAt = now, ob_dispatchedAt = None\<rparr>"

text \<open>\<open>INSERT ... ON CONFLICT (dedup_key) DO NOTHING\<close>: only that constraint is ignored.\<close>

definition emit :: "uuid \<Rightarrow> timestamp \<Rightarrow> emit_input \<Rightarrow> db \<Rightarrow> exn + (string \<times> db)" where
  "emit nid now i d =
     (let dedupKey = buildDedupKey i in
      if dedupKey \<in> values_of ob_dedupKey (outbox_messages d) then Inr (dedupKey, d)
      else if nid \<in> values_of ob_id (outbox_messages d)
        then Inl (UniqueViolation ''outbox_messages_pkey'')
      else Inr (dedupKey, d\<lparr>outbox_messages := outbox_messages d @ [new_outbox_row nid now i]\<rparr>))"

lemma new_outbox_row_simps [simp]:
  "ob_id (new_outbox_row nid now i) = nid" "ob_status (new_outbox_row nid now i) = OB_PENDING"
  "ob_dedupKey (new_outbox_row nid now i) = buildDedupKey i"
  "ob_attempts (new_outbox_row nid now i) = 0" "ob_payload (new_outbox_row nid now i) = em_payload i"
  "ob_nextAttemptAt (new_outbox_row nid now i) = now"
  "ob_aggregateId (new_outbox_row nid now i) = em_aggregateId i"
  "ob_eventType (new_outbox_row nid now i) = em_eventType i"
  by (simp_all add: new_outbox_row_def)

lemma emit_schema_ok [wf_intros]:
  assumes "schema_ok d" and "emit nid now i d = Inr (k, d')"
  shows "schema_ok d'"
  using assms
  by (auto simp: emit_def Let_def schema_ok_def tickets_fk_ok_def idem_fk_ok_def split: if_splits)

lemma emit_frame:
  assumes "emit nid now i d = Inr (k, d')"
  shows "events d' = events d \<and> tickets d' = tickets d \<and> idempotency_keys d' = idempotency_keys d
    \<and> dead_letters d' = dead_letters d"
  using assms by (auto simp: emit_def Let_def split: if_splits)

text \<open>
  The contract the pipeline relies on: an emitted effect is in the log under its key, a second
  emission of it changes nothing, and nothing but the log changes.
\<close>

locale effect_log =
  fixes emit_effect :: "uuid \<Rightarrow> timestamp \<Rightarrow> 'i \<Rightarrow> 'd \<Rightarrow> exn + (string \<times> 'd)"
    and effect_key :: "'i \<Rightarrow> string" and logged :: "'d \<Rightarrow> string set"
  assumes emit_logs: "emit_effect nid now i d = Inr (k, d') \<Longrightarrow>
      k = effect_key i \<and> logged d' = insert (effect_key i) (logged d)"
    and emit_known: "effect_key i \<in> logged d \<Longrightarrow> emit_effect nid now i d = Inr (effect_key i, d)"
begin

text \<open>Emitting the same effect again, at any time and under any row id, is absorbed.\<close>

lemma emit_again_absorbed:
  assumes "emit_effect nid now i d = Inr (k, d')" and "effect_key j = effect_key i"
  shows "emit_effect nid' now' j d' = Inr (k, d')"
  using emit_logs [OF assms(1)] emit_known [of j d' nid' now'] assms(2) by simp

end

definition dedup_keys :: "db \<Rightarrow> string set" where
  "dedup_keys d = values_of ob_dedupKey (outbox_messages d)"

interpretation outbox_log: effect_log emit buildDedupKey dedup_keys
  by unfold_locales (auto simp: emit_def Let_def dedup_keys_def split: if_splits)

text \<open>Different aggregates, event types or versions never share a key, ids being colon-free.\<close>

definition colon_free :: "string \<Rightarrow> bool" where
  "colon_free s \<longleftrightarrow> CHR '':'' \<notin> set s"

lemma buildDedupKey_inject:
  assumes "colon_free (em_aggregateType i)" "colon_free (em_aggregateId i)"
    "colon_free (em_eventType i)"
    and "colon_free (em_aggregateType j)" "colon_free (em_aggregateId j)"
    "colon_free (em_eventType j)"
  shows "buildDedupKey i = buildDedupKey j \<longleftrightarrow>
     em_aggregateType i = em_aggregateType j \<and> em_aggregateId i = em_aggregateId j
   \<and> em_eventType i = em_eventType j \<and> em_version i = em_version j"
  using assms by (auto simp: buildDedupKey_def colon_free_def sep_append_inject)

subsection \<open>The relay's parameters\<close>

record dispatch_message =
  dm_aggregateType :: string
  dm_aggregateId :: uuid
  dm_eventType :: string
  dm_payload :: json
  dm_dedupKey :: string

text \<open>A dispatch runs in a correlation scope and answers, or throws, in a new world.\<close>

type_synonym 'w dispatcher = "string \<Rightarrow> dispatch_message \<Rightarrow> 'w \<Rightarrow> (exn + unit) \<times> 'w"

text \<open>What the host supplies for a row: the random draw of its backoff, a fresh correlation id.\<close>

record relay_host =
  rh_random :: "uuid \<Rightarrow> real"
  rh_uuid :: "uuid \<Rightarrow> string"

definition message_of :: "outbox_row \<Rightarrow> dispatch_message" where
  "message_of row = \<lparr>dm_aggregateType = ob_aggregateType row, dm_aggregateId = ob_aggregateId row,
     dm_eventType = ob_eventType row, dm_payload = ob_payload row, dm_dedupKey = ob_dedupKey row\<rparr>"

subsection \<open>One row\<close>

definition is_due :: "timestamp \<Rightarrow> outbox_row \<Rightarrow> bool" where
  "is_due now r \<longleftrightarrow> ob_status r = OB_PENDING \<and> ob_nextAttemptAt r \<le> now"

text \<open>
  The claim query: due rows no other transaction has locked, oldest first, at most a batch.
\<close>

definition poll_due :: "timestamp \<Rightarrow> int \<Rightarrow> uuid set \<Rightarrow> db \<Rightarrow> outbox_row list" where
  "poll_due now batch locked d =
     take (nat batch)
       (sort_key ob_nextAttemptAt
         (filter (\<lambda>r. is_due now r \<and> ob_id r \<notin> locked) (outbox_messages d)))"

text \<open>The three UPDATE statements, by primary key.\<close>

definition mark_sent :: "timestamp \<Rightarrow> outbox_row \<Rightarrow> db \<Rightarrow> db" where
  "mark_sent now row d = d\<lparr>outbox_messages :=
     update_where (\<lambda>r. ob_id r = ob_id row)
       (\<lambda>r. r\<lparr>ob_status := OB_SENT, ob_dispatchedAt := Some now, ob_lastError := None\<rparr>)
       (outbox_messages d)\<rparr>"

definition handleDispatchFailure ::
  "EnvVars \<Rightarrow> timestamp \<Rightarrow> relay_host \<Rightarrow> outbox_row \<Rightarrow> exn \<Rightarrow> metrics \<Rightarrow> db \<Rightarrow> metrics \<times> db" where
  "handleDispatchFailure env now host row err m d =
     (let attempts = ob_attempts row + 1;
          message = str_slice 1000 (exn_message err)
      in if OUTBOX_MAX_ATTEMPTS env \<le> attempts then
           (inc OutboxFailed m,
            d\<lparr>outbox_messages := update_where (\<lambda>r. ob_id r = ob_id row)
                (\<lambda>r. r\<lparr>ob_status := OB_FAILED, ob_attempts := attempts,
                      ob_lastError := Some message\<rparr>) (outbox_messages d)\<rparr>)
         else
           (let delay = backoffWithJitter (rh_random host (ob_id row)) attempts
                          (OUTBOX_BACKOFF_BASE_MS env) None
            in (m,
                d\<lparr>outbox_messages := update_where (\<lambda>r. ob_id r = ob_id row)
                    (\<lambda>r. r\<lparr>ob_attempts := attempts, ob_lastError := Some message,
                          ob_nextAttemptAt := now + interval_ms delay\<rparr>) (outbox_messages d)\<rparr>)))"

definition dispatchRow ::
  "EnvVars \<Rightarrow> timestamp \<Rightarrow> relay_host \<Rightarrow> 'w dispatcher \<Rightarrow> outbox_row \<Rightarrow> 'w \<times> metrics \<Rightarrow> db \<Rightarrow>
   ('w \<times> metrics) \<times> db" where
  "dispatchRow env now host dispatch row wm d =
     (let correlationId = json_str (json_field ''correlationId'' (ob_payload row));
          (w, m) = wm;
          (res, w') = runWithCorrelation (rh_uuid host (ob_id row)) correlationId
                        (\<lambda>cid. dispatch cid (message_of row) w)
      in case res of
           Inr _ \<Rightarrow> ((w', inc OutboxDispatched m), mark_sent now row d)
         | Inl err \<Rightarrow>
             (case handleDispatchFailure env now host row err m d of (m', d') \<Rightarrow> ((w', m'), d')))"

fun dispatchRows ::
  "EnvVars \<Rightarrow> timestamp \<Rightarrow> relay_host \<Rightarrow> 'w dispatcher \<Rightarrow> outbox_row list \<Rightarrow> 'w \<times> metrics \<Rightarrow> db \<Rightarrow>
   ('w \<times> metrics) \<times> db" where
  "dispatchRows env now host dispatch [] wm d = (wm, d)"
| "dispatchRows env now host dispatch (row # rows) wm d =
     (case dispatchRow env now host dispatch row wm d of
        (wm', d') \<Rightarrow> dispatchRows env now host dispatch rows wm' d')"

subsection \<open>One batch and one tick\<close>

definition drainOnce ::
  "tx_faults \<Rightarrow> EnvVars \<Rightarrow> timestamp \<Rightarrow> relay_host \<Rightarrow> uuid set \<Rightarrow> 'w dispatcher \<Rightarrow>
   'w \<times> metrics \<Rightarrow> db \<Rightarrow> (nat, 'w \<times> metrics) tx_result" where
  "drainOnce F env now host locked dispatch wm d =
     runInTransaction F
       (\<lambda>wm d.
          (let rows = poll_due now (OUTBOX_RELAY_BATCH_SIZE env) locked d;
               (wm', d') = dispatchRows env now host dispatch rows wm d
           in (Inr (length rows, d'), wm')))
       wm d"

definition pending_count :: "db \<Rightarrow> nat" where
  "pending_count d = affected (\<lambda>r. ob_status r = OB_PENDING) (outbox_messages d)"

record relay_state =
  rl_timer :: "int option"
  rl_stopped :: bool
  rl_draining :: bool

definition relay_new :: relay_state where
  "relay_new = \<lparr>rl_timer = None, rl_stopped = False, rl_draining = False\<rparr>"

definition scheduleNext :: "int \<Rightarrow> relay_state \<Rightarrow> relay_state" where
  "scheduleNext delayMs s = (if rl_stopped s then s else s\<lparr>rl_timer := Some delayMs\<rparr>)"

definition relay_onModuleInit :: "relay_state \<Rightarrow> relay_state" where
  "relay_onModuleInit s = scheduleNext 0 s"

definition relay_onModuleDestroy :: "relay_state \<Rightarrow> relay_state" where
  "relay_onModuleDestroy s = s\<lparr>rl_stopped := True, rl_timer := None\<rparr>"

text \<open>The guard of \<open>tick\<close>, and its \<open>finally\<close> with the number of rows the pass processed.\<close>

definition tick_begin :: "relay_state \<Rightarrow> relay_state option" where
  "tick_begin s = (if rl_stopped s \<or> rl_draining s then None else Some (s\<lparr>rl_draining := True\<rparr>))"

definition tick_finally :: "EnvVars \<Rightarrow> nat \<Rightarrow> relay_state \<Rightarrow> relay_state" where
  "tick_finally env processed s =
     (let full = OUTBOX_RELAY_BATCH_SIZE env \<le> int processed
      in scheduleNext (if full then 0 else OUTBOX_RELAY_POLL_INTERVAL_MS env)
           (s\<lparr>rl_draining := False\<rparr>))"

text \<open>
  The whole tick. The timer that fired is spent. \<open>processed\<close> stays 0 when the drain throws; the
  gauge is refreshed only after a drain that returned (\<open>count_ok\<close>: the counting query answered).
\<close>

definition tick ::
  "tx_faults \<Rightarrow> bool \<Rightarrow> EnvVars \<Rightarrow> timestamp \<Rightarrow> relay_host \<Rightarrow> uuid set \<Rightarrow> 'w dispatcher \<Rightarrow>
   relay_state \<Rightarrow> 'w \<times> metrics \<Rightarrow> db \<Rightarrow> relay_state \<times> ('w \<times> metrics) \<times> db" where
  "tick F count_ok env now host locked dispatch s wm d =
     (case tick_begin s of
        None \<Rightarrow> (s, wm, d)
      | Some s1 \<Rightarrow>
          (let r = drainOnce F env now host locked dispatch wm d in
           case tx_value r of
             Inl e \<Rightarrow> (tick_finally env 0 s1, tx_world r, tx_db r)
           | Inr processed \<Rightarrow>
               (let (w, m) = tx_world r;
                    m' = (if count_ok
                          then set_gauge OutboxPending (real (pending_count (tx_db r))) m else m)
                in (tick_finally env processed s1, (w, m'), tx_db r))))"

interpretation relay_guard: single_flight tick_begin "tick_finally env n" rl_draining for env n
  by unfold_locales
     (auto simp: tick_begin_def tick_finally_def scheduleNext_def Let_def split: if_splits)

end
