(* ===== verification/Dlq.thy ===== *)
theory Dlq
  imports Job_Ids Entities Observability
begin

section \<open>The dead-letter queue (src/pipeline/dlq)\<close>

text \<open>
  \<open>DlqService\<close> and the limits of \<open>DlqController\<close>. \<open>replay\<close> is the conditional flip, the enqueue and
  the undo. A statement that cannot reach the database throws \<open>db_err\<close>.
\<close>

text \<open>What the handler sees of a BullMQ job.\<close>

record run_job =
  rj_id :: "string option"
  rj_queueName :: string
  rj_data :: job_data
  rj_attemptsMade :: int
  rj_attempts :: "int option"

record js_error =
  er_exn :: exn
  er_name :: string
  er_stack :: "string option"

definition dead_letter_of :: "uuid \<Rightarrow> timestamp \<Rightarrow> run_job \<Rightarrow> js_error \<Rightarrow> dead_letter_row" where
  "dead_letter_of nid now job err = \<lparr>dl_id = nid, dl_queue = rj_queueName job,
     dl_jobId = (case rj_id job of Some i \<Rightarrow> i | None \<Rightarrow> ''undefined''),
     dl_idempotencyKey = jd_idempotencyKey (rj_data job), dl_payload = job_json (rj_data job),
     dl_errorMessage = str_slice 2000 (exn_message (er_exn err)), dl_errorStack = er_stack err,
     dl_attemptsMade = rj_attemptsMade job, dl_status = DL_PENDING, dl_failedAt = now,
     dl_replayedAt = None, dl_createdAt = now\<rparr>"

definition recordDeadLetter ::
  "exn option \<Rightarrow> uuid \<Rightarrow> timestamp \<Rightarrow> run_job \<Rightarrow> js_error \<Rightarrow> metrics \<Rightarrow> db \<Rightarrow> exn + (metrics \<times> db)" where
  "recordDeadLetter db_err nid now job err m d = (case db_err of
       Some e \<Rightarrow> Inl e
     | None \<Rightarrow> (case insert_dead_letter (dead_letter_of nid now job err) d of
           Inl e \<Rightarrow> Inl e
         | Inr d' \<Rightarrow> Inr (inc (EventsFailed ''dead_letter'') m, d')))"

text \<open>
  \<open>repo.find\<close> with its order and paging; what TypeORM does with a page of no or negative size, or a
  negative offset, is the parameter \<open>edge\<close>.
\<close>

definition newest_first :: "dead_letter_row list \<Rightarrow> dead_letter_row list" where
  "newest_first rows = sort_key (\<lambda>r. - dl_failedAt r) rows"

definition dlq_list ::
  "(dead_letter_row list \<Rightarrow> exn + dead_letter_row list) \<Rightarrow> DeadLetterStatus option \<Rightarrow> int \<Rightarrow> int \<Rightarrow> db \<Rightarrow>
   exn + dead_letter_row list" where
  "dlq_list edge status limit offset d =
     (let rows = newest_first (filter (\<lambda>r. case status of Some s \<Rightarrow> dl_status r = s | None \<Rightarrow> True) (dead_letters d))
      in if 1 \<le> limit \<and> 0 \<le> offset then Inr (take (nat limit) (drop (nat offset) rows)) else edge rows)"

text \<open>The controller's defaults and its cap on the page.\<close>

definition dlq_page ::
  "(dead_letter_row list \<Rightarrow> exn + dead_letter_row list) \<Rightarrow> DeadLetterStatus option \<Rightarrow> int option \<Rightarrow> int option \<Rightarrow> db \<Rightarrow>
   exn + (nat \<times> dead_letter_row list)" where
  "dlq_page edge status limit offset d =
     (let lim = (case limit of Some n \<Rightarrow> n | None \<Rightarrow> 50); off = (case offset of Some n \<Rightarrow> n | None \<Rightarrow> 0) in
      case dlq_list edge status (min lim 200) off d of
        Inl e \<Rightarrow> Inl e
      | Inr rows \<Rightarrow> Inr (length rows, rows))"

definition dead_letter_missing :: "uuid \<Rightarrow> exn" where
  "dead_letter_missing i = NotFoundException (''dead letter '' @ i @ '' not found'')"

definition already_replayed :: "uuid \<Rightarrow> exn" where
  "already_replayed i = ConflictException (''dead letter '' @ i @ '' has already been replayed'')"

abbreviation dl_row :: "uuid \<Rightarrow> db \<Rightarrow> dead_letter_row option" where
  "dl_row i d \<equiv> row_with dl_id i (dead_letters d)"

definition dlq_getByIdOrThrow :: "uuid \<Rightarrow> db \<Rightarrow> exn + dead_letter_row" where
  "dlq_getByIdOrThrow i d = (case dl_row i d of None \<Rightarrow> Inl (dead_letter_missing i) | Some r \<Rightarrow> Inr r)"

text \<open>\<open>UPDATE ... WHERE id AND status = 'PENDING' RETURNING *\<close>: the rows returned.\<close>

definition replay_flip :: "timestamp \<Rightarrow> uuid \<Rightarrow> db \<Rightarrow> dead_letter_row list \<times> db" where
  "replay_flip now i d =
     (let p = (\<lambda>r. dl_id r = i \<and> dl_status r = DL_PENDING);
          f = (\<lambda>r. r\<lparr>dl_status := DL_REPLAYED, dl_replayedAt := Some now\<rparr>)
      in (map f (filter p (dead_letters d)), d\<lparr>dead_letters := update_where p f (dead_letters d)\<rparr>))"

definition replay_undo :: "uuid \<Rightarrow> db \<Rightarrow> db" where
  "replay_undo i d = d\<lparr>dead_letters := update_where (\<lambda>r. dl_id r = i)
     (\<lambda>r. r\<lparr>dl_status := DL_PENDING, dl_replayedAt := None\<rparr>) (dead_letters d)\<rparr>"

text \<open>The three statements of \<open>replay\<close> can each throw: the flip, the lookup after it, and the undo.\<close>

record replay_errs =
  re_flip :: "exn option"
  re_find :: "exn option"
  re_undo :: "exn option"

definition dlq_replay ::
  "'q bull \<Rightarrow> EnvVars \<Rightarrow> replay_errs \<Rightarrow> timestamp \<Rightarrow> uuid \<Rightarrow> 'q \<Rightarrow> db \<Rightarrow> (exn + (uuid \<times> string)) \<times> 'q \<times> db" where
  "dlq_replay Q env E now i q d =
     (case re_flip E of
        Some e \<Rightarrow> (Inl e, q, d)
      | None \<Rightarrow>
     (case replay_flip now i d of
        ([], d1) \<Rightarrow>
          (case re_find E of
             Some e \<Rightarrow> (Inl e, q, d1)
           | None \<Rightarrow>
          (case dl_row i d1 of
             None \<Rightarrow> (Inl (dead_letter_missing i), q, d1)
           | Some _ \<Rightarrow> (Inl (already_replayed i), q, d1)))
      | (row # _, d1) \<Rightarrow>
          (case enqueueReplay Q env (job_of_json (dl_payload row)) i q of
             (Inr jobId, q') \<Rightarrow> (Inr (i, jobId), q', d1)
           | (Inl e, q') \<Rightarrow>
               (case re_undo E of
                  Some e' \<Rightarrow> (Inl e', q', d1)
                | None \<Rightarrow> (Inl e, q', replay_undo i d1)))))"

definition no_replay_errs :: replay_errs where
  "no_replay_errs = \<lparr>re_flip = None, re_find = None, re_undo = None\<rparr>"

lemma no_replay_errs_simps [simp]:
  "re_flip no_replay_errs = None" "re_find no_replay_errs = None" "re_undo no_replay_errs = None"
  by (simp_all add: no_replay_errs_def)

definition pendingCount :: "db \<Rightarrow> nat" where
  "pendingCount d = affected (\<lambda>r. dl_status r = DL_PENDING) (dead_letters d)"

subsection \<open>The flip\<close>

lemma dl_row_flip:
  assumes "replay_flip now i d = (rows, d')"
  shows "dl_row j d' = map_option (\<lambda>r. if j = i \<and> dl_status r = DL_PENDING
     then r\<lparr>dl_status := DL_REPLAYED, dl_replayedAt := Some now\<rparr> else r) (dl_row j d)"
proof -
  have "dead_letters d' = update_where (\<lambda>r. dl_id r = i \<and> dl_status r = DL_PENDING)
      (\<lambda>r. r\<lparr>dl_status := DL_REPLAYED, dl_replayedAt := Some now\<rparr>) (dead_letters d)"
    using assms by (auto simp: replay_flip_def Let_def)
  then show ?thesis
    by (auto simp: row_with_update_where map_option_case split: option.splits dest!: row_with_SomeD)
qed

lemma dl_row_undo:
  "dl_row j (replay_undo i d) = map_option (\<lambda>r. if j = i
     then r\<lparr>dl_status := DL_PENDING, dl_replayedAt := None\<rparr> else r) (dl_row j d)"
  by (auto simp: replay_undo_def row_with_update_where map_option_case split: option.splits
      dest!: row_with_SomeD)

lemma filter_unique:
  assumes "unique_by c rs"
  shows "filter (\<lambda>r. c r = v \<and> p r) rs =
    (case row_with c v rs of Some r \<Rightarrow> if p r then [r] else [] | None \<Rightarrow> [])"
  using assms
proof (induction rs)
  case Nil
  then show ?case by simp
next
  case (Cons r rs)
  then have u: "unique_by c rs" by (simp add: unique_by_def)
  show ?case
  proof (cases "c r = v")
    case True
    with Cons.prems have "v \<notin> values_of c rs" by (auto simp: unique_by_def values_of_def)
    then have "filter (\<lambda>r. c r = v \<and> p r) rs = []" by (auto simp: filter_empty_conv values_of_def)
    with True show ?thesis by simp
  next
    case False
    with Cons.IH [OF u] show ?thesis by simp
  qed
qed

lemma replay_flip_rows:
  assumes "schema_ok d" and "replay_flip now i d = (rows, d')"
  shows "rows = (case dl_row i d of
      Some r \<Rightarrow> if dl_status r = DL_PENDING then [r\<lparr>dl_status := DL_REPLAYED, dl_replayedAt := Some now\<rparr>] else []
    | None \<Rightarrow> [])"
proof -
  have "unique_by dl_id (dead_letters d)" using assms(1) by (simp add: schema_ok_def)
  from filter_unique [OF this, of i "\<lambda>r. dl_status r = DL_PENDING"] assms(2) show ?thesis
    by (auto simp: replay_flip_def Let_def split: option.splits)
qed

lemma schema_ok_dead_letter_update:
  assumes "schema_ok d" and "\<And>r. dl_id (f r) = dl_id r"
  shows "schema_ok (d\<lparr>dead_letters := update_where p f (dead_letters d)\<rparr>)"
  using assms by (simp add: schema_ok_def tickets_fk_ok_def idem_fk_ok_def unique_by_update_where)

lemma replay_flip_schema_ok: "schema_ok d \<Longrightarrow> replay_flip now i d = (rows, d') \<Longrightarrow> schema_ok d'"
  by (auto simp: replay_flip_def Let_def intro: schema_ok_dead_letter_update)

lemma replay_undo_schema_ok: "schema_ok d \<Longrightarrow> schema_ok (replay_undo i d)"
  by (simp add: replay_undo_def schema_ok_dead_letter_update)

lemma replay_frames:
  "replay_flip now i d = (rows, d') \<Longrightarrow> events d' = events d \<and> tickets d' = tickets d
     \<and> idempotency_keys d' = idempotency_keys d \<and> outbox_messages d' = outbox_messages d"
  "events (replay_undo i d) = events d" "tickets (replay_undo i d) = tickets d"
  "idempotency_keys (replay_undo i d) = idempotency_keys d"
  "outbox_messages (replay_undo i d) = outbox_messages d"
  by (auto simp: replay_flip_def replay_undo_def Let_def)


definition order_letter :: dead_letter_row where
  "order_letter = dead_letter_of ''dl1'' 5 \<lparr>rj_id = Some ''order-1'', rj_queueName = ''ticket-pipeline'',
     rj_data = order_job, rj_attemptsMade = 5, rj_attempts = Some 5\<rparr>
     \<lparr>er_exn = JsError ''boom'', er_name = ''Error'', er_stack = None\<rparr>"

definition letter_db :: db where
  "letter_db = empty_db\<lparr>dead_letters := [order_letter]\<rparr>"

lemma letter_db_ok: "schema_ok letter_db"
  by (simp add: letter_db_def empty_db_def schema_ok_def tickets_fk_ok_def idem_fk_ok_def unique_by_def)


end
