(* ===== verification/Classifier.thy ===== *)
theory Classifier
  imports Entities
begin

section \<open>The rule-based classifier (src/enrichment/fallback.classifier.ts)\<close>

text \<open>
  The classifier that stands in for the model: keyword lists tried in order on the lower-cased
  text. \<open>LlmEnrichment\<close> is the shape both paths answer with.
\<close>

record LlmEnrichment =
  le_category :: TicketCategory
  le_priority :: TicketPriority
  le_summary :: string
  le_confidence :: rat

definition apostrophe :: string where
  "apostrophe = [CHR 0x27]"

definition CATEGORY_KEYWORDS :: "(TicketCategory \<times> string list) list" where
  "CATEGORY_KEYWORDS =
    [(BILLING, [''charge'', ''invoice'', ''refund'', ''payment'', ''billed'', ''subscription'', ''price'']),
     (ACCOUNT, [''password'', ''login'', ''log in'', ''locked'', ''access'', ''sign in'', ''account'',
        ''2fa'', ''reset'']),
     (TECHNICAL, [''crash'', ''error'', ''bug'', ''broken'', ''500'', ''fails'', ''not working'',
        ''doesn'' @ apostrophe @ ''t work'', ''freeze'', ''exception'']),
     (FEATURE_REQUEST, [''feature'', ''request'', ''would be nice'', ''please add'', ''suggestion'', ''wish'']),
     (COMPLAINT, [''terrible'', ''worst'', ''angry'', ''unacceptable'', ''disappointed'', ''awful'',
        ''frustrated''])]"

definition URGENT_WORDS :: "string list" where
  "URGENT_WORDS = [''urgent'', ''asap'', ''immediately'', ''critical'', ''down'', ''outage'', ''emergency'']"

definition HIGH_WORDS :: "string list" where
  "HIGH_WORDS = [''crash'', ''cannot'', ''can'' @ apostrophe @ ''t'', ''blocked'', ''broken'', ''data loss'',
     ''security'']"

definition LOW_WORDS :: "string list" where
  "LOW_WORDS = [''question'', ''how do i'', ''how to'', ''wondering'', ''clarify'']"

definition any_word :: "string list \<Rightarrow> string \<Rightarrow> bool" where
  "any_word ws text = list_ex (str_includes text) ws"

fun first_category :: "(TicketCategory \<times> string list) list \<Rightarrow> string \<Rightarrow> TicketCategory" where
  "first_category [] text = OTHER"
| "first_category ((category, keywords) # rest) text =
     (if any_word keywords text then category else first_category rest text)"

definition categorize :: "string \<Rightarrow> TicketCategory" where
  "categorize text = first_category CATEGORY_KEYWORDS text"

definition prioritize :: "string \<Rightarrow> TicketPriority" where
  "prioritize text =
     (if any_word URGENT_WORDS text then URGENT
      else if any_word HIGH_WORDS text then HIGH
      else if any_word LOW_WORDS text then LOW
      else MEDIUM)"

definition fallback_classify :: "ticket_row \<Rightarrow> LlmEnrichment" where
  "fallback_classify t =
     (let text = str_lower (tk_subject t @ '' '' @ tk_body t) in
      \<lparr>le_category = categorize text, le_priority = prioritize text,
       le_summary = str_slice 120 (tk_subject t), le_confidence = 3 / 10\<rparr>)"

subsection \<open>What it answers\<close>

text \<open>The category is the one of the first list with a hit.\<close>

lemma first_category_split:
  assumes "first_category kws text = c" and "\<exists>p \<in> set kws. any_word (snd p) text"
  shows "\<exists>pre ks post. kws = pre @ (c, ks) # post \<and> any_word ks text
    \<and> (\<forall>p \<in> set pre. \<not> any_word (snd p) text)"
  using assms
proof (induction kws)
  case Nil
  then show ?case by simp
next
  case (Cons p kws)
  obtain cat ks where cat: "p = (cat, ks)" by (cases p)
  show ?case
  proof (cases "any_word ks text")
    case True
    with Cons.prems(1) cat show ?thesis by (intro exI [of _ "[]"] exI [of _ ks] exI [of _ kws]) auto
  next
    case False
    with Cons cat obtain pre ks' post where "kws = pre @ (c, ks') # post" "any_word ks' text"
      "\<forall>q \<in> set pre. \<not> any_word (snd q) text" by auto
    with False cat show ?thesis by (intro exI [of _ "p # pre"] exI [of _ ks'] exI [of _ post]) simp
  qed
qed

lemma first_category_OTHER:
  "\<forall>p \<in> set kws. \<not> any_word (snd p) text \<Longrightarrow> first_category kws text = OTHER"
  by (induction kws) auto

lemma char_lower_idem: "char_lower (char_lower c) = char_lower c"
proof (cases "is_upper c")
  case True
  then have "code c + 32 < 256" by (simp add: is_upper_def)
  then have "code (char_of (code c + 32)) = code c + 32" by (simp add: code_def)
  with True show ?thesis by (simp add: char_lower_def is_upper_def)
qed (simp add: char_lower_def)

lemma char_lower_upper: "char_lower (char_upper c) = char_lower c"
proof (cases "is_lower c")
  case True
  then have low: "97 \<le> code c" "code c \<le> 122" by (simp_all add: is_lower_def)
  then have "code (char_of (code c - 32)) = code c - 32" by (simp add: code_def)
  moreover have "65 \<le> code c - 32" "code c - 32 \<le> 90" using low by simp_all
  ultimately have "char_lower (char_upper c) = char_of (code c)"
    using True low by (simp add: char_lower_def char_upper_def is_upper_def)
  moreover have "char_lower c = c" using low by (simp add: char_lower_def is_upper_def)
  ultimately show ?thesis by (simp add: code_def)
qed (simp add: char_upper_def)

lemma str_lower_upper: "str_lower (str_upper s) = str_lower s"
  by (simp add: str_lower_def str_upper_def char_lower_upper comp_def)

lemma str_lower_append:
  "str_lower (s @ t) = str_lower s @ str_lower t" "str_lower (c # s) = char_lower c # str_lower s"
  by (simp_all add: str_lower_def)

text \<open>
  C39: the fallback always classifies, and predictably: the category is that of the first keyword
  list with a hit and OTHER only when no list has one; an urgent word makes the ticket URGENT
  whatever else it says; the summary is a prefix of the subject of at most 120 characters and the
  confidence is 0.3; and shouting changes nothing but the summary.
\<close>

theorem fallback_classifies:
  assumes "text = str_lower (tk_subject t @ '' '' @ tk_body t)" and "r = fallback_classify t"
  shows "((\<forall>p \<in> set CATEGORY_KEYWORDS. \<not> any_word (snd p) text) \<longrightarrow> le_category r = OTHER)
    \<and> ((\<exists>p \<in> set CATEGORY_KEYWORDS. any_word (snd p) text) \<longrightarrow>
         (\<exists>pre ks post. CATEGORY_KEYWORDS = pre @ (le_category r, ks) # post \<and> any_word ks text
            \<and> (\<forall>p \<in> set pre. \<not> any_word (snd p) text)))
    \<and> (any_word URGENT_WORDS text \<longrightarrow> le_priority r = URGENT)
    \<and> (\<not> any_word URGENT_WORDS text \<and> any_word HIGH_WORDS text \<longrightarrow> le_priority r = HIGH)
    \<and> (\<exists>rest. tk_subject t = le_summary r @ rest) \<and> length (le_summary r) \<le> 120
    \<and> le_confidence r = 3 / 10
    \<and> le_category (fallback_classify (t\<lparr>tk_subject := str_upper (tk_subject t), tk_body := str_upper (tk_body t)\<rparr>))
        = le_category r
    \<and> le_priority (fallback_classify (t\<lparr>tk_subject := str_upper (tk_subject t), tk_body := str_upper (tk_body t)\<rparr>))
        = le_priority r"
proof -
  have cat: "le_category r = first_category CATEGORY_KEYWORDS text" and pri: "le_priority r = prioritize text"
    and sum: "le_summary r = take 120 (tk_subject t)" and conf: "le_confidence r = 3 / 10"
    using assms by (simp_all add: fallback_classify_def Let_def categorize_def str_slice_def)
  have upper: "fallback_classify (t\<lparr>tk_subject := str_upper (tk_subject t), tk_body := str_upper (tk_body t)\<rparr>)
      = r\<lparr>le_summary := str_slice 120 (str_upper (tk_subject t))\<rparr>"
    using assms by (simp add: fallback_classify_def Let_def str_lower_append str_lower_upper)
  have "\<exists>rest. tk_subject t = le_summary r @ rest"
    unfolding sum by (rule exI [of _ "drop 120 (tk_subject t)"]) simp
  then show ?thesis
    using first_category_OTHER [of CATEGORY_KEYWORDS "text"]
      first_category_split [of CATEGORY_KEYWORDS "text" "le_category r"]
    unfolding upper by (simp add: cat pri sum conf prioritize_def)
qed

definition sample_ticket :: ticket_row where
  "sample_ticket = \<lparr>tk_id = ''t1'', tk_eventId = ''e1'', tk_subject = ''Refund asap'', tk_body = ''crash'',
     tk_requesterEmail = None, tk_enrichmentStatus = ES_PENDING, tk_category = None, tk_priority = None,
     tk_summary = None, tk_confidence = None, tk_enrichmentSource = None, tk_enrichmentAttempts = 0,
     tk_enrichedAt = None, tk_createdAt = 0, tk_updatedAt = 0\<rparr>"

lemma sample_text: "str_lower (tk_subject sample_ticket @ '' '' @ tk_body sample_ticket) = ''refund asap crash''"
  by code_simp

theorem fallback_classifies_witness:
  "le_priority (fallback_classify sample_ticket) = URGENT
   \<and> le_category (fallback_classify sample_ticket) = BILLING"
proof -
  have "any_word URGENT_WORDS ''refund asap crash''"
    by (simp add: any_word_def URGENT_WORDS_def)
  with fallback_classifies [OF sample_text [symmetric] refl]
  have "le_priority (fallback_classify sample_ticket) = URGENT" by blast
  moreover have "categorize ''refund asap crash'' = BILLING"
    by (simp add: categorize_def CATEGORY_KEYWORDS_def any_word_def)
  ultimately show ?thesis using sample_text by (simp only: fallback_classify_def Let_def LlmEnrichment.simps)
qed

end
