(* ===== verification/Llm_Schema.thy ===== *)
theory Llm_Schema
  imports Classifier Config
begin

section \<open>Validating the model's answer (src/enrichment/llm-response.schema.ts)\<close>

text \<open>
  \<open>llmEnrichmentSchema\<close> as a parser of JSON values, \<open>None\<close> for a value zod rejects. The texts of
  zod's issues are a parameter where they are used.
\<close>

definition category_of_name :: "string \<Rightarrow> TicketCategory option" where
  "category_of_name s = List.find (\<lambda>c. category_name c = s) all_categories"

definition priority_of_name :: "string \<Rightarrow> TicketPriority option" where
  "priority_of_name s = List.find (\<lambda>p. priority_name p = s) all_priorities"

text \<open>\<open>upperEnum\<close>: upper-cased and trimmed, then one of the values.\<close>

definition upperEnum :: "(string \<Rightarrow> 'a option) \<Rightarrow> json option \<Rightarrow> 'a option" where
  "upperEnum of_name v = (case v of Some (JStr s) \<Rightarrow> of_name (str_trim (str_upper s)) | _ \<Rightarrow> None)"

definition summary_field :: "json option \<Rightarrow> string option" where
  "summary_field v = (case v of
       Some (JStr s) \<Rightarrow> (let t = str_trim s in if 1 \<le> length t \<and> length t \<le> 280 then Some t else None)
     | _ \<Rightarrow> None)"

definition confidence_field :: "json option \<Rightarrow> rat option" where
  "confidence_field v = (case v of
       Some (JNum x) \<Rightarrow> (if 0 \<le> x \<and> x \<le> 1 then Some x else None)
     | _ \<Rightarrow> None)"

definition llm_parse :: "json \<Rightarrow> LlmEnrichment option" where
  "llm_parse j =
     (case (upperEnum category_of_name (json_field ''category'' j),
            upperEnum priority_of_name (json_field ''priority'' j),
            summary_field (json_field ''summary'' j), confidence_field (json_field ''confidence'' j)) of
        (Some c, Some p, Some s, Some x) \<Rightarrow>
          Some \<lparr>le_category = c, le_priority = p, le_summary = s, le_confidence = x\<rparr>
      | _ \<Rightarrow> None)"

lemma category_of_name [simp]: "category_of_name (category_name c) = Some c"
  by (cases c) (simp_all add: category_of_name_def all_categories_def)

lemma priority_of_name [simp]: "priority_of_name (priority_name p) = Some p"
  by (cases p) (simp_all add: priority_of_name_def all_priorities_def)

text \<open>What every accepted answer satisfies.\<close>

definition llm_ok :: "LlmEnrichment \<Rightarrow> bool" where
  "llm_ok r \<longleftrightarrow> 1 \<le> length (le_summary r) \<and> length (le_summary r) \<le> 280
     \<and> 0 \<le> le_confidence r \<and> le_confidence r \<le> 1"

lemma llm_parse_ok:
  assumes "llm_parse j = Some r"
  shows "llm_ok r"
  using assms
  by (auto simp: llm_parse_def llm_ok_def summary_field_def confidence_field_def Let_def
      split: option.splits json.splits if_splits)

text \<open>The JSON object a result of this shape is sent as.\<close>

definition llm_json :: "LlmEnrichment \<Rightarrow> json" where
  "llm_json r = JObj [(''category'', JStr (category_name (le_category r))),
     (''priority'', JStr (priority_name (le_priority r))), (''summary'', JStr (le_summary r)),
     (''confidence'', JNum (le_confidence r))]"

lemma enum_text_stable:
  "str_trim (str_upper (category_name c)) = category_name c"
  "str_trim (str_upper (priority_name p)) = priority_name p"
  by (cases c; simp add: str_upper_def char_upper_def is_lower_def code_def str_trim_def is_space_def)
     (cases p; simp add: str_upper_def char_upper_def is_lower_def code_def str_trim_def is_space_def)

lemma upperEnum_names [simp]:
  "upperEnum category_of_name (Some (JStr (category_name c))) = Some c"
  "upperEnum priority_of_name (Some (JStr (priority_name p))) = Some p"
  by (simp_all add: upperEnum_def enum_text_stable)

lemma llm_parse_json:
  "llm_parse (llm_json r) =
     (let t = str_trim (le_summary r) in
      if 1 \<le> length t \<and> length t \<le> 280 \<and> 0 \<le> le_confidence r \<and> le_confidence r \<le> 1
      then Some (r\<lparr>le_summary := t\<rparr>) else None)"
  by (simp add: llm_parse_def llm_json_def json_field_def js_get_def summary_field_def
      confidence_field_def Let_def)

text \<open>
  C38: the validated shape round-trips: an answer of the schema, sent as JSON and read back, is
  itself up to the white space around its summary; whatever is read satisfies the bounds; and the
  fallback's own answer is accepted unless the 120 characters it keeps of the subject are blank.
\<close>

theorem llm_schema_roundtrip:
  assumes "llm_ok r" and "str_trim (le_summary r) = le_summary r"
  shows "llm_parse (llm_json r) = Some r
    \<and> (\<forall>j r'. llm_parse j = Some r' \<longrightarrow> llm_ok r')
    \<and> (\<forall>t. llm_parse (llm_json (fallback_classify t)) = None \<longleftrightarrow> str_trim (str_slice 120 (tk_subject t)) = [])"
proof -
  have "llm_parse (llm_json r) = Some r"
    using assms by (simp add: llm_parse_json llm_ok_def Let_def)
  moreover have "llm_parse (llm_json (fallback_classify t)) = None \<longleftrightarrow> str_trim (str_slice 120 (tk_subject t)) = []" for t
  proof -
    have "length (str_trim (str_slice 120 (tk_subject t))) \<le> 280"
      using length_str_trim_le [of "str_slice 120 (tk_subject t)"] length_str_slice [of 120 "tk_subject t"]
      by linarith
    then show ?thesis by (auto simp: llm_parse_json fallback_classify_def Let_def Suc_le_eq)
  qed
  ultimately show ?thesis using llm_parse_ok by blast
qed

theorem llm_schema_roundtrip_witness:
  "llm_parse (llm_json \<lparr>le_category = BILLING, le_priority = HIGH, le_summary = ''x'', le_confidence = 1 / 2\<rparr>)
     = Some \<lparr>le_category = BILLING, le_priority = HIGH, le_summary = ''x'', le_confidence = 1 / 2\<rparr>"
proof -
  let ?r = "\<lparr>le_category = BILLING, le_priority = HIGH, le_summary = ''x'', le_confidence = 1 / 2\<rparr>"
  have "llm_ok ?r" by (simp add: llm_ok_def)
  moreover have "str_trim (le_summary ?r) = le_summary ?r"
    by (simp add: str_trim_def is_space_def code_def)
  ultimately show ?thesis using llm_schema_roundtrip [of ?r] by blast
qed

end
