(* ===== verification/Mistral_Client.thy ===== *)
theory Mistral_Client
  imports Llm_Schema Canonical_Hash
begin

section \<open>The model client (src/enrichment/mistral.client.ts, prompts.ts)\<close>

text \<open>
  One call to the model: the prompts, the request, the content of the response, its parsing and
  validation. The SDK's \<open>chat.complete\<close>, \<open>JSON.parse\<close>, \<open>String(...)\<close> of a value that is no string and
  the texts of zod's issues are parameters. The call may throw: a network error, a status that is no
  2xx, or the abort at \<open>MISTRAL_TIMEOUT_MS\<close>.
\<close>

subsection \<open>Prompts\<close>

definition newline :: string where
  "newline = [CHR 0x0A]"

definition dquote :: "string \<Rightarrow> string" where
  "dquote s = CHR 0x22 # s @ [CHR 0x22]"

definition CATEGORIES :: string where
  "CATEGORIES = str_join '', '' (map category_name all_categories)"

definition PRIORITIES :: string where
  "PRIORITIES = str_join '', '' (map priority_name all_priorities)"

definition ENRICHMENT_SYSTEM_PROMPT :: string where
  "ENRICHMENT_SYSTEM_PROMPT = str_join newline
    [''You are a support-ticket triage assistant.'',
     ''Classify the ticket and respond with a SINGLE JSON object and nothing else.'',
     '''',
     ''The JSON object must have exactly these keys:'',
     ''- '' @ dquote ''category'' @ '': one of ['' @ CATEGORIES @ '']'',
     ''- '' @ dquote ''priority'' @ '': one of ['' @ PRIORITIES @ '']'',
     ''- '' @ dquote ''summary'' @ '': a one-line summary, at most 280 characters'',
     ''- '' @ dquote ''confidence'' @ '': a number between 0 and 1 reflecting your confidence'',
     '''',
     ''Use uppercase enum values exactly as listed. Do not add commentary or markdown.'']"

definition buildUserPrompt :: "(rat \<Rightarrow> string) \<Rightarrow> ticket_row \<Rightarrow> string" where
  "buildUserPrompt num t =
     stringify num (JObj [(''subject'', JStr (tk_subject t)), (''body'', JStr (tk_body t))])"

subsection \<open>The call\<close>

record chat_request =
  cr_model :: string
  cr_temperature :: int
  cr_maxTokens :: int
  cr_responseFormat :: string
  cr_messages :: "(string \<times> string) list"

type_synonym chat_response = "(string \<times> json) list"

record 'w llm_host =
  lh_complete :: "int \<Rightarrow> chat_request \<Rightarrow> 'w \<Rightarrow> (exn + chat_response) \<times> 'w"
  lh_parse :: "string \<Rightarrow> json option"
  lh_String :: "json \<Rightarrow> string"
  lh_num :: "rat \<Rightarrow> string"
  lh_issues :: "json \<Rightarrow> zod_issue list"

definition isConfigured :: "EnvVars \<Rightarrow> bool" where
  "isConfigured env \<longleftrightarrow> (case MISTRAL_API_KEY env of Some k \<Rightarrow> k \<noteq> [] | None \<Rightarrow> False)"

definition enrichment_request :: "(rat \<Rightarrow> string) \<Rightarrow> EnvVars \<Rightarrow> ticket_row \<Rightarrow> chat_request" where
  "enrichment_request num env t = \<lparr>cr_model = MISTRAL_MODEL env, cr_temperature = 0,
     cr_maxTokens = 300, cr_responseFormat = ''json_object'',
     cr_messages = [(''system'', ENRICHMENT_SYSTEM_PROMPT), (''user'', buildUserPrompt num t)]\<rparr>"

text \<open>\<open>response.choices?.[0]?.message?.content\<close>, where anything missing gives \<open>undefined\<close>.\<close>

definition response_content :: "chat_response \<Rightarrow> json option" where
  "response_content r = (case js_get ''choices'' r of
       Some (JArr (c # _)) \<Rightarrow>
         (case json_field ''message'' c of Some m \<Rightarrow> json_field ''content'' m | None \<Rightarrow> None)
     | _ \<Rightarrow> None)"

definition chunk_text :: "(json \<Rightarrow> string) \<Rightarrow> json \<Rightarrow> string" where
  "chunk_text toString chunk = (case json_field ''text'' chunk of
       Some (JStr s) \<Rightarrow> s
     | Some v \<Rightarrow> toString v
     | None \<Rightarrow> '''')"

definition empty_content :: exn where
  "empty_content = TransientEnrichmentError ''mistral returned empty content''"

definition extractContent :: "(json \<Rightarrow> string) \<Rightarrow> chat_response \<Rightarrow> exn + string" where
  "extractContent toString r = (case response_content r of
       Some (JStr s) \<Rightarrow> if s \<noteq> '''' then Inr s else Inl empty_content
     | Some (JArr chunks) \<Rightarrow>
         (let s = concat (map (chunk_text toString) chunks) in
          if s \<noteq> '''' then Inr s else Inl empty_content)
     | _ \<Rightarrow> Inl empty_content)"

definition issue_detail :: "zod_issue \<Rightarrow> string" where
  "issue_detail i = (let p = str_join ''.'' (fst i) in if p = [] then ''(root)'' else p) @ '': '' @ snd i"

definition parseAndValidate ::
  "(string \<Rightarrow> json option) \<Rightarrow> (json \<Rightarrow> zod_issue list) \<Rightarrow> string \<Rightarrow> exn + LlmEnrichment" where
  "parseAndValidate parse issues content = (case parse content of
       None \<Rightarrow> Inl (TransientEnrichmentError ''mistral returned non-JSON content'')
     | Some j \<Rightarrow> (case llm_parse j of
           None \<Rightarrow> Inl (TransientEnrichmentError
             (''mistral response failed validation: '' @ str_join ''; '' (map issue_detail (issues j))))
         | Some r \<Rightarrow> Inr r))"

text \<open>The catch of \<open>classify\<close>: a transient error passes, anything else becomes one.\<close>

definition as_transient :: "exn \<Rightarrow> exn" where
  "as_transient e = (case e of
       TransientEnrichmentError m \<Rightarrow> e
     | _ \<Rightarrow> TransientEnrichmentError (''mistral call failed: '' @ exn_message e))"

definition read_response :: "'w llm_host \<Rightarrow> (exn + chat_response) \<times> 'w \<Rightarrow> (exn + LlmEnrichment) \<times> 'w" where
  "read_response H out = (case out of
        (Inl e, w') \<Rightarrow> (Inl (as_transient e), w')
      | (Inr response, w') \<Rightarrow>
          (case extractContent (lh_String H) response of
             Inl e \<Rightarrow> (Inl (as_transient e), w')
           | Inr content \<Rightarrow>
               (case parseAndValidate (lh_parse H) (lh_issues H) content of
                  Inl e \<Rightarrow> (Inl (as_transient e), w')
                | Inr r \<Rightarrow> (Inr r, w'))))"

definition client_classify ::
  "'w llm_host \<Rightarrow> EnvVars \<Rightarrow> ticket_row \<Rightarrow> 'w \<Rightarrow> (exn + LlmEnrichment) \<times> 'w" where
  "client_classify H env t w =
     (if \<not> isConfigured env
      then (Inl (TransientEnrichmentError ''mistral API key not configured''), w)
      else read_response H
        (lh_complete H (MISTRAL_TIMEOUT_MS env) (enrichment_request (lh_num H) env t) w))"

fun is_transient :: "exn \<Rightarrow> bool" where
  "is_transient (TransientEnrichmentError m) = True"
| "is_transient e = False"

lemma as_transient_is [simp]: "is_transient (as_transient e)"
  by (cases e) (simp_all add: as_transient_def)

lemma parseAndValidate_ok: "parseAndValidate parse issues content = Inr r \<Longrightarrow> llm_ok r"
  by (auto simp: parseAndValidate_def intro: llm_parse_ok split: option.splits)

lemma read_response_safe:
  assumes "read_response H out = (res, w')"
  shows "case res of Inr r \<Rightarrow> llm_ok r | Inl e \<Rightarrow> is_transient e"
  using assms parseAndValidate_ok
  by (auto simp: read_response_def split: prod.splits sum.splits)

text \<open>
  C27: nothing the model or the network does gets past the client: a call either answers a
  classification that satisfies the schema (a summary of 1 to 280 characters, a confidence between 0
  and 1), or fails with a transient error, whatever was thrown, returned or garbled; without an API
  key no call is made.
\<close>

theorem client_classify_safe:
  assumes "client_classify H env t w = (res, w')"
  shows "case res of
      Inr r \<Rightarrow> isConfigured env \<and> llm_ok r
    | Inl e \<Rightarrow> is_transient e \<and> (\<not> isConfigured env \<longrightarrow> w' = w)"
proof (cases "isConfigured env")
  case True
  with assms have "read_response H (lh_complete H (MISTRAL_TIMEOUT_MS env) (enrichment_request (lh_num H) env t) w)
      = (res, w')" by (simp add: client_classify_def)
  from read_response_safe [OF this] True show ?thesis by (auto split: sum.splits)
next
  case False
  with assms show ?thesis by (auto simp: client_classify_def)
qed

definition garbage_host :: "unit llm_host" where
  "garbage_host = \<lparr>lh_complete = (\<lambda>_ _ w. (Inr [(''choices'', JArr [])], w)), lh_parse = (\<lambda>_. None),
     lh_String = (\<lambda>_. ''''), lh_num = (\<lambda>_. ''0''), lh_issues = (\<lambda>_. [])\<rparr>"

definition keyed_env :: EnvVars where
  "keyed_env = env_defaults\<lparr>MISTRAL_API_KEY := Some ''k''\<rparr>"

theorem client_classify_safe_witness:
  "\<exists>e. fst (client_classify garbage_host keyed_env sample_ticket ()) = Inl e \<and> is_transient e"
proof -
  obtain res w' where run: "client_classify garbage_host keyed_env sample_ticket () = (res, w')"
    by (rule prod.exhaust)
  have "\<exists>e. res = Inl e"
    using run by (auto simp: client_classify_def read_response_def isConfigured_def keyed_env_def garbage_host_def
        extractContent_def response_content_def js_get_def)
  with client_classify_safe [OF run] run show ?thesis by auto
qed

end
