(* ===== verification/Ai_Enricher.thy ===== *)
theory Ai_Enricher
  imports Mistral_Client Backoff Observability
begin

section \<open>The enricher (src/enrichment/ai.enricher.ts, mistral.circuit-breaker.ts)\<close>

text \<open>
  The retry loop around the circuit breaker and the degradation to the fallback. The breaker is
  opossum's, so what the code uses of it is a record of operations over a state of its own, in
  which sleeping may also change it (it half-opens after a while). The port the pipeline depends on
  (src/pipeline/enricher.port.ts) is the locale \<open>enricher_port\<close>, and \<open>AiEnricher\<close> interprets it.
\<close>

record EnrichmentOutcome =
  eo_status :: EnrichmentStatus
  eo_source :: EnrichmentSource
  eo_category :: TicketCategory
  eo_priority :: TicketPriority
  eo_summary :: string
  eo_confidence :: rat

definition outcome_of :: "EnrichmentStatus \<Rightarrow> EnrichmentSource \<Rightarrow> LlmEnrichment \<Rightarrow> EnrichmentOutcome" where
  "outcome_of st src r = \<lparr>eo_status = st, eo_source = src, eo_category = le_category r,
     eo_priority = le_priority r, eo_summary = le_summary r, eo_confidence = le_confidence r\<rparr>"

subsection \<open>The breaker\<close>

record 'b breaker =
  bk_fire :: "ticket_row \<Rightarrow> 'b \<Rightarrow> (exn + LlmEnrichment) \<times> 'b"
  bk_isOpen :: "'b \<Rightarrow> bool"
  bk_sleep :: "int \<Rightarrow> 'b \<Rightarrow> 'b"

record breaker_options =
  bo_name :: string
  bo_timeout :: int
  bo_errorThresholdPercentage :: int
  bo_volumeThreshold :: int
  bo_resetTimeout :: int

definition mistral_breaker_options :: "EnvVars \<Rightarrow> breaker_options" where
  "mistral_breaker_options env = \<lparr>bo_name = ''mistral'', bo_timeout = CIRCUIT_BREAKER_TIMEOUT_MS env,
     bo_errorThresholdPercentage = CIRCUIT_BREAKER_ERROR_THRESHOLD_PERCENT env,
     bo_volumeThreshold = CIRCUIT_BREAKER_VOLUME_THRESHOLD env,
     bo_resetTimeout = CIRCUIT_BREAKER_RESET_MS env\<rparr>"

text \<open>The gauge after construction and after each state event.\<close>

datatype breaker_event = BreakerCreated | BreakerOpened | BreakerHalfOpened | BreakerClosed

definition on_breaker_event :: "breaker_event \<Rightarrow> metrics \<Rightarrow> metrics" where
  "on_breaker_event e = set_gauge (CircuitBreakerState ''mistral'')
     (case e of BreakerOpened \<Rightarrow> 1 | BreakerHalfOpened \<Rightarrow> 1 / 2 | BreakerCreated \<Rightarrow> 0 | BreakerClosed \<Rightarrow> 0)"

subsection \<open>The retry loop\<close>

text \<open>
  What the loop logs for each retry: the attempt, the delay it sleeps, the error. \<open>k\<close> is how many
  attempts are left; \<open>rnd\<close> gives the random draw of an attempt.
\<close>

type_synonym retry_log = "(int \<times> int \<times> exn) list"

definition retry_delay :: "(int \<Rightarrow> real) \<Rightarrow> int \<Rightarrow> int" where
  "retry_delay rnd attempt = backoffWithJitter (rnd attempt) attempt 500 (Some 5000)"

fun attempts_from ::
  "'b breaker \<Rightarrow> (int \<Rightarrow> real) \<Rightarrow> ticket_row \<Rightarrow> nat \<Rightarrow> int \<Rightarrow> exn \<Rightarrow> 'b \<Rightarrow>
   (exn + LlmEnrichment) \<times> retry_log \<times> 'b" where
  "attempts_from B rnd t 0 attempt lastError b = (Inl lastError, [], b)"
| "attempts_from B rnd t (Suc k) attempt lastError b =
     (case bk_fire B t b of
        (Inr r, b1) \<Rightarrow> (Inr r, [], b1)
      | (Inl e, b1) \<Rightarrow>
          if bk_isOpen B b1 \<or> k = 0 then (Inl e, [], b1)
          else (case attempts_from B rnd t k (attempt + 1) e (bk_sleep B (retry_delay rnd attempt) b1) of
                  (res, lg, b2) \<Rightarrow> (res, (attempt, retry_delay rnd attempt, e) # lg, b2)))"

definition callWithRetry ::
  "'b breaker \<Rightarrow> (int \<Rightarrow> real) \<Rightarrow> EnvVars \<Rightarrow> ticket_row \<Rightarrow> 'b \<Rightarrow> (exn + LlmEnrichment) \<times> retry_log \<times> 'b" where
  "callWithRetry B rnd env t b =
     attempts_from B rnd t (nat (MISTRAL_MAX_RETRIES env + 1)) 1 (JsError ''undefined'') b"

subsection \<open>The enricher\<close>

definition degrade :: "ticket_row \<Rightarrow> metrics \<Rightarrow> EnrichmentOutcome \<times> metrics" where
  "degrade t m =
     (outcome_of ES_DEGRADED ES_FALLBACK (fallback_classify t),
      inc (EnrichmentResults ''fallback'' ''degraded'') m)"

definition ai_enrich_logged ::
  "'b breaker \<Rightarrow> (int \<Rightarrow> real) \<Rightarrow> EnvVars \<Rightarrow> ticket_row \<Rightarrow> 'b \<times> metrics \<Rightarrow>
   EnrichmentOutcome \<times> retry_log \<times> ('b \<times> metrics)" where
  "ai_enrich_logged B rnd env t bm = (case bm of (b, m) \<Rightarrow>
     if \<not> isConfigured env then (case degrade t m of (out, m') \<Rightarrow> (out, [], (b, m')))
     else if bk_isOpen B b then (case degrade t m of (out, m') \<Rightarrow> (out, [], (b, m')))
     else (case callWithRetry B rnd env t b of
         (Inr r, lg, b') \<Rightarrow>
           (outcome_of ES_ENRICHED ES_AI r, lg, (b', inc (EnrichmentResults ''ai'' ''success'') m))
       | (Inl e, lg, b') \<Rightarrow>
           (case degrade t (inc (EnrichmentResults ''ai'' ''failed'') m) of
              (out, m') \<Rightarrow> (out, lg, (b', m')))))"

text \<open>As the port has it: an operation that might throw, on the enricher's own world.\<close>

definition ai_enrich ::
  "'b breaker \<Rightarrow> (int \<Rightarrow> real) \<Rightarrow> EnvVars \<Rightarrow> ticket_row \<Rightarrow> 'b \<times> metrics \<Rightarrow>
   (exn + EnrichmentOutcome) \<times> ('b \<times> metrics)" where
  "ai_enrich B rnd env t bm = (case ai_enrich_logged B rnd env t bm of (out, lg, bm') \<Rightarrow> (Inr out, bm'))"

subsection \<open>The port's contract\<close>

definition outcome_ok :: "EnrichmentOutcome \<Rightarrow> bool" where
  "outcome_ok out \<longleftrightarrow> eo_status out = ES_ENRICHED \<and> eo_source out = ES_AI
     \<or> eo_status out = ES_DEGRADED \<and> eo_source out = ES_FALLBACK"

locale enricher_port =
  fixes enrich :: "ticket_row \<Rightarrow> 'w \<Rightarrow> (exn + EnrichmentOutcome) \<times> 'w"
  assumes never_throws: "\<exists>out w'. enrich t w = (Inr out, w') \<and> outcome_ok out"
begin

lemma enrich_cases:
  obtains out w' where "enrich t w = (Inr out, w')" "outcome_ok out" "eo_status out \<noteq> ES_PENDING"
    "eo_status out \<noteq> ES_FAILED"
  using never_throws [of t w] by (auto simp: outcome_ok_def)

end

lemma ai_enrich_logged_ok:
  assumes "ai_enrich_logged B rnd env t bm = (out, lg, bm')"
  shows "outcome_ok out"
  using assms
  by (auto simp: ai_enrich_logged_def degrade_def outcome_of_def outcome_ok_def
      split: prod.splits if_splits sum.splits)

interpretation ai: enricher_port "ai_enrich B rnd env" for B rnd env
proof unfold_locales
  fix t :: ticket_row and w
  obtain out lg w' where run: "ai_enrich_logged B rnd env t w = (out, lg, w')"
    by (rule prod_cases3)
  with ai_enrich_logged_ok [OF run] show "\<exists>out w'. ai_enrich B rnd env t w = (Inr out, w') \<and> outcome_ok out"
    by (simp add: ai_enrich_def)
qed

subsection \<open>The bounds of the loop\<close>

lemma retry_delay_bounds:
  assumes "random_range (rnd attempt)"
  shows "0 \<le> retry_delay rnd attempt \<and> retry_delay rnd attempt \<le> 5000"
proof -
  have nn: "0 \<le> backoff_exp attempt 500 (Some 5000)" by (intro backoff_exp_nonneg) auto
  have cap: "backoff_exp attempt 500 (Some 5000) \<le> 5000" by (simp add: backoff_exp_def)
  have eq: "retry_delay rnd attempt = \<lfloor>real_of_int (backoff_exp attempt 500 (Some 5000)) / 2
      + rnd attempt * (real_of_int (backoff_exp attempt 500 (Some 5000)) / 2)\<rfloor>"
    by (simp only: retry_delay_def backoffWithJitter_def Let_def)
  from backoff_half_bounds(2,3) [OF nn assms, folded eq] cap show ?thesis by (meson order_trans)
qed

lemma attempts_from_log:
  assumes "attempts_from B rnd t k attempt e0 b = (res, lg, b')" and "\<forall>i. random_range (rnd i)"
  shows "length lg \<le> k - 1 \<and> (\<forall>(i, delay, e) \<in> set lg. attempt \<le> i \<and> 0 \<le> delay \<and> delay \<le> 5000)"
  using assms
proof (induction k arbitrary: attempt e0 b res lg b')
  case 0
  then show ?case by simp
next
  case (Suc k)
  obtain r b1 where fire: "bk_fire B t b = (r, b1)" by (rule prod.exhaust)
  show ?case
  proof (cases "(\<exists>v. r = Inr v) \<or> bk_isOpen B b1 \<or> k = 0")
    case True
    with Suc.prems(1) fire have "lg = []" by (auto split: sum.splits if_splits)
    then show ?thesis by simp
  next
    case False
    then obtain e where e: "r = Inl e" by (cases r) auto
    obtain res' lg' b2 where rec:
      "attempts_from B rnd t k (attempt + 1) e (bk_sleep B (retry_delay rnd attempt) b1) = (res', lg', b2)"
      by (rule prod_cases3)
    with False e fire Suc.prems(1) have "lg = (attempt, retry_delay rnd attempt, e) # lg'" by auto
    moreover from Suc.IH [OF rec Suc.prems(2)] have "length lg' \<le> k - 1"
      "\<forall>(i, delay, e) \<in> set lg'. attempt \<le> i \<and> 0 \<le> delay \<and> delay \<le> 5000" by auto
    moreover have "0 \<le> retry_delay rnd attempt \<and> retry_delay rnd attempt \<le> 5000"
      using Suc.prems(2) by (simp add: retry_delay_bounds)
    ultimately show ?thesis using False by auto
  qed
qed

text \<open>The loop ends with what the last call through the breaker gave.\<close>

lemma attempts_from_last:
  assumes "attempts_from B rnd t k attempt e0 b = (res, lg, b')" and "0 < k"
  obtains b0 where "bk_fire B t b0 = (res, b')"
  using assms
proof (induction k arbitrary: attempt e0 b lg thesis)
  case 0
  then show ?case by simp
next
  case (Suc k)
  obtain r b1 where fire: "bk_fire B t b = (r, b1)" by (rule prod.exhaust)
  show ?case
  proof (cases "(\<exists>v. r = Inr v) \<or> bk_isOpen B b1 \<or> k = 0")
    case True
    with Suc.prems(2) fire have "bk_fire B t b = (res, b')" by (auto split: sum.splits if_splits)
    then show ?thesis by (rule Suc.prems(1))
  next
    case False
    then obtain e where e: "r = Inl e" by (cases r) auto
    obtain res' lg' b2 where rec:
      "attempts_from B rnd t k (attempt + 1) e (bk_sleep B (retry_delay rnd attempt) b1) = (res', lg', b2)"
      by (rule prod_cases3)
    with False e fire Suc.prems(2) have same: "res' = res" "b2 = b'" by auto
    have "0 < k" using False by simp
    from Suc.IH [OF _ rec [unfolded same] this] Suc.prems(1) show ?thesis by blast
  qed
qed

text \<open>The fields of an outcome, from the model's answer and from the classifier's.\<close>

lemma outcome_of_fields:
  "outcome_of ES_ENRICHED ES_AI r = \<lparr>eo_status = ES_ENRICHED, eo_source = ES_AI, eo_category = le_category r,
     eo_priority = le_priority r, eo_summary = le_summary r, eo_confidence = le_confidence r\<rparr>"
  "outcome_of ES_DEGRADED ES_FALLBACK r = \<lparr>eo_status = ES_DEGRADED, eo_source = ES_FALLBACK,
     eo_category = le_category r, eo_priority = le_priority r, eo_summary = le_summary r,
     eo_confidence = le_confidence r\<rparr>"
  by (simp_all add: outcome_of_def)

text \<open>
  C26: enrichment never throws and always ends with a usable answer, and with the right one. Either the last
  call through the breaker returned an answer of the model: then the outcome is ENRICHED, from the AI, with
  exactly the category, priority, summary and confidence of that answer; or there is no API key, the breaker
  was open, or the last call threw: then it is DEGRADED, from the fallback, with exactly the fields the
  rule-based classifier gives. A first call that returns is the answer. It retries at most
  \<open>MISTRAL_MAX_RETRIES\<close> times and sleeps at most five seconds before each retry; without an API key, or with
  the breaker open, it makes no call at all.
\<close>

theorem enrich_always_answers:
  assumes "env_valid env" and "\<forall>i. random_range (rnd i)"
    and "ai_enrich_logged B rnd env t (b, m) = (out, lg, (b', m'))"
  shows "ai_enrich B rnd env t (b, m) = (Inr out, (b', m'))
    \<and> ((\<exists>r b0. isConfigured env \<and> \<not> bk_isOpen B b \<and> bk_fire B t b0 = (Inr r, b')
          \<and> out = \<lparr>eo_status = ES_ENRICHED, eo_source = ES_AI, eo_category = le_category r,
                eo_priority = le_priority r, eo_summary = le_summary r, eo_confidence = le_confidence r\<rparr>)
      \<or> (\<exists>r. r = fallback_classify t
          \<and> (\<not> isConfigured env \<or> bk_isOpen B b \<or> (\<exists>e b0. bk_fire B t b0 = (Inl e, b')))
          \<and> out = \<lparr>eo_status = ES_DEGRADED, eo_source = ES_FALLBACK, eo_category = le_category r,
                eo_priority = le_priority r, eo_summary = le_summary r, eo_confidence = le_confidence r\<rparr>))
    \<and> (\<forall>r b1. isConfigured env \<and> \<not> bk_isOpen B b \<and> bk_fire B t b = (Inr r, b1) \<longrightarrow>
         b' = b1 \<and> lg = [] \<and> out = outcome_of ES_ENRICHED ES_AI r)
    \<and> int (length lg) \<le> MISTRAL_MAX_RETRIES env
    \<and> (\<forall>(i, delay, e) \<in> set lg. 0 \<le> delay \<and> delay \<le> 5000)
    \<and> (\<not> isConfigured env \<or> bk_isOpen B b \<longrightarrow>
         b' = b \<and> lg = [] \<and> out = outcome_of ES_DEGRADED ES_FALLBACK (fallback_classify t))"
proof -
  have retries: "0 \<le> MISTRAL_MAX_RETRIES env" using assms(1) by (rule env_validD)
  have run: "ai_enrich B rnd env t (b, m) = (Inr out, (b', m'))" using assms(3) by (simp add: ai_enrich_def)
  have skip: "b' = b \<and> lg = [] \<and> out = outcome_of ES_DEGRADED ES_FALLBACK (fallback_classify t)"
    if "\<not> isConfigured env \<or> bk_isOpen B b"
    using assms(3) that by (auto simp: ai_enrich_logged_def degrade_def split: if_splits)
  have out: "(\<exists>r b0. isConfigured env \<and> \<not> bk_isOpen B b \<and> bk_fire B t b0 = (Inr r, b')
        \<and> out = outcome_of ES_ENRICHED ES_AI r)
      \<or> (\<exists>r. r = fallback_classify t
        \<and> (\<not> isConfigured env \<or> bk_isOpen B b \<or> (\<exists>e b0. bk_fire B t b0 = (Inl e, b')))
        \<and> out = outcome_of ES_DEGRADED ES_FALLBACK r)"
  proof (cases "\<not> isConfigured env \<or> bk_isOpen B b")
    case True
    with skip show ?thesis by blast
  next
    case False
    obtain res lg1 b1 where call: "callWithRetry B rnd env t b = (res, lg1, b1)" by (rule prod_cases3)
    have "0 < nat (MISTRAL_MAX_RETRIES env + 1)" using retries by simp
    from attempts_from_last [OF call [unfolded callWithRetry_def] this] obtain b0 where last: "bk_fire B t b0 = (res, b1)" .
    have "b1 = b' \<and> (case res of Inr r \<Rightarrow> out = outcome_of ES_ENRICHED ES_AI r
        | Inl _ \<Rightarrow> out = outcome_of ES_DEGRADED ES_FALLBACK (fallback_classify t))"
      using assms(3) False call by (auto simp: ai_enrich_logged_def degrade_def split: sum.splits)
    with last False show ?thesis by (cases res) auto
  qed
  have first: "b' = b1 \<and> lg = [] \<and> out = outcome_of ES_ENRICHED ES_AI r"
    if "isConfigured env \<and> \<not> bk_isOpen B b \<and> bk_fire B t b = (Inr r, b1)" for r b1
  proof -
    have "nat (MISTRAL_MAX_RETRIES env + 1) = Suc (nat (MISTRAL_MAX_RETRIES env))" using retries by simp
    then have "callWithRetry B rnd env t b = (Inr r, [], b1)" using that by (simp add: callWithRetry_def)
    with that assms(3) show ?thesis by (simp add: ai_enrich_logged_def)
  qed
  have lg: "int (length lg) \<le> MISTRAL_MAX_RETRIES env \<and> (\<forall>(i, delay, e) \<in> set lg. 0 \<le> delay \<and> delay \<le> 5000)"
  proof (cases "\<not> isConfigured env \<or> bk_isOpen B b")
    case True
    with skip retries show ?thesis by simp
  next
    case False
    obtain res lg1 b1 where call: "callWithRetry B rnd env t b = (res, lg1, b1)" by (rule prod_cases3)
    with False assms(3) have "lg1 = lg"
      by (auto simp: ai_enrich_logged_def degrade_def split: sum.splits)
    with attempts_from_log [OF call [unfolded callWithRetry_def] assms(2)] retries show ?thesis by auto
  qed
  have firsts: "\<forall>r b1. isConfigured env \<and> \<not> bk_isOpen B b \<and> bk_fire B t b = (Inr r, b1) \<longrightarrow>
         b' = b1 \<and> lg = [] \<and> out = outcome_of ES_ENRICHED ES_AI r"
    by (intro allI impI, erule first)
  show ?thesis
    by (rule conjI, rule run, rule conjI, rule out [unfolded outcome_of_fields], rule conjI, rule firsts,
        rule conjI, rule conjunct1 [OF lg], rule conjI, rule conjunct2 [OF lg], rule impI, erule skip)
qed

definition dead_breaker :: "nat breaker" where
  "dead_breaker = \<lparr>bk_fire = (\<lambda>t n. (Inl (TransientEnrichmentError ''timeout''), Suc n)),
     bk_isOpen = (\<lambda>n. False), bk_sleep = (\<lambda>ms n. n)\<rparr>"

theorem enrich_always_answers_witness:
  "fst (ai_enrich dead_breaker (\<lambda>_. 0) keyed_env sample_ticket (0, no_metrics))
     = Inr (outcome_of ES_DEGRADED ES_FALLBACK (fallback_classify sample_ticket))
   \<and> fst (snd (ai_enrich dead_breaker (\<lambda>_. 0) keyed_env sample_ticket (0, no_metrics))) = 3"
proof -
  have valid: "env_valid keyed_env" by (simp add: keyed_env_def env_defaults_def env_valid_def)
  have rnd: "\<forall>i::int. random_range ((\<lambda>_. 0) i)" by (simp add: random_range_def)
  obtain out lg b' m' where run:
    "ai_enrich_logged dead_breaker (\<lambda>_. 0) keyed_env sample_ticket (0, no_metrics) = (out, lg, (b', m'))"
    by (metis prod.exhaust)
  have "out = outcome_of ES_DEGRADED ES_FALLBACK (fallback_classify sample_ticket)" "b' = 3"
    using run
    by (auto simp: ai_enrich_logged_def callWithRetry_def keyed_env_def isConfigured_def env_defaults_def
        dead_breaker_def degrade_def numeral_3_eq_3)
  with enrich_always_answers [OF valid rnd run, THEN conjunct1] show ?thesis by simp
qed

end
