(* ===== verification/Processor.thy ===== *)
theory Processor
  imports Outbox Tickets Dlq Ai_Enricher
begin

section \<open>The pipeline worker (src/pipeline/ticket.processor.ts)\<close>

text \<open>
  \<open>process\<close>: read the ticket, enrich it, persist and emit in one transaction, schedule an upgrade.
  The parts are separate definitions so that \<open>process_job\<close> composes them and \<open>Processor_Race\<close> can run
  them interleaved with other workers: the status read first may be stale when the write happens.
  \<open>onFailed\<close> decides what becomes of a failed attempt; it returns, whatever throws inside.
\<close>

definition SIDE_EFFECT_TRIAGED :: string where
  "SIDE_EFFECT_TRIAGED = ''ticket.triaged''"

definition SIDE_EFFECT_UPGRADED :: string where
  "SIDE_EFFECT_UPGRADED = ''ticket.enrichment_upgraded''"

subsection \<open>Persisting an outcome\<close>

text \<open>The UPDATE: an ENRICHED ticket is only overwritten by an ENRICHED outcome.\<close>

definition may_write :: "EnrichmentOutcome \<Rightarrow> ticket_row \<Rightarrow> bool" where
  "may_write out t \<longleftrightarrow> (eo_status out \<noteq> ES_ENRICHED \<longrightarrow> tk_enrichmentStatus t \<noteq> ES_ENRICHED)"

definition write_outcome :: "timestamp \<Rightarrow> EnrichmentOutcome \<Rightarrow> ticket_row \<Rightarrow> ticket_row" where
  "write_outcome now out t = t\<lparr>tk_enrichmentStatus := eo_status out,
     tk_enrichmentSource := Some (eo_source out), tk_category := Some (eo_category out),
     tk_priority := Some (eo_priority out), tk_summary := Some (eo_summary out),
     tk_confidence := Some (eo_confidence out), tk_enrichedAt := Some now,
     tk_enrichmentAttempts := tk_enrichmentAttempts t + 1, tk_updatedAt := now\<rparr>"

definition update_ticket :: "timestamp \<Rightarrow> uuid \<Rightarrow> EnrichmentOutcome \<Rightarrow> db \<Rightarrow> nat \<times> db" where
  "update_ticket now i out d =
     (let p = (\<lambda>t. tk_id t = i \<and> may_write out t) in
      (affected p (tickets d), d\<lparr>tickets := update_where p (write_outcome now out) (tickets d)\<rparr>))"

text \<open>The side effect the transition from the status read earlier warrants.\<close>

definition side_effect :: "EnrichmentStatus \<Rightarrow> EnrichmentOutcome \<Rightarrow> string option" where
  "side_effect prior out =
     (if prior = ES_PENDING then Some SIDE_EFFECT_TRIAGED
      else if prior = ES_DEGRADED \<and> eo_status out = ES_ENRICHED then Some SIDE_EFFECT_UPGRADED
      else None)"

definition effect_payload :: "uuid \<Rightarrow> EnrichmentOutcome \<Rightarrow> job_data \<Rightarrow> json" where
  "effect_payload i out data = JObj [(''ticketId'', JStr i),
     (''category'', JStr (category_name (eo_category out))),
     (''priority'', JStr (priority_name (eo_priority out))), (''summary'', JStr (eo_summary out)),
     (''source'', JStr (source_name (eo_source out))),
     (''correlationId'', str_or_null (jd_correlationId data))]"

definition ticket_effect :: "uuid \<Rightarrow> string \<Rightarrow> json \<Rightarrow> emit_input" where
  "ticket_effect i eventType payload = \<lparr>em_aggregateType = ''ticket'', em_aggregateId = i,
     em_eventType = eventType, em_version = ''v1'', em_payload = payload\<rparr>"

definition effect_key :: "uuid \<Rightarrow> string \<Rightarrow> string" where
  "effect_key i eventType = buildDedupKey (ticket_effect i eventType JNull)"

definition persist_work ::
  "uuid \<Rightarrow> timestamp \<Rightarrow> uuid \<Rightarrow> EnrichmentStatus \<Rightarrow> EnrichmentOutcome \<Rightarrow> job_data \<Rightarrow> (unit, 'w) tx_work" where
  "persist_work nid now i prior out data w d =
     ((case update_ticket now i out d of
         (0, _) \<Rightarrow> Inr ((), d)
       | (Suc _, d1) \<Rightarrow>
           (case side_effect prior out of
              None \<Rightarrow> Inr ((), d1)
            | Some eventType \<Rightarrow>
                (case emit nid now (ticket_effect i eventType (effect_payload i out data)) d1 of
                   Inl e \<Rightarrow> Inl e
                 | Inr (key, d2) \<Rightarrow> Inr ((), d2)))), w)"

definition persistAndEmit ::
  "tx_faults \<Rightarrow> uuid \<Rightarrow> timestamp \<Rightarrow> uuid \<Rightarrow> EnrichmentStatus \<Rightarrow> EnrichmentOutcome \<Rightarrow> job_data \<Rightarrow> db \<Rightarrow>
   (unit, unit) tx_result" where
  "persistAndEmit F nid now i prior out data d =
     runInTransaction F (persist_work nid now i prior out data) () d"

subsection \<open>Scheduling an upgrade\<close>

definition scheduleUpgrade ::
  "(int \<Rightarrow> string) \<Rightarrow> real \<Rightarrow> 'q bull \<Rightarrow> EnvVars \<Rightarrow> job_data \<Rightarrow> 'q \<Rightarrow> (exn + unit) \<times> 'q" where
  "scheduleUpgrade show_int r Q env data q =
     (let attempt = (case jd_upgradeAttempt data of Some n \<Rightarrow> n | None \<Rightarrow> 0) + 1 in
      if ENRICHMENT_UPGRADE_MAX_ATTEMPTS env < attempt then (Inr (), q)
      else (let delay = backoffWithJitter r attempt (ENRICHMENT_UPGRADE_BACKOFF_MS env) None in
            case enqueueUpgrade show_int Q env (data\<lparr>jd_upgradeAttempt := Some attempt\<rparr>) delay q of
              (Inl e, q') \<Rightarrow> (Inl e, q')
            | (Inr _, q') \<Rightarrow> (Inr (), q')))"

subsection \<open>One job\<close>

text \<open>The worker's surroundings, and what one run takes from the host.\<close>

record ('q, 'e) pipe =
  pp_db :: db
  pp_queue :: 'q
  pp_ai :: 'e
  pp_metrics :: metrics

record ('q, 'e) pipe_host =
  ph_bull :: "'q bull"
  ph_enrich :: "string \<Rightarrow> ticket_row \<Rightarrow> 'e \<Rightarrow> (exn + EnrichmentOutcome) \<times> 'e"
  ph_show_int :: "int \<Rightarrow> string"
  ph_faults :: tx_faults
  ph_random :: real
  ph_newid :: uuid
  ph_minted :: string
  ph_now :: timestamp

text \<open>The body runs in the correlation scope of the job's payload; the enricher is called inside it.\<close>

definition process_in_scope ::
  "('q, 'e) pipe_host \<Rightarrow> EnvVars \<Rightarrow> job_data \<Rightarrow> ('q, 'e) pipe \<Rightarrow> string \<Rightarrow> (exn + unit) \<times> ('q, 'e) pipe" where
  "process_in_scope H env data s cid =
     (case findByIdOrThrow (jd_ticketId data) (pp_db s) of
        Inl e \<Rightarrow> (Inl e, s)
      | Inr ticket \<Rightarrow>
          (let prior = tk_enrichmentStatus ticket in
           case ph_enrich H cid ticket (pp_ai s) of
             (Inl e, a) \<Rightarrow> (Inl e, s\<lparr>pp_ai := a\<rparr>)
           | (Inr out, a) \<Rightarrow>
               (let r = persistAndEmit (ph_faults H) (ph_newid H) (ph_now H) (tk_id ticket) prior out data (pp_db s);
                    s1 = s\<lparr>pp_ai := a, pp_db := tx_db r\<rparr>
                in case tx_value r of
                     Inl e \<Rightarrow> (Inl e, s1)
                   | Inr _ \<Rightarrow>
                       (case (if eo_status out = ES_DEGRADED
                              then scheduleUpgrade (ph_show_int H) (ph_random H) (ph_bull H) env data (pp_queue s1)
                              else (Inr (), pp_queue s1)) of
                          (Inl e, q) \<Rightarrow> (Inl e, s1\<lparr>pp_queue := q\<rparr>)
                        | (Inr _, q) \<Rightarrow>
                            (Inr (), s1\<lparr>pp_queue := q, pp_metrics := inc EventsProcessed (pp_metrics s1)\<rparr>)))))"

definition process_job ::
  "('q, 'e) pipe_host \<Rightarrow> EnvVars \<Rightarrow> job_data \<Rightarrow> ('q, 'e) pipe \<Rightarrow> (exn + unit) \<times> ('q, 'e) pipe" where
  "process_job H env data s = runWithCorrelation (ph_minted H) (jd_correlationId data) (process_in_scope H env data s)"

subsection \<open>Failed attempts\<close>

definition TERMINAL_PROBE_TIMEOUT_MS :: int where
  "TERMINAL_PROBE_TIMEOUT_MS = 2000"

text \<open>A promise as when it settles, if ever, and how; \<open>withTimeout\<close> races it with a timer.\<close>

type_synonym 'a promise = "(int \<times> (exn + 'a)) option"

definition withTimeout :: "'a promise \<Rightarrow> int \<Rightarrow> string \<Rightarrow> exn + 'a" where
  "withTimeout p ms message = (case p of
       Some (t, r) \<Rightarrow> if t < ms then r else Inl (JsError message)
     | None \<Rightarrow> Inl (JsError message))"

definition is_unrecoverable :: "js_error \<Rightarrow> bool" where
  "is_unrecoverable err \<longleftrightarrow>
     (case er_exn err of UnrecoverableError _ \<Rightarrow> True | _ \<Rightarrow> False) \<or> er_name err = ''UnrecoverableError''"

definition isTerminalFailure :: "bool promise \<Rightarrow> run_job \<Rightarrow> js_error \<Rightarrow> exn + bool" where
  "isTerminalFailure isFailed job err =
     (if is_unrecoverable err then Inr True
      else if (case rj_attempts job of Some n \<Rightarrow> n | None \<Rightarrow> 1) \<le> rj_attemptsMade job then Inr True
      else withTimeout isFailed TERMINAL_PROBE_TIMEOUT_MS ''isFailed() probe timed out'')"

definition classifyFailure :: "bool promise \<Rightarrow> run_job \<Rightarrow> js_error \<Rightarrow> bool" where
  "classifyFailure isFailed job err =
     (case isTerminalFailure isFailed job err of Inr b \<Rightarrow> b | Inl _ \<Rightarrow> True)"

definition onFailed ::
  "exn option \<Rightarrow> bool promise \<Rightarrow> uuid \<Rightarrow> timestamp \<Rightarrow> run_job \<Rightarrow> js_error \<Rightarrow> metrics \<Rightarrow> db \<Rightarrow> metrics \<times> db" where
  "onFailed db_err isFailed nid now job err m d =
     (if \<not> classifyFailure isFailed job err then (inc (EventsFailed ''retry'') m, d)
      else (case recordDeadLetter db_err nid now job err m d of
              Inr (m', d') \<Rightarrow> (m', d')
            | Inl e \<Rightarrow> (inc (EventsFailed ''dead_letter_write_failed'') m, d)))"

subsection \<open>What a write does\<close>

lemma write_outcome_keeps [simp]:
  "tk_id (write_outcome now out t) = tk_id t" "tk_eventId (write_outcome now out t) = tk_eventId t"
  "tk_enrichmentStatus (write_outcome now out t) = eo_status out"
  by (simp_all add: write_outcome_def)

lemma tk_row_update_ticket:
  assumes "update_ticket now i out d = (n, d')"
  shows "tk_row j d' = map_option (\<lambda>t. if j = i \<and> may_write out t then write_outcome now out t else t) (tk_row j d)"
  using assms
  by (intro tk_row_update) (auto simp: update_ticket_def Let_def)

lemma update_ticket_count:
  assumes "schema_ok d" and "update_ticket now i out d = (n, d')"
  shows "n = (case tk_row i d of Some t \<Rightarrow> if may_write out t then 1 else 0 | None \<Rightarrow> 0)"
  using assms affected_unique [of tk_id "tickets d" i "may_write out"]
  by (auto simp: update_ticket_def Let_def schema_ok_def split: option.splits)

lemma update_ticket_frame:
  assumes "update_ticket now i out d = (n, d')"
  shows "events d' = events d \<and> idempotency_keys d' = idempotency_keys d
    \<and> outbox_messages d' = outbox_messages d \<and> dead_letters d' = dead_letters d
    \<and> map tk_id (tickets d') = map tk_id (tickets d) \<and> map tk_eventId (tickets d') = map tk_eventId (tickets d)"
  using assms by (auto simp: update_ticket_def Let_def map_update_where)

lemma update_ticket_schema_ok:
  assumes "schema_ok d" and "update_ticket now i out d = (n, d')"
  shows "schema_ok d'"
proof -
  have "schema_ok (d\<lparr>tickets := update_where (\<lambda>t. tk_id t = i \<and> may_write out t) (write_outcome now out) (tickets d)\<rparr>)"
    by (rule schema_ok_ticket_update [OF assms(1)]) simp_all
  with assms(2) show ?thesis by (auto simp: update_ticket_def Let_def)
qed

lemma effect_key_input [simp]: "buildDedupKey (ticket_effect i eventType payload) = effect_key i eventType"
  by (simp add: effect_key_def buildDedupKey_def ticket_effect_def)

text \<open>The transaction's work, case by case.\<close>

lemma persist_work_cases:
  assumes "schema_ok d" and "fst (persist_work nid now i prior out data w d) = Inr (u, d')"
  obtains (skipped) "d' = d" "\<And>t. tk_row i d = Some t \<Longrightarrow> \<not> may_write out t"
    | (written) t where "tk_row i d = Some t" "may_write out t"
      "\<And>j. tk_row j d' = (if j = i then Some (write_outcome now out t) else tk_row j d)"
      "dedup_keys d' = (case side_effect prior out of
          Some ev \<Rightarrow> insert (effect_key i ev) (dedup_keys d) | None \<Rightarrow> dedup_keys d)"
      "schema_ok d'" "events d' = events d" "idempotency_keys d' = idempotency_keys d"
      "dead_letters d' = dead_letters d"
proof -
  obtain n d1 where upd: "update_ticket now i out d = (n, d1)" by fastforce
  note count = update_ticket_count [OF assms(1) upd] and frame = update_ticket_frame [OF upd]
    and ok1 = update_ticket_schema_ok [OF assms(1) upd] and rows = tk_row_update_ticket [OF upd]
  show thesis
  proof (cases n)
    case 0
    with assms(2) upd have "d' = d" by (simp add: persist_work_def)
    moreover have "\<And>t. tk_row i d = Some t \<Longrightarrow> \<not> may_write out t" using 0 count by auto
    ultimately show thesis by (rule skipped)
  next
    case (Suc k)
    with count obtain t where t: "tk_row i d = Some t" "may_write out t"
      by (auto split: option.splits if_splits)
    have rows1: "tk_row j d1 = (if j = i then Some (write_outcome now out t) else tk_row j d)" for j
      using rows [of j] t by (simp add: option.map_ident)
    have keys1: "dedup_keys d1 = dedup_keys d" using frame by (simp add: dedup_keys_def)
    show thesis
    proof (cases "side_effect prior out")
      case None
      with assms(2) upd Suc have "d' = d1" by (simp add: persist_work_def)
      with written [OF t] rows1 keys1 None ok1 frame show thesis by simp
    next
      case (Some ev)
      with assms(2) upd Suc obtain key where
        em: "emit nid now (ticket_effect i ev (effect_payload i out data)) d1 = Inr (key, d')"
        by (auto simp: persist_work_def split: sum.splits prod.splits)
      note ef = emit_frame [OF em] and log = outbox_log.emit_logs [OF em]
      show thesis
        using written [OF t] rows1 keys1 Some frame ef log emit_schema_ok [OF ok1 em] by simp
    qed
  qed
qed

text \<open>
  C17: an AI result is never lost to a fallback. Whatever the worker had read before, whatever the
  outcome and the faults of the transaction: a ticket that is ENRICHED when a DEGRADED outcome is
  written keeps its row and no effect is emitted; no other ticket is touched; and a write that
  happens stores the outcome and, in the same transaction, the effect its transition warrants.
\<close>

theorem persist_never_downgrades:
  assumes "schema_ok d" and "r = persistAndEmit F nid now i prior out data d" and "tk_row i d = Some t"
  shows "(tk_enrichmentStatus t = ES_ENRICHED \<and> eo_status out \<noteq> ES_ENRICHED \<longrightarrow> tx_db r = d)
    \<and> (\<forall>j. j \<noteq> i \<longrightarrow> tk_row j (tx_db r) = tk_row j d)
    \<and> (tx_db r = d \<or> tk_row i (tx_db r) = Some (write_outcome now out t)
         \<and> dedup_keys (tx_db r) = (case side_effect prior out of
             Some ev \<Rightarrow> insert (effect_key i ev) (dedup_keys d) | None \<Rightarrow> dedup_keys d))
    \<and> schema_ok (tx_db r)"
proof -
  from tx.run_atomic [of F "persist_work nid now i prior out data" "()" d] assms(2)
  consider "tx_db r = d" | u where "fst (persist_work nid now i prior out data () d) = Inr (u, tx_db r)"
    by (auto simp: persistAndEmit_def)
  then show ?thesis
  proof cases
    case 1
    with assms(1) show ?thesis by simp
  next
    case 2
    show ?thesis
    proof (cases rule: persist_work_cases [OF assms(1) 2])
      case 1
      with assms(1) show ?thesis by simp
    next
      case (2 t')
      with assms(3) have "t' = t" by simp
      with 2 show ?thesis by (auto simp: may_write_def)
    qed
  qed
qed

definition enriched_db :: db where
  "enriched_db = empty_db\<lparr>events := [\<lparr>ev_id = ''e1'', ev_idempotencyKey = ''order-1'', ev_payload = JNull,
       ev_source = None, ev_receivedAt = 0\<rparr>],
     tickets := [sample_ticket\<lparr>tk_enrichmentStatus := ES_ENRICHED\<rparr>]\<rparr>"

definition degraded_outcome :: EnrichmentOutcome where
  "degraded_outcome = outcome_of ES_DEGRADED ES_FALLBACK (fallback_classify sample_ticket)"

lemma enriched_db_ok: "schema_ok enriched_db"
  by (simp add: enriched_db_def empty_db_def schema_ok_def tickets_fk_ok_def idem_fk_ok_def unique_by_def
      sample_ticket_def)

theorem persist_never_downgrades_witness:
  "tx_db (persistAndEmit no_faults ''o1'' 9 ''t1'' ES_DEGRADED degraded_outcome order_job enriched_db) = enriched_db"
proof -
  have "tk_row ''t1'' enriched_db = Some (sample_ticket\<lparr>tk_enrichmentStatus := ES_ENRICHED\<rparr>)"
    by (simp add: enriched_db_def sample_ticket_def)
  from persist_never_downgrades [OF enriched_db_ok refl this] show ?thesis
    by (simp add: degraded_outcome_def outcome_of_def)
qed

text \<open>
  C18: a failed attempt is never silently lost. The handler always returns, and exactly one of three
  things has happened and been counted: the job will be retried and the database is untouched; or a
  pending dead letter holds the job's own data, so that replaying it re-enters with the same key,
  ticket and correlation id; or the dead letter could not be written and the alarm counter says so.
  It is never taken for retryable when the error is unrecoverable, the attempts are used up, the job
  is in the failed set, or the probe failed or timed out.
\<close>

theorem failure_never_lost:
  assumes "onFailed db_err isFailed nid now job err m d = (m', d')"
  shows "(is_unrecoverable err \<or> (case rj_attempts job of Some n \<Rightarrow> n | None \<Rightarrow> 1) \<le> rj_attemptsMade job
      \<or> withTimeout isFailed 2000 ''isFailed() probe timed out'' \<noteq> Inr False \<longleftrightarrow> classifyFailure isFailed job err)
    \<and> (\<not> classifyFailure isFailed job err \<longrightarrow> d' = d \<and> m' = inc (EventsFailed ''retry'') m)
    \<and> (classifyFailure isFailed job err \<longrightarrow>
         (db_err = None \<and> nid \<notin> values_of dl_id (dead_letters d) \<and> m' = inc (EventsFailed ''dead_letter'') m
            \<and> (\<exists>r. d' = d\<lparr>dead_letters := dead_letters d @ [r]\<rparr> \<and> dl_status r = DL_PENDING
                 \<and> job_of_json (dl_payload r) = rj_data job
                 \<and> dl_idempotencyKey r = jd_idempotencyKey (rj_data job)))
       \<or> (d' = d \<and> m' = inc (EventsFailed ''dead_letter_write_failed'') m
            \<and> (db_err \<noteq> None \<or> nid \<in> values_of dl_id (dead_letters d))))"
proof -
  have terminal: "is_unrecoverable err \<or> (case rj_attempts job of Some n \<Rightarrow> n | None \<Rightarrow> 1) \<le> rj_attemptsMade job
      \<or> withTimeout isFailed 2000 ''isFailed() probe timed out'' \<noteq> Inr False \<longleftrightarrow> classifyFailure isFailed job err"
    by (auto simp: classifyFailure_def isTerminalFailure_def TERMINAL_PROBE_TIMEOUT_MS_def split: sum.splits)
  show ?thesis
  proof (cases "classifyFailure isFailed job err")
    case True
    with assms terminal show ?thesis
      by (auto simp: onFailed_def recordDeadLetter_def insert_dead_letter_def dead_letter_of_def
          job_json_roundtrip split: option.splits if_splits)
  next
    case False
    with assms terminal show ?thesis by (auto simp: onFailed_def)
  qed
qed

definition stalled_job :: run_job where
  "stalled_job = \<lparr>rj_id = Some ''order-1'', rj_queueName = ''ticket-pipeline'', rj_data = order_job,
     rj_attemptsMade = 1, rj_attempts = Some 5\<rparr>"

definition stalled_error :: js_error where
  "stalled_error = \<lparr>er_exn = UnrecoverableError ''job stalled more than allowable limit'',
     er_name = ''UnrecoverableError'', er_stack = None\<rparr>"

theorem failure_never_lost_witness:
  "\<exists>r. snd (onFailed None None ''dl1'' 5 stalled_job stalled_error no_metrics empty_db)
      = empty_db\<lparr>dead_letters := [r]\<rparr> \<and> job_of_json (dl_payload r) = order_job"
proof -
  obtain m' d' where run: "onFailed None None ''dl1'' 5 stalled_job stalled_error no_metrics empty_db = (m', d')"
    by (rule prod.exhaust)
  have "classifyFailure None stalled_job stalled_error"
    by (simp add: classifyFailure_def isTerminalFailure_def is_unrecoverable_def stalled_error_def)
  with failure_never_lost [OF run] obtain r where "d' = empty_db\<lparr>dead_letters := [r]\<rparr>"
    and "job_of_json (dl_payload r) = rj_data stalled_job"
    by (auto simp: empty_db_def)
  moreover have "rj_data stalled_job = order_job" by (simp add: stalled_job_def)
  ultimately show ?thesis using run by (metis snd_conv)
qed

end
