(* ===== verification/Processor_Race.thy ===== *)
theory Processor_Race
  imports Processor
begin

section \<open>Workers in parallel\<close>

text \<open>
  Several workers may run jobs of one ticket at a time: the first run and a replay, an upgrade and a
  reconcile, a stalled job and its second delivery. A worker's read of the status and its
  transaction are separate steps; between them anything may happen. \<open>seen\<close> holds every status read
  so far, so a write may use any of them, however old.
\<close>

type_synonym work_state = "db \<times> (uuid \<times> EnrichmentStatus) set"

inductive work_step :: "work_state \<Rightarrow> work_state \<Rightarrow> bool" where
  read: "findByIdOrThrow i d = Inr t \<Longrightarrow> work_step (d, seen) (d, insert (i, tk_enrichmentStatus t) seen)"
| persist: "(i, prior) \<in> seen \<Longrightarrow> outcome_ok out \<Longrightarrow>
     r = persistAndEmit F nid now i prior out data d \<Longrightarrow> work_step (d, seen) (tx_db r, seen)"

inductive_cases work_stepE: "work_step (d, seen) (d', seen')"

inductive work_reach :: "work_state \<Rightarrow> work_state \<Rightarrow> bool" for s0 where
  start: "work_reach s0 s0"
| more: "work_reach s0 s \<Longrightarrow> work_step s s' \<Longrightarrow> work_reach s0 s'"

text \<open>Every ticket that left PENDING has been announced; an announced upgrade follows a triage.\<close>

definition announced :: "db \<Rightarrow> bool" where
  "announced d \<longleftrightarrow>
     (\<forall>i t. tk_row i d = Some t \<and> tk_enrichmentStatus t \<noteq> ES_PENDING \<longrightarrow>
        effect_key i SIDE_EFFECT_TRIAGED \<in> dedup_keys d)
   \<and> (\<forall>i t. tk_row i d = Some t \<and> effect_key i SIDE_EFFECT_UPGRADED \<in> dedup_keys d \<longrightarrow>
        effect_key i SIDE_EFFECT_TRIAGED \<in> dedup_keys d)
   \<and> (\<forall>i t. tk_row i d = Some t \<longrightarrow> tk_enrichmentStatus t \<noteq> ES_FAILED)"

text \<open>No status but PENDING was ever read of a ticket that is PENDING now.\<close>

definition reads_ok :: "db \<Rightarrow> (uuid \<times> EnrichmentStatus) set \<Rightarrow> bool" where
  "reads_ok d seen \<longleftrightarrow>
     (\<forall>i prior t. (i, prior) \<in> seen \<and> tk_row i d = Some t \<and> tk_enrichmentStatus t = ES_PENDING \<longrightarrow>
        prior = ES_PENDING)"

definition work_inv :: "work_state \<Rightarrow> bool" where
  "work_inv s \<longleftrightarrow> schema_ok (fst s) \<and> announced (fst s) \<and> reads_ok (fst s) (snd s)"

lemma effect_key_inject [simp]: "effect_key i ev = effect_key i ev' \<longleftrightarrow> ev = ev'"
  by (simp add: effect_key_def buildDedupKey_def ticket_effect_def)

lemma side_effects_differ [simp]:
  "SIDE_EFFECT_TRIAGED \<noteq> SIDE_EFFECT_UPGRADED" "SIDE_EFFECT_UPGRADED \<noteq> SIDE_EFFECT_TRIAGED"
  by (simp_all add: SIDE_EFFECT_TRIAGED_def SIDE_EFFECT_UPGRADED_def)

text \<open>Keys of other tickets are other keys, as far as the suffix of the event type tells them apart.\<close>

lemma effect_key_kind:
  "effect_key i SIDE_EFFECT_UPGRADED \<noteq> effect_key j SIDE_EFFECT_TRIAGED"
proof
  assume "effect_key i SIDE_EFFECT_UPGRADED = effect_key j SIDE_EFFECT_TRIAGED"
  then have "rev (effect_key i SIDE_EFFECT_UPGRADED) = rev (effect_key j SIDE_EFFECT_TRIAGED)" by simp
  then show False
    by (simp add: effect_key_def buildDedupKey_def ticket_effect_def SIDE_EFFECT_TRIAGED_def SIDE_EFFECT_UPGRADED_def)
qed

lemma effect_key_ticket: "effect_key i ev = effect_key j ev \<longleftrightarrow> i = j"
  by (simp add: effect_key_def buildDedupKey_def ticket_effect_def)

lemma work_inv_read:
  assumes "work_inv (d, seen)" and "findByIdOrThrow i d = Inr t"
  shows "work_inv (d, insert (i, tk_enrichmentStatus t) seen)"
  using assms by (auto simp: work_inv_def reads_ok_def findByIdOrThrow_ok)

lemma work_inv_persist:
  assumes inv: "work_inv (d, seen)" and seen: "(i, prior) \<in> seen" and out: "outcome_ok out"
    and work: "fst (persist_work nid now i prior out data () d) = Inr (u, d')"
  shows "work_inv (d', seen)"
proof -
  have ok: "schema_ok d" and ann: "announced d" and reads: "reads_ok d seen"
    using inv by (simp_all add: work_inv_def)
  show ?thesis
  proof (cases rule: persist_work_cases [OF ok work])
    case 1
    with inv show ?thesis by simp
  next
    case (2 t)
    have st: "eo_status out = ES_ENRICHED \<or> eo_status out = ES_DEGRADED"
      using out by (auto simp: outcome_ok_def)
    have grows: "dedup_keys d \<subseteq> dedup_keys d'" using 2 by (auto split: option.splits)
    have triaged: "effect_key i SIDE_EFFECT_TRIAGED \<in> dedup_keys d'"
    proof (cases "tk_enrichmentStatus t = ES_PENDING")
      case True
      with reads seen 2(1) have "prior = ES_PENDING" by (auto simp: reads_ok_def)
      with 2(4) show ?thesis by (simp add: side_effect_def)
    next
      case False
      with ann 2(1) have "effect_key i SIDE_EFFECT_TRIAGED \<in> dedup_keys d" by (auto simp: announced_def)
      with grows show ?thesis by blast
    qed
    have new: "k \<in> dedup_keys d' \<Longrightarrow> k \<notin> dedup_keys d \<Longrightarrow> \<exists>ev. k = effect_key i ev \<and> side_effect prior out = Some ev" for k
      using 2(4) by (auto split: option.splits)
    have up: "effect_key j SIDE_EFFECT_TRIAGED \<in> dedup_keys d'"
      if "tk_row j d' = Some t'" "effect_key j SIDE_EFFECT_UPGRADED \<in> dedup_keys d'" for j t'
    proof (cases "j = i")
      case True
      with triaged show ?thesis by simp
    next
      case False
      have "effect_key j SIDE_EFFECT_UPGRADED \<in> dedup_keys d"
      proof (rule ccontr)
        assume "effect_key j SIDE_EFFECT_UPGRADED \<notin> dedup_keys d"
        with new that(2) obtain ev where ev: "effect_key j SIDE_EFFECT_UPGRADED = effect_key i ev"
          "side_effect prior out = Some ev" by blast
        then have "ev = SIDE_EFFECT_TRIAGED \<or> ev = SIDE_EFFECT_UPGRADED"
          by (auto simp: side_effect_def split: if_splits)
        with ev(1) False show False using effect_key_kind effect_key_ticket by blast
      qed
      moreover from False 2(3) [of j] that(1) have "tk_row j d = Some t'" by simp
      ultimately have "effect_key j SIDE_EFFECT_TRIAGED \<in> dedup_keys d" using ann by (auto simp: announced_def)
      with grows show ?thesis by blast
    qed
    have "announced d'"
      unfolding announced_def
    proof (intro conjI allI impI)
      fix j t' assume t': "tk_row j d' = Some t' \<and> tk_enrichmentStatus t' \<noteq> ES_PENDING"
      show "effect_key j SIDE_EFFECT_TRIAGED \<in> dedup_keys d'"
      proof (cases "j = i")
        case False
        with 2(3) [of j] t' have "tk_row j d = Some t' \<and> tk_enrichmentStatus t' \<noteq> ES_PENDING" by simp
        with ann have "effect_key j SIDE_EFFECT_TRIAGED \<in> dedup_keys d"
          unfolding announced_def by blast
        with grows show ?thesis by blast
      qed (use triaged in simp)
    next
      fix j t' assume "tk_row j d' = Some t' \<and> effect_key j SIDE_EFFECT_UPGRADED \<in> dedup_keys d'"
      with up show "effect_key j SIDE_EFFECT_TRIAGED \<in> dedup_keys d'" by blast
    next
      fix j t' assume "tk_row j d' = Some t'"
      with 2(3) [of j] st ann show "tk_enrichmentStatus t' \<noteq> ES_FAILED"
        by (auto simp: announced_def split: if_splits)
    qed
    moreover have "reads_ok d' seen"
      using reads 2(3) st by (auto simp: reads_ok_def split: if_splits)
    ultimately show ?thesis using 2(5) by (simp add: work_inv_def)
  qed
qed

lemma work_step_inv:
  assumes "work_step s s'" and "work_inv s"
  shows "work_inv s'"
  using assms(1)
proof cases
  case (read i d t seen)
  with assms(2) show ?thesis by (simp add: work_inv_read)
next
  case (persist i prior seen out r F nid now data d)
  from tx.run_atomic [of F "persist_work nid now i prior out data" "()" d] persist(5)
  consider "tx_db r = d" | u where "fst (persist_work nid now i prior out data () d) = Inr (u, tx_db r)"
    by (auto simp: persistAndEmit_def)
  then show ?thesis
  proof cases
    case 1
    with assms(2) persist(1,2) show ?thesis by simp
  next
    case 2
    with assms(2) persist show ?thesis by (auto intro: work_inv_persist)
  qed
qed

lemma work_reach_inv: "work_reach s0 s \<Longrightarrow> work_inv s0 \<Longrightarrow> work_inv s"
  by (induction rule: work_reach.induct) (auto intro: work_step_inv)

text \<open>
  C19: every ticket that is triaged is announced, exactly once, whatever the workers' schedule. Along
  any interleaving of reads and writes of any number of workers, with any faults: a ticket that is
  no longer PENDING has its \<open>ticket.triaged\<close> effect in the outbox, which holds each effect at most
  once; an upgrade is announced only after a triage; and no code path ever sets the status FAILED.
\<close>

theorem triage_always_announced:
  assumes "work_reach (d0, {}) (d, seen)" and "schema_ok d0" and "announced d0"
    and "tk_row i d = Some t"
  shows "(tk_enrichmentStatus t \<noteq> ES_PENDING \<longrightarrow> effect_key i SIDE_EFFECT_TRIAGED \<in> dedup_keys d)
    \<and> (effect_key i SIDE_EFFECT_UPGRADED \<in> dedup_keys d \<longrightarrow> effect_key i SIDE_EFFECT_TRIAGED \<in> dedup_keys d)
    \<and> tk_enrichmentStatus t \<noteq> ES_FAILED
    \<and> distinct (map ob_dedupKey (outbox_messages d))"
proof -
  have "work_inv (d0, {})" using assms(2,3) by (simp add: work_inv_def reads_ok_def)
  from work_reach_inv [OF assms(1) this] assms(4) show ?thesis
    by (auto simp: work_inv_def announced_def schema_ok_def unique_by_def)
qed

subsection \<open>An upgrade nobody hears of\<close>

definition fresh_db :: db where
  "fresh_db = empty_db\<lparr>events := [\<lparr>ev_id = ''e1'', ev_idempotencyKey = ''order-1'', ev_payload = JNull,
       ev_source = None, ev_receivedAt = 0\<rparr>],
     tickets := [sample_ticket]\<rparr>"

definition ai_outcome :: EnrichmentOutcome where
  "ai_outcome = \<lparr>eo_status = ES_ENRICHED, eo_source = ES_AI, eo_category = BILLING, eo_priority = URGENT,
     eo_summary = ''Refund'', eo_confidence = 9 / 10\<rparr>"

definition after_degraded :: db where
  "after_degraded = tx_db (persistAndEmit no_faults ''o1'' 1 ''t1'' ES_PENDING degraded_outcome order_job fresh_db)"

definition after_enriched :: db where
  "after_enriched = tx_db (persistAndEmit no_faults ''o2'' 2 ''t1'' ES_PENDING ai_outcome order_job after_degraded)"

lemma fresh_db_ok: "schema_ok fresh_db"
  by (simp add: fresh_db_def empty_db_def schema_ok_def tickets_fk_ok_def idem_fk_ok_def unique_by_def
      sample_ticket_def)

lemma fresh_announced: "announced fresh_db"
  by (auto simp: announced_def fresh_db_def sample_ticket_def dedup_keys_def empty_db_def split: if_splits)

lemma outcomes_ok: "outcome_ok degraded_outcome" "outcome_ok ai_outcome"
  by (simp_all add: outcome_ok_def degraded_outcome_def ai_outcome_def outcome_of_def)

lemma outcome_status: "eo_status degraded_outcome = ES_DEGRADED" "eo_status ai_outcome = ES_ENRICHED"
  by (simp_all add: degraded_outcome_def ai_outcome_def outcome_of_def)

text \<open>Rows a transaction adds to the outbox are pending.\<close>

lemma persist_work_rows:
  assumes "fst (persist_work nid now i prior out data w d) = Inr (u, d')" and "r \<in> set (outbox_messages d')"
  shows "r \<in> set (outbox_messages d) \<or> ob_status r = OB_PENDING"
proof -
  obtain n d1 where upd: "update_ticket now i out d = (n, d1)" by (rule prod.exhaust)
  then have "outbox_messages d1 = outbox_messages d" using update_ticket_frame by blast
  with assms upd show ?thesis
    by (auto simp: persist_work_def emit_def Let_def split: nat.splits option.splits sum.splits prod.splits if_splits)
qed

lemma persist_no_faults:
  assumes "schema_ok d" and "tk_row i d = Some t" and "may_write out t"
    and "nid \<notin> values_of ob_id (outbox_messages d)"
    and "d' = tx_db (persistAndEmit no_faults nid now i prior out data d)"
  shows "tk_row i d' = Some (write_outcome now out t)
    \<and> dedup_keys d' = (case side_effect prior out of
        Some ev \<Rightarrow> insert (effect_key i ev) (dedup_keys d) | None \<Rightarrow> dedup_keys d)
    \<and> schema_ok d' \<and> idempotency_keys d' = idempotency_keys d"
proof -
  obtain n d1 where upd: "update_ticket now i out d = (n, d1)" by fastforce
  have "n = 1" using update_ticket_count [OF assms(1) upd] assms(2,3) by simp
  moreover have "outbox_messages d1 = outbox_messages d" using update_ticket_frame [OF upd] by simp
  ultimately have "\<exists>u d2. fst (persist_work nid now i prior out data () d) = Inr (u, d2)"
    using upd assms(4) by (auto simp: persist_work_def emit_def Let_def split: option.splits)
  then obtain u d2 where work: "fst (persist_work nid now i prior out data () d) = Inr (u, d2)" by blast
  then have d2: "d2 = d'"
    using assms(5) by (auto simp: persistAndEmit_def runInTransaction_no_faults split: prod.splits sum.splits)
  show ?thesis
  proof (cases rule: persist_work_cases [OF assms(1) work])
    case 1
    with assms(2,3) show ?thesis by blast
  next
    case (2 t')
    with assms(2) d2 show ?thesis by auto
  qed
qed

lemma sample_row: "tk_row ''t1'' fresh_db = Some sample_ticket"
  by (simp add: fresh_db_def sample_ticket_def)

lemma after_degraded_facts:
  "tk_row ''t1'' after_degraded = Some (write_outcome 1 degraded_outcome sample_ticket)"
  "dedup_keys after_degraded = {effect_key ''t1'' SIDE_EFFECT_TRIAGED}" "schema_ok after_degraded"
proof -
  have "nid \<notin> values_of ob_id (outbox_messages fresh_db)" for nid by (simp add: fresh_db_def empty_db_def)
  moreover have "may_write degraded_outcome sample_ticket" by (simp add: may_write_def sample_ticket_def)
  moreover have "dedup_keys fresh_db = {}" by (simp add: fresh_db_def empty_db_def dedup_keys_def)
  ultimately show "tk_row ''t1'' after_degraded = Some (write_outcome 1 degraded_outcome sample_ticket)"
    "dedup_keys after_degraded = {effect_key ''t1'' SIDE_EFFECT_TRIAGED}" "schema_ok after_degraded"
    using persist_no_faults [OF fresh_db_ok sample_row _ _ after_degraded_def]
    by (simp_all add: side_effect_def)
qed

lemma after_degraded_ids: "values_of ob_id (outbox_messages after_degraded) = {''o1''}"
  by (simp add: after_degraded_def persistAndEmit_def runInTransaction_no_faults persist_work_def
      update_ticket_def fresh_db_def empty_db_def sample_ticket_def may_write_def side_effect_def
      emit_def outcome_status Let_def)

lemma after_enriched_facts:
  "tk_row ''t1'' after_enriched = Some (write_outcome 2 ai_outcome (write_outcome 1 degraded_outcome sample_ticket))"
  "dedup_keys after_enriched = {effect_key ''t1'' SIDE_EFFECT_TRIAGED}" "schema_ok after_enriched"
proof -
  have "may_write ai_outcome (write_outcome 1 degraded_outcome sample_ticket)"
    by (simp add: may_write_def outcome_status)
  moreover have "''o2'' \<notin> values_of ob_id (outbox_messages after_degraded)" by (simp add: after_degraded_ids)
  ultimately show
    "tk_row ''t1'' after_enriched = Some (write_outcome 2 ai_outcome (write_outcome 1 degraded_outcome sample_ticket))"
    "dedup_keys after_enriched = {effect_key ''t1'' SIDE_EFFECT_TRIAGED}" "schema_ok after_enriched"
    using persist_no_faults [OF after_degraded_facts(3,1) _ _ after_enriched_def]
    by (simp_all add: side_effect_def after_degraded_facts(2))
qed

lemma upgrade_race_reach: "work_reach (fresh_db, {}) (after_enriched, {(''t1'', ES_PENDING)})"
proof -
  let ?seen = "{(''t1'', ES_PENDING)}"
  have "findByIdOrThrow ''t1'' fresh_db = Inr sample_ticket" by (simp add: findByIdOrThrow_ok sample_row)
  from work_step.read [OF this, of "{}"] have "work_reach (fresh_db, {}) (fresh_db, ?seen)"
    using work_reach.more [OF work_reach.start] by (simp add: sample_ticket_def)
  moreover have "work_step (fresh_db, ?seen) (after_degraded, ?seen)"
    unfolding after_degraded_def by (rule work_step.persist [OF _ outcomes_ok(1) refl]) simp
  moreover have "work_step (after_degraded, ?seen) (after_enriched, ?seen)"
    unfolding after_enriched_def by (rule work_step.persist [OF _ outcomes_ok(2) refl]) simp
  ultimately show ?thesis by (meson work_reach.more)
qed

text \<open>Once ENRICHED with no DEGRADED read outstanding, no step announces an upgrade.\<close>

definition unheard :: "work_state \<Rightarrow> bool" where
  "unheard s \<longleftrightarrow> schema_ok (fst s) \<and> effect_key ''t1'' SIDE_EFFECT_UPGRADED \<notin> dedup_keys (fst s)
     \<and> (''t1'', ES_DEGRADED) \<notin> snd s
     \<and> (\<exists>t. tk_row ''t1'' (fst s) = Some t \<and> tk_enrichmentStatus t = ES_ENRICHED)"

lemma unheard_persist:
  assumes "unheard (d, seen)" and "(i, prior) \<in> seen"
    and work: "fst (persist_work nid now i prior out data () d) = Inr (u, d')"
  shows "unheard (d', seen)"
proof -
  have ok: "schema_ok d" using assms(1) by (simp add: unheard_def)
  show ?thesis
  proof (cases rule: persist_work_cases [OF ok work])
    case 1
    with assms(1) show ?thesis by simp
  next
    case (2 t)
    have "effect_key ''t1'' SIDE_EFFECT_UPGRADED \<notin> dedup_keys d'"
    proof
      assume "effect_key ''t1'' SIDE_EFFECT_UPGRADED \<in> dedup_keys d'"
      with 2(4) assms(1) obtain ev where ev: "side_effect prior out = Some ev"
        "effect_key ''t1'' SIDE_EFFECT_UPGRADED = effect_key i ev"
        by (auto simp: unheard_def split: option.splits)
      then consider "ev = SIDE_EFFECT_TRIAGED" | "ev = SIDE_EFFECT_UPGRADED" "prior = ES_DEGRADED"
        by (auto simp: side_effect_def split: if_splits)
      then show False
      proof cases
        case 1
        with ev(2) effect_key_kind show False by simp
      next
        case 2
        with ev(2) have "i = ''t1''" by (simp add: effect_key_ticket)
        with 2 assms show False by (simp add: unheard_def)
      qed
    qed
    moreover have "\<exists>t. tk_row ''t1'' d' = Some t \<and> tk_enrichmentStatus t = ES_ENRICHED"
    proof (cases "i = ''t1''")
      case True
      with 2(1,2) assms(1) have "eo_status out = ES_ENRICHED" by (auto simp: unheard_def may_write_def)
      with True 2(3) [of "''t1''"] show ?thesis by simp
    next
      case False
      with 2(3) [of "''t1''"] assms(1) show ?thesis by (auto simp: unheard_def)
    qed
    ultimately show ?thesis using 2(5) assms(1) by (simp add: unheard_def)
  qed
qed

lemma unheard_step:
  assumes "work_step s s'" and "unheard s"
  shows "unheard s'"
  using assms(1)
proof cases
  case (read i d t seen)
  with assms(2) show ?thesis by (auto simp: unheard_def findByIdOrThrow_ok)
next
  case (persist i prior seen out r F nid now data d)
  from tx.run_atomic [of F "persist_work nid now i prior out data" "()" d] persist(5)
  consider "tx_db r = d" | u where "fst (persist_work nid now i prior out data () d) = Inr (u, tx_db r)"
    by (auto simp: persistAndEmit_def)
  then show ?thesis
  proof cases
    case 1
    with assms(2) persist(1,2) show ?thesis by simp
  next
    case 2
    with assms(2) persist show ?thesis by (auto intro: unheard_persist)
  qed
qed

lemma unheard_reach: "work_reach s0 s \<Longrightarrow> unheard s0 \<Longrightarrow> unheard s"
  by (induction rule: work_reach.induct) (auto intro: unheard_step)

text \<open>
  The stale read can swallow an upgrade. Two workers read a ticket as PENDING; one writes the
  fallback and announces the triage, the other then writes the AI result with the prior status it
  remembers, so its effect is the triage again, which the log absorbs. The ticket has gone from
  DEGRADED to ENRICHED, and whatever runs afterwards, its upgrade is never announced.
\<close>

lemma upgrade_can_go_unannounced:
  "\<exists>d seen. work_reach (fresh_db, {}) (d, seen)
     \<and> (\<exists>t. tk_row ''t1'' after_degraded = Some t \<and> tk_enrichmentStatus t = ES_DEGRADED)
     \<and> (\<exists>t. tk_row ''t1'' d = Some t \<and> tk_enrichmentStatus t = ES_ENRICHED)
     \<and> \<not> (\<exists>d' seen'. work_reach (d, seen) (d', seen') \<and> effect_key ''t1'' SIDE_EFFECT_UPGRADED \<in> dedup_keys d')"
proof -
  have "unheard (after_enriched, {(''t1'', ES_PENDING)})"
    by (simp add: unheard_def after_enriched_facts outcome_status)
  then have "\<not> (\<exists>d' seen'. work_reach (after_enriched, {(''t1'', ES_PENDING)}) (d', seen')
      \<and> effect_key ''t1'' SIDE_EFFECT_UPGRADED \<in> dedup_keys d')"
    using unheard_reach by (force simp: unheard_def)
  moreover have "\<exists>t. tk_row ''t1'' after_degraded = Some t \<and> tk_enrichmentStatus t = ES_DEGRADED"
    by (simp add: after_degraded_facts outcome_status)
  moreover have "\<exists>t. tk_row ''t1'' after_enriched = Some t \<and> tk_enrichmentStatus t = ES_ENRICHED"
    by (simp add: after_enriched_facts outcome_status)
  ultimately show ?thesis using upgrade_race_reach by blast
qed

theorem triage_always_announced_witness:
  "effect_key ''t1'' SIDE_EFFECT_TRIAGED \<in> dedup_keys after_enriched"
  using triage_always_announced [OF upgrade_race_reach fresh_db_ok fresh_announced after_enriched_facts(1)]
  by (simp add: outcome_status)

end
