(* ===== verification/Sink.thy ===== *)
theory Sink
  imports Js_Values
begin

section \<open>The bundled webhook sink (src/outbox/sink.controller.ts)\<close>

text \<open>
  \<open>deliveries\<close> is a JavaScript \<open>Map\<close>: an association list in insertion order, where setting a
  known key keeps its position. \<open>receive\<close> counts one delivery and evicts the oldest keys past the
  cap; \<open>list\<close> answers for a key the caller holds, or totals.
\<close>

definition MAX_TRACKED_DELIVERIES :: nat where
  "MAX_TRACKED_DELIVERIES = 5000"

definition MAX_KEY_LENGTH :: nat where
  "MAX_KEY_LENGTH = 200"

type_synonym sink = "(string \<times> nat) list"

text \<open>\<open>Map.get(k) ?? 0\<close>.\<close>

definition count_of :: "string \<Rightarrow> sink \<Rightarrow> nat" where
  "count_of k s = (case map_of s k of Some n \<Rightarrow> n | None \<Rightarrow> 0)"

text \<open>\<open>while (size > cap) delete(first key)\<close>.\<close>

fun evict :: "nat \<Rightarrow> sink \<Rightarrow> sink" where
  "evict cap [] = []"
| "evict cap (p # s) = (if cap < length (p # s) then evict cap s else p # s)"

definition sink_receive_capped :: "nat \<Rightarrow> string option \<Rightarrow> sink \<Rightarrow> bool \<times> sink" where
  "sink_receive_capped cap idempotencyKey s =
     (let key = str_slice MAX_KEY_LENGTH
                  (case idempotencyKey of Some k \<Rightarrow> k | None \<Rightarrow> ''none'');
          seen = count_of key s + 1;
          s' = evict cap (map_set key seen s)
      in (1 < seen, s'))"

definition sink_receive :: "string option \<Rightarrow> sink \<Rightarrow> bool \<times> sink" where
  "sink_receive = sink_receive_capped MAX_TRACKED_DELIVERIES"

datatype deliveries_view = ForKey string nat | Totals nat nat

text \<open>An empty query parameter is falsy.\<close>

definition sink_list :: "string option \<Rightarrow> sink \<Rightarrow> deliveries_view" where
  "sink_list dedupKey s = (case dedupKey of
       Some k \<Rightarrow>
         if k \<noteq> '''' then ForKey k (count_of (str_slice MAX_KEY_LENGTH k) s)
         else Totals (length s) (sum_list (map snd s))
     | None \<Rightarrow> Totals (length s) (sum_list (map snd s)))"

subsection \<open>Map and eviction\<close>

lemma evict_drop: "evict cap s = drop (length s - cap) s"
proof (induction s)
  case Nil
  then show ?case by simp
next
  case (Cons p s)
  then show ?case by (cases "cap < length (p # s)") (auto simp: Suc_diff_le)
qed

lemma length_evict: "length (evict cap s) = min cap (length s)"
  by (simp add: evict_drop)

definition sink_ok :: "nat \<Rightarrow> sink \<Rightarrow> bool" where
  "sink_ok cap s \<longleftrightarrow> distinct (map fst s) \<and> length s \<le> cap \<and> (\<forall>(k, n) \<in> set s. 0 < n)"

lemma map_set_ok:
  assumes "sink_ok cap s" and "0 < v"
  shows "distinct (map fst (map_set k v s)) \<and> (\<forall>(k', n) \<in> set (map_set k v s). 0 < n)
    \<and> length (map_set k v s) \<le> Suc cap"
proof -
  have "\<forall>(k', n) \<in> set (map_set k v s). 0 < n"
    using assms by (induction k v s rule: map_set.induct) (auto simp: sink_ok_def split: if_splits)
  moreover have "distinct (map fst (map_set k v s))"
    using assms(1) by (auto simp: keys_map_set sink_ok_def)
  ultimately show ?thesis
    using assms(1) by (simp add: sink_ok_def length_map_set)
qed

lemma sink_receive_capped_ok:
  assumes "sink_ok cap s"
  shows "sink_ok cap (snd (sink_receive_capped cap k s))"
proof -
  let ?key = "str_slice MAX_KEY_LENGTH (case k of Some k \<Rightarrow> k | None \<Rightarrow> ''none'')"
  let ?s = "map_set ?key (count_of ?key s + 1) s"
  from map_set_ok [OF assms, of "count_of ?key s + 1" ?key]
  have "distinct (map fst ?s)" "\<forall>(k', n) \<in> set ?s. 0 < n" by simp_all
  then show ?thesis
    by (auto simp: sink_ok_def sink_receive_capped_def Let_def length_evict evict_drop drop_map [symmetric]
        dest: in_set_dropD)
qed

text \<open>The key just counted is the newest, so a cap of at least one never evicts it.\<close>

lemma map_of_drop:
  assumes "distinct (map fst s)" and "k \<in> fst ` set (drop n s)"
  shows "map_of (drop n s) k = map_of s k"
proof -
  from assms(2) obtain v where v: "(k, v) \<in> set (drop n s)" by force
  then have "(k, v) \<in> set s" by (rule in_set_dropD)
  with assms(1) have "map_of s k = Some v" by simp
  moreover from assms(1) have "distinct (map fst (drop n s))" by (simp flip: drop_map)
  with v have "map_of (drop n s) k = Some v" by simp
  ultimately show ?thesis by simp
qed

lemma receive_count:
  assumes "sink_ok cap s" and "0 < cap"
    and "key = str_slice MAX_KEY_LENGTH (case k of Some k \<Rightarrow> k | None \<Rightarrow> ''none'')"
  shows "count_of key (snd (sink_receive_capped cap k s)) = count_of key s + 1"
proof -
  let ?s = "map_set key (count_of key s + 1) s"
  have fit: "length ?s \<le> Suc cap" and dist: "distinct (map fst ?s)"
    using map_set_ok [OF assms(1), of "count_of key s + 1" key] by simp_all
  have "key \<in> fst ` set (drop (length ?s - cap) ?s)"
  proof (cases "key \<in> fst ` set s")
    case True
    with assms(1) have "length ?s - cap = 0" by (simp add: length_map_set sink_ok_def)
    moreover have "key \<in> fst ` set ?s"
      by (metis True keys_map_set list.set_map)
    ultimately show ?thesis by simp
  next
    case False
    then have keys: "map fst ?s = map fst s @ [key]" by (simp add: keys_map_set)
    have "length ?s - cap \<le> length s"
      using False assms(1,2) by (simp add: length_map_set sink_ok_def)
    then have "key \<in> set (drop (length ?s - cap) (map fst ?s))"
      unfolding keys by (auto simp: drop_append)
    then show ?thesis by (simp add: drop_map)
  qed
  from map_of_drop [OF dist this]
  have "map_of (evict cap ?s) key = Some (count_of key s + 1)"
    by (simp add: evict_drop map_of_map_set)
  with assms(3) show ?thesis
    by (simp add: sink_receive_capped_def Let_def count_of_def)
qed

lemma count_of_pos:
  assumes "sink_ok cap s"
  shows "0 < count_of key s \<longleftrightarrow> key \<in> fst ` set s"
proof (cases "map_of s key")
  case None
  then have "key \<notin> fst ` set s" by (simp add: map_of_eq_None_iff)
  with None show ?thesis by (simp add: count_of_def)
next
  case (Some n)
  then have "(key, n) \<in> set s" by (rule map_of_SomeD)
  with assms have "0 < n" and "key \<in> fst ` set s" by (auto simp: sink_ok_def intro: rev_image_eqI)
  with Some show ?thesis by (simp add: count_of_def)
qed

text \<open>
  The publicly writable delivery map never holds more than 5000 keys, never a key longer than
  200 characters from this request, and a request is answered as a duplicate exactly when its key is
  among those still tracked; its count then goes up by one, whatever is evicted.
\<close>

lemma sink_receive_spec:
  assumes "sink_ok MAX_TRACKED_DELIVERIES s"
    and "key = str_slice MAX_KEY_LENGTH (case k of Some k \<Rightarrow> k | None \<Rightarrow> ''none'')"
    and "sink_receive k s = (duplicate, s')"
  shows "sink_ok MAX_TRACKED_DELIVERIES s' \<and> length s' \<le> 5000 \<and> length key \<le> 200
    \<and> (duplicate \<longleftrightarrow> key \<in> fst ` set s) \<and> count_of key s' = count_of key s + 1"
proof -
  have s': "s' = snd (sink_receive_capped MAX_TRACKED_DELIVERIES k s)"
    and dup: "duplicate \<longleftrightarrow> 1 < count_of key s + 1"
    using assms(2,3) by (auto simp: sink_receive_def sink_receive_capped_def Let_def)
  have ok: "sink_ok MAX_TRACKED_DELIVERIES s'"
    unfolding s' by (rule sink_receive_capped_ok [OF assms(1)])
  have "0 < count_of key s \<longleftrightarrow> key \<in> fst ` set s"
    by (rule count_of_pos [OF assms(1)])
  moreover have "count_of key s' = count_of key s + 1"
    unfolding s' by (rule receive_count [OF assms(1) _ assms(2)]) (simp add: MAX_TRACKED_DELIVERIES_def)
  moreover have "length key \<le> 200"
    using assms(2) by (simp add: str_slice_def MAX_KEY_LENGTH_def)
  ultimately show ?thesis
    using ok dup by (simp add: sink_ok_def MAX_TRACKED_DELIVERIES_def)
qed

lemma sink_receive_spec_witness:
  "fst (sink_receive (Some ''k'') [(''k'', 1)]) \<and> count_of ''k'' (snd (sink_receive (Some ''k'') [(''k'', 1)])) = 2"
proof -
  have ok: "sink_ok MAX_TRACKED_DELIVERIES [(''k'', 1)]"
    by (simp add: sink_ok_def MAX_TRACKED_DELIVERIES_def)
  have key: "''k'' = str_slice MAX_KEY_LENGTH (case Some ''k'' of Some k \<Rightarrow> k | None \<Rightarrow> ''none'')"
    by (simp add: str_slice_def MAX_KEY_LENGTH_def)
  from sink_receive_spec [OF ok key prod.collapse [symmetric]] show ?thesis
    by (simp add: count_of_def)
qed

end
