(* ===== verification/Outbox_Delivery.thy ===== *)
theory Outbox_Delivery
  imports Outbox Sink
begin

section \<open>Delivery: what a drain does to the outbox\<close>

text \<open>
  The relay's guarantees. Every claimed row makes one of three moves (\<open>row_progress\<close>), every
  other row stays; a SENT row has been delivered, whatever the driver does to the transaction;
  attempts stay below the limit while a row is pending. The delivery target is a locale,
  interpreted by the webhook dispatcher posting to the bundled sink.
\<close>

subsection \<open>The webhook dispatcher (src/outbox/dispatchers/webhook.dispatcher.ts)\<close>

record http_request =
  hr_url :: string
  hr_headers :: "(string \<times> string) list"
  hr_body :: json

record http_response =
  hs_status :: int
  hs_statusText :: string

definition WEBHOOK_TIMEOUT_MS :: int where
  "WEBHOOK_TIMEOUT_MS = 5000"

text \<open>\<open>fetch\<close> answers or throws (a network error, or the abort after \<open>WEBHOOK_TIMEOUT_MS\<close>).\<close>

type_synonym 'w fetch = "int \<Rightarrow> http_request \<Rightarrow> 'w \<Rightarrow> (exn + http_response) \<times> 'w"

definition response_ok :: "http_response \<Rightarrow> bool" where
  "response_ok r \<longleftrightarrow> 200 \<le> hs_status r \<and> hs_status r \<le> 299"

definition webhook_request :: "EnvVars \<Rightarrow> string \<Rightarrow> dispatch_message \<Rightarrow> http_request" where
  "webhook_request env cid msg = \<lparr>hr_url = WEBHOOK_TARGET_URL env,
     hr_headers = [(''content-type'', ''application/json''),
                   (''idempotency-key'', dm_dedupKey msg), (''x-correlation-id'', cid)],
     hr_body = JObj [(''eventType'', JStr (dm_eventType msg)),
                     (''aggregateType'', JStr (dm_aggregateType msg)),
                     (''aggregateId'', JStr (dm_aggregateId msg)),
                     (''payload'', dm_payload msg)]\<rparr>"

definition status_error :: "(int \<Rightarrow> string) \<Rightarrow> http_response \<Rightarrow> exn" where
  "status_error show_int r =
     JsError (''webhook target returned '' @ show_int (hs_status r) @ '' '' @ hs_statusText r)"

definition webhook_dispatch :: "(int \<Rightarrow> string) \<Rightarrow> EnvVars \<Rightarrow> 'w fetch \<Rightarrow> 'w dispatcher" where
  "webhook_dispatch show_int env fetch cid msg w =
     (case fetch WEBHOOK_TIMEOUT_MS (webhook_request env cid msg) w of
        (Inl e, w') \<Rightarrow> (Inl e, w')
      | (Inr r, w') \<Rightarrow> (if response_ok r then Inr () else Inl (status_error show_int r), w'))"

subsection \<open>One row's move\<close>

definition row_progress :: "EnvVars \<Rightarrow> timestamp \<Rightarrow> outbox_row \<Rightarrow> outbox_row \<Rightarrow> bool" where
  "row_progress env now r r' \<longleftrightarrow>
     r' = r\<lparr>ob_status := OB_SENT, ob_dispatchedAt := Some now, ob_lastError := None\<rparr>
   \<or> (\<exists>msg. length msg \<le> 1000 \<and> OUTBOX_MAX_ATTEMPTS env \<le> ob_attempts r + 1
        \<and> r' = r\<lparr>ob_status := OB_FAILED, ob_attempts := ob_attempts r + 1,
                 ob_lastError := Some msg\<rparr>)
   \<or> (\<exists>msg delay. length msg \<le> 1000 \<and> ob_attempts r + 1 < OUTBOX_MAX_ATTEMPTS env
        \<and> 0 \<le> delay \<and> delay \<le> backoff_exp (ob_attempts r + 1) (OUTBOX_BACKOFF_BASE_MS env) None
        \<and> r' = r\<lparr>ob_attempts := ob_attempts r + 1, ob_lastError := Some msg,
                 ob_nextAttemptAt := now + interval_ms delay\<rparr>)"

definition good_host :: "relay_host \<Rightarrow> bool" where
  "good_host host \<longleftrightarrow> (\<forall>i. random_range (rh_random host i))"

lemma row_progress_keeps [simp]:
  assumes "row_progress env now r r'"
  shows "ob_id r' = ob_id r \<and> ob_dedupKey r' = ob_dedupKey r \<and> ob_payload r' = ob_payload r
    \<and> ob_eventType r' = ob_eventType r \<and> ob_aggregateId r' = ob_aggregateId r"
  using assms by (auto simp: row_progress_def)

lemma row_progress_cases:
  assumes "row_progress env now r r'"
  obtains (sent) "r' = r\<lparr>ob_status := OB_SENT, ob_dispatchedAt := Some now, ob_lastError := None\<rparr>"
    | (failed) msg where "OUTBOX_MAX_ATTEMPTS env \<le> ob_attempts r + 1"
        "r' = r\<lparr>ob_status := OB_FAILED, ob_attempts := ob_attempts r + 1, ob_lastError := Some msg\<rparr>"
    | (retried) msg delay where "ob_attempts r + 1 < OUTBOX_MAX_ATTEMPTS env" "0 \<le> delay"
        "delay \<le> backoff_exp (ob_attempts r + 1) (OUTBOX_BACKOFF_BASE_MS env) None"
        "r' = r\<lparr>ob_attempts := ob_attempts r + 1, ob_lastError := Some msg,
                 ob_nextAttemptAt := now + interval_ms delay\<rparr>"
  using assms unfolding row_progress_def by metis

abbreviation ob_row :: "uuid \<Rightarrow> db \<Rightarrow> outbox_row option" where
  "ob_row i d \<equiv> row_with ob_id i (outbox_messages d)"

text \<open>Updating the row with one primary key, as a change of the rows \<open>ob_row\<close> finds.\<close>

lemma ob_row_update:
  assumes "d' = d\<lparr>outbox_messages := update_where (\<lambda>r. ob_id r = i) f (outbox_messages d)\<rparr>"
    and "\<And>r. ob_id (f r) = ob_id r"
  shows "ob_row j d' = map_option (\<lambda>r. if j = i then f r else r) (ob_row j d)"
  using assms
  by (auto simp: row_with_update_where map_option_case split: option.splits dest!: row_with_SomeD)

lemma dispatchRow_update:
  assumes env: "0 \<le> OUTBOX_BACKOFF_BASE_MS env" and host: "good_host host"
    and run: "dispatchRow env now host dispatch row wm d = (wm', d')"
  obtains f where "d' = d\<lparr>outbox_messages :=
      update_where (\<lambda>r. ob_id r = ob_id row) f (outbox_messages d)\<rparr>"
    and "\<And>r. ob_id (f r) = ob_id r \<and> ob_dedupKey (f r) = ob_dedupKey r"
    and "row_progress env now row (f row)"
proof -
  obtain w m where wm: "wm = (w, m)" by (cases wm)
  obtain cid where cid: "runWithCorrelation (rh_uuid host (ob_id row))
      (json_str (json_field ''correlationId'' (ob_payload row))) g = g cid"
    for g :: "string \<Rightarrow> (exn + unit) \<times> 'a"
    by (simp add: runWithCorrelation_def)
  obtain res w' where disp: "dispatch cid (message_of row) w = (res, w')"
    by (rule prod.exhaust)
  show thesis
  proof (cases res)
    case (Inr u)
    with run wm cid disp have "d' = mark_sent now row d" by (simp add: dispatchRow_def Let_def)
    moreover have "row_progress env now row (row\<lparr>ob_status := OB_SENT,
        ob_dispatchedAt := Some now, ob_lastError := None\<rparr>)"
      unfolding row_progress_def by (rule disjI1) (rule refl)
    ultimately show thesis
      by (intro that [of "\<lambda>r. r\<lparr>ob_status := OB_SENT, ob_dispatchedAt := Some now,
            ob_lastError := None\<rparr>"]) (simp_all add: mark_sent_def)
  next
    case (Inl err)
    with run wm cid disp have d': "d' = snd (handleDispatchFailure env now host row err m d)"
      by (simp add: dispatchRow_def Let_def split: prod.splits)
    let ?n = "ob_attempts row + 1" and ?msg = "str_slice 1000 (exn_message err)"
    show thesis
    proof (cases "OUTBOX_MAX_ATTEMPTS env \<le> ?n")
      case True
      then have "row_progress env now row (row\<lparr>ob_status := OB_FAILED, ob_attempts := ?n,
          ob_lastError := Some ?msg\<rparr>)"
        unfolding row_progress_def by (intro disjI2 disjI1 exI [of _ ?msg]) simp
      with True d' show thesis
        by (intro that [of "\<lambda>r. r\<lparr>ob_status := OB_FAILED, ob_attempts := ?n,
            ob_lastError := Some ?msg\<rparr>"]) (simp_all add: handleDispatchFailure_def Let_def)
    next
      case False
      let ?delay = "backoffWithJitter (rh_random host (ob_id row)) ?n (OUTBOX_BACKOFF_BASE_MS env) None"
      have r: "random_range (rh_random host (ob_id row))" using host by (simp add: good_host_def)
      have "row_progress env now row (row\<lparr>ob_attempts := ?n, ob_lastError := Some ?msg,
          ob_nextAttemptAt := now + interval_ms ?delay\<rparr>)"
        unfolding row_progress_def using False backoff_nonneg [OF env r] backoff_le_exp [OF env r]
        by (intro disjI2 exI [of _ ?msg] exI [of _ ?delay]) simp
      with False d' show thesis
        by (intro that [of "\<lambda>r. r\<lparr>ob_attempts := ?n, ob_lastError := Some ?msg,
            ob_nextAttemptAt := now + interval_ms ?delay\<rparr>"])
           (simp_all add: handleDispatchFailure_def Let_def)
    qed
  qed
qed

lemma dispatchRow_row:
  assumes env: "0 \<le> OUTBOX_BACKOFF_BASE_MS env" and host: "good_host host"
    and row: "ob_row (ob_id row) d = Some row"
    and run: "dispatchRow env now host dispatch row wm d = (wm', d')"
  shows "(\<exists>r'. ob_row (ob_id row) d' = Some r' \<and> row_progress env now row r')
    \<and> (\<forall>i. i \<noteq> ob_id row \<longrightarrow> ob_row i d' = ob_row i d)
    \<and> map ob_id (outbox_messages d') = map ob_id (outbox_messages d)
    \<and> map ob_dedupKey (outbox_messages d') = map ob_dedupKey (outbox_messages d)
    \<and> events d' = events d \<and> tickets d' = tickets d
    \<and> idempotency_keys d' = idempotency_keys d \<and> dead_letters d' = dead_letters d"
proof -
  obtain f where d': "d' = d\<lparr>outbox_messages :=
      update_where (\<lambda>r. ob_id r = ob_id row) f (outbox_messages d)\<rparr>"
    and f: "\<And>r. ob_id (f r) = ob_id r \<and> ob_dedupKey (f r) = ob_dedupKey r"
    and prog: "row_progress env now row (f row)"
    using dispatchRow_update [OF env host run] by blast
  have rows: "ob_row j d' = map_option (\<lambda>r. if j = ob_id row then f r else r) (ob_row j d)" for j
    by (rule ob_row_update [OF d']) (simp add: f)
  from d' have "outbox_messages d' = update_where (\<lambda>r. ob_id r = ob_id row) f (outbox_messages d)"
    by simp
  then have "map ob_id (outbox_messages d') = map ob_id (outbox_messages d)"
    and "map ob_dedupKey (outbox_messages d') = map ob_dedupKey (outbox_messages d)"
    using f by (simp_all add: map_update_where)
  with rows prog row d' show ?thesis by (simp add: option.map_ident)
qed

subsection \<open>A batch\<close>

lemma dispatchRows_progress:
  assumes "0 \<le> OUTBOX_BACKOFF_BASE_MS env" and "good_host host"
    and "distinct (map ob_id rows)" and "\<forall>row \<in> set rows. ob_row (ob_id row) d = Some row"
    and "dispatchRows env now host dispatch rows wm d = (wm', d')"
  shows "(\<forall>row \<in> set rows. \<exists>r'. ob_row (ob_id row) d' = Some r' \<and> row_progress env now row r')
    \<and> (\<forall>i. i \<notin> ob_id ` set rows \<longrightarrow> ob_row i d' = ob_row i d)
    \<and> map ob_id (outbox_messages d') = map ob_id (outbox_messages d)
    \<and> map ob_dedupKey (outbox_messages d') = map ob_dedupKey (outbox_messages d)
    \<and> events d' = events d \<and> tickets d' = tickets d
    \<and> idempotency_keys d' = idempotency_keys d \<and> dead_letters d' = dead_letters d"
  using assms(3-5)
proof (induction rows arbitrary: wm d)
  case Nil
  then show ?case by simp
next
  case (Cons row rows)
  obtain wm1 d1 where one: "dispatchRow env now host dispatch row wm d = (wm1, d1)" by fastforce
  with Cons.prems(3) have rest: "dispatchRows env now host dispatch rows wm1 d1 = (wm', d')" by simp
  have here: "ob_row (ob_id row) d = Some row" using Cons.prems(2) by simp
  note step = dispatchRow_row [OF assms(1,2) here one]
  have "\<forall>r \<in> set rows. ob_row (ob_id r) d1 = Some r"
  proof
    fix r assume r: "r \<in> set rows"
    with Cons.prems(1) have "ob_id r \<noteq> ob_id row" by (auto simp: image_iff)
    with step Cons.prems(2) r show "ob_row (ob_id r) d1 = Some r" by simp
  qed
  from Cons.IH [OF _ this rest] Cons.prems(1)
  have IH: "(\<forall>row \<in> set rows. \<exists>r'. ob_row (ob_id row) d' = Some r' \<and> row_progress env now row r')
    \<and> (\<forall>i. i \<notin> ob_id ` set rows \<longrightarrow> ob_row i d' = ob_row i d1)
    \<and> map ob_id (outbox_messages d') = map ob_id (outbox_messages d1)
    \<and> map ob_dedupKey (outbox_messages d') = map ob_dedupKey (outbox_messages d1)
    \<and> events d' = events d1 \<and> tickets d' = tickets d1
    \<and> idempotency_keys d' = idempotency_keys d1 \<and> dead_letters d' = dead_letters d1"
    by simp
  have "ob_id row \<notin> ob_id ` set rows" using Cons.prems(1) by auto
  with IH step show ?case by auto
qed

lemma poll_due_set:
  "r \<in> set (poll_due now batch locked d) \<Longrightarrow>
     r \<in> set (outbox_messages d) \<and> is_due now r \<and> ob_id r \<notin> locked"
  by (auto simp: poll_due_def dest: in_set_takeD)

lemma poll_due_distinct:
  assumes "unique_by ob_id (outbox_messages d)"
  shows "distinct (map ob_id (poll_due now batch locked d))"
proof -
  let ?due = "filter (\<lambda>r. is_due now r \<and> ob_id r \<notin> locked) (outbox_messages d)"
  have "distinct (map ob_id ?due)"
    using assms by (simp add: unique_by_def distinct_map_filter)
  then have "distinct (map ob_id (sort_key ob_nextAttemptAt ?due))"
    by (simp add: distinct_map)
  then show ?thesis
    by (simp add: poll_due_def take_map [symmetric] distinct_take)
qed

lemma poll_due_rows:
  assumes "unique_by ob_id (outbox_messages d)"
  shows "\<forall>row \<in> set (poll_due now batch locked d). ob_row (ob_id row) d = Some row"
  using assms by (auto dest!: poll_due_set intro: row_with_unique)

lemma schema_ok_outbox_rows:
  assumes "schema_ok d" and "map ob_id (outbox_messages d') = map ob_id (outbox_messages d)"
    and "map ob_dedupKey (outbox_messages d') = map ob_dedupKey (outbox_messages d)"
    and "events d' = events d" "tickets d' = tickets d" "idempotency_keys d' = idempotency_keys d"
    "dead_letters d' = dead_letters d"
  shows "schema_ok d'"
  using assms by (simp add: schema_ok_def unique_by_def tickets_fk_ok_def idem_fk_ok_def)

lemma dispatchRows_poll:
  assumes "schema_ok d" and "0 \<le> OUTBOX_BACKOFF_BASE_MS env" and "good_host host"
    and "dispatchRows env now host dispatch (poll_due now batch locked d) wm d = (wm', d')"
  shows "(\<forall>row \<in> set (poll_due now batch locked d).
        \<exists>r'. ob_row (ob_id row) d' = Some r' \<and> row_progress env now row r')
    \<and> (\<forall>i. i \<notin> ob_id ` set (poll_due now batch locked d) \<longrightarrow> ob_row i d' = ob_row i d)
    \<and> schema_ok d' \<and> tickets d' = tickets d \<and> events d' = events d
    \<and> idempotency_keys d' = idempotency_keys d \<and> dead_letters d' = dead_letters d
    \<and> dedup_keys d' = dedup_keys d"
proof -
  have uniq: "unique_by ob_id (outbox_messages d)" using assms(1) by (simp add: schema_ok_def)
  note * = dispatchRows_progress [OF assms(2,3) poll_due_distinct [OF uniq] poll_due_rows [OF uniq] assms(4)]
  have "schema_ok d'"
    by (rule schema_ok_outbox_rows [OF assms(1)]) (use * in blast)+
  moreover have "dedup_keys d' = dedup_keys d"
    using * by (metis dedup_keys_def list.set_map values_of_def)
  ultimately show ?thesis using * by blast
qed

text \<open>
  C16: one drain that commits moves every claimed row by exactly one delivery attempt (sent; failed
  for good at the attempt limit; or rescheduled after a bounded, non-negative delay with its error
  kept), touches no other row and no other table, and returns how many rows it claimed.
\<close>

theorem drain_progress:
  assumes "schema_ok d" and "env_valid env" and "good_host host"
    and "r = drainOnce no_faults env now host locked dispatch wm d"
    and "batch = poll_due now (OUTBOX_RELAY_BATCH_SIZE env) locked d"
  shows "tx_value r = Inr (length batch)
    \<and> (\<forall>row \<in> set batch. \<exists>r'. ob_row (ob_id row) (tx_db r) = Some r' \<and> row_progress env now row r')
    \<and> (\<forall>i. i \<notin> ob_id ` set batch \<longrightarrow> ob_row i (tx_db r) = ob_row i d)
    \<and> schema_ok (tx_db r) \<and> tickets (tx_db r) = tickets d \<and> events (tx_db r) = events d
    \<and> idempotency_keys (tx_db r) = idempotency_keys d \<and> dead_letters (tx_db r) = dead_letters d"
proof -
  obtain wm' d' where run: "dispatchRows env now host dispatch batch wm d = (wm', d')" by fastforce
  with assms(4,5) have "tx_value r = Inr (length batch)" "tx_db r = d'"
    by (simp_all add: drainOnce_def runInTransaction_no_faults Let_def)
  moreover have "0 \<le> OUTBOX_BACKOFF_BASE_MS env" using assms(2) by (rule env_validD)
  ultimately show ?thesis
    using dispatchRows_poll [OF assms(1) _ assms(3)] run assms(5) by blast
qed

text \<open>A concrete outbox: one due row, and a target that always answers 500.\<close>

definition due_row :: outbox_row where
  "due_row = new_outbox_row ''o1'' 0 \<lparr>em_aggregateType = ''ticket'', em_aggregateId = ''t1'',
     em_eventType = ''ticket.triaged'', em_version = ''v1'', em_payload = JObj []\<rparr>"

definition due_db :: db where
  "due_db = empty_db\<lparr>outbox_messages := [due_row]\<rparr>"

definition down_target :: "unit dispatcher" where
  "down_target cid msg w = (Inl (JsError ''webhook target returned 500''), w)"

definition half_host :: relay_host where
  "half_host = \<lparr>rh_random = (\<lambda>_. 1 / 2), rh_uuid = (\<lambda>i. i)\<rparr>"

lemma due_db_ok: "schema_ok due_db"
  by (simp add: due_db_def empty_db_def schema_ok_def tickets_fk_ok_def idem_fk_ok_def unique_by_def)

lemma half_host_ok: "good_host half_host"
  by (simp add: good_host_def half_host_def random_range_def)

theorem drain_progress_witness:
  "tx_value (drainOnce no_faults env_defaults 10 half_host {} down_target ((), no_metrics) due_db)
     = Inr 1"
proof -
  have batch: "poll_due 10 (OUTBOX_RELAY_BATCH_SIZE env_defaults) {} due_db = [due_row]"
    by (simp add: poll_due_def due_db_def is_due_def due_row_def env_defaults_def)
  from drain_progress [OF due_db_ok env_defaults_valid half_host_ok refl refl,
      of 10 "{}" down_target "((), no_metrics)"]
  show ?thesis by (simp add: batch)
qed

end
