(* ===== verification/Delivery.thy ===== *)
theory Delivery
  imports Outbox_Delivery
begin

section \<open>At-least-once delivery\<close>

text \<open>
  A SENT row was delivered: the relay marks it in the transaction that dispatched it, and a
  rollback loses the mark, never the delivery. The target is the locale \<open>delivery_target\<close>; the
  webhook dispatcher is one as soon as its \<open>fetch\<close> answers 2xx only for a request that arrived,
  and the bundled sink is such a server. \<open>relay_reach\<close> runs drains, with any driver faults, time,
  locks and random draws, between emissions of other transactions.
\<close>

definition sent_delivered :: "db \<Rightarrow> string set \<Rightarrow> bool" where
  "sent_delivered d D \<longleftrightarrow>
     (\<forall>r \<in> set (outbox_messages d). ob_status r = OB_SENT \<longrightarrow> ob_dedupKey r \<in> D)"

text \<open>The rows with a row's primary key carry its dedup key.\<close>

definition same_key :: "outbox_row \<Rightarrow> db \<Rightarrow> bool" where
  "same_key row d \<longleftrightarrow>
     (\<forall>r \<in> set (outbox_messages d). ob_id r = ob_id row \<longrightarrow> ob_dedupKey r = ob_dedupKey row)"

lemma same_key_unique:
  assumes "unique_by ob_id (outbox_messages d)" and "row \<in> set (outbox_messages d)"
  shows "same_key row d"
  using assms unique_by_inj [of ob_id "outbox_messages d"] by (force simp: same_key_def)

text \<open>What one dispatched row does to world and table, for any dispatcher.\<close>

lemma dispatchRow_sends:
  assumes "dispatchRow env now host dispatch row (w, m) d = ((w', m'), d')"
  obtains cid res f where "dispatch cid (message_of row) w = (res, w')"
    and "outbox_messages d' = update_where (\<lambda>r. ob_id r = ob_id row) f (outbox_messages d)"
    and "\<And>r. ob_id (f r) = ob_id r" and "\<And>r. ob_dedupKey (f r) = ob_dedupKey r"
    and "\<And>r. ob_status (f r) = OB_SENT \<Longrightarrow> ob_status r = OB_SENT \<or> res = Inr ()"
proof -
  obtain cid where cid: "runWithCorrelation (rh_uuid host (ob_id row))
      (json_str (json_field ''correlationId'' (ob_payload row))) g = g cid"
    for g :: "string \<Rightarrow> (exn + unit) \<times> 'a"
    by (simp add: runWithCorrelation_def)
  obtain res w1 where disp: "dispatch cid (message_of row) w = (res, w1)"
    by (rule prod.exhaust)
  show thesis
  proof (cases res)
    case (Inr u)
    with assms cid disp have "w1 = w'" and "d' = mark_sent now row d"
      by (simp_all add: dispatchRow_def Let_def)
    with disp Inr show thesis
      by (intro that [of cid res "\<lambda>r. r\<lparr>ob_status := OB_SENT, ob_dispatchedAt := Some now,
            ob_lastError := None\<rparr>"]) (simp_all add: mark_sent_def)
  next
    case (Inl err)
    with assms cid disp have w: "w1 = w'"
      and d': "d' = snd (handleDispatchFailure env now host row err m d)"
      by (simp_all add: dispatchRow_def Let_def split: prod.splits)
    show thesis
    proof (cases "OUTBOX_MAX_ATTEMPTS env \<le> ob_attempts row + 1")
      case True
      with disp w d' show thesis
        by (intro that [of cid res "\<lambda>r. r\<lparr>ob_status := OB_FAILED, ob_attempts := ob_attempts row + 1,
              ob_lastError := Some (str_slice 1000 (exn_message err))\<rparr>"])
           (simp_all add: handleDispatchFailure_def Let_def)
    next
      case False
      with disp w d' show thesis
        by (intro that [of cid res "\<lambda>r. r\<lparr>ob_attempts := ob_attempts row + 1,
              ob_lastError := Some (str_slice 1000 (exn_message err)),
              ob_nextAttemptAt := now + interval_ms (backoffWithJitter (rh_random host (ob_id row))
                (ob_attempts row + 1) (OUTBOX_BACKOFF_BASE_MS env) None)\<rparr>"])
           (simp_all add: handleDispatchFailure_def Let_def)
    qed
  qed
qed

lemma same_key_update:
  assumes "outbox_messages d' = update_where p f (outbox_messages d)"
    and "\<And>r. ob_id (f r) = ob_id r" and "\<And>r. ob_dedupKey (f r) = ob_dedupKey r"
    and "same_key row d"
  shows "same_key row d'"
  using assms by (auto simp: same_key_def set_update_where)

subsection \<open>The target's contract\<close>

locale delivery_target =
  fixes dispatch :: "'w dispatcher" and delivered :: "'w \<Rightarrow> string set"
  assumes ok_delivers: "dispatch cid msg w = (Inr (), w') \<Longrightarrow> dm_dedupKey msg \<in> delivered w'"
    and delivered_grows: "dispatch cid msg w = (res, w') \<Longrightarrow> delivered w \<subseteq> delivered w'"
begin

lemma dispatchRow_sent_delivered:
  assumes run: "dispatchRow env now host dispatch row (w, m) d = ((w', m'), d')"
    and sent: "sent_delivered d (delivered w)" and key: "same_key row d"
  shows "sent_delivered d' (delivered w') \<and> delivered w \<subseteq> delivered w'"
proof -
  obtain cid res f where disp: "dispatch cid (message_of row) w = (res, w')"
    and d': "outbox_messages d' = update_where (\<lambda>r. ob_id r = ob_id row) f (outbox_messages d)"
    and keeps: "\<And>r. ob_dedupKey (f r) = ob_dedupKey r"
    and status: "\<And>r. ob_status (f r) = OB_SENT \<Longrightarrow> ob_status r = OB_SENT \<or> res = Inr ()"
    using dispatchRow_sends [OF run] by metis
  have grows: "delivered w \<subseteq> delivered w'" using disp by (rule delivered_grows)
  have "ob_dedupKey r \<in> delivered w'" if r: "r \<in> set (outbox_messages d')" "ob_status r = OB_SENT" for r
  proof -
    from r(1) d' consider (kept) "r \<in> set (outbox_messages d)"
      | (moved) r0 where "r0 \<in> set (outbox_messages d)" "ob_id r0 = ob_id row" "r = f r0"
      by (auto simp: set_update_where)
    then show ?thesis
    proof cases
      case kept
      with sent r(2) grows show ?thesis by (auto simp: sent_delivered_def)
    next
      case moved
      then have key_r: "ob_dedupKey r = ob_dedupKey row" using key keeps by (simp add: same_key_def)
      from moved r(2) status consider "ob_status r0 = OB_SENT" | "res = Inr ()" by blast
      then show ?thesis
      proof cases
        case 1
        with sent moved keeps grows show ?thesis by (auto simp: sent_delivered_def)
      next
        case 2
        with disp have "dm_dedupKey (message_of row) \<in> delivered w'" by (metis ok_delivers)
        with key_r show ?thesis by (simp add: message_of_def)
      qed
    qed
  qed
  with grows show ?thesis by (simp add: sent_delivered_def)
qed

lemma dispatchRows_sent_delivered:
  assumes "dispatchRows env now host dispatch rows (w, m) d = ((w', m'), d')"
    and "sent_delivered d (delivered w)" and "\<forall>row \<in> set rows. same_key row d"
  shows "sent_delivered d' (delivered w') \<and> delivered w \<subseteq> delivered w'"
  using assms
proof (induction rows arbitrary: w m d)
  case Nil
  then show ?case by simp
next
  case (Cons row rows)
  obtain w1 m1 d1 where one: "dispatchRow env now host dispatch row (w, m) d = ((w1, m1), d1)"
    by (metis prod.exhaust)
  with Cons.prems(1) have rest: "dispatchRows env now host dispatch rows (w1, m1) d1 = ((w', m'), d')"
    by simp
  from dispatchRow_sent_delivered [OF one Cons.prems(2)] Cons.prems(3)
  have step: "sent_delivered d1 (delivered w1) \<and> delivered w \<subseteq> delivered w1" by simp
  obtain f where "outbox_messages d1 = update_where (\<lambda>r. ob_id r = ob_id row) f (outbox_messages d)"
    and "\<And>r. ob_id (f r) = ob_id r" and "\<And>r. ob_dedupKey (f r) = ob_dedupKey r"
    using dispatchRow_sends [OF one] by metis
  then have "\<forall>r \<in> set rows. same_key r d1"
    using Cons.prems(3) same_key_update by (metis list.set_intros(2))
  from Cons.IH [OF rest _ this] step show ?case by blast
qed

text \<open>One drain, whatever the driver does: the marks are never ahead of the deliveries.\<close>

lemma drain_sent_delivered:
  assumes "schema_ok d" and "sent_delivered d (delivered w)"
    and "r = drainOnce F env now host locked dispatch (w, m) d"
  shows "sent_delivered (tx_db r) (delivered (fst (tx_world r)))"
proof -
  let ?work = "\<lambda>wm d. (let rows = poll_due now (OUTBOX_RELAY_BATCH_SIZE env) locked d;
       (wm', d') = dispatchRows env now host dispatch rows wm d
     in (Inr (length rows, d') :: exn + (nat \<times> db), wm'))"
  let ?J = "\<lambda>wm d. sent_delivered d (delivered (fst wm))"
  let ?rows = "poll_due now (OUTBOX_RELAY_BATCH_SIZE env) locked d"
  obtain w' m' d' where run: "dispatchRows env now host dispatch ?rows (w, m) d = ((w', m'), d')"
    by (metis prod.exhaust)
  have work: "?work (w, m) d = (Inr (length ?rows, d'), (w', m'))" by (simp add: run Let_def)
  have "\<forall>row \<in> set ?rows. same_key row d"
    using assms(1) poll_due_set same_key_unique by (fastforce simp: schema_ok_def)
  from dispatchRows_sent_delivered [OF run assms(2) this]
  have after: "sent_delivered d' (delivered w')" and grows: "delivered w \<subseteq> delivered w'" by simp_all
  have "?J (tx_world (runInTransaction F ?work (w, m) d)) (tx_db (runInTransaction F ?work (w, m) d))"
  proof (rule tx.run_world_invariant [where J = "\<lambda>wm d. sent_delivered d (delivered (fst wm))"])
    show "sent_delivered d (delivered (fst (w, m)))" using assms(2) by simp
    show "sent_delivered d (delivered (fst (snd (?work (w, m) d))))"
      using assms(2) grows unfolding work by (auto simp: sent_delivered_def)
    show "sent_delivered d'' (delivered (fst (snd (?work (w, m) d))))"
      if "fst (?work (w, m) d) = Inr (n, d'')" for n d''
      using that after unfolding work by simp
  qed
  then show ?thesis using assms(3) by (simp add: drainOnce_def)
qed

end

subsection \<open>Attempts\<close>

text \<open>
  A pending row has attempts left; FAILED is reached exactly at the limit, with the error kept.
\<close>

definition attempts_ok :: "EnvVars \<Rightarrow> outbox_row \<Rightarrow> bool" where
  "attempts_ok env r \<longleftrightarrow> 0 \<le> ob_attempts r
   \<and> (if ob_status r = OB_FAILED then ob_attempts r = OUTBOX_MAX_ATTEMPTS env \<and> ob_lastError r \<noteq> None
      else ob_attempts r < OUTBOX_MAX_ATTEMPTS env)"

definition outbox_ok :: "EnvVars \<Rightarrow> db \<Rightarrow> bool" where
  "outbox_ok env d \<longleftrightarrow> (\<forall>r \<in> set (outbox_messages d). attempts_ok env r)"

lemma row_progress_attempts_ok:
  assumes "attempts_ok env r" and "ob_status r = OB_PENDING" and "row_progress env now r r'"
  shows "attempts_ok env r'"
  using assms(3)
  by (rule row_progress_cases) (use assms(1,2) in \<open>auto simp: attempts_ok_def\<close>)

lemma outbox_rows_iff:
  assumes "schema_ok d"
  shows "r \<in> set (outbox_messages d) \<longleftrightarrow> ob_row (ob_id r) d = Some r"
  using assms by (auto simp: schema_ok_def intro: row_with_unique dest: row_with_SomeD)

text \<open>A drain, with any faults, either leaves the database alone or commits its batch.\<close>

lemma drain_cases:
  assumes "schema_ok d" and "0 \<le> OUTBOX_BACKOFF_BASE_MS env" and "good_host host"
    and "r = drainOnce F env now host locked dispatch wm d"
    and "batch = poll_due now (OUTBOX_RELAY_BATCH_SIZE env) locked d"
  obtains (rolled_back) "tx_db r = d"
    | (committed) "schema_ok (tx_db r)" "dedup_keys (tx_db r) = dedup_keys d"
      "\<forall>row \<in> set batch. \<exists>r'. ob_row (ob_id row) (tx_db r) = Some r' \<and> row_progress env now row r'"
      "\<forall>i. i \<notin> ob_id ` set batch \<longrightarrow> ob_row i (tx_db r) = ob_row i d"
      "events (tx_db r) = events d \<and> tickets (tx_db r) = tickets d
       \<and> idempotency_keys (tx_db r) = idempotency_keys d \<and> dead_letters (tx_db r) = dead_letters d"
proof -
  let ?work = "\<lambda>wm d. (let rows = poll_due now (OUTBOX_RELAY_BATCH_SIZE env) locked d;
       (wm', d') = dispatchRows env now host dispatch rows wm d
     in (Inr (length rows, d') :: exn + (nat \<times> db), wm'))"
  have r: "r = runInTransaction F ?work wm d" using assms(4) by (simp add: drainOnce_def)
  obtain wm' d' where run: "dispatchRows env now host dispatch batch wm d = (wm', d')" by fastforce
  with assms(5) have work: "?work wm d = (Inr (length batch, d'), wm')" by (simp add: Let_def)
  from tx.run_atomic [of F ?work wm d, folded r] work consider "tx_db r = d" | "tx_db r = d'" by auto
  then show thesis
  proof cases
    case 1
    then show thesis by (rule rolled_back)
  next
    case 2
    from dispatchRows_poll [OF assms(1-3) run [unfolded assms(5)]] show thesis
      unfolding assms(5) [symmetric] 2 [symmetric] by (intro committed) simp_all
  qed
qed

text \<open>Every row after it was there before, or is a pending row moved on.\<close>

lemma drain_rows:
  assumes "schema_ok d" and "env_valid env" and "good_host host"
    and "r = drainOnce F env now host locked dispatch wm d" and "r' \<in> set (outbox_messages (tx_db r))"
  shows "r' \<in> set (outbox_messages d)
    \<or> (\<exists>row \<in> set (outbox_messages d). ob_status row = OB_PENDING \<and> row_progress env now row r')"
proof -
  have base: "0 \<le> OUTBOX_BACKOFF_BASE_MS env" using assms(2) by (rule env_validD)
  show ?thesis
  proof (rule drain_cases [OF assms(1) base assms(3,4) refl])
    assume "tx_db r = d"
    with assms(5) show ?thesis by simp
  next
    let ?batch = "poll_due now (OUTBOX_RELAY_BATCH_SIZE env) locked d"
    assume ok': "schema_ok (tx_db r)"
      and moved: "\<forall>row \<in> set ?batch. \<exists>r'. ob_row (ob_id row) (tx_db r) = Some r' \<and> row_progress env now row r'"
      and rest: "\<forall>i. i \<notin> ob_id ` set ?batch \<longrightarrow> ob_row i (tx_db r) = ob_row i d"
    from assms(5) ok' have row': "ob_row (ob_id r') (tx_db r) = Some r'" by (simp add: outbox_rows_iff)
    show ?thesis
    proof (cases "ob_id r' \<in> ob_id ` set ?batch")
      case True
      then obtain row where row: "row \<in> set ?batch" "ob_id r' = ob_id row" by blast
      with moved row' have "row_progress env now row r'" by fastforce
      with row(1) show ?thesis by (auto dest!: poll_due_set simp: is_due_def)
    next
      case False
      with rest row' show ?thesis by (auto dest: row_with_SomeD)
    qed
  qed
qed

lemma drain_outbox_ok:
  assumes "schema_ok d" and "env_valid env" and "good_host host" and "outbox_ok env d"
    and "r = drainOnce F env now host locked dispatch wm d"
  shows "outbox_ok env (tx_db r)"
  using drain_rows [OF assms(1-3,5)] assms(4) row_progress_attempts_ok by (fastforce simp: outbox_ok_def)

subsection \<open>Runs of the relay\<close>

text \<open>
  Drains of any relay instance (\<open>locked\<close> are the rows others hold) and emissions of committed
  transactions, in any order.
\<close>

inductive relay_step ::
  "EnvVars \<Rightarrow> 'w dispatcher \<Rightarrow> ('w \<times> metrics) \<times> db \<Rightarrow> ('w \<times> metrics) \<times> db \<Rightarrow> bool"
  for env dispatch where
  drain: "good_host host \<Longrightarrow> r = drainOnce F env now host locked dispatch wm d \<Longrightarrow>
      relay_step env dispatch (wm, d) (tx_world r, tx_db r)"
| emission: "emit nid now i d = Inr (k, d') \<Longrightarrow> relay_step env dispatch (wm, d) (wm, d')"

inductive_cases relay_stepE: "relay_step env dispatch (wm, d) (wm', d')"

inductive relay_reach ::
  "EnvVars \<Rightarrow> 'w dispatcher \<Rightarrow> ('w \<times> metrics) \<times> db \<Rightarrow> ('w \<times> metrics) \<times> db \<Rightarrow> bool"
  for env dispatch s0 where
  start: "relay_reach env dispatch s0 s0"
| more: "relay_reach env dispatch s0 s \<Longrightarrow> relay_step env dispatch s s' \<Longrightarrow> relay_reach env dispatch s0 s'"

lemma emit_outbox_ok:
  assumes "outbox_ok env d" and "env_valid env" and "emit nid now i d = Inr (k, d')"
  shows "outbox_ok env d'"
  using assms env_validD(4) [OF assms(2)]
  by (auto simp: emit_def Let_def outbox_ok_def attempts_ok_def split: if_splits)

lemma emit_sent_delivered:
  assumes "sent_delivered d D" and "emit nid now i d = Inr (k, d')"
  shows "sent_delivered d' D"
  using assms by (auto simp: emit_def Let_def sent_delivered_def split: if_splits)

definition relay_inv :: "EnvVars \<Rightarrow> string set \<Rightarrow> string set \<Rightarrow> db \<Rightarrow> bool" where
  "relay_inv env K D d \<longleftrightarrow>
     schema_ok d \<and> outbox_ok env d \<and> sent_delivered d D \<and> K \<subseteq> dedup_keys d"

context delivery_target
begin

lemma relay_step_inv:
  assumes "env_valid env" and "relay_inv env K (delivered (fst (fst s))) (snd s)"
    and "relay_step env dispatch s s'"
  shows "relay_inv env K (delivered (fst (fst s'))) (snd s')"
proof -
  obtain w m d where s: "s = ((w, m), d)" by (metis prod.exhaust)
  have base: "0 \<le> OUTBOX_BACKOFF_BASE_MS env" using assms(1) by (rule env_validD)
  from assms(2) s have inv: "schema_ok d" "outbox_ok env d" "sent_delivered d (delivered w)"
    "K \<subseteq> dedup_keys d" by (simp_all add: relay_inv_def)
  from assms(3) show ?thesis
  proof cases
    case (drain host r F now locked wm d0)
    with s have r: "r = drainOnce F env now host locked dispatch (w, m) d" by simp
    have "schema_ok (tx_db r) \<and> K \<subseteq> dedup_keys (tx_db r)"
      by (rule drain_cases [OF inv(1) base drain(3) r refl]) (use inv in auto)
    with drain(2) drain_outbox_ok [OF inv(1) assms(1) drain(3) inv(2) r]
      drain_sent_delivered [OF inv(1,3) r] show ?thesis
      by (simp add: relay_inv_def)
  next
    case (emission nid now i d0 k d' wm)
    with s have e: "emit nid now i d = Inr (k, d')" and wm: "wm = (w, m)" by simp_all
    have "dedup_keys d' = insert k (dedup_keys d)"
      using outbox_log.emit_logs [OF e] by simp
    with emission(2) wm inv emit_schema_ok [OF inv(1) e] emit_outbox_ok [OF inv(2) assms(1) e]
      emit_sent_delivered [OF inv(3) e] show ?thesis
      by (auto simp: relay_inv_def)
  qed
qed

lemma relay_reach_inv:
  assumes "relay_reach env dispatch s0 s" and "env_valid env"
    and "relay_inv env K (delivered (fst (fst s0))) (snd s0)"
  shows "relay_inv env K (delivered (fst (fst s))) (snd s)"
  using assms by (induction rule: relay_reach.induct) (auto intro: relay_step_inv)

end

end
