(* ===== verification/Webhook_Delivery.thy ===== *)
theory Webhook_Delivery
  imports Delivery
begin

section \<open>Delivery through the webhook, to the bundled sink\<close>

text \<open>
  The webhook dispatcher as a \<open>delivery_target\<close>. \<open>accepted w\<close> are the dedup keys of the requests
  that have reached the server in world \<open>w\<close>; all the code relies on is that a 2xx answer comes
  from a server the request reached. The bundled sink behind \<open>fetch\<close> is such a server, with the
  set of the keys it has received kept beside its (evicting) map.
\<close>

definition header_of :: "string \<Rightarrow> http_request \<Rightarrow> string option" where
  "header_of h req = map_of (hr_headers req) h"

text \<open>What a server keeps: a 2xx answer means the request's key arrived; arrivals stay.\<close>

definition fetch_ok :: "'w fetch \<Rightarrow> ('w \<Rightarrow> string set) \<Rightarrow> bool" where
  "fetch_ok fetch accepted \<longleftrightarrow>
     (\<forall>t req w w' r k. fetch t req w = (Inr r, w') \<and> response_ok r
        \<and> header_of ''idempotency-key'' req = Some k \<longrightarrow> k \<in> accepted w')
   \<and> (\<forall>t req w. accepted w \<subseteq> accepted (snd (fetch t req w)))"

locale webhook_target =
  fixes show_int :: "int \<Rightarrow> string" and env :: EnvVars and fetch :: "'w fetch"
    and accepted :: "'w \<Rightarrow> string set"
  assumes fetch_reaches: "fetch t req w = (Inr r, w') \<Longrightarrow> response_ok r \<Longrightarrow>
      header_of ''idempotency-key'' req = Some k \<Longrightarrow> k \<in> accepted w'"
    and fetch_keeps: "accepted w \<subseteq> accepted (snd (fetch t req w))"

lemma webhook_key [simp]:
  "header_of ''idempotency-key'' (webhook_request env cid msg) = Some (dm_dedupKey msg)"
  by (simp add: header_of_def webhook_request_def)

sublocale webhook_target \<subseteq> delivery_target "webhook_dispatch show_int env fetch" accepted
proof unfold_locales
  fix cid msg w w'
  assume ok: "webhook_dispatch show_int env fetch cid msg w = (Inr (), w')"
  obtain res w1 where f: "fetch WEBHOOK_TIMEOUT_MS (webhook_request env cid msg) w = (res, w1)"
    by (rule prod.exhaust)
  with ok obtain r where "res = Inr r" "response_ok r" "w1 = w'"
    by (auto simp: webhook_dispatch_def split: sum.splits if_splits)
  with f fetch_reaches [of _ "webhook_request env cid msg"] show "dm_dedupKey msg \<in> accepted w'"
    by simp
next
  fix cid msg w res w'
  assume "webhook_dispatch show_int env fetch cid msg w = (res, w')"
  then have "w' = snd (fetch WEBHOOK_TIMEOUT_MS (webhook_request env cid msg) w)"
    by (auto simp: webhook_dispatch_def split: sum.splits prod.splits)
  then show "accepted w \<subseteq> accepted w'" using fetch_keeps by simp
qed

context webhook_target
begin

lemma reach_inv:
  assumes "relay_reach env (webhook_dispatch show_int env fetch) ((w0, m0), d0) ((w, m), d)"
    and "env_valid env" and "relay_inv env K (accepted w0) d0"
  shows "relay_inv env K (accepted w) d"
  using relay_reach_inv [OF assms(1,2)] assms(3) by simp

end

lemma webhook_targetI: "fetch_ok fetch accepted \<Longrightarrow> webhook_target fetch accepted"
  by unfold_locales (fastforce simp: fetch_ok_def)+

subsection \<open>The bundled sink as the server\<close>

type_synonym sink_world = "sink \<times> string set"

definition OK_200 :: http_response where
  "OK_200 = \<lparr>hs_status = 200, hs_statusText = ''OK''\<rparr>"

definition sink_fetch :: "sink_world fetch" where
  "sink_fetch t req w =
     (let key = header_of ''idempotency-key'' req;
          s' = snd (sink_receive key (fst w))
      in (Inr OK_200, (s', snd w \<union> set_option key)))"

lemma sink_fetch_ok: "fetch_ok sink_fetch snd"
  by (auto simp: fetch_ok_def sink_fetch_def Let_def)

interpretation sink_target: webhook_target show_int env sink_fetch snd for show_int env
  by (rule webhook_targetI [OF sink_fetch_ok])

text \<open>The sink answers every delivery, and so a drain to it abandons nothing.\<close>

lemma sink_dispatch_ok: "fst (webhook_dispatch show_int env sink_fetch cid msg w) = Inr ()"
  by (simp add: webhook_dispatch_def sink_fetch_def Let_def response_ok_def OK_200_def)

subsection \<open>The guarantee\<close>

text \<open>
  C12: at-least-once delivery. Along every run of the relay (any instances, batches, driver faults
  and rollbacks, between emissions of other transactions) over a webhook whose 2xx answers are
  honest: a row marked SENT has reached the target, a row is given up (FAILED) only at the
  attempt limit and with its error recorded, and no emitted effect ever leaves the outbox.
\<close>

theorem sent_rows_were_delivered:
  assumes "env_valid env" and "fetch_ok fetch accepted"
    and "schema_ok d0" and "outbox_ok env d0" and "sent_delivered d0 (accepted w0)"
    and "relay_reach env (webhook_dispatch show_int env fetch) ((w0, m0), d0) ((w, m), d)"
  shows "(\<forall>r \<in> set (outbox_messages d). ob_status r = OB_SENT \<longrightarrow> ob_dedupKey r \<in> accepted w)
    \<and> (\<forall>r \<in> set (outbox_messages d). ob_status r = OB_FAILED \<longrightarrow>
         ob_attempts r = OUTBOX_MAX_ATTEMPTS env \<and> ob_lastError r \<noteq> None)
    \<and> dedup_keys d0 \<subseteq> dedup_keys d"
proof -
  have inv0: "relay_inv env (dedup_keys d0) (accepted w0) d0"
    using assms(3-5) by (simp add: relay_inv_def)
  have "relay_inv env (dedup_keys d0) (accepted w) d"
    by (rule webhook_target.reach_inv [OF webhook_targetI [OF assms(2)] assms(6,1) inv0])
  then show ?thesis
    by (auto simp: relay_inv_def sent_delivered_def outbox_ok_def attempts_ok_def)
qed

definition sink_drain :: "(nat, sink_world \<times> metrics) tx_result" where
  "sink_drain = drainOnce no_faults env_defaults 10 half_host {}
     (webhook_dispatch (\<lambda>_. []) env_defaults sink_fetch) (([], {}), no_metrics) due_db"

lemma due_poll: "poll_due 10 (OUTBOX_RELAY_BATCH_SIZE env_defaults) {} due_db = [due_row]"
  by (simp add: poll_due_def due_db_def is_due_def due_row_def env_defaults_def)

lemma due_rows: "outbox_messages due_db = [due_row]"
  by (simp add: due_db_def)

lemma sink_drain_rows:
  "outbox_messages (tx_db sink_drain) =
     [due_row\<lparr>ob_status := OB_SENT, ob_dispatchedAt := Some 10, ob_lastError := None\<rparr>]"
  by (simp add: sink_drain_def drainOnce_def runInTransaction_no_faults due_poll dispatchRow_def
      runWithCorrelation_def webhook_dispatch_def sink_fetch_def response_ok_def OK_200_def
      mark_sent_def due_rows Let_def)

lemma due_db_relay_ok: "outbox_ok env_defaults due_db" "sent_delivered due_db {}"
  by (simp_all add: outbox_ok_def attempts_ok_def sent_delivered_def due_db_def due_row_def env_defaults_def)

theorem sent_rows_were_delivered_witness:
  "\<exists>r \<in> set (outbox_messages (tx_db sink_drain)). ob_status r = OB_SENT
     \<and> ob_dedupKey r \<in> snd (fst (tx_world sink_drain))"
proof -
  let ?dispatch = "webhook_dispatch (\<lambda>_. []) env_defaults sink_fetch"
  obtain s seen m where w: "tx_world sink_drain = ((s, seen), m)" by (metis prod.exhaust)
  have step: "relay_step env_defaults ?dispatch ((([], {}), no_metrics), due_db)
      (tx_world sink_drain, tx_db sink_drain)"
    by (rule relay_step.drain [OF half_host_ok sink_drain_def])
  have reach: "relay_reach env_defaults ?dispatch ((([], {}), no_metrics), due_db)
      (((s, seen), m), tx_db sink_drain)"
    using relay_reach.more [OF relay_reach.start step] by (simp add: w)
  have "sent_delivered due_db (snd ([], {}))" using due_db_relay_ok by simp
  from sent_rows_were_delivered [OF env_defaults_valid sink_fetch_ok due_db_ok due_db_relay_ok(1) this reach]
  show ?thesis by (simp add: w sink_drain_rows)
qed

end
