(* ===== verification/System.thy ===== *)
theory System
  imports Events Processor_Race Webhook_Delivery
begin

section \<open>The whole system, interleaved\<close>

text \<open>
  Any number of ingestion requests, workers, relays and operators over one database. A step is one
  statement or one transaction of any of them, with any arguments, driver faults, clock and ids, so
  a path is an interleaving of all of them, crashes included (a run may stop after any step).
  \<open>sy_issued\<close> holds the tickets that ticket transactions have answered to their callers, which is
  what \<open>markCompleted\<close> may be called with; \<open>sy_seen\<close> the statuses workers have read; \<open>sy_world\<close> the
  webhook's side. Retention is not a step here: it breaks what a key promises (see
  \<open>Retention_Reopens\<close>); \<open>Lifetime\<close> adds it and shows what remains true.
\<close>

record 'w sys =
  sy_db :: db
  sy_issued :: "(string \<times> uuid) set"
  sy_seen :: "(uuid \<times> EnrichmentStatus) set"
  sy_world :: "'w \<times> metrics"

definition issue :: "string \<Rightarrow> exn + (uuid \<times> uuid) \<Rightarrow> (string \<times> uuid) set \<Rightarrow> (string \<times> uuid) set" where
  "issue key v I = (case v of Inr (t, _) \<Rightarrow> insert (key, t) I | Inl _ \<Rightarrow> I)"

inductive sys_step :: "EnvVars \<Rightarrow> 'w dispatcher \<Rightarrow> 'w sys \<Rightarrow> 'w sys \<Rightarrow> bool" for env dispatch where
  insert_key: "claim_insert nid now key h (sy_db s) = (won, d) \<Longrightarrow>
     sys_step env dispatch s (s\<lparr>sy_db := d\<rparr>)"
| reclaim_key: "claim_reclaim (IDEMPOTENCY_LEASE_MS env) now key (sy_db s) = (n, d) \<Longrightarrow>
     sys_step env dispatch s (s\<lparr>sy_db := d\<rparr>)"
| create: "r = runInTransaction F (create_work eid tid now key dto) () (sy_db s) \<Longrightarrow>
     sys_step env dispatch s (s\<lparr>sy_db := tx_db r, sy_issued := issue key (tx_value r) (sy_issued s)\<rparr>)"
| complete: "(key, t) \<in> sy_issued s \<Longrightarrow>
     sys_step env dispatch s (s\<lparr>sy_db := markCompleted now key t responseCode responseBody (sy_db s)\<rparr>)"
| fail: "sys_step env dispatch s (s\<lparr>sy_db := markFailed now key (sy_db s)\<rparr>)"
| work: "work_step (sy_db s, sy_seen s) (d, seen) \<Longrightarrow>
     sys_step env dispatch s (s\<lparr>sy_db := d, sy_seen := seen\<rparr>)"
| relay: "good_host host \<Longrightarrow> r = drainOnce F env now host locked dispatch (sy_world s) (sy_db s) \<Longrightarrow>
     sys_step env dispatch s (s\<lparr>sy_db := tx_db r, sy_world := tx_world r\<rparr>)"
| bury: "insert_dead_letter (dead_letter_of nid now job err) (sy_db s) = Inr d \<Longrightarrow>
     sys_step env dispatch s (s\<lparr>sy_db := d\<rparr>)"
| replay: "replay_flip now i (sy_db s) = (rows, d) \<Longrightarrow> sys_step env dispatch s (s\<lparr>sy_db := d\<rparr>)"
| undo: "sys_step env dispatch s (s\<lparr>sy_db := replay_undo i (sy_db s)\<rparr>)"

inductive sys_reach :: "EnvVars \<Rightarrow> 'w dispatcher \<Rightarrow> 'w sys \<Rightarrow> 'w sys \<Rightarrow> bool" for env dispatch s0 where
  start: "sys_reach env dispatch s0 s0"
| more: "sys_reach env dispatch s0 s \<Longrightarrow> sys_step env dispatch s s' \<Longrightarrow> sys_reach env dispatch s0 s'"

lemma sys_reach_trans:
  assumes "sys_reach env dispatch s1 s2" and "sys_reach env dispatch s0 s1"
  shows "sys_reach env dispatch s0 s2"
  using assms by (induction rule: sys_reach.induct) (auto intro: sys_reach.more)

lemma sys_reach_one: "sys_step env dispatch s s' \<Longrightarrow> sys_reach env dispatch s s'"
  by (rule sys_reach.more [OF sys_reach.start])

subsection \<open>What the ledger says of a key\<close>

abbreviation ev_row :: "uuid \<Rightarrow> db \<Rightarrow> event_row option" where
  "ev_row i d \<equiv> row_with ev_id i (events d)"

text \<open>\<open>names d k i\<close>: the row of key \<open>k\<close> names ticket \<open>i\<close>; \<open>ticket_key d k i\<close>: ticket \<open>i\<close> was made for key \<open>k\<close>.\<close>

definition names :: "db \<Rightarrow> string \<Rightarrow> uuid \<Rightarrow> bool" where
  "names d k i \<longleftrightarrow> (\<exists>x. key_row k d = Some x \<and> ik_ticketId x = Some i)"

definition ticket_key :: "db \<Rightarrow> string \<Rightarrow> uuid \<Rightarrow> bool" where
  "ticket_key d k i \<longleftrightarrow>
     (\<exists>t e. tk_row i d = Some t \<and> ev_row (tk_eventId t) d = Some e \<and> ev_idempotencyKey e = k)"

definition one_ticket :: "db \<Rightarrow> bool" where
  "one_ticket d \<longleftrightarrow> (\<forall>k i. ticket_key d k i \<longrightarrow> names d k i)"

lemma names_unique: "names d k i \<Longrightarrow> names d k j \<Longrightarrow> i = j"
  by (auto simp: names_def)

lemma names_insert: "claim_insert nid now key h d = (won, d') \<Longrightarrow> names d k i \<Longrightarrow> names d' k i"
  by (auto simp: claim_insert_def names_def row_with_append split: if_splits)

lemma names_reclaim: "claim_reclaim lease now key d = (n, d') \<Longrightarrow> names d k i \<Longrightarrow> names d' k i"
  by (cases "key_row k d") (auto simp: names_def key_row_reclaim)

lemma names_failed: "names d k i \<Longrightarrow> names (markFailed now key d) k i"
  by (cases "key_row k d") (auto simp: names_def key_row_failed)

lemma names_completed: "names d key t \<Longrightarrow> names d k i \<Longrightarrow> names (markCompleted now key t c b d) k i"
  by (cases "key_row k d") (auto simp: names_def key_row_completed)

lemma names_same_keys: "idempotency_keys d' = idempotency_keys d \<Longrightarrow> names d' k i = names d k i"
  by (simp add: names_def)

lemmas names_kept = names_insert names_reclaim names_failed names_completed

subsection \<open>The invariant\<close>

definition tickets_known :: "db \<Rightarrow> (uuid \<times> EnrichmentStatus) set \<Rightarrow> bool" where
  "tickets_known d seen \<longleftrightarrow>
     (\<forall>i. effect_key i SIDE_EFFECT_UPGRADED \<in> dedup_keys d \<longrightarrow> tk_row i d \<noteq> None)
   \<and> (\<forall>i st. (i, st) \<in> seen \<longrightarrow> tk_row i d \<noteq> None)"

definition sys_inv :: "EnvVars \<Rightarrow> ('w \<Rightarrow> string set) \<Rightarrow> 'w sys \<Rightarrow> bool" where
  "sys_inv env delivered s \<longleftrightarrow>
     work_inv (sy_db s, sy_seen s) \<and> tickets_known (sy_db s) (sy_seen s) \<and> one_ticket (sy_db s)
   \<and> (\<forall>k i. (k, i) \<in> sy_issued s \<longrightarrow> names (sy_db s) k i)
   \<and> outbox_ok env (sy_db s) \<and> sent_delivered (sy_db s) (delivered (fst (sy_world s)))"

definition sys_start :: "'w \<Rightarrow> metrics \<Rightarrow> 'w sys" where
  "sys_start w m = \<lparr>sy_db = empty_db, sy_issued = {}, sy_seen = {}, sy_world = (w, m)\<rparr>"

lemma sys_start_inv: "sys_inv env delivered (sys_start w m)"
  by (simp add: sys_inv_def sys_start_def work_inv_def schema_ok_empty announced_def reads_ok_def
      tickets_known_def one_ticket_def ticket_key_def outbox_ok_def sent_delivered_def)
     (simp add: empty_db_def dedup_keys_def)

text \<open>Steps that touch only the ledger or the dead letters.\<close>

lemma sys_inv_frame:
  assumes "sys_inv env delivered s" and "schema_ok d"
    and "tickets d = tickets (sy_db s)" "events d = events (sy_db s)" "outbox_messages d = outbox_messages (sy_db s)"
    and "\<And>k i. names (sy_db s) k i \<Longrightarrow> names d k i"
  shows "sys_inv env delivered (s\<lparr>sy_db := d\<rparr>)"
  using assms
  by (simp add: sys_inv_def work_inv_def announced_def reads_ok_def tickets_known_def one_ticket_def
      ticket_key_def outbox_ok_def sent_delivered_def dedup_keys_def)

text \<open>The ticket transaction.\<close>

lemma create_facts:
  assumes "schema_ok d" and "one_ticket d"
    and "fst (create_work eid tid now key dto w d) = Inr ((t, e), d')"
  shows "schema_ok d' \<and> one_ticket d' \<and> names d' key t \<and> (\<forall>k i. names d k i \<longrightarrow> names d' k i)
    \<and> outbox_messages d' = outbox_messages d
    \<and> (d' = d \<or> tk_row tid d = None
        \<and> (\<forall>i. tk_row i d' = (if i = tid then Some (new_ticket_row tid now eid dto) else tk_row i d)))"
  using assms(3)
proof (cases rule: create_work_cases)
  case (reused idem tk)
  with assms(1,2) show ?thesis by (auto simp: names_def)
next
  case (created idem)
  let ?d1 = "d\<lparr>events := events d @ [new_event_row eid now key dto],
      tickets := tickets d @ [new_ticket_row tid now eid dto]\<rparr>"
  have fresh: "tk_row tid d = None" "ev_row eid d = None" using created(5,6) by (simp_all add: row_with_None_iff)
  have ev: "ev_row i d' = (if i = eid then Some (new_event_row eid now key dto) else ev_row i d)" for i
    using fresh by (auto simp: created(7) row_with_append new_event_row_def split: option.splits)
  have tk: "tk_row i d' = (if i = tid then Some (new_ticket_row tid now eid dto) else tk_row i d)" for i
    using fresh by (auto simp: created(7) row_with_append new_ticket_row_def split: option.splits)
  have grow: "names d' k i" if "names d k i" for k i
    using that created(1,2) by (cases "k = key"; cases "key_row k d") (auto simp: names_def key_row_attach created(7))
  have new: "names d' key tid" using created(1,7) by (simp add: names_def key_row_attach)
  have "names d' k i" if tkey: "ticket_key d' k i" for k i
  proof -
    from tkey obtain t' e' where t': "tk_row i d' = Some t'" "ev_row (tk_eventId t') d' = Some e'"
        "ev_idempotencyKey e' = k" by (auto simp: ticket_key_def)
    show ?thesis
    proof (cases "i = tid")
      case True
      with t' tk ev have "k = key" by (auto simp: new_ticket_row_def new_event_row_def)
      with True new show ?thesis by simp
    next
      case False
      with tk t'(1) have old: "tk_row i d = Some t'" by simp
      then have "tk_eventId t' \<in> values_of ev_id (events d)"
        using assms(1) by (auto simp: schema_ok_def tickets_fk_ok_def dest!: row_with_SomeD)
      then have "ev_row (tk_eventId t') d \<noteq> None" by (simp add: row_with_None_iff)
      with t'(2) ev fresh(2) have "ev_row (tk_eventId t') d = Some e'" by (auto split: if_splits)
      with old t'(3) have "ticket_key d k i" by (auto simp: ticket_key_def)
      with assms(2) grow show ?thesis by (auto simp: one_ticket_def)
    qed
  qed
  then have "one_ticket d'" by (simp add: one_ticket_def)
  moreover have "schema_ok d'" by (rule create_work_schema_ok [OF assms(1,3)])
  moreover have "outbox_messages d' = outbox_messages d" using created(7) by simp
  ultimately show ?thesis using tk fresh(1) grow new created(3) by blast
qed

lemma pending_ticket_added:
  assumes "tk_row tid d = None" and "\<And>i. tk_row i d' = (if i = tid then Some t0 else tk_row i d)"
    and "tk_enrichmentStatus t0 = ES_PENDING" and "dedup_keys d' = dedup_keys d"
    and "announced d" and "reads_ok d seen" and "tickets_known d seen"
  shows "announced d' \<and> reads_ok d' seen \<and> tickets_known d' seen"
proof (intro conjI)
  have other: "tk_row i d' = tk_row i d" if "i \<noteq> tid" for i using that assms(2) by simp
  have self: "tk_row tid d' = Some t0" using assms(2) by simp
  have quiet: "effect_key tid SIDE_EFFECT_UPGRADED \<notin> dedup_keys d" "(tid, st) \<notin> seen" for st
    using assms(1,7) by (auto simp: tickets_known_def)
  show "announced d'"
    unfolding announced_def
  proof (intro conjI allI impI)
    fix i t assume t: "tk_row i d' = Some t \<and> tk_enrichmentStatus t \<noteq> ES_PENDING"
    with self assms(3) have "i \<noteq> tid" by auto
    with t other assms(5) show "effect_key i SIDE_EFFECT_TRIAGED \<in> dedup_keys d'"
      unfolding assms(4) announced_def by metis
  next
    fix i t assume t: "tk_row i d' = Some t \<and> effect_key i SIDE_EFFECT_UPGRADED \<in> dedup_keys d'"
    with quiet assms(4) have "i \<noteq> tid" by auto
    with t other assms(4,5) show "effect_key i SIDE_EFFECT_TRIAGED \<in> dedup_keys d'"
      unfolding announced_def by metis
  next
    fix i t assume "tk_row i d' = Some t"
    with self other assms(3,5) show "tk_enrichmentStatus t \<noteq> ES_FAILED"
      by (cases "i = tid") (auto simp: announced_def)
  qed
  show "reads_ok d' seen"
    unfolding reads_ok_def
  proof (intro allI impI)
    fix i prior t assume a: "(i, prior) \<in> seen \<and> tk_row i d' = Some t \<and> tk_enrichmentStatus t = ES_PENDING"
    with quiet have "i \<noteq> tid" by auto
    with a other assms(6) show "prior = ES_PENDING" by (auto simp: reads_ok_def)
  qed
  show "tickets_known d' seen"
    using assms(2,7) by (auto simp: tickets_known_def assms(4))
qed

lemma sys_inv_create:
  assumes inv: "sys_inv env delivered s"
    and r: "r = runInTransaction F (create_work eid tid now key dto) () (sy_db s)"
  shows "sys_inv env delivered (s\<lparr>sy_db := tx_db r, sy_issued := issue key (tx_value r) (sy_issued s)\<rparr>)"
proof (cases "\<exists>t e. fst (create_work eid tid now key dto () (sy_db s)) = Inr ((t, e), tx_db r)")
  case False
  have "tx_db r = sy_db s" using tx.run_atomic [of F "create_work eid tid now key dto" "()" "sy_db s"] r False by fastforce
  moreover have "tx_value r = Inr (t, e) \<Longrightarrow> False" for t e
    using tx.run_value [of F "create_work eid tid now key dto" "()" "sy_db s" "(t, e)"] r False by blast
  ultimately show ?thesis using inv by (cases "tx_value r") (auto simp: issue_def sys_inv_def)
next
  case True
  let ?d = "sy_db s"
  from True obtain t e where work: "fst (create_work eid tid now key dto () ?d) = Inr ((t, e), tx_db r)" by blast
  have ok: "schema_ok ?d" "one_ticket ?d" and ann: "announced ?d" and reads: "reads_ok ?d (sy_seen s)"
    and known: "tickets_known ?d (sy_seen s)"
    using inv by (simp_all add: sys_inv_def work_inv_def)
  note facts = create_facts [OF ok work]
  have keys: "dedup_keys (tx_db r) = dedup_keys ?d" using facts by (simp add: dedup_keys_def)
  have pending: "tk_enrichmentStatus (new_ticket_row tid now eid dto) = ES_PENDING" by (simp add: new_ticket_row_def)
  from facts have rows: "tx_db r = ?d \<or> tk_row tid ?d = None
        \<and> (\<forall>i. tk_row i (tx_db r) = (if i = tid then Some (new_ticket_row tid now eid dto) else tk_row i ?d))" by blast
  then have "announced (tx_db r)" "reads_ok (tx_db r) (sy_seen s)" "tickets_known (tx_db r) (sy_seen s)"
    using pending_ticket_added [OF _ _ pending keys ann reads known] ann reads known by fastforce+
  moreover have "tx_value r = Inr (t', e') \<Longrightarrow> t' = t" for t' e'
    using tx.run_value [of F "create_work eid tid now key dto" "()" ?d "(t', e')"] work r by auto
  then have "\<forall>k i. (k, i) \<in> issue key (tx_value r) (sy_issued s) \<longrightarrow> names (tx_db r) k i"
    using facts inv by (auto simp: issue_def sys_inv_def split: sum.splits prod.splits)
  ultimately show ?thesis
    using facts inv by (simp add: sys_inv_def work_inv_def outbox_ok_def sent_delivered_def)
qed

text \<open>Workers. The rows they add to the outbox are new and pending.\<close>

lemma persist_work_outbox:
  assumes "outbox_ok env d" and "env_valid env" and "sent_delivered d D"
    and "fst (persist_work nid now i prior out data w d) = Inr (u, d')"
  shows "outbox_ok env d' \<and> sent_delivered d' D"
proof -
  obtain n d1 where upd: "update_ticket now i out d = (n, d1)" by (rule prod.exhaust)
  have "outbox_messages d1 = outbox_messages d" using update_ticket_frame [OF upd] by simp
  then have ok1: "outbox_ok env d1" "sent_delivered d1 D"
    using assms(1,3) by (simp_all add: outbox_ok_def sent_delivered_def)
  from assms(4) upd consider "d' = d" | "d' = d1"
    | ev key where "emit nid now (ticket_effect i ev (effect_payload i out data)) d1 = Inr (key, d')"
    by (auto simp: persist_work_def split: nat.splits option.splits sum.splits prod.splits)
  then show ?thesis
  proof cases
    case 3
    with emit_outbox_ok [OF ok1(1) assms(2)] emit_sent_delivered [OF ok1(2)] show ?thesis by blast
  qed (use assms(1,3) ok1 in simp_all)
qed

lemma persist_work_facts:
  assumes "schema_ok d" and "one_ticket d" and "tickets_known d seen"
    and "fst (persist_work nid now i prior out data () d) = Inr (u, d')"
  shows "one_ticket d' \<and> tickets_known d' seen \<and> idempotency_keys d' = idempotency_keys d"
proof (cases rule: persist_work_cases [OF assms(1,4)])
  case 1
  with assms(2,3) show ?thesis by simp
next
  case (2 t)
  have tkey: "ticket_key d' k j \<Longrightarrow> ticket_key d k j" for k j
    using 2(1) 2(3) [of j] 2(6) by (auto simp: ticket_key_def split: if_splits)
  have keys: "\<exists>t. tk_row j d' = Some t" if "effect_key j SIDE_EFFECT_UPGRADED \<in> dedup_keys d'" for j
  proof (cases "effect_key j SIDE_EFFECT_UPGRADED \<in> dedup_keys d")
    case True
    with assms(3) 2(3) [of j] show ?thesis by (auto simp: tickets_known_def)
  next
    case False
    with that 2(4) obtain ev where ev: "effect_key j SIDE_EFFECT_UPGRADED = effect_key i ev" "side_effect prior out = Some ev"
      by (auto split: option.splits)
    then have "ev = SIDE_EFFECT_TRIAGED \<or> ev = SIDE_EFFECT_UPGRADED"
      by (auto simp: side_effect_def split: if_splits)
    with ev(1) have "j = i" using effect_key_kind effect_key_ticket by metis
    with 2(3) [of i] show ?thesis by simp
  qed
  have seen: "\<exists>t. tk_row j d' = Some t" if "(j, st) \<in> seen" for j st
    using that assms(3) 2(3) [of j] by (auto simp: tickets_known_def)
  from tkey assms(2) 2(7) have "one_ticket d'" by (simp add: one_ticket_def names_same_keys [OF 2(7)])
  moreover have "tickets_known d' seen" using keys seen unfolding tickets_known_def by blast
  ultimately show ?thesis using 2(7) by blast
qed

lemma sys_inv_work:
  assumes env: "env_valid env" and inv: "sys_inv env delivered s"
    and step: "work_step (sy_db s, sy_seen s) (d', seen')"
  shows "sys_inv env delivered (s\<lparr>sy_db := d', sy_seen := seen'\<rparr>)"
proof -
  let ?d = "sy_db s"
  have wi: "work_inv (?d, sy_seen s)" and known: "tickets_known ?d (sy_seen s)" and one: "one_ticket ?d"
    and out: "outbox_ok env ?d" and sent: "sent_delivered ?d (delivered (fst (sy_world s)))"
    using inv by (simp_all add: sys_inv_def)
  have wi': "work_inv (d', seen')" by (rule work_step_inv [OF step wi])
  have "one_ticket d' \<and> tickets_known d' seen' \<and> idempotency_keys d' = idempotency_keys ?d
    \<and> outbox_ok env d' \<and> sent_delivered d' (delivered (fst (sy_world s)))"
    using step
  proof cases
    case (read i t)
    with known one out sent show ?thesis by (auto simp: tickets_known_def findByIdOrThrow_ok)
  next
    case (persist i prior o' r F nid now data)
    from tx.run_atomic [of F "persist_work nid now i prior o' data" "()" ?d] persist
    consider "d' = ?d" | u where "fst (persist_work nid now i prior o' data () ?d) = Inr (u, d')"
      by (auto simp: persistAndEmit_def)
    then show ?thesis
    proof cases
      case same: 1
      with known one out sent persist show ?thesis by simp
    next
      case work: 2
      have "schema_ok ?d" using wi by (simp add: work_inv_def)
      from persist_work_facts [OF this one known work] persist_work_outbox [OF out env sent work] persist
      show ?thesis by simp
    qed
  qed
  note facts = this
  have "names d' k i = names ?d k i" for k i by (rule names_same_keys) (use facts in simp)
  with facts wi' inv show ?thesis by (simp add: sys_inv_def)
qed

text \<open>The relay, over a target that keeps its contract.\<close>

context delivery_target
begin

lemma sys_inv_relay:
  assumes env: "env_valid env" and inv: "sys_inv env delivered s" and host: "good_host host"
    and r: "r = drainOnce F env now host locked dispatch (sy_world s) (sy_db s)"
  shows "sys_inv env delivered (s\<lparr>sy_db := tx_db r, sy_world := tx_world r\<rparr>)"
proof -
  let ?d = "sy_db s"
  obtain w m where w: "sy_world s = (w, m)" by (rule prod.exhaust)
  have ok: "schema_ok ?d" and out: "outbox_ok env ?d" and sent: "sent_delivered ?d (delivered w)"
    using inv w by (simp_all add: sys_inv_def work_inv_def)
  have base: "0 \<le> OUTBOX_BACKOFF_BASE_MS env" using env by (rule env_validD)
  have r': "r = drainOnce F env now host locked dispatch (w, m) ?d" using r w by simp
  have sent': "sent_delivered (tx_db r) (delivered (fst (tx_world r)))" by (rule drain_sent_delivered [OF ok sent r'])
  have out': "outbox_ok env (tx_db r)" by (rule drain_outbox_ok [OF ok env host out r'])
  show ?thesis
  proof (rule drain_cases [OF ok base host r' refl])
    assume "tx_db r = ?d"
    with inv sent' show ?thesis by (simp add: sys_inv_def)
  next
    assume kept: "schema_ok (tx_db r)" "dedup_keys (tx_db r) = dedup_keys ?d"
      "events (tx_db r) = events ?d \<and> tickets (tx_db r) = tickets ?d
       \<and> idempotency_keys (tx_db r) = idempotency_keys ?d \<and> dead_letters (tx_db r) = dead_letters ?d"
    then have "names (tx_db r) k i = names ?d k i" for k i by (intro names_same_keys) simp
    with inv kept sent' out' show ?thesis
      by (simp add: sys_inv_def work_inv_def announced_def reads_ok_def tickets_known_def one_ticket_def ticket_key_def)
  qed
qed

lemma sys_step_inv:
  assumes "sys_step env dispatch s s'" and "env_valid env" and "sys_inv env delivered s"
  shows "sys_inv env delivered s'"
proof -
  have ok: "schema_ok (sy_db s)" and issued: "\<And>k i. (k, i) \<in> sy_issued s \<Longrightarrow> names (sy_db s) k i"
    using assms(3) by (auto simp: sys_inv_def work_inv_def)
  from assms(1) show ?thesis
  proof cases
    case (insert_key nid now key h won d)
    then show ?thesis
      using claim_insert_frame [OF insert_key(2)] claim_insert_schema_ok [OF ok insert_key(2)] names_insert [OF insert_key(2)]
      by (auto intro: sys_inv_frame [OF assms(3)])
  next
    case (reclaim_key now key n d)
    then show ?thesis
      using claim_reclaim_frame [OF reclaim_key(2)] claim_reclaim_schema_ok [OF ok reclaim_key(2)] names_reclaim [OF reclaim_key(2)]
      by (auto intro: sys_inv_frame [OF assms(3)])
  next
    case (create r F eid tid now key dto)
    then show ?thesis by (simp add: sys_inv_create [OF assms(3)])
  next
    case (complete key t now responseCode responseBody)
    have named: "names (sy_db s) key t" by (rule issued) (rule complete(2))
    have "t \<in> values_of tk_id (tickets (sy_db s))"
      using named ok by (auto simp: names_def schema_ok_def idem_fk_ok_def dest!: row_with_SomeD)
    then show ?thesis
      unfolding complete(1)
      by (intro sys_inv_frame [OF assms(3)] markCompleted_schema_ok [OF ok] names_completed [OF named]) simp_all
  next
    case (fail now key)
    then show ?thesis
      by (simp add: sys_inv_frame [OF assms(3)] markFailed_schema_ok [OF ok] names_failed)
  next
    case (work d seen)
    then show ?thesis by (simp add: sys_inv_work [OF assms(2,3)])
  next
    case (relay host r F now locked)
    then show ?thesis by (simp add: sys_inv_relay [OF assms(2,3)])
  next
    case (bury nid now job err d)
    then show ?thesis
      using insert_dead_letter_schema_ok [OF ok bury(2)]
      by (auto simp: insert_dead_letter_def names_def split: if_splits intro!: sys_inv_frame [OF assms(3)])
  next
    case (replay now i rows d)
    then show ?thesis
      using replay_flip_schema_ok [OF ok replay(2)] replay_frames(1) [OF replay(2)]
      by (auto simp: names_def intro!: sys_inv_frame [OF assms(3)])
  next
    case (undo i)
    then show ?thesis
      by (auto simp: names_def replay_frames replay_undo_schema_ok [OF ok] intro!: sys_inv_frame [OF assms(3)])
  qed
qed

lemma sys_reach_inv:
  assumes "sys_reach env dispatch s0 s" and "env_valid env" and "sys_inv env delivered s0"
  shows "sys_inv env delivered s"
  using assms by (induction rule: sys_reach.induct) (auto intro: sys_step_inv)

end

lemma any_target: "delivery_target dispatch (\<lambda>_. UNIV)"
  by unfold_locales auto

lemmas sys_inv_any = delivery_target.sys_reach_inv [OF any_target]

subsection \<open>One ticket per key\<close>

text \<open>
  C1: one ticket per key, whatever runs concurrently. In every state any interleaving of claims,
  ticket transactions, completions, failures, workers, relays and operators can reach from an empty
  database: two tickets made for one key are the same ticket, the row of the key names it, every
  answer that ever told a caller a ticket of the key told this one, every ticket belongs to a key,
  and the constraints of the schema hold.
\<close>

theorem one_ticket_per_key:
  assumes "env_valid env" and "sys_reach env dispatch (sys_start w m) s"
  shows "(ticket_key (sy_db s) k i \<and> ticket_key (sy_db s) k j \<longrightarrow> i = j)
    \<and> (ticket_key (sy_db s) k i \<longrightarrow> names (sy_db s) k i)
    \<and> ((k, i) \<in> sy_issued s \<longrightarrow> names (sy_db s) k i)
    \<and> (tk_row i (sy_db s) \<noteq> None \<longrightarrow> (\<exists>k. ticket_key (sy_db s) k i))
    \<and> schema_ok (sy_db s)"
proof -
  have inv: "sys_inv env (\<lambda>_. UNIV) s" by (rule sys_inv_any [OF assms(2,1) sys_start_inv])
  then have one: "one_ticket (sy_db s)" and ok: "schema_ok (sy_db s)"
    and issued: "(k, i) \<in> sy_issued s \<Longrightarrow> names (sy_db s) k i"
    by (auto simp: sys_inv_def work_inv_def)
  have "\<exists>k. ticket_key (sy_db s) k i" if t: "tk_row i (sy_db s) = Some t" for t
  proof -
    have "tk_eventId t \<in> values_of ev_id (events (sy_db s))"
      using t ok by (auto simp: schema_ok_def tickets_fk_ok_def dest!: row_with_SomeD)
    then obtain e where "ev_row (tk_eventId t) (sy_db s) = Some e"
      by (metis not_None_eq row_with_None_iff)
    with t show ?thesis by (auto simp: ticket_key_def)
  qed
  with one ok issued names_unique show ?thesis unfolding one_ticket_def by blast
qed

subsection \<open>The life of a ticket\<close>

definition later :: "ticket_row \<Rightarrow> ticket_row \<Rightarrow> bool" where
  "later t t' \<longleftrightarrow> tk_enrichmentStatus t \<le> tk_enrichmentStatus t'
     \<and> tk_eventId t' = tk_eventId t \<and> tk_subject t' = tk_subject t \<and> tk_body t' = tk_body t
     \<and> tk_requesterEmail t' = tk_requesterEmail t \<and> tk_enrichmentAttempts t \<le> tk_enrichmentAttempts t'"

lemma later_refl [simp]: "later t t"
  by (simp add: later_def)

lemma later_trans: "later a b \<Longrightarrow> later b c \<Longrightarrow> later a c"
  by (auto simp: later_def)

lemma later_write: "may_write out t \<Longrightarrow> outcome_ok out \<Longrightarrow> later t (write_outcome now out t)"
  by (auto simp: later_def may_write_def outcome_ok_def write_outcome_def)

lemma later_same_tickets:
  "tickets d' = tickets d \<Longrightarrow> tk_row i d = Some t \<Longrightarrow> \<exists>t'. tk_row i d' = Some t' \<and> later t t'"
  by simp

lemma work_step_later:
  assumes "work_step (d, seen) (d', seen')" and "schema_ok d" and "tk_row i d = Some t"
  shows "\<exists>t'. tk_row i d' = Some t' \<and> later t t'"
  using assms(1)
proof cases
  case read
  with assms(3) show ?thesis by simp
next
  case (persist j prior o' r F nid now data)
  from tx.run_atomic [of F "persist_work nid now j prior o' data" "()" d] persist
  consider "d' = d" | u where "fst (persist_work nid now j prior o' data () d) = Inr (u, d')"
    by (auto simp: persistAndEmit_def)
  then show ?thesis
  proof cases
    case 1
    with assms(3) show ?thesis by simp
  next
    case 2
    from persist_work_cases [OF assms(2) 2] show ?thesis
    proof cases
      case 1
      with assms(3) show ?thesis by simp
    next
      case (2 t0)
      with assms(3) later_write persist show ?thesis by (cases "i = j") auto
    qed
  qed
qed

lemma create_work_keeps_tickets:
  assumes "fst (create_work eid tid now key dto w d) = Inr ((t, e), d')" and "tk_row i d = Some t0"
  shows "tk_row i d' = Some t0"
  using assms(1)
proof (cases rule: create_work_cases)
  case (created idem)
  with assms(2) show ?thesis by (simp add: row_with_append)
qed (use assms(2) in simp)

lemma sys_step_later:
  assumes "sys_step env dispatch s s'" and "env_valid env" and ok: "schema_ok (sy_db s)"
    and "tk_row i (sy_db s) = Some t"
  shows "\<exists>t'. tk_row i (sy_db s') = Some t' \<and> later t t'"
proof -
  from assms(1) show ?thesis
  proof cases
    case (insert_key nid now key h won d)
    with assms(4) claim_insert_frame [OF insert_key(2)] show ?thesis by simp
  next
    case (reclaim_key now key n d)
    with assms(4) claim_reclaim_frame [OF reclaim_key(2)] show ?thesis by simp
  next
    case (create r F eid tid now key dto)
    show ?thesis
    proof (cases "tx_db r = sy_db s")
      case True
      with create assms(4) show ?thesis by simp
    next
      case False
      with tx.run_atomic [of F "create_work eid tid now key dto" "()" "sy_db s"] create(2) obtain a e where
        "fst (create_work eid tid now key dto () (sy_db s)) = Inr ((a, e), tx_db r)" by fastforce
      from create_work_keeps_tickets [OF this assms(4)] create(1) show ?thesis by simp
    qed
  next
    case (work d seen)
    with work_step_later [OF work(2) ok assms(4)] show ?thesis by simp
  next
    case (relay host r F now locked)
    obtain wm where wm: "sy_world s = wm" by blast
    have base: "0 \<le> OUTBOX_BACKOFF_BASE_MS env" using assms(2) by (rule env_validD)
    have "tickets (tx_db r) = tickets (sy_db s)"
      by (rule drain_cases [OF ok base relay(2,3) refl]) simp_all
    with relay(1) assms(4) show ?thesis by simp
  next
    case (bury nid now job err d)
    with assms(4) show ?thesis by (auto simp: insert_dead_letter_def split: if_splits)
  next
    case (replay now i rows d)
    with assms(4) replay_frames(1) [OF replay(2)] show ?thesis by simp
  qed (use assms(4) in \<open>simp_all add: replay_frames\<close>)
qed

lemma sys_step_names:
  assumes "sys_step env dispatch s s'" and "env_valid env" and "sys_inv env (\<lambda>_. UNIV) s"
    and "names (sy_db s) k i"
  shows "names (sy_db s') k i"
proof -
  have ok: "schema_ok (sy_db s)" and one: "one_ticket (sy_db s)" and inv: "work_inv (sy_db s, sy_seen s)"
    and issued: "\<And>k i. (k, i) \<in> sy_issued s \<Longrightarrow> names (sy_db s) k i"
    and known: "tickets_known (sy_db s) (sy_seen s)"
    using assms(3) by (auto simp: sys_inv_def work_inv_def)
  from assms(1) show ?thesis
  proof cases
    case (insert_key nid now key h won d)
    with names_insert assms(4) show ?thesis by simp
  next
    case (reclaim_key now key n d)
    with names_reclaim assms(4) show ?thesis by simp
  next
    case (create r F eid tid now key dto)
    show ?thesis
    proof (cases "tx_db r = sy_db s")
      case True
      with create assms(4) show ?thesis by simp
    next
      case False
      with tx.run_atomic [of F "create_work eid tid now key dto" "()" "sy_db s"] create(2) obtain a e where
        "fst (create_work eid tid now key dto () (sy_db s)) = Inr ((a, e), tx_db r)" by fastforce
      from create_facts [OF ok one this] assms(4) create(1) show ?thesis by simp
    qed
  next
    case (complete key t now c b)
    with names_completed issued assms(4) show ?thesis by simp
  next
    case (fail now key)
    with names_failed assms(4) show ?thesis by simp
  next
    case (work d seen)
    have "idempotency_keys d = idempotency_keys (sy_db s)"
      using work(2)
    proof cases
      case (persist j prior o' r F nid now data)
      from tx.run_atomic [of F "persist_work nid now j prior o' data" "()" "sy_db s"] persist
        persist_work_facts [OF ok one known, of nid now j prior o' data]
      show ?thesis by (auto simp: persistAndEmit_def)
    qed simp
    with work(1) assms(4) show ?thesis by (simp add: names_def)
  next
    case (relay host r F now locked)
    have base: "0 \<le> OUTBOX_BACKOFF_BASE_MS env" using assms(2) by (rule env_validD)
    have "idempotency_keys (tx_db r) = idempotency_keys (sy_db s)"
      by (rule drain_cases [OF ok base relay(2,3) refl]) simp_all
    with relay(1) assms(4) show ?thesis by (simp add: names_def)
  next
    case (bury nid now job err d)
    with assms(4) show ?thesis by (auto simp: insert_dead_letter_def names_def split: if_splits)
  next
    case (replay now i rows d)
    with assms(4) replay_frames(1) [OF replay(2)] show ?thesis by (simp add: names_def)
  next
    case (undo i)
    with assms(4) show ?thesis by (simp add: replay_frames names_def)
  qed
qed

lemma sys_reach_later:
  assumes "sys_reach env dispatch s s'" and "env_valid env" and "sys_inv env (\<lambda>_. UNIV) s"
  shows "sys_inv env (\<lambda>_. UNIV) s' \<and> (\<forall>k i. names (sy_db s) k i \<longrightarrow> names (sy_db s') k i)
    \<and> (\<forall>i t. tk_row i (sy_db s) = Some t \<longrightarrow> (\<exists>t'. tk_row i (sy_db s') = Some t' \<and> later t t'))"
  using assms(1)
proof (induction rule: sys_reach.induct)
  case start
  with assms(3) show ?case by simp
next
  case (more s1 s2)
  then have inv: "sys_inv env (\<lambda>_. UNIV) s1" by blast
  then have ok: "schema_ok (sy_db s1)" by (simp add: sys_inv_def work_inv_def)
  have "sys_inv env (\<lambda>_. UNIV) s2"
    by (rule delivery_target.sys_step_inv [OF any_target more.hyps(2) assms(2) inv])
  moreover have "names (sy_db s2) k i" if "names (sy_db s) k i" for k i
    using more.IH that sys_step_names [OF more.hyps(2) assms(2) inv] by blast
  moreover have "\<exists>t2. tk_row i (sy_db s2) = Some t2 \<and> later t t2" if "tk_row i (sy_db s) = Some t" for i t
    using more.IH that sys_step_later [OF more.hyps(2) assms(2) ok] later_trans by blast
  ultimately show ?case by blast
qed

text \<open>
  C7: a ticket only moves forward, until retention deletes it. From any reachable state on, whatever
  submissions, workers, dead letters and the relay do, as long as no retention sweep runs (how a ticket
  leaves then is C13): a ticket stays, never goes back from ENRICHED to DEGRADED or from either to
  PENDING, keeps the submitted fields and its event, its attempts never decrease, and a key that names a
  ticket goes on naming it.
\<close>

theorem lifecycle_monotone:
  assumes "env_valid env" and "sys_reach env dispatch (sys_start w m) s" and "sys_reach env dispatch s s'"
    and "tk_row i (sy_db s) = Some t"
  shows "\<exists>t'. tk_row i (sy_db s') = Some t' \<and> tk_enrichmentStatus t \<le> tk_enrichmentStatus t'
    \<and> tk_enrichmentStatus t' \<noteq> ES_FAILED \<and> tk_eventId t' = tk_eventId t \<and> tk_subject t' = tk_subject t
    \<and> tk_body t' = tk_body t \<and> tk_enrichmentAttempts t \<le> tk_enrichmentAttempts t'
    \<and> (\<forall>k. names (sy_db s) k i \<longrightarrow> names (sy_db s') k i)"
proof -
  have inv: "sys_inv env (\<lambda>_. UNIV) s" by (rule sys_inv_any [OF assms(2,1) sys_start_inv])
  note facts = sys_reach_later [OF assms(3,1) inv]
  then obtain t' where t': "tk_row i (sy_db s') = Some t'" "later t t'" using assms(4) by blast
  moreover have "tk_enrichmentStatus t' \<noteq> ES_FAILED"
    using facts t'(1) by (auto simp: sys_inv_def work_inv_def announced_def)
  ultimately show ?thesis using facts by (auto simp: later_def)
qed

subsection \<open>From submission to webhook\<close>

context webhook_target
begin

lemma sys_inv_webhook:
  assumes "sys_reach env (webhook_dispatch show_int env fetch) (sys_start w m) s" and "env_valid env"
  shows "sys_inv env accepted s"
  by (rule sys_reach_inv [OF assms sys_start_inv])

end

text \<open>
  C5: no triage is lost on the way to the webhook. In every state that submissions, workers, dead letters
  and the relay can reach without a retention sweep (a sweep later deletes SENT and FAILED rows that are
  past the window, see C37), over a webhook whose
  2xx answers are honest: a ticket that has been triaged has exactly one row in the outbox for its
  \<open>ticket.triaged\<close> effect; if the row is SENT the webhook has received it, if it is FAILED every
  configured attempt was used up and the error kept, and otherwise it is pending with attempts left.
\<close>

theorem triage_reaches_webhook:
  assumes "env_valid env" and "fetch_ok fetch accepted"
    and "sys_reach env (webhook_dispatch show_int env fetch) (sys_start w m) s"
    and "tk_row i (sy_db s) = Some t" and "tk_enrichmentStatus t \<noteq> ES_PENDING"
  shows "\<exists>r. r \<in> set (outbox_messages (sy_db s)) \<and> ob_dedupKey r = effect_key i SIDE_EFFECT_TRIAGED
    \<and> (\<forall>r' \<in> set (outbox_messages (sy_db s)). ob_dedupKey r' = ob_dedupKey r \<longrightarrow> r' = r)
    \<and> (case ob_status r of
         OB_SENT \<Rightarrow> ob_dedupKey r \<in> accepted (fst (sy_world s))
       | OB_FAILED \<Rightarrow> ob_attempts r = OUTBOX_MAX_ATTEMPTS env \<and> ob_lastError r \<noteq> None
       | OB_PENDING \<Rightarrow> ob_attempts r < OUTBOX_MAX_ATTEMPTS env)"
proof -
  have inv: "sys_inv env accepted s"
    by (rule webhook_target.sys_inv_webhook [OF webhook_targetI [OF assms(2)] assms(3,1)])
  then have "effect_key i SIDE_EFFECT_TRIAGED \<in> dedup_keys (sy_db s)"
    using assms(4,5) unfolding sys_inv_def work_inv_def announced_def by auto
  then obtain r where r: "r \<in> set (outbox_messages (sy_db s))" "ob_dedupKey r = effect_key i SIDE_EFFECT_TRIAGED"
    by (auto simp: dedup_keys_def values_of_def)
  have unique: "unique_by ob_dedupKey (outbox_messages (sy_db s))"
    and at: "attempts_ok env r" and sent: "ob_status r = OB_SENT \<longrightarrow> ob_dedupKey r \<in> accepted (fst (sy_world s))"
    using inv r(1) by (auto simp: sys_inv_def work_inv_def schema_ok_def outbox_ok_def sent_delivered_def)
  show ?thesis
  proof (intro exI [of _ r] conjI ballI impI)
    fix r' assume "r' \<in> set (outbox_messages (sy_db s))" "ob_dedupKey r' = ob_dedupKey r"
    then show "r' = r" using unique r(1) unique_by_inj by metis
  qed (use r at sent in \<open>auto simp: attempts_ok_def split: OutboxStatus.splits if_splits\<close>)
qed

subsection \<open>A concrete path\<close>

text \<open>One submission, one fallback triage.\<close>

lemma order_created:
  "\<exists>s. sys_reach env_defaults dispatch (sys_start w m) s \<and> names (sy_db s) ''order-1'' ''t1''
     \<and> ticket_key (sy_db s) ''order-1'' ''t1'' \<and> outbox_messages (sy_db s) = []
     \<and> (''order-1'', ''t1'') \<in> sy_issued s
     \<and> (\<exists>k. idempotency_keys (sy_db s) = [k] \<and> ik_key k = ''order-1'' \<and> ik_requestHash k = ''h'' \<and> ik_createdAt k = 1)
     \<and> tk_row ''t1'' (sy_db s) = Some (new_ticket_row ''t1'' 3 ''e1'' order_request)"
proof -
  let ?row = "new_idem_row ''k1'' 1 ''order-1'' ''h''"
  let ?d1 = "empty_db\<lparr>idempotency_keys := [?row]\<rparr>"
  let ?s0 = "sys_start w m :: 'a sys"
  let ?s1 = "?s0\<lparr>sy_db := ?d1\<rparr>"
  have db0: "sy_db ?s0 = empty_db" by (simp add: sys_start_def)
  have "claim_insert ''k1'' 1 ''order-1'' ''h'' (sy_db ?s0) = (True, ?d1)"
    by (simp add: claim_insert_def db0 empty_db_def)
  from sys_reach_one [OF sys_step.insert_key [OF this]] have one: "sys_reach env_defaults dispatch ?s0 ?s1" .
  let ?r = "createTicketIfAbsent order_host ''order-1'' order_request ?d1"
  have h: "ih_faults order_host = no_faults" "ih_eventId order_host = ''e1''" "ih_ticketId order_host = ''t1''"
    "ih_create_at order_host = 3" by (simp_all add: order_host_def)
  have ok: "schema_ok ?d1"
    by (simp add: schema_ok_def tickets_fk_ok_def idem_fk_ok_def unique_by_def empty_db_def)
  have row: "key_row ''order-1'' ?d1 = Some ?row" by simp
  have made: "tx_value ?r = Inr (''t1'', ''e1'')" "tx_db ?r = attachTicket 3 ''order-1'' ''t1''
      (?d1\<lparr>events := [new_event_row ''e1'' 3 ''order-1'' order_request],
           tickets := [new_ticket_row ''t1'' 3 ''e1'' order_request]\<rparr>)"
    using first_create [OF ok row, of order_host order_request] by (simp_all add: h empty_db_def)
  have r: "?r = runInTransaction no_faults (create_work ''e1'' ''t1'' 3 ''order-1'' order_request) () (sy_db ?s1)"
    by (simp add: createTicketIfAbsent_def h)
  have two: "sys_reach env_defaults dispatch ?s0
      (?s1\<lparr>sy_db := tx_db ?r, sy_issued := issue ''order-1'' (tx_value ?r) (sy_issued ?s1)\<rparr>)"
    by (rule sys_reach.more [OF one sys_step.create [OF r]])
  have "names (tx_db ?r) ''order-1'' ''t1''" using row by (simp add: names_def made(2) key_row_attach)
  moreover have tk: "tk_row ''t1'' (tx_db ?r) = Some (new_ticket_row ''t1'' 3 ''e1'' order_request)"
    by (simp add: made(2)) (simp add: new_ticket_row_def)
  moreover have "ticket_key (tx_db ?r) ''order-1'' ''t1''"
    unfolding ticket_key_def tk by (simp add: made(2)) (simp add: new_ticket_row_def new_event_row_def)
  moreover have "outbox_messages (tx_db ?r) = []" unfolding made(2) by (simp add: empty_db_def)
  moreover have "\<exists>k. idempotency_keys (tx_db ?r) = [k] \<and> ik_key k = ''order-1'' \<and> ik_requestHash k = ''h'' \<and> ik_createdAt k = 1"
    unfolding made(2) attachTicket_def by (simp add: new_idem_row_def)
  moreover have "(''order-1'', ''t1'') \<in> issue ''order-1'' (tx_value ?r) (sy_issued ?s1)" by (simp add: issue_def made(1))
  ultimately show ?thesis using two by (intro exI [of _ "?s1\<lparr>sy_db := tx_db ?r,
      sy_issued := issue ''order-1'' (tx_value ?r) (sy_issued ?s1)\<rparr>"]) simp
qed

text \<open>A worker's read and its transaction, with nothing failing.\<close>

lemma triage_path:
  assumes "schema_ok (sy_db s)" and "tk_row i (sy_db s) = Some t" and "outcome_ok out" and "may_write out t"
    and "nid \<notin> values_of ob_id (outbox_messages (sy_db s))"
  shows "\<exists>s'. sys_reach env dispatch s s' \<and> tk_row i (sy_db s') = Some (write_outcome now out t)
     \<and> dedup_keys (sy_db s') = (case side_effect (tk_enrichmentStatus t) out of
         Some ev \<Rightarrow> insert (effect_key i ev) (dedup_keys (sy_db s)) | None \<Rightarrow> dedup_keys (sy_db s))
     \<and> idempotency_keys (sy_db s') = idempotency_keys (sy_db s) \<and> schema_ok (sy_db s')
     \<and> (\<forall>r \<in> set (outbox_messages (sy_db s')). r \<in> set (outbox_messages (sy_db s)) \<or> ob_status r = OB_PENDING)"
proof -
  let ?seen = "insert (i, tk_enrichmentStatus t) (sy_seen s)"
  let ?s1 = "s\<lparr>sy_db := sy_db s, sy_seen := ?seen\<rparr>"
  let ?r = "persistAndEmit no_faults nid now i (tk_enrichmentStatus t) out data (sy_db s) :: (unit, unit) tx_result"
  have "findByIdOrThrow i (sy_db s) = Inr t" using assms(2) by (simp add: findByIdOrThrow_ok)
  from work_step.read [OF this, of "sy_seen s"] have one: "sys_step env dispatch s ?s1" by (intro sys_step.work) simp
  have "work_step (sy_db s, ?seen) (tx_db ?r, ?seen)" by (rule work_step.persist [OF _ assms(3) refl]) simp
  then have two: "sys_step env dispatch ?s1 (?s1\<lparr>sy_db := tx_db ?r, sy_seen := sy_seen ?s1\<rparr>)"
    by (intro sys_step.work) simp
  have rows: "\<forall>r \<in> set (outbox_messages (tx_db ?r)). r \<in> set (outbox_messages (sy_db s)) \<or> ob_status r = OB_PENDING"
    using tx.run_atomic [of no_faults "persist_work nid now i (tk_enrichmentStatus t) out data" "()" "sy_db s"] persist_work_rows
    by (fastforce simp: persistAndEmit_def)
  from persist_no_faults [OF assms(1,2,4,5) refl] rows show ?thesis
    by (intro exI [of _ "?s1\<lparr>sy_db := tx_db ?r, sy_seen := sy_seen ?s1\<rparr>"] conjI
        sys_reach.more [OF sys_reach_one [OF one] two]) simp_all
qed

lemma order_triaged:
  assumes "sys_inv env_defaults (\<lambda>_. UNIV) s" and "tk_row ''t1'' (sy_db s) = Some t"
    and "tk_enrichmentStatus t = ES_PENDING" and "outbox_messages (sy_db s) = []"
  shows "\<exists>s'. sys_reach env_defaults dispatch s s'
     \<and> tk_row ''t1'' (sy_db s') = Some (write_outcome 5 degraded_outcome t)"
proof -
  have ok: "schema_ok (sy_db s)" using assms(1) by (simp add: sys_inv_def work_inv_def)
  have may: "may_write degraded_outcome t" using assms(3) by (simp add: may_write_def)
  have "''o1'' \<notin> values_of ob_id (outbox_messages (sy_db s))" using assms(4) by simp
  from triage_path [OF ok assms(2) outcomes_ok(1) may this] show ?thesis by blast
qed

theorem one_ticket_per_key_witness:
  "\<exists>s. sys_reach env_defaults (webhook_dispatch (\<lambda>_. []) env_defaults sink_fetch) (sys_start ([], {}) no_metrics) s
     \<and> ticket_key (sy_db s) ''order-1'' ''t1'' \<and> names (sy_db s) ''order-1'' ''t1''
     \<and> (\<forall>j. ticket_key (sy_db s) ''order-1'' j \<longrightarrow> j = ''t1'')"
proof -
  obtain s where s: "sys_reach env_defaults (webhook_dispatch (\<lambda>_. []) env_defaults sink_fetch)
      (sys_start ([], {}) no_metrics) s" "ticket_key (sy_db s) ''order-1'' ''t1''"
    using order_created by metis
  from one_ticket_per_key [OF env_defaults_valid s(1), of "''order-1''"] s show ?thesis by metis
qed

theorem lifecycle_monotone_witness:
  "\<exists>s s'. sys_reach env_defaults (webhook_dispatch (\<lambda>_. []) env_defaults sink_fetch) (sys_start ([], {}) no_metrics) s
     \<and> sys_reach env_defaults (webhook_dispatch (\<lambda>_. []) env_defaults sink_fetch) s s'
     \<and> (\<exists>t'. tk_row ''t1'' (sy_db s') = Some t' \<and> tk_enrichmentStatus t' = ES_DEGRADED \<and> tk_subject t' = ''Refund'')"
proof -
  let ?D = "webhook_dispatch (\<lambda>_. []) env_defaults sink_fetch"
  let ?t = "new_ticket_row ''t1'' 3 ''e1'' order_request"
  obtain s where s: "sys_reach env_defaults ?D (sys_start ([], {}) no_metrics) s"
      "tk_row ''t1'' (sy_db s) = Some ?t" "outbox_messages (sy_db s) = []"
    using order_created by metis
  obtain s' where s': "sys_reach env_defaults ?D s s'" "tk_row ''t1'' (sy_db s') = Some (write_outcome 5 degraded_outcome ?t)"
    using order_triaged [OF sys_inv_any [OF s(1) env_defaults_valid sys_start_inv] s(2) _ s(3)]
    by (auto simp: new_ticket_row_def)
  from lifecycle_monotone [OF env_defaults_valid s(1) s'(1) s(2)] s'
  have "tk_subject (write_outcome 5 degraded_outcome ?t) = tk_subject ?t" by simp
  with s s' show ?thesis
    by (intro exI conjI) (assumption | simp add: outcome_status new_ticket_row_def order_request_def)+
qed

theorem triage_reaches_webhook_witness:
  "\<exists>s. sys_reach env_defaults (webhook_dispatch (\<lambda>_. []) env_defaults sink_fetch) (sys_start ([], {}) no_metrics) s
     \<and> (\<exists>r \<in> set (outbox_messages (sy_db s)). ob_dedupKey r = effect_key ''t1'' SIDE_EFFECT_TRIAGED)"
proof -
  let ?D = "webhook_dispatch (\<lambda>_. []) env_defaults sink_fetch"
  let ?t = "new_ticket_row ''t1'' 3 ''e1'' order_request"
  obtain s where s: "sys_reach env_defaults ?D (sys_start ([], {}) no_metrics) s"
      "tk_row ''t1'' (sy_db s) = Some ?t" "outbox_messages (sy_db s) = []"
    using order_created by metis
  obtain s' where s': "sys_reach env_defaults ?D s s'" "tk_row ''t1'' (sy_db s') = Some (write_outcome 5 degraded_outcome ?t)"
    using order_triaged [OF sys_inv_any [OF s(1) env_defaults_valid sys_start_inv] s(2) _ s(3)]
    by (auto simp: new_ticket_row_def)
  have reach: "sys_reach env_defaults ?D (sys_start ([], {}) no_metrics) s'" by (rule sys_reach_trans [OF s'(1) s(1)])
  from triage_reaches_webhook [OF env_defaults_valid sink_fetch_ok reach s'(2)]
  show ?thesis using reach by (auto simp: outcome_status)
qed

end
