(* ===== verification/Hands.thy ===== *)
theory Hands
  imports System
begin

section \<open>Who holds an accepted ticket\<close>

text \<open>
  A ticket that is still PENDING is only triaged if something will run a job for it. Here each such ticket is
  followed from hand to hand: a live job of the queue, the handler of a failed job, a dead letter, a replay of
  one. \<open>hands_inv\<close> says that none falls between them, and every move of a ticket keeps it. BullMQ is the queue
  of \<open>Producer\<close>, known by \<open>bull_laws\<close> and \<open>jobs\<close>. \<open>Custody\<close> makes these moves steps of the whole system.
\<close>

definition pending :: "db \<Rightarrow> uuid \<Rightarrow> bool" where
  "pending d i \<longleftrightarrow> (\<exists>t. tk_row i d = Some t \<and> tk_enrichmentStatus t = ES_PENDING)"

definition off :: "'a \<Rightarrow> ('a \<times> 'b) set \<Rightarrow> ('a \<times> 'b) set" where
  "off i S = {p \<in> S. fst p \<noteq> i}"

subsection \<open>Who holds a ticket\<close>

text \<open>The part of a state custody is about.\<close>

record hands =
  ha_db :: db
  ha_jobs :: "string \<rightharpoonup> bull_job"
  ha_queued :: "(string \<times> uuid) set"
  ha_done :: "string set"
  ha_failing :: "(string \<times> job_data) set"
  ha_replaying :: "(uuid \<times> job_data) set"
  ha_alarm :: "uuid set"

definition letters :: "db \<Rightarrow> uuid \<Rightarrow> dead_letter_row list" where
  "letters d t = filter (\<lambda>r. jd_ticketId (job_of_json (dl_payload r)) = t) (dead_letters d)"

definition live :: "hands \<Rightarrow> uuid \<Rightarrow> bool" where
  "live h t \<longleftrightarrow> (\<exists>j bj. ha_jobs h j = Some bj \<and> \<not> bj_failed bj \<and> j \<notin> ha_done h \<and> jd_ticketId (bj_data bj) = t)"

definition failing :: "hands \<Rightarrow> uuid \<Rightarrow> bool" where
  "failing h t \<longleftrightarrow> (\<exists>j data. (j, data) \<in> ha_failing h \<and> jd_ticketId data = t)"

text \<open>The last dead letter of a ticket waits for an operator, or an operator's replay of it is running.\<close>

definition open_letter :: "hands \<Rightarrow> dead_letter_row \<Rightarrow> bool" where
  "open_letter h r \<longleftrightarrow> dl_status r = DL_PENDING \<or> dl_id r \<in> fst ` ha_replaying h"

definition on_letter :: "hands \<Rightarrow> uuid \<Rightarrow> bool" where
  "on_letter h t \<longleftrightarrow> letters (ha_db h) t \<noteq> [] \<and> open_letter h (last (letters (ha_db h) t))"

definition held :: "hands \<Rightarrow> uuid \<Rightarrow> bool" where
  "held h t \<longleftrightarrow> live h t \<or> t \<in> ha_alarm h \<or> failing h t \<or> on_letter h t"

text \<open>What the queue, a dead letter or an acknowledgement has ever shown of a ticket.\<close>

definition touched :: "hands \<Rightarrow> uuid \<Rightarrow> bool" where
  "touched h t \<longleftrightarrow> (\<exists>j bj. ha_jobs h j = Some bj \<and> jd_ticketId (bj_data bj) = t)
     \<or> letters (ha_db h) t \<noteq> [] \<or> (\<exists>k. (k, t) \<in> ha_queued h)"

definition job_key :: "string \<Rightarrow> string" where
  "job_key j = takeWhile (\<lambda>c. c \<noteq> CHR '':'') j"

text \<open>A payload names the ticket of its key; the key can be read back from the ids built from it.\<close>

definition data_ok :: "db \<Rightarrow> job_data \<Rightarrow> bool" where
  "data_ok d data \<longleftrightarrow> names d (jd_idempotencyKey data) (jd_ticketId data) \<and> CHR '':'' \<notin> set (jd_idempotencyKey data)"

definition job_ok :: "db \<Rightarrow> string \<Rightarrow> job_data \<Rightarrow> bool" where
  "job_ok d j data \<longleftrightarrow> data_ok d data \<and> job_key j = jd_idempotencyKey data"

definition replays :: "string \<Rightarrow> uuid \<Rightarrow> bool" where
  "replays j i \<longleftrightarrow> (\<exists>k. CHR '':'' \<notin> set k \<and> j = replay_job_id k i)"

subsection \<open>The invariant\<close>

definition jobs_ok :: "hands \<Rightarrow> bool" where
  "jobs_ok h \<longleftrightarrow> (\<forall>j bj. ha_jobs h j = Some bj \<longrightarrow> job_ok (ha_db h) j (bj_data bj)
     \<and> (\<forall>i. replays j i \<longrightarrow> i \<in> values_of dl_id (dead_letters (ha_db h))))"

definition done_ok :: "hands \<Rightarrow> bool" where
  "done_ok h \<longleftrightarrow> (\<forall>j \<in> ha_done h. \<exists>bj. ha_jobs h j = Some bj \<and> \<not> bj_failed bj
     \<and> \<not> pending (ha_db h) (jd_ticketId (bj_data bj)))"

definition failing_ok :: "hands \<Rightarrow> bool" where
  "failing_ok h \<longleftrightarrow> (\<forall>j data. (j, data) \<in> ha_failing h \<longrightarrow> job_ok (ha_db h) j data
     \<and> (\<forall>i. replays j i \<longrightarrow> i \<in> values_of dl_id (dead_letters (ha_db h)))
     \<and> (pending (ha_db h) (jd_ticketId data) \<longrightarrow>
          (\<exists>bj. ha_jobs h j = Some bj \<and> bj_failed bj \<and> bj_data bj = data)))"

definition letters_ok :: "hands \<Rightarrow> bool" where
  "letters_ok h \<longleftrightarrow> unique_by dl_id (dead_letters (ha_db h))
     \<and> (\<forall>r \<in> set (dead_letters (ha_db h)). data_ok (ha_db h) (job_of_json (dl_payload r)))
     \<and> (\<forall>i data. (i, data) \<in> ha_replaying h \<longrightarrow>
          (\<exists>r \<in> set (dead_letters (ha_db h)). dl_id r = i \<and> job_of_json (dl_payload r) = data))"

definition queued_ok :: "hands \<Rightarrow> bool" where
  "queued_ok h \<longleftrightarrow> (\<forall>k t. (k, t) \<in> ha_queued h \<longrightarrow> names (ha_db h) k t)"

text \<open>
  A replay job that failed, its handler done, has left a dead letter after the one it replays: so the last
  letter of a ticket is never the one whose replay is spent, and a second replay of it is not suppressed.
\<close>

definition beyond :: "hands \<Rightarrow> uuid \<Rightarrow> uuid \<Rightarrow> bool" where
  "beyond h t i \<longleftrightarrow> t \<in> ha_alarm h \<or> letters (ha_db h) t \<noteq> [] \<and> dl_id (last (letters (ha_db h) t)) \<noteq> i"

definition spent_ok :: "hands \<Rightarrow> bool" where
  "spent_ok h \<longleftrightarrow> (\<forall>j bj i. ha_jobs h j = Some bj \<and> bj_failed bj \<and> j \<notin> fst ` ha_failing h \<and> replays j i
       \<and> pending (ha_db h) (jd_ticketId (bj_data bj)) \<longrightarrow> beyond h (jd_ticketId (bj_data bj)) i)"

lemma beyond_frame [simp]:
  "beyond (h\<lparr>ha_jobs := J\<rparr>) = beyond h" "beyond (h\<lparr>ha_done := E\<rparr>) = beyond h"
  "beyond (h\<lparr>ha_failing := F\<rparr>) = beyond h" "beyond (h\<lparr>ha_replaying := R\<rparr>) = beyond h"
  "beyond (h\<lparr>ha_queued := A\<rparr>) = beyond h"
  by (simp_all add: beyond_def fun_eq_iff)

lemma spent_okI:
  assumes "\<And>j bj i. ha_jobs h j = Some bj \<Longrightarrow> bj_failed bj \<Longrightarrow> j \<notin> fst ` ha_failing h \<Longrightarrow> replays j i \<Longrightarrow>
    pending (ha_db h) (jd_ticketId (bj_data bj)) \<Longrightarrow> beyond h (jd_ticketId (bj_data bj)) i"
  shows "spent_ok h"
  using assms unfolding spent_ok_def by blast

lemma spent_okD:
  assumes "spent_ok h" and "ha_jobs h j = Some bj" "bj_failed bj" "j \<notin> fst ` ha_failing h" "replays j i"
    and "pending (ha_db h) (jd_ticketId (bj_data bj))"
  shows "beyond h (jd_ticketId (bj_data bj)) i"
  using assms unfolding spent_ok_def by blast

definition held_ok :: "hands \<Rightarrow> bool" where
  "held_ok h \<longleftrightarrow> (\<forall>t. pending (ha_db h) t \<and> touched h t \<longrightarrow> held h t)"

definition hands_inv :: "hands \<Rightarrow> bool" where
  "hands_inv h \<longleftrightarrow> jobs_ok h \<and> done_ok h \<and> failing_ok h \<and> letters_ok h \<and> queued_ok h \<and> spent_ok h \<and> held_ok h"

lemmas custody_defs = hands_inv_def jobs_ok_def done_ok_def failing_ok_def letters_ok_def queued_ok_def
  spent_ok_def held_ok_def

lemma liveI: "ha_jobs h j = Some bj \<Longrightarrow> \<not> bj_failed bj \<Longrightarrow> j \<notin> ha_done h \<Longrightarrow> jd_ticketId (bj_data bj) = t \<Longrightarrow> live h t"
  unfolding live_def by blast

lemma live_move:
  assumes "live h t"
    and "\<And>j bj. ha_jobs h j = Some bj \<Longrightarrow> \<not> bj_failed bj \<Longrightarrow> j \<notin> ha_done h \<Longrightarrow> jd_ticketId (bj_data bj) = t \<Longrightarrow>
      ha_jobs h' j = Some bj \<and> j \<notin> ha_done h'"
  shows "live h' t"
  using assms unfolding live_def by blast

lemma failing_frame [simp]:
  "failing (h\<lparr>ha_jobs := J\<rparr>) = failing h" "failing (h\<lparr>ha_done := E\<rparr>) = failing h" "failing (h\<lparr>ha_db := d\<rparr>) = failing h"
  "failing (h\<lparr>ha_replaying := R\<rparr>) = failing h" "failing (h\<lparr>ha_queued := A\<rparr>) = failing h"
  "failing (h\<lparr>ha_alarm := X\<rparr>) = failing h"
  by (simp_all add: failing_def fun_eq_iff)

lemma live_frame [simp]:
  "live (h\<lparr>ha_failing := F\<rparr>) = live h" "live (h\<lparr>ha_db := d\<rparr>) = live h" "live (h\<lparr>ha_replaying := R\<rparr>) = live h"
  "live (h\<lparr>ha_queued := A\<rparr>) = live h" "live (h\<lparr>ha_alarm := X\<rparr>) = live h"
  by (simp_all add: live_def fun_eq_iff)

lemma on_letter_frame [simp]:
  "on_letter (h\<lparr>ha_failing := F\<rparr>) = on_letter h" "on_letter (h\<lparr>ha_jobs := J\<rparr>) = on_letter h"
  "on_letter (h\<lparr>ha_done := E\<rparr>) = on_letter h" "on_letter (h\<lparr>ha_queued := A\<rparr>) = on_letter h"
  "on_letter (h\<lparr>ha_alarm := X\<rparr>) = on_letter h"
  by (simp_all add: on_letter_def open_letter_def fun_eq_iff)

lemma same_ticket: "data_ok d a \<Longrightarrow> data_ok d b \<Longrightarrow> jd_idempotencyKey a = jd_idempotencyKey b \<Longrightarrow>
    jd_ticketId a = jd_ticketId b"
  by (auto simp: data_ok_def dest: names_unique)

lemma job_same_ticket: "job_ok d j a \<Longrightarrow> job_ok d j b \<Longrightarrow> jd_ticketId a = jd_ticketId b"
  by (auto simp: job_ok_def intro: same_ticket)

lemma touched_named:
  assumes "hands_inv h" and "touched h t"
  shows "\<exists>k. names (ha_db h) k t"
  using assms(2) unfolding touched_def
proof (elim disjE exE conjE)
  fix j bj assume "ha_jobs h j = Some bj" "jd_ticketId (bj_data bj) = t"
  with assms(1) show ?thesis by (auto simp: hands_inv_def jobs_ok_def job_ok_def data_ok_def)
next
  assume "letters (ha_db h) t \<noteq> []"
  then obtain r where "r \<in> set (dead_letters (ha_db h))" "jd_ticketId (job_of_json (dl_payload r)) = t"
    by (auto simp: letters_def filter_empty_conv)
  with assms(1) show ?thesis by (auto simp: hands_inv_def letters_ok_def data_ok_def)
next
  fix k assume "(k, t) \<in> ha_queued h"
  with assms(1) show ?thesis by (auto simp: hands_inv_def queued_ok_def)
qed

subsection \<open>Moves\<close>

text \<open>The ledger and the tickets move on; the dead letters stay.\<close>

lemma hands_db:
  assumes inv: "hands_inv h" and dead: "dead_letters d = dead_letters (ha_db h)"
    and names: "\<And>k t. names (ha_db h) k t \<Longrightarrow> names d k t"
    and pend: "\<And>k t. names (ha_db h) k t \<Longrightarrow> pending d t \<Longrightarrow> pending (ha_db h) t"
  shows "hands_inv (h\<lparr>ha_db := d\<rparr>)"
proof -
  let ?h = "h\<lparr>ha_db := d\<rparr>"
  have data: "data_ok (ha_db h) x \<Longrightarrow> data_ok d x" for x using names by (auto simp: data_ok_def)
  then have job: "job_ok (ha_db h) j x \<Longrightarrow> job_ok d j x" for j x by (auto simp: job_ok_def)
  have older: "data_ok (ha_db h) x \<Longrightarrow> pending d (jd_ticketId x) \<Longrightarrow> pending (ha_db h) (jd_ticketId x)" for x
    using pend by (auto simp: data_ok_def)
  then have jback: "job_ok (ha_db h) j x \<Longrightarrow> pending d (jd_ticketId x) \<Longrightarrow> pending (ha_db h) (jd_ticketId x)" for j x
    by (auto simp: job_ok_def)
  have let_same: "letters d t = letters (ha_db h) t" for t by (simp add: letters_def dead)
  note parts = inv [unfolded hands_inv_def]
  then have spent: "spent_ok h" by blast
  have jobs: "jobs_ok ?h" using parts job by (simp add: jobs_ok_def dead)
  have "done_ok ?h"
    unfolding done_ok_def
  proof
    fix j assume "j \<in> ha_done ?h"
    with parts obtain bj where bj: "ha_jobs h j = Some bj" "\<not> bj_failed bj"
        "\<not> pending (ha_db h) (jd_ticketId (bj_data bj))" by (auto simp: done_ok_def)
    with parts have "job_ok (ha_db h) j (bj_data bj)" by (simp add: jobs_ok_def)
    with bj jback show "\<exists>bj. ha_jobs ?h j = Some bj \<and> \<not> bj_failed bj \<and> \<not> pending (ha_db ?h) (jd_ticketId (bj_data bj))"
      by auto
  qed
  moreover have "failing_ok ?h"
    unfolding failing_ok_def
  proof (intro allI impI)
    fix j x assume "(j, x) \<in> ha_failing ?h"
    then have m: "(j, x) \<in> ha_failing h" by simp
    with parts have j: "job_ok (ha_db h) j x" unfolding failing_ok_def by blast
    from m parts have "\<forall>i. replays j i \<longrightarrow> i \<in> values_of dl_id (dead_letters (ha_db h))"
      and "pending (ha_db h) (jd_ticketId x) \<longrightarrow> (\<exists>bj. ha_jobs h j = Some bj \<and> bj_failed bj \<and> bj_data bj = x)"
      unfolding failing_ok_def by blast+
    with j job jback show "job_ok (ha_db ?h) j x \<and> (\<forall>i. replays j i \<longrightarrow> i \<in> values_of dl_id (dead_letters (ha_db ?h)))
      \<and> (pending (ha_db ?h) (jd_ticketId x) \<longrightarrow> (\<exists>bj. ha_jobs ?h j = Some bj \<and> bj_failed bj \<and> bj_data bj = x))"
      by (simp add: dead)
  qed
  moreover have "letters_ok ?h" using parts data by (simp add: letters_ok_def dead)
  moreover have "queued_ok ?h" using parts names by (simp add: queued_ok_def)
  moreover have "spent_ok ?h"
    unfolding spent_ok_def
  proof (intro allI impI)
    fix j bj i
    assume a: "ha_jobs ?h j = Some bj \<and> bj_failed bj \<and> j \<notin> fst ` ha_failing ?h \<and> replays j i
       \<and> pending (ha_db ?h) (jd_ticketId (bj_data bj))"
    with parts have "job_ok (ha_db h) j (bj_data bj)" by (simp add: jobs_ok_def)
    with a jback have "pending (ha_db h) (jd_ticketId (bj_data bj))" by auto
    with a parts have "beyond h (jd_ticketId (bj_data bj)) i" unfolding spent_ok_def by auto
    then show "beyond ?h (jd_ticketId (bj_data bj)) i" by (simp add: beyond_def let_same)
  qed
  moreover have "held_ok ?h"
    unfolding held_ok_def
  proof (intro allI impI)
    fix t assume a: "pending (ha_db ?h) t \<and> touched ?h t"
    then have t: "touched h t" by (simp add: touched_def let_same)
    with touched_named [OF inv] pend a have "pending (ha_db h) t" by auto
    with t parts have "held h t" by (simp add: held_ok_def)
    then show "held ?h t" by (simp add: held_def on_letter_def open_letter_def let_same)
  qed
  ultimately show ?thesis using jobs by (simp add: hands_inv_def)
qed

text \<open>A job is added under an id that was free.\<close>

lemma hands_add:
  assumes inv: "hands_inv h" and free: "ha_jobs h j = None" and new: "bj_data bj = data" "\<not> bj_failed bj"
    and ok: "job_ok (ha_db h) j data"
    and named: "\<And>i. replays j i \<Longrightarrow> i \<in> values_of dl_id (dead_letters (ha_db h))"
  shows "hands_inv (h\<lparr>ha_jobs := (ha_jobs h)(j \<mapsto> bj)\<rparr>)" and "live (h\<lparr>ha_jobs := (ha_jobs h)(j \<mapsto> bj)\<rparr>) (jd_ticketId data)"
proof -
  let ?h = "h\<lparr>ha_jobs := (ha_jobs h)(j \<mapsto> bj)\<rparr>"
  note parts = inv [unfolded hands_inv_def]
  then have spent: "spent_ok h" by blast
  have fresh: "j \<notin> ha_done h" using parts free by (force simp: done_ok_def)
  then show live: "live ?h (jd_ticketId data)" using new unfolding live_def by (intro exI [of _ j]) auto
  have "jobs_ok ?h" using parts ok named new by (simp add: jobs_ok_def)
  moreover have "done_ok ?h" using parts free by (force simp: done_ok_def)
  moreover have "failing_ok ?h" using parts free by (force simp: failing_ok_def)
  moreover have "letters_ok ?h" "queued_ok ?h" using parts by (simp_all add: letters_ok_def queued_ok_def)
  moreover have "spent_ok ?h" by (rule spent_okI) (use spent_okD [OF spent] new in \<open>auto split: if_splits\<close>)
  moreover have "held_ok ?h"
    unfolding held_ok_def
  proof (intro allI impI)
    fix t assume a: "pending (ha_db ?h) t \<and> touched ?h t"
    show "held ?h t"
    proof (cases "t = jd_ticketId data")
      case True
      with live show ?thesis by (simp add: held_def)
    next
      case False
      with a new have "touched h t" by (auto simp: touched_def split: if_splits)
      with a parts have "held h t" by (simp add: held_ok_def)
      moreover have "live h t \<Longrightarrow> live ?h t" by (erule live_move) (use free in auto)
      ultimately show ?thesis by (auto simp: held_def)
    qed
  qed
  ultimately show "hands_inv ?h" by (simp add: hands_inv_def)
qed

text \<open>A finished job goes: a completed one, or a failed one whose handler has returned.\<close>

lemma hands_drop:
  assumes inv: "hands_inv h" and job: "ha_jobs h j = Some bj"
    and over: "\<not> pending (ha_db h) (jd_ticketId (bj_data bj)) \<or> bj_failed bj \<and> j \<notin> fst ` ha_failing h"
  shows "hands_inv (h\<lparr>ha_jobs := (ha_jobs h)(j := None), ha_done := ha_done h - {j}\<rparr>)"
proof -
  let ?h = "h\<lparr>ha_jobs := (ha_jobs h)(j := None), ha_done := ha_done h - {j}\<rparr>"
  note parts = inv [unfolded hands_inv_def]
  then have spent: "spent_ok h" by blast
  have same: "pending (ha_db h) (jd_ticketId x) \<Longrightarrow> (j, x) \<in> ha_failing h \<Longrightarrow> False" for x
  proof -
    assume p: "pending (ha_db h) (jd_ticketId x)" and f: "(j, x) \<in> ha_failing h"
    with parts have "job_ok (ha_db h) j x" "job_ok (ha_db h) j (bj_data bj)"
      using job unfolding failing_ok_def jobs_ok_def by blast+
    then have "jd_ticketId x = jd_ticketId (bj_data bj)" by (rule job_same_ticket)
    with p f over show False by force
  qed
  have "jobs_ok ?h" using parts by (simp add: jobs_ok_def)
  moreover have "done_ok ?h" using parts by (simp add: done_ok_def)
  moreover have "failing_ok ?h"
    unfolding failing_ok_def
  proof (intro allI impI)
    fix j' x assume "(j', x) \<in> ha_failing ?h"
    then have m: "(j', x) \<in> ha_failing h" by simp
    with parts same show "job_ok (ha_db ?h) j' x
      \<and> (\<forall>i. replays j' i \<longrightarrow> i \<in> values_of dl_id (dead_letters (ha_db ?h)))
      \<and> (pending (ha_db ?h) (jd_ticketId x) \<longrightarrow> (\<exists>bj. ha_jobs ?h j' = Some bj \<and> bj_failed bj \<and> bj_data bj = x))"
      unfolding failing_ok_def by (cases "j' = j") auto
  qed
  moreover have "letters_ok ?h" "queued_ok ?h" using parts by (simp_all add: letters_ok_def queued_ok_def)
  moreover have "spent_ok ?h"
  proof (rule spent_okI)
    fix j' bj' i
    assume a: "ha_jobs ?h j' = Some bj'" "bj_failed bj'" "j' \<notin> fst ` ha_failing ?h" "replays j' i"
      "pending (ha_db ?h) (jd_ticketId (bj_data bj'))"
    then have "beyond h (jd_ticketId (bj_data bj')) i"
      by (intro spent_okD [OF spent, of j']) (auto split: if_splits)
    then show "beyond ?h (jd_ticketId (bj_data bj')) i" by simp
  qed
  moreover have "held_ok ?h"
    unfolding held_ok_def
  proof (intro allI impI)
    fix t assume a: "pending (ha_db ?h) t \<and> touched ?h t"
    then have "touched h t" by (auto simp: touched_def split: if_splits)
    with a parts have "held h t" by (simp add: held_ok_def)
    moreover have "live h t \<Longrightarrow> live ?h t" by (erule live_move) (use a job over in auto)
    ultimately show "held ?h t" by (auto simp: held_def)
  qed
  ultimately show ?thesis by (simp add: hands_inv_def)
qed

lemma hands_done:
  assumes inv: "hands_inv h" and job: "ha_jobs h j = Some bj" "\<not> bj_failed bj"
    and over: "\<not> pending (ha_db h) (jd_ticketId (bj_data bj))"
  shows "hands_inv (h\<lparr>ha_done := insert j (ha_done h)\<rparr>)"
proof -
  let ?h = "h\<lparr>ha_done := insert j (ha_done h)\<rparr>"
  note parts = inv [unfolded hands_inv_def]
  then have spent: "spent_ok h" by blast
  have "done_ok ?h" using parts job over by (auto simp: done_ok_def)
  moreover have "held_ok ?h"
    unfolding held_ok_def
  proof (intro allI impI)
    fix t assume a: "pending (ha_db ?h) t \<and> touched ?h t"
    then have "held h t" using parts by (simp add: held_ok_def touched_def)
    moreover have "live h t \<Longrightarrow> live ?h t" by (erule live_move) (use a job over in auto)
    ultimately show "held ?h t" by (auto simp: held_def)
  qed
  moreover have "jobs_ok ?h" "failing_ok ?h" using parts by (simp_all add: jobs_ok_def failing_ok_def)
  moreover have "letters_ok ?h" "queued_ok ?h" using parts by (simp_all add: letters_ok_def queued_ok_def)
  moreover have "spent_ok ?h" by (rule spent_okI) (use spent_okD [OF spent] in simp)
  ultimately show ?thesis by (simp add: hands_inv_def)
qed

text \<open>A live job fails: from here on it is with its handler.\<close>

lemma hands_fail:
  assumes inv: "hands_inv h" and job: "ha_jobs h j = Some bj" "\<not> bj_failed bj" "j \<notin> ha_done h"
  shows "hands_inv (h\<lparr>ha_jobs := (ha_jobs h)(j \<mapsto> bj\<lparr>bj_failed := True\<rparr>),
    ha_failing := insert (j, bj_data bj) (ha_failing h)\<rparr>)" (is "hands_inv ?h")
proof -
  note parts = inv [unfolded hands_inv_def]
  then have spent: "spent_ok h" by blast
  have "jobs_ok ?h" using parts job by (auto simp: jobs_ok_def)
  moreover have "done_ok ?h" using parts job by (auto simp: done_ok_def)
  moreover have "failing_ok ?h"
    unfolding failing_ok_def
  proof (intro allI impI)
    fix j' x assume m: "(j', x) \<in> ha_failing ?h"
    show "job_ok (ha_db ?h) j' x \<and> (\<forall>i. replays j' i \<longrightarrow> i \<in> values_of dl_id (dead_letters (ha_db ?h)))
      \<and> (pending (ha_db ?h) (jd_ticketId x) \<longrightarrow> (\<exists>bj. ha_jobs ?h j' = Some bj \<and> bj_failed bj \<and> bj_data bj = x))"
    proof (cases "(j', x) = (j, bj_data bj)")
      case True
      with parts job show ?thesis by (auto simp: jobs_ok_def)
    next
      case False
      with m have "(j', x) \<in> ha_failing h" by auto
      with parts have old: "job_ok (ha_db h) j' x \<and> (\<forall>i. replays j' i \<longrightarrow> i \<in> values_of dl_id (dead_letters (ha_db h)))
        \<and> (pending (ha_db h) (jd_ticketId x) \<longrightarrow> (\<exists>bj. ha_jobs h j' = Some bj \<and> bj_failed bj \<and> bj_data bj = x))"
        unfolding failing_ok_def by blast
      with job show ?thesis by (cases "j' = j") auto
    qed
  qed
  moreover have "letters_ok ?h" "queued_ok ?h" using parts by (simp_all add: letters_ok_def queued_ok_def)
  moreover have "spent_ok ?h"
  proof (rule spent_okI)
    fix j' bj' i
    assume a: "ha_jobs ?h j' = Some bj'" "bj_failed bj'" "j' \<notin> fst ` ha_failing ?h" "replays j' i"
      "pending (ha_db ?h) (jd_ticketId (bj_data bj'))"
    then have "beyond h (jd_ticketId (bj_data bj')) i"
      by (intro spent_okD [OF spent, of j']) (auto split: if_splits)
    then show "beyond ?h (jd_ticketId (bj_data bj')) i" by simp
  qed
  moreover have "held_ok ?h"
    unfolding held_ok_def
  proof (intro allI impI)
    fix t assume a: "pending (ha_db ?h) t \<and> touched ?h t"
    then have "touched h t" using job(1) by (auto simp: touched_def split: if_splits)
    with a parts have "held h t" by (simp add: held_ok_def)
    then show "held ?h t"
    proof (cases "jd_ticketId (bj_data bj) = t")
      case True
      then have "failing ?h t" by (auto simp: failing_def)
      then show ?thesis by (simp add: held_def)
    next
      case False
      with job(1) have "live h t \<Longrightarrow> live ?h t" by (elim live_move) auto
      moreover have "failing h t \<Longrightarrow> failing ?h t" by (auto simp: failing_def)
      ultimately show ?thesis using \<open>held h t\<close> by (auto simp: held_def)
    qed
  qed
  ultimately show ?thesis by (simp add: hands_inv_def)
qed

text \<open>A handler writes a dead letter, or raises the alarm, and returns.\<close>

lemma hands_letter:
  assumes inv: "hands_inv h" and d: "d = (ha_db h)\<lparr>dead_letters := dead_letters (ha_db h) @ [r]\<rparr>"
    and fresh: "dl_id r \<notin> values_of dl_id (dead_letters (ha_db h))" and data: "job_of_json (dl_payload r) = data"
    and ok: "data_ok (ha_db h) data" and pend: "dl_status r = DL_PENDING"
  shows "hands_inv (h\<lparr>ha_db := d\<rparr>)" and "on_letter (h\<lparr>ha_db := d\<rparr>) (jd_ticketId data)"
    and "i \<in> values_of dl_id (dead_letters (ha_db h)) \<Longrightarrow> beyond (h\<lparr>ha_db := d\<rparr>) (jd_ticketId data) i"
proof -
  let ?h = "h\<lparr>ha_db := d\<rparr>"
  note parts = inv [unfolded hands_inv_def]
  have lets: "letters d t = letters (ha_db h) t @ (if jd_ticketId data = t then [r] else [])" for t
    by (simp add: letters_def d data)
  have same [simp]: "pending d = pending (ha_db h)" "names d = names (ha_db h)" "data_ok d = data_ok (ha_db h)"
    "job_ok d = job_ok (ha_db h)" "dead_letters d = dead_letters (ha_db h) @ [r]"
    by (simp_all add: d pending_def names_def data_ok_def job_ok_def fun_eq_iff)
  show on: "on_letter ?h (jd_ticketId data)" by (simp add: on_letter_def open_letter_def lets pend)
  show past: "beyond ?h (jd_ticketId data) i" if "i \<in> values_of dl_id (dead_letters (ha_db h))" for i
    using that fresh by (auto simp: beyond_def lets)
  have "jobs_ok ?h" "queued_ok ?h" "done_ok ?h" using parts by (simp_all add: jobs_ok_def queued_ok_def done_ok_def)
  moreover have "failing_ok ?h" using parts by (simp add: failing_ok_def)
  moreover have "letters_ok ?h"
    using parts ok fresh data by (auto simp: letters_ok_def unique_by_snoc)
  moreover have "spent_ok ?h"
  proof (rule spent_okI)
    fix j bj i
    assume a: "ha_jobs ?h j = Some bj" "bj_failed bj" "j \<notin> fst ` ha_failing ?h" "replays j i"
      "pending (ha_db ?h) (jd_ticketId (bj_data bj))"
    then have "beyond h (jd_ticketId (bj_data bj)) i" using parts by (intro spent_okD [of h j]) auto
    moreover have "i \<in> values_of dl_id (dead_letters (ha_db h))" using parts a by (simp add: jobs_ok_def)
    ultimately show "beyond ?h (jd_ticketId (bj_data bj)) i"
      using past by (cases "jd_ticketId (bj_data bj) = jd_ticketId data") (auto simp: beyond_def lets)
  qed
  moreover have "held_ok ?h"
    unfolding held_ok_def
  proof (intro allI impI)
    fix t assume a: "pending (ha_db ?h) t \<and> touched ?h t"
    show "held ?h t"
    proof (cases "t = jd_ticketId data")
      case True
      with on show ?thesis by (simp add: held_def)
    next
      case False
      with a have "touched h t" "pending (ha_db h) t" by (simp_all add: touched_def lets)
      with parts have "held h t" by (simp add: held_ok_def)
      with False show ?thesis by (simp add: held_def on_letter_def open_letter_def lets)
    qed
  qed
  ultimately show "hands_inv ?h" by (simp add: hands_inv_def)
qed

lemma hands_alarm:
  assumes inv: "hands_inv h"
  shows "hands_inv (h\<lparr>ha_alarm := insert t (ha_alarm h)\<rparr>)"
proof -
  let ?h = "h\<lparr>ha_alarm := insert t (ha_alarm h)\<rparr>"
  note parts = inv [unfolded hands_inv_def]
  have "spent_ok ?h"
  proof (rule spent_okI)
    fix j bj i
    assume "ha_jobs ?h j = Some bj" "bj_failed bj" "j \<notin> fst ` ha_failing ?h" "replays j i"
      "pending (ha_db ?h) (jd_ticketId (bj_data bj))"
    then have "beyond h (jd_ticketId (bj_data bj)) i" using parts by (intro spent_okD [of h j]) auto
    then show "beyond ?h (jd_ticketId (bj_data bj)) i" by (auto simp: beyond_def)
  qed
  moreover have "held_ok ?h"
    using parts by (auto simp: held_ok_def touched_def held_def)
  ultimately show ?thesis
    using parts by (simp add: hands_inv_def jobs_ok_def done_ok_def failing_ok_def letters_ok_def queued_ok_def)
qed

lemma hands_handled:
  assumes inv: "hands_inv h" and f: "(j, data) \<in> ha_failing h"
    and passed: "pending (ha_db h) (jd_ticketId data) \<Longrightarrow>
      held (h\<lparr>ha_failing := ha_failing h - {(j, data)}\<rparr>) (jd_ticketId data)
      \<and> (\<forall>i. replays j i \<longrightarrow> beyond h (jd_ticketId data) i)"
  shows "hands_inv (h\<lparr>ha_failing := ha_failing h - {(j, data)}\<rparr>)"
proof -
  let ?h = "h\<lparr>ha_failing := ha_failing h - {(j, data)}\<rparr>"
  note parts = inv [unfolded hands_inv_def]
  have ok: "job_ok (ha_db h) j data" using parts f unfolding failing_ok_def by blast
  have "failing_ok ?h" using parts unfolding failing_ok_def by auto
  moreover have "spent_ok ?h"
  proof (rule spent_okI)
    fix j' bj i
    assume a: "ha_jobs ?h j' = Some bj" "bj_failed bj" "j' \<notin> fst ` ha_failing ?h" "replays j' i"
      "pending (ha_db ?h) (jd_ticketId (bj_data bj))"
    show "beyond ?h (jd_ticketId (bj_data bj)) i"
    proof (cases "j' \<in> fst ` ha_failing h")
      case False
      with a parts have "beyond h (jd_ticketId (bj_data bj)) i" by (intro spent_okD [of h j']) auto
      then show ?thesis by simp
    next
      case True
      with a(3) have j: "j' = j" by force
      with a parts have "job_ok (ha_db h) j (bj_data bj)" by (simp add: jobs_ok_def)
      from job_same_ticket [OF this ok] have "jd_ticketId (bj_data bj) = jd_ticketId data" .
      with passed a j show ?thesis by simp
    qed
  qed
  moreover have "held_ok ?h"
    unfolding held_ok_def
  proof (intro allI impI)
    fix t assume a: "pending (ha_db ?h) t \<and> touched ?h t"
    show "held ?h t"
    proof (cases "t = jd_ticketId data")
      case True
      with a passed show ?thesis by simp
    next
      case False
      from a parts have "held h t" by (simp add: held_ok_def touched_def)
      moreover have "failing h t \<Longrightarrow> failing ?h t" using False by (auto simp: failing_def)
      ultimately show ?thesis by (auto simp: held_def)
    qed
  qed
  ultimately show ?thesis
    using parts by (simp add: hands_inv_def jobs_ok_def done_ok_def letters_ok_def queued_ok_def)
qed

text \<open>A replay flips its dead letter, or flips it back; and it hands the letter's ticket to its job.\<close>

lemma hands_redeal:
  assumes inv: "hands_inv h" and d: "d = (ha_db h)\<lparr>dead_letters := map g (dead_letters (ha_db h))\<rparr>"
    and keep: "\<And>r. dl_id (g r) = dl_id r" "\<And>r. dl_payload (g r) = dl_payload r"
    and open': "\<And>r. r \<in> set (dead_letters (ha_db h)) \<Longrightarrow> open_letter h r \<Longrightarrow>
      open_letter (h\<lparr>ha_db := d, ha_replaying := R\<rparr>) (g r)"
    and R: "\<And>i data. (i, data) \<in> R \<Longrightarrow>
      \<exists>r \<in> set (dead_letters (ha_db h)). dl_id r = i \<and> job_of_json (dl_payload r) = data"
  shows "hands_inv (h\<lparr>ha_db := d, ha_replaying := R\<rparr>)"
proof -
  let ?h = "h\<lparr>ha_db := d, ha_replaying := R\<rparr>"
  note parts = inv [unfolded hands_inv_def]
  have lets: "letters d t = map g (letters (ha_db h) t)" for t
    by (simp add: letters_def d filter_map comp_def keep)
  have same [simp]: "pending d = pending (ha_db h)" "names d = names (ha_db h)" "data_ok d = data_ok (ha_db h)"
    "job_ok d = job_ok (ha_db h)" "dead_letters d = map g (dead_letters (ha_db h))"
    "values_of dl_id (map g (dead_letters (ha_db h))) = values_of dl_id (dead_letters (ha_db h))"
    by (simp_all add: d pending_def names_def data_ok_def job_ok_def fun_eq_iff values_of_def image_image keep)
  have "jobs_ok ?h" "queued_ok ?h" "done_ok ?h" using parts by (simp_all add: jobs_ok_def queued_ok_def done_ok_def)
  moreover have "failing_ok ?h" using parts by (simp add: failing_ok_def)
  moreover have "letters_ok ?h"
  proof -
    have "unique_by dl_id (map g (dead_letters (ha_db h)))"
      using parts by (simp add: letters_ok_def unique_by_def comp_def keep)
    moreover have "\<exists>r \<in> set (map g (dead_letters (ha_db h))). dl_id r = i \<and> job_of_json (dl_payload r) = data"
      if "(i, data) \<in> R" for i data
      using R [OF that] keep by auto
    ultimately show ?thesis using parts by (simp add: letters_ok_def keep)
  qed
  moreover have "spent_ok ?h"
  proof (rule spent_okI)
    fix j bj i
    assume "ha_jobs ?h j = Some bj" "bj_failed bj" "j \<notin> fst ` ha_failing ?h" "replays j i"
      "pending (ha_db ?h) (jd_ticketId (bj_data bj))"
    then have "beyond h (jd_ticketId (bj_data bj)) i" using parts by (intro spent_okD [of h j]) auto
    then show "beyond ?h (jd_ticketId (bj_data bj)) i" by (auto simp: beyond_def lets last_map keep)
  qed
  moreover have "held_ok ?h"
    unfolding held_ok_def
  proof (intro allI impI)
    fix t assume a: "pending (ha_db ?h) t \<and> touched ?h t"
    then have "touched h t" "pending (ha_db h) t" by (simp_all add: touched_def lets)
    with parts have "held h t" by (simp add: held_ok_def)
    moreover have "on_letter ?h t" if o: "on_letter h t"
    proof -
      from o have ne: "letters (ha_db h) t \<noteq> []" by (simp add: on_letter_def)
      then have "last (letters (ha_db h) t) \<in> set (letters (ha_db h) t)" by simp
      then have "last (letters (ha_db h) t) \<in> set (dead_letters (ha_db h))" by (simp add: letters_def)
      from open' [OF this] o ne show ?thesis by (simp add: on_letter_def lets last_map)
    qed
    ultimately show "held ?h t" by (auto simp: held_def)
  qed
  ultimately show ?thesis by (simp add: hands_inv_def)
qed

lemma hands_replayed:
  assumes inv: "hands_inv h"
    and passed: "\<And>t. pending (ha_db h) t \<Longrightarrow> letters (ha_db h) t \<noteq> [] \<Longrightarrow> dl_id (last (letters (ha_db h) t)) = i \<Longrightarrow>
      held (h\<lparr>ha_replaying := off i (ha_replaying h)\<rparr>) t"
  shows "hands_inv (h\<lparr>ha_replaying := off i (ha_replaying h)\<rparr>)"
proof -
  let ?h = "h\<lparr>ha_replaying := off i (ha_replaying h)\<rparr>"
  note parts = inv [unfolded hands_inv_def]
  then have spent: "spent_ok h" by blast
  have "letters_ok ?h" using parts by (auto simp: letters_ok_def off_def)
  moreover have "held_ok ?h"
    unfolding held_ok_def
  proof (intro allI impI)
    fix t assume a: "pending (ha_db ?h) t \<and> touched ?h t"
    then have h: "held h t" using parts by (simp add: held_ok_def touched_def)
    have "on_letter ?h t" if o: "on_letter h t" and ne: "dl_id (last (letters (ha_db h) t)) \<noteq> i"
      using o ne by (force simp: on_letter_def open_letter_def off_def)
    moreover have "held ?h t" if "on_letter h t" "dl_id (last (letters (ha_db h) t)) = i"
      using passed [of t] that a by (simp add: on_letter_def)
    ultimately show "held ?h t" using h by (auto simp: held_def)
  qed
  moreover have "spent_ok ?h" by (rule spent_okI) (use spent_okD [OF spent] in simp)
  ultimately show ?thesis
    using parts by (simp add: hands_inv_def jobs_ok_def done_ok_def failing_ok_def queued_ok_def)
qed

lemma hands_ack:
  assumes inv: "hands_inv h" and n: "names (ha_db h) k t" and held: "pending (ha_db h) t \<Longrightarrow> held h t"
  shows "hands_inv (h\<lparr>ha_queued := insert (k, t) (ha_queued h)\<rparr>)"
proof -
  let ?h = "h\<lparr>ha_queued := insert (k, t) (ha_queued h)\<rparr>"
  note parts = inv [unfolded hands_inv_def]
  then have spent: "spent_ok h" by blast
  have "queued_ok ?h" using parts n by (auto simp: queued_ok_def)
  moreover have "held_ok ?h"
    unfolding held_ok_def
  proof (intro allI impI)
    fix t' assume a: "pending (ha_db ?h) t' \<and> touched ?h t'"
    then have "held h t'" using parts held by (cases "t' = t") (auto simp: held_ok_def touched_def)
    then show "held ?h t'" by (simp add: held_def)
  qed
  moreover have "spent_ok ?h" by (rule spent_okI) (use spent_okD [OF spent] in simp)
  ultimately show ?thesis
    using parts by (simp add: hands_inv_def jobs_ok_def done_ok_def failing_ok_def letters_ok_def)
qed

text \<open>The queue's operations are such moves.\<close>

lemma hands_bull_add:
  assumes laws: "bull_laws Q jobs" and run: "bull_add Q nm data opts q = (res, q')"
    and inv: "hands_inv h" and q: "ha_jobs h = jobs q" and ok: "job_ok (ha_db h) (jo_jobId opts) data"
    and named: "\<And>i. replays (jo_jobId opts) i \<Longrightarrow> i \<in> values_of dl_id (dead_letters (ha_db h))"
  shows "hands_inv (h\<lparr>ha_jobs := jobs q'\<rparr>)" and "res = Inr i \<Longrightarrow> \<exists>bj. jobs q' (jo_jobId opts) = Some bj"
proof -
  have cases: "jobs q' = jobs q
    \<or> jobs q (jo_jobId opts) = None \<and> jobs q' = (jobs q)(jo_jobId opts \<mapsto> new_job data opts)"
  proof (cases res)
    case (Inl e)
    with run have "bull_add Q nm data opts q = (Inl e, q')" by simp
    from bull_add_err [OF laws this] show ?thesis .
  next
    case (Inr i)
    with run have "bull_add Q nm data opts q = (Inr i, q')" by simp
    from bull_add_ok [OF laws this] show ?thesis by (auto split: if_splits)
  qed
  then show "hands_inv (h\<lparr>ha_jobs := jobs q'\<rparr>)"
  proof (elim disjE conjE)
    assume "jobs q' = jobs q"
    then have "h\<lparr>ha_jobs := jobs q'\<rparr> = h" using q by simp
    with inv show ?thesis by simp
  next
    assume new: "jobs q (jo_jobId opts) = None" "jobs q' = (jobs q)(jo_jobId opts \<mapsto> new_job data opts)"
    have "hands_inv (h\<lparr>ha_jobs := (ha_jobs h)(jo_jobId opts \<mapsto> new_job data opts)\<rparr>)"
      by (rule hands_add [OF inv _ _ _ ok named]) (use new q in \<open>simp_all add: new_job_def\<close>)
    with new q show ?thesis by simp
  qed
  show "\<exists>bj. jobs q' (jo_jobId opts) = Some bj" if "res = Inr i"
  proof -
    from that run have "bull_add Q nm data opts q = (Inr i, q')" by simp
    from bull_add_ok [OF laws this] show ?thesis by (cases "jobs q (jo_jobId opts)") auto
  qed
qed

lemma job_key_suffix: "CHR '':'' \<notin> set k \<Longrightarrow> job_key k = k" "CHR '':'' \<notin> set k \<Longrightarrow> job_key (k @ CHR '':'' # x) = k"
  by (simp_all add: job_key_def takeWhile_tail)
     (auto simp: takeWhile_eq_all_conv)

lemma replays_own: "CHR '':'' \<notin> set k \<Longrightarrow> replays (replay_job_id k i) i' \<longleftrightarrow> i' = i"
  by (auto simp: replays_def replay_job_id_def sep_append_inject)

lemma not_replays:
  "CHR '':'' \<notin> set k \<Longrightarrow> \<not> replays k i" "CHR '':'' \<notin> set k \<Longrightarrow> \<not> replays (upgrade_job_id show_int k n) i"
  "CHR '':'' \<notin> set k \<Longrightarrow> \<not> replays (reconcile_job_id k) i"
  by (auto simp: replays_def replay_job_id_def upgrade_job_id_def reconcile_job_id_def sep_append_inject)

lemma hands_upgrade:
  assumes laws: "bull_laws Q jobs" and run: "scheduleUpgrade show_int r Q env (bj_data bj) q = (res, q')"
    and inv: "hands_inv h" and q: "ha_jobs h = jobs q" and job: "jobs q j = Some bj"
  shows "hands_inv (h\<lparr>ha_jobs := jobs q'\<rparr>)"
proof -
  define data where "data = bj_data bj"
  have ok: "data_ok (ha_db h) data"
    using inv q job by (auto simp: hands_inv_def jobs_ok_def job_ok_def data_def)
  then have free: "CHR '':'' \<notin> set (jd_idempotencyKey data)" by (simp add: data_ok_def)
  let ?n = "(case jd_upgradeAttempt data of Some n \<Rightarrow> n | None \<Rightarrow> 0) + 1"
  let ?data = "data\<lparr>jd_upgradeAttempt := Some ?n\<rparr>"
  have ok': "data_ok (ha_db h) ?data" using ok by (simp add: data_ok_def)
  show ?thesis
  proof (cases "ENRICHMENT_UPGRADE_MAX_ATTEMPTS env < ?n")
    case True
    with run have "q' = q" by (simp add: scheduleUpgrade_def data_def Let_def)
    then have "h\<lparr>ha_jobs := jobs q'\<rparr> = h" using q by simp
    with inv show ?thesis by simp
  next
    case False
    let ?delay = "backoffWithJitter r ?n (ENRICHMENT_UPGRADE_BACKOFF_MS env) None"
    let ?opts = "(standard_opts env (upgrade_job_id show_int (jd_idempotencyKey data) ?n))\<lparr>jo_delay := Some ?delay\<rparr>"
    from False run obtain a where add: "bull_add Q ENRICH_TICKET_JOB ?data ?opts q = (a, q')"
      by (auto simp: scheduleUpgrade_def data_def Let_def enqueueUpgrade_def split: sum.splits prod.splits)
    have id: "jo_jobId ?opts = upgrade_job_id show_int (jd_idempotencyKey data) ?n" by (simp add: standard_opts_def)
    have "job_ok (ha_db h) (jo_jobId ?opts) ?data"
      unfolding id using ok' free by (simp add: job_ok_def upgrade_job_id_def job_key_suffix)
    moreover have "\<not> replays (jo_jobId ?opts) i" for i unfolding id by (rule not_replays(2) [OF free])
    ultimately show ?thesis using hands_bull_add(1) [OF laws add inv q] by blast
  qed
qed

lemma clear_failed_jobs:
  assumes laws: "bull_laws Q jobs" and run: "clear_failed Q j q = (out, q')"
  shows "jobs q' = jobs q \<or> (\<exists>bj. jobs q j = Some bj \<and> bj_failed bj \<and> jobs q' = (jobs q)(j := None))"
proof (cases "\<exists>b r. bull_getJob Q j q = Inr (Some b) \<and> bull_isFailed Q b q = Inr True")
  case False
  with run have "q' = q" by (auto simp: clear_failed_def split: sum.splits option.splits bool.splits)
  then show ?thesis by simp
next
  case True
  then obtain b where got: "bull_getJob Q j q = Inr (Some b)" and f: "bull_isFailed Q b q = Inr True" by blast
  from bull_getJob_ok [OF laws got] obtain bj where bj: "b = j" "jobs q j = Some bj" by (auto split: if_splits)
  have failed: "bj_failed bj" using bull_isFailed_ok [OF laws f] bj by simp
  obtain a q2 where rem: "bull_remove Q j q = (a, q2)" by (rule prod.exhaust)
  with run got f bj have "q' = q2" by (auto simp: clear_failed_def split: sum.splits)
  moreover have "jobs q2 = jobs q \<or> jobs q2 = (jobs q)(j := None)"
    using rem bull_remove_ok [OF laws, of j q] bull_remove_err [OF laws, of j q] by (cases a) auto
  ultimately show ?thesis using bj failed by auto
qed

lemma hands_reconcile:
  assumes laws: "bull_laws Q jobs" and run: "enqueueReconcile Q env data q = (res, q')"
    and inv: "hands_inv h" and q: "ha_jobs h = jobs q" and ok: "data_ok (ha_db h) data"
    and over: "\<not> pending (ha_db h) (jd_ticketId data)"
  shows "hands_inv (h\<lparr>ha_jobs := jobs q'\<rparr>)"
proof -
  let ?j = "reconcile_job_id (jd_idempotencyKey data)"
  have free: "CHR '':'' \<notin> set (jd_idempotencyKey data)" using ok by (simp add: data_ok_def)
  have job: "job_ok (ha_db h) ?j data" using ok free by (simp add: job_ok_def reconcile_job_id_def job_key_suffix)
  obtain out q1 where clear: "clear_failed Q ?j q = (out, q1)" by (rule prod.exhaust)
  have q1: "jobs q1 = jobs q \<or> (\<exists>bj. jobs q ?j = Some bj \<and> bj_failed bj \<and> jobs q1 = (jobs q)(?j := None))"
    by (rule clear_failed_jobs [OF laws clear])
  have inv1: "hands_inv (h\<lparr>ha_jobs := jobs q1\<rparr>)"
    using q1
  proof (elim disjE exE conjE)
    assume "jobs q1 = jobs q"
    then have "h\<lparr>ha_jobs := jobs q1\<rparr> = h" using q by simp
    with inv show ?thesis by simp
  next
    fix bj assume bj: "jobs q ?j = Some bj" "bj_failed bj" "jobs q1 = (jobs q)(?j := None)"
    have "job_ok (ha_db h) ?j (bj_data bj)" using inv q bj(1) by (simp add: hands_inv_def jobs_ok_def)
    from job_same_ticket [OF this job] over have "\<not> pending (ha_db h) (jd_ticketId (bj_data bj))" by simp
    then have "hands_inv (h\<lparr>ha_jobs := (ha_jobs h)(?j := None), ha_done := ha_done h - {?j}\<rparr>)"
      using hands_drop [OF inv, of ?j bj] bj q by simp
    moreover have "?j \<notin> ha_done h" using inv q bj by (auto simp: hands_inv_def done_ok_def)
    then have "h\<lparr>ha_jobs := (ha_jobs h)(?j := None), ha_done := ha_done h - {?j}\<rparr> = h\<lparr>ha_jobs := jobs q1\<rparr>"
      using bj q by (cases h) simp
    ultimately show ?thesis by simp
  qed
  show ?thesis
  proof (cases "\<exists>e. out = Inl e")
    case True
    with run clear inv1 show ?thesis by (auto simp: enqueueReconcile_def Let_def)
  next
    case False
    with run clear obtain a where add: "bull_add Q ENRICH_TICKET_JOB data (reconcile_opts env ?j) q1 = (a, q')"
      by (auto simp: enqueueReconcile_def Let_def split: sum.splits prod.splits)
    have id: "jo_jobId (reconcile_opts env ?j) = ?j" by (simp add: reconcile_opts_def standard_opts_def)
    have "hands_inv ((h\<lparr>ha_jobs := jobs q1\<rparr>)\<lparr>ha_jobs := jobs q'\<rparr>)"
      by (rule hands_bull_add(1) [OF laws add inv1]) (use job not_replays(3) [OF free] in \<open>simp_all add: id\<close>)
    then show ?thesis by simp
  qed
qed

lemma replaying_row:
  assumes "hands_inv h" and "(i, data) \<in> ha_replaying h"
  shows "\<exists>r \<in> set (dead_letters (ha_db h)). dl_id r = i \<and> job_of_json (dl_payload r) = data"
  using assms unfolding hands_inv_def letters_ok_def by blast

lemma replaying_letter:
  assumes "hands_inv h" and "(i, data) \<in> ha_replaying h"
  obtains r where "r \<in> set (dead_letters (ha_db h))" "dl_id r = i" "job_of_json (dl_payload r) = data"
    "data_ok (ha_db h) data" "\<And>r'. r' \<in> set (dead_letters (ha_db h)) \<Longrightarrow> dl_id r' = i \<Longrightarrow> r' = r"
proof -
  from replaying_row [OF assms] obtain r where
    r: "r \<in> set (dead_letters (ha_db h))" "dl_id r = i" "job_of_json (dl_payload r) = data" by blast
  moreover have "data_ok (ha_db h) data" using assms(1) r by (auto simp: hands_inv_def letters_ok_def)
  moreover have "unique_by dl_id (dead_letters (ha_db h))" using assms(1) by (simp add: hands_inv_def letters_ok_def)
  then have "r' = r" if "r' \<in> set (dead_letters (ha_db h))" "dl_id r' = i" for r'
    using that r(1,2) unique_by_inj by metis
  ultimately show thesis using that by blast
qed

text \<open>A process dies: what it was handling is given up.\<close>

lemma hands_died:
  assumes inv: "hands_inv h" and sub: "F \<subseteq> ha_failing h" "R \<subseteq> ha_replaying h" "ha_alarm h \<subseteq> X"
    and failing: "\<And>j data. (j, data) \<in> ha_failing h \<Longrightarrow> (j, data) \<notin> F \<Longrightarrow> jd_ticketId data \<in> X"
    and replaying: "\<And>i data. (i, data) \<in> ha_replaying h \<Longrightarrow> (i, data) \<notin> R \<Longrightarrow> jd_ticketId data \<in> X"
  shows "hands_inv (h\<lparr>ha_failing := F, ha_replaying := R, ha_alarm := X\<rparr>)"
proof -
  let ?h = "h\<lparr>ha_failing := F, ha_replaying := R, ha_alarm := X\<rparr>"
  note parts = inv [unfolded hands_inv_def]
  have "jobs_ok ?h" "done_ok ?h" "queued_ok ?h" using parts by (simp_all add: jobs_ok_def done_ok_def queued_ok_def)
  moreover have "failing_ok ?h" "letters_ok ?h" using parts sub unfolding failing_ok_def letters_ok_def by fastforce+
  moreover have "spent_ok ?h"
  proof (rule spent_okI)
    fix j bj i
    assume a: "ha_jobs ?h j = Some bj" "bj_failed bj" "j \<notin> fst ` ha_failing ?h" "replays j i"
      "pending (ha_db ?h) (jd_ticketId (bj_data bj))"
    show "beyond ?h (jd_ticketId (bj_data bj)) i"
    proof (cases "j \<in> fst ` ha_failing h")
      case True
      then obtain x where x: "(j, x) \<in> ha_failing h" by auto
      with parts have "job_ok (ha_db h) j x" unfolding failing_ok_def by blast
      moreover have "job_ok (ha_db h) j (bj_data bj)" using parts a(1) by (simp add: jobs_ok_def)
      ultimately have "jd_ticketId x = jd_ticketId (bj_data bj)" by (rule job_same_ticket)
      moreover have "(j, x) \<notin> F" using a(3) by force
      ultimately show ?thesis using failing [OF x] by (simp add: beyond_def)
    next
      case False
      with parts a have "beyond h (jd_ticketId (bj_data bj)) i" by (intro spent_okD [of h j bj i]) simp_all
      with sub(3) show ?thesis by (auto simp: beyond_def)
    qed
  qed
  moreover have "held_ok ?h"
    unfolding held_ok_def
  proof (intro allI impI)
    fix t assume "pending (ha_db ?h) t \<and> touched ?h t"
    then have "pending (ha_db h) t \<and> touched h t" by (simp add: touched_def)
    with parts have "held h t" by (simp add: held_ok_def)
    then consider "live h t" | "t \<in> X" | "failing h t" "t \<notin> X" | "on_letter h t" "t \<notin> X"
      using sub(3) by (auto simp: held_def)
    then show "held ?h t"
    proof cases
      case 3
      then show ?thesis using failing by (force simp: held_def failing_def)
    next
      case 4
      let ?r = "last (letters (ha_db h) t)"
      from 4 have ne: "letters (ha_db h) t \<noteq> []" and op: "open_letter h ?r" by (simp_all add: on_letter_def)
      have "open_letter ?h ?r"
      proof (cases "dl_status ?r = DL_PENDING")
        case False
        with op obtain data where rep: "(dl_id ?r, data) \<in> ha_replaying h" by (auto simp: open_letter_def)
        from last_in_set [OF ne] have r: "?r \<in> set (dead_letters (ha_db h))" "jd_ticketId (job_of_json (dl_payload ?r)) = t"
          by (simp_all add: letters_def)
        from replaying_letter [OF inv rep] r(1) have "job_of_json (dl_payload ?r) = data" by auto
        with r(2) have "jd_ticketId data = t" by simp
        with replaying [OF rep] 4(2) have "(dl_id ?r, data) \<in> R" by blast
        then show ?thesis by (force simp: open_letter_def)
      qed (simp add: open_letter_def)
      with ne show ?thesis by (simp add: held_def on_letter_def open_letter_def)
    qed (simp_all add: held_def)
  qed
  ultimately show ?thesis by (simp add: hands_inv_def)
qed

lemma off_ids: "fst ` off i R = fst ` R - {i}"
  by (auto simp: off_def image_iff)

lemma hands_replay:
  assumes laws: "bull_laws Q jobs" and run: "enqueueReplay Q env data i q = (res, q')"
    and inv: "hands_inv h" and q: "ha_jobs h = jobs q" and rep: "(i, data) \<in> ha_replaying h"
  shows "hands_inv (h\<lparr>ha_jobs := jobs q', ha_replaying := (case res of Inr _ \<Rightarrow> off i (ha_replaying h) | Inl _ \<Rightarrow> ha_replaying h)\<rparr>)"
proof -
  let ?j = "replay_job_id (jd_idempotencyKey data) i" and ?data = "data\<lparr>jd_replayOf := Some i\<rparr>"
  let ?h1 = "h\<lparr>ha_jobs := jobs q'\<rparr>"
  from replaying_letter [OF inv rep] obtain r where
    r: "r \<in> set (dead_letters (ha_db h))" "dl_id r = i" "job_of_json (dl_payload r) = data" "data_ok (ha_db h) data"
      and only: "\<And>r'. r' \<in> set (dead_letters (ha_db h)) \<Longrightarrow> dl_id r' = i \<Longrightarrow> r' = r" by metis
  have free: "CHR '':'' \<notin> set (jd_idempotencyKey data)" using r(4) by (simp add: data_ok_def)
  have add: "bull_add Q ENRICH_TICKET_JOB ?data (standard_opts env ?j) q = (res, q')"
    using run by (simp add: enqueueReplay_def)
  have id: "jo_jobId (standard_opts env ?j) = ?j" by (simp add: standard_opts_def)
  have ok: "job_ok (ha_db h) (jo_jobId (standard_opts env ?j)) ?data"
    unfolding id using r(4) free by (simp add: job_ok_def data_ok_def replay_job_id_def job_key_suffix)
  have named: "i' \<in> values_of dl_id (dead_letters (ha_db h))" if "replays (jo_jobId (standard_opts env ?j)) i'" for i'
    using that r(1,2) free by (auto simp: id replays_own values_of_def)
  note inv1 = hands_bull_add(1) [OF laws add inv q ok named]
  show ?thesis
  proof (cases res)
    case (Inl e)
    with inv1 show ?thesis by simp
  next
    case (Inr a)
    from hands_bull_add(2) [OF laws add inv q ok named Inr] obtain bj where bj: "jobs q' ?j = Some bj" by (auto simp: id)
    have jok: "job_ok (ha_db h) ?j (bj_data bj)" using inv1 bj by (simp add: hands_inv_def jobs_ok_def)
    have tick: "jd_ticketId (bj_data bj) = jd_ticketId data" using job_same_ticket [OF jok ok [unfolded id]] by simp
    have "hands_inv (?h1\<lparr>ha_replaying := off i (ha_replaying ?h1)\<rparr>)"
    proof (rule hands_replayed [OF inv1])
      let ?h2 = "?h1\<lparr>ha_replaying := off i (ha_replaying ?h1)\<rparr>"
      fix t assume "pending (ha_db ?h1) t" "letters (ha_db ?h1) t \<noteq> []" "dl_id (last (letters (ha_db ?h1) t)) = i"
      then have t: "pending (ha_db h) t" "letters (ha_db h) t \<noteq> []" "dl_id (last (letters (ha_db h) t)) = i" by simp_all
      from last_in_set [OF t(2)] have "last (letters (ha_db h) t) \<in> set (dead_letters (ha_db h))"
        "jd_ticketId (job_of_json (dl_payload (last (letters (ha_db h) t)))) = t" by (simp_all add: letters_def)
      with only [OF _ t(3)] r(3) have data: "jd_ticketId data = t" by simp
      consider "\<not> bj_failed bj" "?j \<notin> ha_done h" | "?j \<in> ha_done h" | "bj_failed bj" "?j \<in> fst ` ha_failing h"
        | "bj_failed bj" "?j \<notin> fst ` ha_failing h" by blast
      then show "held ?h2 t"
      proof cases
        case 1
        then have "live ?h2 t" using bj tick data by (intro liveI [of _ ?j bj]) simp_all
        then show ?thesis by (simp add: held_def)
      next
        case 2
        then have "\<not> pending (ha_db h) t" using inv1 bj tick data by (auto simp: hands_inv_def done_ok_def)
        with t show ?thesis by simp
      next
        case 3
        then obtain x where x: "(?j, x) \<in> ha_failing h" by auto
        with inv have "job_ok (ha_db h) ?j x" unfolding hands_inv_def failing_ok_def by blast
        from job_same_ticket [OF this jok] tick data x have "failing h t" by (auto simp: failing_def)
        then show ?thesis by (simp add: held_def)
      next
        case 4
        have "spent_ok ?h1" using inv1 by (simp add: hands_inv_def)
        from spent_okD [OF this, of ?j bj i] bj 4 tick data t(1) free have "beyond h t i" by (simp add: replays_own)
        with t(3) have "t \<in> ha_alarm h" by (simp add: beyond_def)
        then show ?thesis by (simp add: held_def)
      qed
    qed
    with Inr show ?thesis by simp
  qed
qed

end
