(* ===== verification/Reconcile.thy ===== *)
theory Reconcile
  imports Job_Ids Entities Single_Flight Tickets
begin

section \<open>The reconciliation sweep (src/pipeline/reconcile.sweeper.ts)\<close>

text \<open>
  The query for tickets stuck in DEGRADED, the loop that re-drives them, and the sweep around them.
  The loop returns, beside its count, the rows whose enqueue threw, as the code logs them.
\<close>

record sweeper =
  sw_timer :: "int option"
  sw_stopped :: bool
  sw_running :: bool

definition sweeper_new :: sweeper where
  "sweeper_new = \<lparr>sw_timer = None, sw_stopped = False, sw_running = False\<rparr>"

definition reconcile_onModuleInit :: "EnvVars \<Rightarrow> sweeper \<Rightarrow> sweeper" where
  "reconcile_onModuleInit env s = s\<lparr>sw_timer := Some (RECONCILE_SWEEP_INTERVAL_MS env)\<rparr>"

definition reconcile_onModuleDestroy :: "sweeper \<Rightarrow> sweeper" where
  "reconcile_onModuleDestroy s = s\<lparr>sw_stopped := True, sw_timer := None\<rparr>"

definition reconcile_begin :: "sweeper \<Rightarrow> sweeper option" where
  "reconcile_begin s = (if sw_stopped s \<or> sw_running s then None else Some (s\<lparr>sw_running := True\<rparr>))"

definition reconcile_finally :: "sweeper \<Rightarrow> sweeper" where
  "reconcile_finally s = s\<lparr>sw_running := False\<rparr>"

interpretation reconcile_guard: single_flight reconcile_begin reconcile_finally sw_running
  by unfold_locales (auto simp: reconcile_begin_def reconcile_finally_def split: if_splits)

subsection \<open>The query\<close>

record stranded_row =
  sr_ticketId :: uuid
  sr_eventId :: uuid
  sr_key :: string

definition is_stranded :: "EnvVars \<Rightarrow> timestamp \<Rightarrow> ticket_row \<Rightarrow> bool" where
  "is_stranded env now t \<longleftrightarrow> tk_enrichmentStatus t = ES_DEGRADED
     \<and> tk_updatedAt t < now - interval_ms (RECONCILE_DEGRADED_AFTER_MS env)"

text \<open>\<open>tickets JOIN events\<close>, filtered, oldest change first, at most a batch.\<close>

definition joined :: "db \<Rightarrow> (ticket_row \<times> event_row) list" where
  "joined d = concat (map (\<lambda>t. map (\<lambda>e. (t, e)) (filter (\<lambda>e. ev_id e = tk_eventId t) (events d))) (tickets d))"

definition stranded_of :: "ticket_row \<times> event_row \<Rightarrow> stranded_row" where
  "stranded_of p = \<lparr>sr_ticketId = tk_id (fst p), sr_eventId = tk_eventId (fst p),
     sr_key = ev_idempotencyKey (snd p)\<rparr>"

definition stranded :: "EnvVars \<Rightarrow> timestamp \<Rightarrow> db \<Rightarrow> stranded_row list" where
  "stranded env now d = map stranded_of
     (take (nat (RECONCILE_BATCH_SIZE env))
       (sort_key (\<lambda>p. tk_updatedAt (fst p)) (filter (\<lambda>p. is_stranded env now (fst p)) (joined d))))"

subsection \<open>The loop and the sweep\<close>

definition reconcile_data :: "stranded_row \<Rightarrow> job_data" where
  "reconcile_data row = \<lparr>jd_idempotencyKey = sr_key row, jd_ticketId = sr_ticketId row,
     jd_eventId = sr_eventId row, jd_correlationId = None, jd_replayOf = None, jd_upgradeAttempt = None\<rparr>"

fun redrive_all ::
  "'q bull \<Rightarrow> EnvVars \<Rightarrow> stranded_row list \<Rightarrow> 'q \<Rightarrow> nat \<times> stranded_row list \<times> 'q" where
  "redrive_all Q env [] q = (0, [], q)"
| "redrive_all Q env (row # rows) q =
     (case enqueueReconcile Q env (reconcile_data row) q of
        (Inr enqueued, q1) \<Rightarrow>
          (case redrive_all Q env rows q1 of
             (redriven, failed, q2) \<Rightarrow> (if enqueued then Suc redriven else redriven, failed, q2))
      | (Inl e, q1) \<Rightarrow>
          (case redrive_all Q env rows q1 of
             (redriven, failed, q2) \<Rightarrow> (redriven, row # failed, q2)))"

text \<open>\<open>sweep\<close>: \<open>query_err\<close> is what the query throws, if it does.\<close>

definition reconcile_sweep ::
  "'q bull \<Rightarrow> EnvVars \<Rightarrow> exn option \<Rightarrow> timestamp \<Rightarrow> db \<Rightarrow> sweeper \<Rightarrow> 'q \<Rightarrow>
   nat \<times> stranded_row list \<times> sweeper \<times> 'q" where
  "reconcile_sweep Q env query_err now d s q =
     (case reconcile_begin s of
        None \<Rightarrow> (0, [], s, q)
      | Some s1 \<Rightarrow>
          (case query_err of
             Some e \<Rightarrow> (0, [], reconcile_finally s1, q)
           | None \<Rightarrow>
               (case redrive_all Q env (stranded env now d) q of
                  (redriven, failed, q') \<Rightarrow> (redriven, failed, reconcile_finally s1, q'))))"

subsection \<open>What a sweep achieves\<close>

lemma set_joined: "(t, e) \<in> set (joined d) \<longleftrightarrow> t \<in> set (tickets d) \<and> e \<in> set (events d) \<and> ev_id e = tk_eventId t"
  by (auto simp: joined_def)

lemma stranded_sound:
  assumes "row \<in> set (stranded env now d)"
  shows "\<exists>t e. t \<in> set (tickets d) \<and> e \<in> set (events d) \<and> ev_id e = tk_eventId t \<and> is_stranded env now t
    \<and> row = stranded_of (t, e)"
proof -
  from assms obtain p where "p \<in> set (take (nat (RECONCILE_BATCH_SIZE env)) (sort_key (\<lambda>p. tk_updatedAt (fst p))
      (filter (\<lambda>p. is_stranded env now (fst p)) (joined d))))" "row = stranded_of p"
    unfolding stranded_def by auto
  then have "p \<in> set (joined d)" "is_stranded env now (fst p)" "row = stranded_of p"
    by (auto dest!: in_set_takeD)
  moreover obtain t e where "p = (t, e)" by (rule prod.exhaust)
  ultimately have "t \<in> set (tickets d)" "e \<in> set (events d)" "ev_id e = tk_eventId t"
    "is_stranded env now t" "row = stranded_of (t, e)" by (simp_all add: set_joined)
  then show ?thesis by blast
qed

lemma length_stranded: "length (stranded env now d) \<le> nat (RECONCILE_BATCH_SIZE env)"
  by (simp add: stranded_def)

lemma stranded_complete:
  assumes "schema_ok d" and "t \<in> set (tickets d)" and "is_stranded env now t"
    and "length (stranded env now d) < nat (RECONCILE_BATCH_SIZE env)"
  shows "\<exists>row \<in> set (stranded env now d). sr_ticketId row = tk_id t"
proof -
  obtain e where e: "e \<in> set (events d)" "ev_id e = tk_eventId t"
    using assms(1,2) by (force simp: schema_ok_def tickets_fk_ok_def values_of_def)
  define xs where "xs = sort_key (\<lambda>p. tk_updatedAt (fst p)) (filter (\<lambda>p. is_stranded env now (fst p)) (joined d))"
  have "length xs < nat (RECONCILE_BATCH_SIZE env)"
    using assms(4) by (simp add: stranded_def xs_def)
  then have "stranded env now d = map stranded_of xs" by (simp add: stranded_def xs_def)
  moreover have "(t, e) \<in> set xs" using e assms(2,3) by (simp add: xs_def set_joined)
  ultimately show ?thesis by (force simp: stranded_of_def)
qed

text \<open>One enqueue of a reconcile: its own id only, and a live job under it unless it threw.\<close>

lemma enqueueReconcile_own_id:
  assumes laws: "bull_laws Q jobs" and run: "enqueueReconcile Q env d q = (res, q')"
    and "j \<noteq> reconcile_job_id (jd_idempotencyKey d)"
  shows "jobs q' j = jobs q j"
proof -
  let ?i = "reconcile_job_id (jd_idempotencyKey d)"
  obtain out q1 where clear: "clear_failed Q ?i q = (out, q1)" by fastforce
  have q1: "jobs q1 j = jobs q j"
  proof -
    obtain r where "bull_getJob Q ?i q = r" by blast
    then show ?thesis
      using clear assms(3) bull_getJob_ok [OF laws, of ?i q] bull_remove_ok [OF laws] bull_remove_err [OF laws]
      by (fastforce simp: clear_failed_def split: sum.splits option.splits bool.splits prod.splits if_splits)
  qed
  have [simp]: "jo_jobId (reconcile_opts env ?i) = ?i" by (simp add: reconcile_opts_def standard_opts_def)
  show ?thesis
  proof (cases out)
    case (Inl e)
    with run clear q1 show ?thesis by (simp add: enqueueReconcile_def Let_def)
  next
    case (Inr ex)
    obtain a q2 where add: "bull_add Q ENRICH_TICKET_JOB d (reconcile_opts env ?i) q1 = (a, q2)" by fastforce
    with run clear Inr have q2: "q2 = q'" by (auto simp: enqueueReconcile_def Let_def split: sum.splits)
    show ?thesis
    proof (cases a)
      case (Inl e)
      with bull_add_err [OF laws add [unfolded Inl]] assms(3) q1 q2 show ?thesis by auto
    next
      case (Inr i)
      with bull_add_ok [OF laws add [unfolded Inr]] assms(3) q1 q2 show ?thesis by auto
    qed
  qed
qed

lemma enqueueReconcile_live:
  assumes "bull_laws Q jobs" and "enqueueReconcile Q env d q = (Inr redriven, q')"
  shows "\<exists>job. jobs q' (reconcile_job_id (jd_idempotencyKey d)) = Some job \<and> \<not> bj_failed job"
  using enqueueReconcile_case_aux [OF assms refl]
  by (auto simp: new_job_def split: option.splits if_splits)

lemma redrive_all_live:
  assumes laws: "bull_laws Q jobs"
  shows "redrive_all Q env rows q = (redriven, failed, q') \<Longrightarrow>
    (\<forall>row \<in> set rows. sr_key row \<notin> sr_key ` set failed \<longrightarrow>
        (\<exists>job. jobs q' (reconcile_job_id (sr_key row)) = Some job \<and> \<not> bj_failed job))
    \<and> set failed \<subseteq> set rows \<and> redriven + length failed \<le> length rows
    \<and> (\<forall>j. j \<notin> reconcile_job_id ` sr_key ` set rows \<longrightarrow> jobs q' j = jobs q j)
    \<and> (\<forall>j job. jobs q j = Some job \<and> \<not> bj_failed job \<and> j \<notin> reconcile_job_id ` sr_key ` set failed \<longrightarrow>
        (\<exists>job. jobs q' j = Some job \<and> \<not> bj_failed job))"
proof (induction rows arbitrary: q redriven failed q')
  case Nil
  then show ?case by simp
next
  case (Cons row rows)
  let ?i = "reconcile_job_id (sr_key row)"
  obtain out q1 where one: "enqueueReconcile Q env (reconcile_data row) q = (out, q1)" by fastforce
  obtain n fs q2 where rest: "redrive_all Q env rows q1 = (n, fs, q2)" by (rule prod_cases3)
  note IH = Cons.IH [OF rest]
  have key: "reconcile_job_id (jd_idempotencyKey (reconcile_data row)) = ?i" by (simp add: reconcile_data_def)
  have other: "jobs q1 j = jobs q j" if "j \<noteq> ?i" for j
    using enqueueReconcile_own_id [OF laws one] that key by simp
  show ?case
  proof (cases out)
    case (Inl e)
    with Cons.prems one rest have res: "redriven = n" "failed = row # fs" "q' = q2" by simp_all
    show ?thesis using IH other res by auto
  next
    case (Inr b)
    with Cons.prems one rest have res: "redriven = (if b then Suc n else n)" "failed = fs" "q' = q2" by auto
    from enqueueReconcile_live [OF laws one [unfolded Inr]] key
    obtain job where live: "jobs q1 ?i = Some job" "\<not> bj_failed job" by auto
    have keep: "\<exists>job. jobs q2 j = Some job \<and> \<not> bj_failed job"
      if "jobs q1 j = Some job" "\<not> bj_failed job" "j \<notin> reconcile_job_id ` sr_key ` set fs" for j job
      using IH that by blast
    have still: "\<exists>job. jobs q1 j = Some job \<and> \<not> bj_failed job" if "jobs q j = Some job'" "\<not> bj_failed job'" for j job'
      using that other [of j] live by (cases "j = ?i") auto
    have apart: "?i \<notin> reconcile_job_id ` sr_key ` set fs" if "sr_key row \<notin> sr_key ` set fs"
      using that by (auto simp: reconcile_job_id_def)
    show ?thesis unfolding res
    proof (intro conjI ballI allI impI)
      fix r assume "r \<in> set (row # rows)" and "sr_key r \<notin> sr_key ` set fs"
      then show "\<exists>job. jobs q2 (reconcile_job_id (sr_key r)) = Some job \<and> \<not> bj_failed job"
        using IH keep [OF live] apart by (cases "r = row") auto
    next
      fix j job assume "jobs q j = Some job \<and> \<not> bj_failed job \<and> j \<notin> reconcile_job_id ` sr_key ` set fs"
      with still keep show "\<exists>job. jobs q2 j = Some job \<and> \<not> bj_failed job" by blast
    qed (use IH other in auto)
  qed
qed

text \<open>
  The answers of the enqueues, in their turn, and the queue between them; the counters are read off the
  answers. With the queue's laws an answer is true exactly when there was no job under the row's id.
\<close>

lemma redrive_all_answers:
  assumes "redrive_all Q env rows q = (redriven, failed, q')"
  shows "\<exists>answers qs. length answers = length rows \<and> qs 0 = q \<and> qs (length rows) = q'
    \<and> (\<forall>i < length rows. enqueueReconcile Q env (reconcile_data (rows ! i)) (qs i) = (answers ! i, qs (Suc i)))
    \<and> redriven = count_list answers (Inr True)
    \<and> failed = map fst (filter (\<lambda>(row, a). \<exists>e. a = Inl e) (zip rows answers))"
  using assms
proof (induction rows arbitrary: q redriven failed)
  case Nil
  then show ?case by (intro exI [of _ "[]"] exI [of _ "\<lambda>_. q"]) simp
next
  case (Cons row rows)
  obtain a q1 where one: "enqueueReconcile Q env (reconcile_data row) q = (a, q1)" by (rule prod.exhaust)
  obtain n fs q2 where rest: "redrive_all Q env rows q1 = (n, fs, q2)" by (rule prod_cases3)
  have res: "q2 = q'" "redriven = (if a = Inr True then Suc n else n)"
    "failed = (case a of Inl _ \<Rightarrow> row # fs | Inr _ \<Rightarrow> fs)"
    using Cons.prems one rest by (auto split: sum.splits)
  from Cons.IH [OF rest [unfolded res(1)]] obtain answers qs where IH:
    "length answers = length rows" "qs 0 = q1" "qs (length rows) = q'"
    "\<forall>i < length rows. enqueueReconcile Q env (reconcile_data (rows ! i)) (qs i) = (answers ! i, qs (Suc i))"
    "n = count_list answers (Inr True)" "fs = map fst (filter (\<lambda>(row, a). \<exists>e. a = Inl e) (zip rows answers))"
    by blast
  let ?qs = "\<lambda>i. case i of 0 \<Rightarrow> q | Suc j \<Rightarrow> qs j"
  have "enqueueReconcile Q env (reconcile_data ((row # rows) ! i)) (?qs i) = ((a # answers) ! i, ?qs (Suc i))"
    if "i < length (row # rows)" for i
    using that one IH(2,4) by (cases i) simp_all
  moreover have "redriven = count_list (a # answers) (Inr True)" using res(2) IH(5) by simp
  moreover have "failed = map fst (filter (\<lambda>(row, a). \<exists>e. a = Inl e) (zip (row # rows) (a # answers)))"
    using res(3) IH(6) by (cases a) simp_all
  ultimately show ?case
    using IH(1,3) by (intro exI [of _ "a # answers"] exI [of _ ?qs]) simp
qed

text \<open>
  C36: a sweep re-drives every stranded ticket it can reach. It selects only tickets that are
  DEGRADED and have not changed for the configured time, at most a batch, and all of them when the
  batch is not full; a row whose enqueue throws does not stop the others; and every selected ticket
  whose enqueue did not throw has a live job under its reconcile id afterwards. It enqueues the selected
  tickets one after the other; the number it answers is exactly the number of enqueues that answered
  true, which are those whose id held no job at that moment, and the failed ones are exactly the rows
  whose enqueue threw. No two sweeps overlap.
\<close>

theorem sweep_redrives_stranded:
  assumes "schema_ok d" and "bull_laws Q jobs" and "\<not> sw_stopped s" and "\<not> sw_running s"
    and "reconcile_sweep Q env None now d s q = (redriven, failed, s', q')"
  shows "(\<forall>row \<in> set (stranded env now d). sr_key row \<notin> sr_key ` set failed \<longrightarrow>
        (\<exists>job. jobs q' (reconcile_job_id (sr_key row)) = Some job \<and> \<not> bj_failed job))
    \<and> (\<forall>row \<in> set (stranded env now d). \<exists>t \<in> set (tickets d). sr_ticketId row = tk_id t \<and> is_stranded env now t)
    \<and> length (stranded env now d) \<le> nat (RECONCILE_BATCH_SIZE env)
    \<and> (length (stranded env now d) < nat (RECONCILE_BATCH_SIZE env) \<longrightarrow>
         (\<forall>t \<in> set (tickets d). is_stranded env now t \<longrightarrow>
            (\<exists>row \<in> set (stranded env now d). sr_ticketId row = tk_id t)))
    \<and> (\<exists>answers qs. length answers = length (stranded env now d) \<and> qs 0 = q \<and> qs (length answers) = q'
         \<and> (\<forall>i < length answers. enqueueReconcile Q env (reconcile_data (stranded env now d ! i)) (qs i)
               = (answers ! i, qs (Suc i))
             \<and> (\<forall>b. answers ! i = Inr b \<longrightarrow>
                  b = (jobs (qs i) (reconcile_job_id (sr_key (stranded env now d ! i))) = None)))
         \<and> redriven = count_list answers (Inr True)
         \<and> failed = map fst (filter (\<lambda>(row, a). \<exists>e. a = Inl e) (zip (stranded env now d) answers)))
    \<and> s' = s
    \<and> (\<forall>es s2 A. flight reconcile_begin reconcile_finally es (sweeper_new, {}) = (s2, A) \<longrightarrow> card A \<le> 1)"
proof -
  have s: "reconcile_begin s = Some (s\<lparr>sw_running := True\<rparr>)" using assms(3,4) by (simp add: reconcile_begin_def)
  have run: "redrive_all Q env (stranded env now d) q = (redriven, failed, q')" and s': "s' = s"
    using assms(4,5) by (auto simp: reconcile_sweep_def s reconcile_finally_def split: prod.splits)
  have sound: "\<forall>row \<in> set (stranded env now d). \<exists>t \<in> set (tickets d). sr_ticketId row = tk_id t \<and> is_stranded env now t"
    using stranded_sound by (fastforce simp: stranded_of_def)
  have "\<not> sw_running sweeper_new" by (simp add: sweeper_new_def)
  then have flight: "\<forall>es s2 A. flight reconcile_begin reconcile_finally es (sweeper_new, {}) = (s2, A) \<longrightarrow> card A \<le> 1"
    using reconcile_guard.flight_exclusive by blast
  obtain answers qs where turns: "length answers = length (stranded env now d)" "qs 0 = q" "qs (length answers) = q'"
      "\<forall>i < length answers. enqueueReconcile Q env (reconcile_data (stranded env now d ! i)) (qs i) = (answers ! i, qs (Suc i))"
      "redriven = count_list answers (Inr True)"
      "failed = map fst (filter (\<lambda>(row, a). \<exists>e. a = Inl e) (zip (stranded env now d) answers))"
    using redrive_all_answers [OF run] by metis
  have free: "b = (jobs (qs i) (reconcile_job_id (sr_key (stranded env now d ! i))) = None)"
    if "i < length answers" and "answers ! i = Inr b" for i b
    using enqueueReconcile_case_aux [OF assms(2) _ refl, of env "reconcile_data (stranded env now d ! i)" "qs i" b
        "qs (Suc i)"] turns(4) that
    by (simp add: reconcile_data_def split: option.splits)
  have counted: "\<exists>answers qs. length answers = length (stranded env now d) \<and> qs 0 = q \<and> qs (length answers) = q'
         \<and> (\<forall>i < length answers. enqueueReconcile Q env (reconcile_data (stranded env now d ! i)) (qs i)
               = (answers ! i, qs (Suc i))
             \<and> (\<forall>b. answers ! i = Inr b \<longrightarrow>
                  b = (jobs (qs i) (reconcile_job_id (sr_key (stranded env now d ! i))) = None)))
         \<and> redriven = count_list answers (Inr True)
         \<and> failed = map fst (filter (\<lambda>(row, a). \<exists>e. a = Inl e) (zip (stranded env now d) answers))"
    using turns free by (intro exI [of _ answers] exI [of _ qs]) blast
  have live: "\<forall>row \<in> set (stranded env now d). sr_key row \<notin> sr_key ` set failed \<longrightarrow>
        (\<exists>job. jobs q' (reconcile_job_id (sr_key row)) = Some job \<and> \<not> bj_failed job)"
    using redrive_all_live [OF assms(2) run] by blast
  show ?thesis
    by (intro conjI live sound length_stranded counted s' flight impI ballI stranded_complete [OF assms(1)])
qed

definition degraded_db :: db where
  "degraded_db = empty_db\<lparr>events := [\<lparr>ev_id = ''e1'', ev_idempotencyKey = ''order-1'', ev_payload = JNull,
       ev_source = None, ev_receivedAt = 0\<rparr>],
     tickets := [\<lparr>tk_id = ''t1'', tk_eventId = ''e1'', tk_subject = ''s'', tk_body = ''b'',
       tk_requesterEmail = None, tk_enrichmentStatus = ES_DEGRADED, tk_category = None, tk_priority = None,
       tk_summary = None, tk_confidence = None, tk_enrichmentSource = None, tk_enrichmentAttempts = 1,
       tk_enrichedAt = None, tk_createdAt = 0, tk_updatedAt = 0\<rparr>]\<rparr>"

lemma degraded_db_ok: "schema_ok degraded_db"
  by (simp add: degraded_db_def empty_db_def schema_ok_def tickets_fk_ok_def idem_fk_ok_def unique_by_def)

theorem sweep_redrives_stranded_witness:
  "\<exists>job. ref_jobs (snd (snd (snd (reconcile_sweep ref_bull env_defaults None 1000000000 degraded_db sweeper_new
     empty_queue)))) ''order-1:reconcile:0'' = Some job \<and> \<not> bj_failed job"
proof -
  have rows: "stranded env_defaults 1000000000 degraded_db = [\<lparr>sr_ticketId = ''t1'', sr_eventId = ''e1'', sr_key = ''order-1''\<rparr>]"
    by (simp add: stranded_def joined_def degraded_db_def is_stranded_def stranded_of_def env_defaults_def interval_ms_def)
  have idle: "\<not> sw_stopped sweeper_new" "\<not> sw_running sweeper_new" by (simp_all add: sweeper_new_def)
  obtain n failed s' q' where run: "reconcile_sweep ref_bull env_defaults None 1000000000 degraded_db sweeper_new
      empty_queue = (n, failed, s', q')" by (rule prod_cases4)
  have "bull_id_ok ''order-1:reconcile:0''"
    by (simp add: bull_id_ok_def integer_like_def is_digit_def code_def)
  then have "failed = []"
    using run by (auto simp: reconcile_sweep_def reconcile_begin_def sweeper_new_def rows enqueueReconcile_def
        clear_failed_def ref_bull_def empty_queue_def reconcile_data_def reconcile_job_id_def reconcile_opts_def
        standard_opts_def Let_def)
  with sweep_redrives_stranded [OF degraded_db_ok ref_bull_laws idle run] show ?thesis
    by (simp add: rows run reconcile_job_id_def)
qed

end
