(* ===== verification/Custody.thy ===== *)
theory Custody
  imports Hands Reconcile
begin

section \<open>The system and its queue, step by step\<close>

text \<open>
  The steps of \<open>System\<close> together with the queue's, the moves of tickets between the hands of \<open>Hands\<close>. BullMQ's
  own moves (a job ends, fails, is dropped after its retention) may happen at any time; a run of the code may
  stop between any two steps, and a process that dies takes the failure handlers and the replays it was running
  with it. A failed job of a PENDING ticket is kept until its handler has returned: its retention is a day. The
  retention sweep is not a step.
\<close>

subsection \<open>States and steps\<close>

text \<open>
  \<open>pl_queued\<close>: the tickets whose first job the queue has acknowledged, which is when \<open>processNew\<close> goes on to
  complete the key. \<open>pl_done\<close>: ids of jobs kept as completed. \<open>pl_failing\<close>: jobs BullMQ has failed and whose
  \<open>failed\<close> handler has not returned. \<open>pl_replaying\<close>: dead letters flipped by a replay that has not returned.
  \<open>pl_alarm\<close>: tickets whose dead letter could not be written. \<open>pl_lost\<close>: tickets whose failure handler or
  replay died with its process, or whose replay could not be undone.
\<close>

record ('w, 'q) plant =
  pl_sys :: "'w sys"
  pl_queue :: 'q
  pl_queued :: "(string \<times> uuid) set"
  pl_done :: "string set"
  pl_failing :: "(string \<times> job_data) set"
  pl_replaying :: "(uuid \<times> job_data) set"
  pl_alarm :: "uuid set"
  pl_lost :: "uuid set"
  pl_metrics :: metrics

abbreviation pl_db :: "('w, 'q) plant \<Rightarrow> db" where
  "pl_db s \<equiv> sy_db (pl_sys s)"

definition with_db :: "db \<Rightarrow> ('w, 'q) plant \<Rightarrow> ('w, 'q) plant" where
  "with_db d s = s\<lparr>pl_sys := (pl_sys s)\<lparr>sy_db := d\<rparr>\<rparr>"

definition completed_keys :: "db \<Rightarrow> string set" where
  "completed_keys d = {k. \<exists>x. key_row k d = Some x \<and> ik_status x = IK_COMPLETED}"

definition alarm_count :: "metrics \<Rightarrow> nat" where
  "alarm_count m = counters m (EventsFailed ''dead_letter_write_failed'')"

text \<open>The probe of a failed job answers what the queue holds, unless it throws or takes too long.\<close>

definition honest_probe :: "('q \<Rightarrow> string \<rightharpoonup> bull_job) \<Rightarrow> 'q \<Rightarrow> string \<Rightarrow> bool promise \<Rightarrow> bool" where
  "honest_probe jobs q j p \<longleftrightarrow> (\<forall>u b. p = Some (u, Inr b) \<longrightarrow> b = (\<exists>bj. jobs q j = Some bj \<and> bj_failed bj))"

definition outcome_state :: "uuid \<Rightarrow> metrics \<Rightarrow> db \<Rightarrow> ('w, 'q) plant \<Rightarrow> ('w, 'q) plant" where
  "outcome_state i m d s = (with_db d s)\<lparr>pl_metrics := m,
     pl_alarm := (if alarm_count (pl_metrics s) < alarm_count m then insert i (pl_alarm s) else pl_alarm s)\<rparr>"

inductive plant_step ::
  "'q bull \<Rightarrow> ('q \<Rightarrow> string \<rightharpoonup> bull_job) \<Rightarrow> EnvVars \<Rightarrow> 'w dispatcher \<Rightarrow> ('w, 'q) plant \<Rightarrow> ('w, 'q) plant \<Rightarrow> bool"
  for Q jobs env dispatch where
  quiet: "sys_step env dispatch (pl_sys s) x \<Longrightarrow> dead_letters (sy_db x) = dead_letters (pl_db s) \<Longrightarrow>
     completed_keys (sy_db x) \<subseteq> completed_keys (pl_db s) \<Longrightarrow>
     (\<And>k. key_row k (sy_db x) \<noteq> None \<Longrightarrow> key_row k (pl_db s) = None \<Longrightarrow> assertUsableAsJobId k = Inr ()) \<Longrightarrow>
     plant_step Q jobs env dispatch s (s\<lparr>pl_sys := x\<rparr>)"
| first_add: "(jd_idempotencyKey data, jd_ticketId data) \<in> sy_issued (pl_sys s) \<Longrightarrow>
     enqueue Q env data (pl_queue s) = (res, q) \<Longrightarrow>
     plant_step Q jobs env dispatch s (s\<lparr>pl_queue := q, pl_queued := (case res of
       Inr _ \<Rightarrow> insert (jd_idempotencyKey data, jd_ticketId data) (pl_queued s) | Inl _ \<Rightarrow> pl_queued s)\<rparr>)"
| complete: "(k, t) \<in> pl_queued s \<Longrightarrow>
     plant_step Q jobs env dispatch s (with_db (markCompleted now k t responseCode responseBody (pl_db s)) s)"
| upgrade_add: "jobs (pl_queue s) j = Some bj \<Longrightarrow> scheduleUpgrade show_int r Q env (bj_data bj) (pl_queue s) = (res, q) \<Longrightarrow>
     plant_step Q jobs env dispatch s (s\<lparr>pl_queue := q\<rparr>)"
| reconcile_add: "names (pl_db s) (jd_idempotencyKey data) (jd_ticketId data) \<Longrightarrow> \<not> pending (pl_db s) (jd_ticketId data) \<Longrightarrow>
     enqueueReconcile Q env data (pl_queue s) = (res', q) \<Longrightarrow>
     plant_step Q jobs env dispatch s (s\<lparr>pl_queue := q\<rparr>)"
| job_done: "jobs (pl_queue s) j = Some bj \<Longrightarrow> \<not> bj_failed bj \<Longrightarrow> \<not> pending (pl_db s) (jd_ticketId (bj_data bj)) \<Longrightarrow>
     plant_step Q jobs env dispatch s (s\<lparr>pl_done := insert j (pl_done s)\<rparr>)"
| job_failed: "jobs (pl_queue s) j = Some bj \<Longrightarrow> \<not> bj_failed bj \<Longrightarrow> j \<notin> pl_done s \<Longrightarrow>
     jobs q = (jobs (pl_queue s))(j \<mapsto> bj\<lparr>bj_failed := True\<rparr>) \<Longrightarrow>
     plant_step Q jobs env dispatch s (s\<lparr>pl_queue := q, pl_failing := insert (j, bj_data bj) (pl_failing s)\<rparr>)"
| job_dropped: "jobs (pl_queue s) j = Some bj \<Longrightarrow> j \<in> pl_done s \<or> bj_failed bj \<and> (j \<notin> fst ` pl_failing s
       \<or> \<not> pending (pl_db s) (jd_ticketId (bj_data bj))) \<Longrightarrow>
     jobs q = (jobs (pl_queue s))(j := None) \<Longrightarrow>
     plant_step Q jobs env dispatch s (s\<lparr>pl_queue := q, pl_done := pl_done s - {j}\<rparr>)"
| attempt_failed: "jobs (pl_queue s) j = Some bj \<Longrightarrow> \<not> bj_failed bj \<Longrightarrow> rj_data job = bj_data bj \<Longrightarrow>
     onFailed db_err probe nid now job err (pl_metrics s) (pl_db s) = (m, d) \<Longrightarrow>
     plant_step Q jobs env dispatch s (outcome_state (jd_ticketId (bj_data bj)) m d s)"
| failure_handled: "(j, data) \<in> pl_failing s \<Longrightarrow> rj_data job = data \<Longrightarrow> honest_probe jobs (pl_queue s) j probe \<Longrightarrow>
     onFailed db_err probe nid now job err (pl_metrics s) (pl_db s) = (m, d) \<Longrightarrow>
     plant_step Q jobs env dispatch s
       ((outcome_state (jd_ticketId data) m d s)\<lparr>pl_failing := pl_failing s - {(j, data)}\<rparr>)"
| flip: "replay_flip now i (pl_db s) = (row # rows, d) \<Longrightarrow>
     plant_step Q jobs env dispatch s
       ((with_db d s)\<lparr>pl_replaying := insert (i, job_of_json (dl_payload row)) (pl_replaying s)\<rparr>)"
| replay_add: "(i, data) \<in> pl_replaying s \<Longrightarrow> enqueueReplay Q env data i (pl_queue s) = (res, q) \<Longrightarrow>
     plant_step Q jobs env dispatch s (s\<lparr>pl_queue := q,
       pl_replaying := (case res of Inr _ \<Rightarrow> off i (pl_replaying s) | Inl _ \<Rightarrow> pl_replaying s)\<rparr>)"
| undo: "(i, data) \<in> pl_replaying s \<Longrightarrow>
     plant_step Q jobs env dispatch s ((with_db (replay_undo i (pl_db s)) s)\<lparr>pl_replaying := off i (pl_replaying s)\<rparr>)"
| died: "F \<subseteq> pl_failing s \<Longrightarrow> R \<subseteq> pl_replaying s \<Longrightarrow>
     plant_step Q jobs env dispatch s (s\<lparr>pl_failing := pl_failing s - F, pl_replaying := pl_replaying s - R,
       pl_lost := pl_lost s \<union> (jd_ticketId \<circ> snd) ` F \<union> (jd_ticketId \<circ> snd) ` R\<rparr>)"

inductive plant_reach ::
  "'q bull \<Rightarrow> ('q \<Rightarrow> string \<rightharpoonup> bull_job) \<Rightarrow> EnvVars \<Rightarrow> 'w dispatcher \<Rightarrow> ('w, 'q) plant \<Rightarrow> ('w, 'q) plant \<Rightarrow> bool"
  for Q jobs env dispatch s0 where
  start: "plant_reach Q jobs env dispatch s0 s0"
| more: "plant_reach Q jobs env dispatch s0 s \<Longrightarrow> plant_step Q jobs env dispatch s s' \<Longrightarrow>
     plant_reach Q jobs env dispatch s0 s'"

definition plant_start :: "'w \<Rightarrow> metrics \<Rightarrow> 'q \<Rightarrow> ('w, 'q) plant" where
  "plant_start w m q = \<lparr>pl_sys = sys_start w m, pl_queue = q, pl_queued = {}, pl_done = {}, pl_failing = {},
     pl_replaying = {}, pl_alarm = {}, pl_lost = {}, pl_metrics = m\<rparr>"

subsection \<open>Every step keeps custody\<close>

text \<open>What custody is about of a state; a ticket given up is one that raised the alarm or was lost.\<close>

definition hands_of :: "('q \<Rightarrow> string \<rightharpoonup> bull_job) \<Rightarrow> ('w, 'q) plant \<Rightarrow> hands" where
  "hands_of jobs s = \<lparr>ha_db = pl_db s, ha_jobs = jobs (pl_queue s), ha_queued = pl_queued s, ha_done = pl_done s,
     ha_failing = pl_failing s, ha_replaying = pl_replaying s, ha_alarm = pl_alarm s \<union> pl_lost s\<rparr>"

definition plant_inv :: "('q \<Rightarrow> string \<rightharpoonup> bull_job) \<Rightarrow> EnvVars \<Rightarrow> ('w, 'q) plant \<Rightarrow> bool" where
  "plant_inv jobs env s \<longleftrightarrow> sys_inv env (\<lambda>_. UNIV) (pl_sys s) \<and> hands_inv (hands_of jobs s)
   \<and> pl_queued s \<subseteq> sy_issued (pl_sys s)
   \<and> (\<forall>k. key_row k (pl_db s) \<noteq> None \<longrightarrow> assertUsableAsJobId k = Inr ())
   \<and> (\<forall>k \<in> completed_keys (pl_db s). \<exists>t. names (pl_db s) k t \<and> (k, t) \<in> pl_queued s)
   \<and> (pl_alarm s \<noteq> {} \<longrightarrow> 0 < alarm_count (pl_metrics s))"

lemma plant_invI:
  assumes "sys_inv env (\<lambda>_. UNIV) (pl_sys s)" "hands_inv (hands_of jobs s)" "pl_queued s \<subseteq> sy_issued (pl_sys s)"
    and "\<And>k. key_row k (pl_db s) \<noteq> None \<Longrightarrow> assertUsableAsJobId k = Inr ()"
    and "\<And>k. k \<in> completed_keys (pl_db s) \<Longrightarrow> \<exists>t. names (pl_db s) k t \<and> (k, t) \<in> pl_queued s"
    and "pl_alarm s \<noteq> {} \<Longrightarrow> 0 < alarm_count (pl_metrics s)"
  shows "plant_inv jobs env s"
  using assms unfolding plant_inv_def by blast

lemma plant_invD:
  assumes "plant_inv jobs env s"
  shows "sys_inv env (\<lambda>_. UNIV) (pl_sys s)" "hands_inv (hands_of jobs s)" "pl_queued s \<subseteq> sy_issued (pl_sys s)"
    and "k \<in> completed_keys (pl_db s) \<Longrightarrow> \<exists>t. names (pl_db s) k t \<and> (k, t) \<in> pl_queued s"
    and "pl_alarm s \<noteq> {} \<Longrightarrow> 0 < alarm_count (pl_metrics s)"
    and "key_row k (pl_db s) \<noteq> None \<Longrightarrow> assertUsableAsJobId k = Inr ()"
  using assms unfolding plant_inv_def by blast+

lemma hands_of_simps [simp]:
  "ha_db (hands_of jobs s) = pl_db s" "ha_jobs (hands_of jobs s) = jobs (pl_queue s)"
  "ha_queued (hands_of jobs s) = pl_queued s" "ha_done (hands_of jobs s) = pl_done s"
  "ha_failing (hands_of jobs s) = pl_failing s" "ha_replaying (hands_of jobs s) = pl_replaying s"
  "ha_alarm (hands_of jobs s) = pl_alarm s \<union> pl_lost s"
  by (simp_all add: hands_of_def)

lemma hands_of_update:
  "hands_of jobs (s\<lparr>pl_sys := x\<rparr>) = (hands_of jobs s)\<lparr>ha_db := sy_db x\<rparr>"
  "hands_of jobs (s\<lparr>pl_queue := q\<rparr>) = (hands_of jobs s)\<lparr>ha_jobs := jobs q\<rparr>"
  "hands_of jobs (s\<lparr>pl_queued := A\<rparr>) = (hands_of jobs s)\<lparr>ha_queued := A\<rparr>"
  "hands_of jobs (s\<lparr>pl_done := E\<rparr>) = (hands_of jobs s)\<lparr>ha_done := E\<rparr>"
  "hands_of jobs (s\<lparr>pl_failing := F\<rparr>) = (hands_of jobs s)\<lparr>ha_failing := F\<rparr>"
  "hands_of jobs (s\<lparr>pl_replaying := R\<rparr>) = (hands_of jobs s)\<lparr>ha_replaying := R\<rparr>"
  "hands_of jobs (s\<lparr>pl_alarm := X\<rparr>) = (hands_of jobs s)\<lparr>ha_alarm := X \<union> pl_lost s\<rparr>"
  "hands_of jobs (s\<lparr>pl_lost := X\<rparr>) = (hands_of jobs s)\<lparr>ha_alarm := pl_alarm s \<union> X\<rparr>"
  "hands_of jobs (s\<lparr>pl_metrics := m\<rparr>) = hands_of jobs s"
  by (simp_all add: hands_of_def)

lemma with_db_simps [simp]:
  "sy_db (pl_sys (with_db d s)) = d" "sy_issued (pl_sys (with_db d s)) = sy_issued (pl_sys s)"
  "pl_queue (with_db d s) = pl_queue s" "pl_queued (with_db d s) = pl_queued s" "pl_done (with_db d s) = pl_done s"
  "pl_failing (with_db d s) = pl_failing s" "pl_replaying (with_db d s) = pl_replaying s"
  "pl_alarm (with_db d s) = pl_alarm s" "pl_lost (with_db d s) = pl_lost s" "pl_metrics (with_db d s) = pl_metrics s"
  "hands_of jobs (with_db d s) = (hands_of jobs s)\<lparr>ha_db := d\<rparr>"
  by (simp_all add: with_db_def hands_of_def)

lemma sys_step_any_inv:
  assumes "sys_step env dispatch x x'" and "env_valid env" and "sys_inv env (\<lambda>_. UNIV) x"
  shows "sys_inv env (\<lambda>_. UNIV) x'"
  by (rule delivery_target.sys_step_inv [OF any_target assms])

lemma sys_step_issued: "sys_step env dispatch x x' \<Longrightarrow> sy_issued x \<subseteq> sy_issued x'"
  by (cases rule: sys_step.cases) (auto simp: issue_def split: sum.splits)

text \<open>A ticket a key names exists, so a step cannot make it PENDING again.\<close>

lemma sys_step_pending:
  assumes "sys_step env dispatch x x'" and "env_valid env" and "sys_inv env (\<lambda>_. UNIV) x"
    and "names (sy_db x) k t" and "pending (sy_db x') t"
  shows "pending (sy_db x) t"
proof -
  have ok: "schema_ok (sy_db x)" using assms(3) by (simp add: sys_inv_def work_inv_def)
  then have "t \<in> values_of tk_id (tickets (sy_db x))"
    using assms(4) by (auto simp: names_def schema_ok_def idem_fk_ok_def dest!: row_with_SomeD)
  then obtain r where r: "tk_row t (sy_db x) = Some r" by (metis not_None_eq row_with_None_iff)
  from sys_step_later [OF assms(1,2) ok r] assms(5) have "tk_enrichmentStatus r \<le> ES_PENDING"
    by (auto simp: pending_def later_def)
  then have "tk_enrichmentStatus r = ES_PENDING \<or> tk_enrichmentStatus r = ES_FAILED" by (cases "tk_enrichmentStatus r") simp_all
  moreover have "tk_enrichmentStatus r \<noteq> ES_FAILED" using assms(3) r by (auto simp: sys_inv_def work_inv_def announced_def)
  ultimately show ?thesis using r by (auto simp: pending_def)
qed

lemma plant_quiet:
  assumes inv: "plant_inv jobs env s" and env: "env_valid env" and step: "sys_step env dispatch (pl_sys s) x"
    and dead: "dead_letters (sy_db x) = dead_letters (pl_db s)"
    and usable: "\<And>k. key_row k (sy_db x) \<noteq> None \<Longrightarrow> key_row k (pl_db s) = None \<Longrightarrow> assertUsableAsJobId k = Inr ()"
    and new: "\<And>k. k \<in> completed_keys (sy_db x) \<Longrightarrow> k \<in> completed_keys (pl_db s) \<or> (\<exists>t. names (sy_db x) k t \<and> (k, t) \<in> pl_queued s)"
  shows "plant_inv jobs env (s\<lparr>pl_sys := x\<rparr>)"
proof (rule plant_invI)
  let ?s = "s\<lparr>pl_sys := x\<rparr>"
  note sysi = plant_invD(1) [OF inv]
  show "sys_inv env (\<lambda>_. UNIV) (pl_sys ?s)" using sys_step_any_inv [OF step env sysi] by simp
  show "hands_inv (hands_of jobs ?s)"
    unfolding hands_of_update
    by (rule hands_db [OF plant_invD(2) [OF inv]])
       (use dead sys_step_names [OF step env sysi] sys_step_pending [OF step env sysi] in simp_all)
  show "pl_queued ?s \<subseteq> sy_issued (pl_sys ?s)" using plant_invD(3) [OF inv] sys_step_issued [OF step] by auto
  show "\<exists>t. names (pl_db ?s) k t \<and> (k, t) \<in> pl_queued ?s" if "k \<in> completed_keys (pl_db ?s)" for k
  proof -
    from that new plant_invD(4) [OF inv] sys_step_names [OF step env sysi]
    have "\<exists>t. names (sy_db x) k t \<and> (k, t) \<in> pl_queued s" by simp blast
    then show ?thesis by simp
  qed
  show "pl_alarm ?s \<noteq> {} \<Longrightarrow> 0 < alarm_count (pl_metrics ?s)" using plant_invD(5) [OF inv] by simp
  show "assertUsableAsJobId k = Inr ()" if "key_row k (pl_db ?s) \<noteq> None" for k
    using that usable [of k] plant_invD(6) [OF inv, of k] by (cases "key_row k (pl_db s)") auto
qed

text \<open>Steps of the queue alone.\<close>

lemma plant_hands:
  assumes "plant_inv jobs env s" and "pl_sys s' = pl_sys s" "pl_metrics s' = pl_metrics s" "pl_alarm s' = pl_alarm s"
    and "hands_inv (hands_of jobs s')" and "pl_queued s \<subseteq> pl_queued s'" "pl_queued s' \<subseteq> sy_issued (pl_sys s)"
  shows "plant_inv jobs env s'"
proof (rule plant_invI)
  show "\<exists>t. names (pl_db s') k t \<and> (k, t) \<in> pl_queued s'" if "k \<in> completed_keys (pl_db s')" for k
    using plant_invD(4) [OF assms(1), of k] that assms(2,6) by auto
  show "assertUsableAsJobId k = Inr ()" if "key_row k (pl_db s') \<noteq> None" for k
    using plant_invD(6) [OF assms(1), of k] that assms(2) by simp
qed (use assms plant_invD [OF assms(1)] in simp_all)

text \<open>Steps that change only the dead letters.\<close>

lemma plant_letters:
  assumes inv: "plant_inv jobs env s" and env: "env_valid env"
    and step: "sys_step env dispatch (pl_sys s) ((pl_sys s)\<lparr>sy_db := d\<rparr>)"
    and keys: "idempotency_keys d = idempotency_keys (pl_db s)"
    and s': "pl_sys s' = (pl_sys s)\<lparr>sy_db := d\<rparr>" "pl_queued s' = pl_queued s"
    and hands: "hands_inv (hands_of jobs s')" and alarm: "pl_alarm s' \<noteq> {} \<Longrightarrow> 0 < alarm_count (pl_metrics s')"
  shows "plant_inv jobs env s'"
proof (rule plant_invI [OF _ hands _ _ _ alarm])
  show "assertUsableAsJobId k = Inr ()" if "key_row k (pl_db s') \<noteq> None" for k
    using plant_invD(6) [OF inv, of k] that keys by (simp add: s')
  show "sys_inv env (\<lambda>_. UNIV) (pl_sys s')"
    unfolding s' by (rule sys_step_any_inv [OF step env plant_invD(1) [OF inv]])
  show "pl_queued s' \<subseteq> sy_issued (pl_sys s')" using plant_invD(3) [OF inv] by (simp add: s')
  show "\<exists>t. names (pl_db s') k t \<and> (k, t) \<in> pl_queued s'" if "k \<in> completed_keys (pl_db s')" for k
    using plant_invD(4) [OF inv, of k] that keys by (simp add: s' completed_keys_def names_def)
qed simp_all

text \<open>What a failed attempt's handler leaves.\<close>

lemma onFailed_cases:
  assumes "onFailed db_err probe nid now job err m d = (m', d')"
  obtains (retry) "\<not> classifyFailure probe job err" "d' = d" "alarm_count m' = alarm_count m"
    | (letter) "insert_dead_letter (dead_letter_of nid now job err) d = Inr d'" "alarm_count m' = alarm_count m"
    | (alarm) "d' = d" "alarm_count m' = Suc (alarm_count m)"
proof (cases "classifyFailure probe job err")
  case False
  with assms have "d' = d" "m' = inc (EventsFailed ''retry'') m" by (simp_all add: onFailed_def)
  with False show thesis by (intro retry) (simp_all add: alarm_count_def inc_def)
next
  case True
  show thesis
  proof (cases "recordDeadLetter db_err nid now job err m d")
    case (Inl e)
    with True assms have "d' = d" "m' = inc (EventsFailed ''dead_letter_write_failed'') m" by (simp_all add: onFailed_def)
    then show thesis by (intro alarm) (simp_all add: alarm_count_def inc_def)
  next
    case (Inr p)
    with True assms have "recordDeadLetter db_err nid now job err m d = Inr (m', d')" by (simp add: onFailed_def split: prod.splits)
    then have "insert_dead_letter (dead_letter_of nid now job err) d = Inr d'" "m' = inc (EventsFailed ''dead_letter'') m"
      by (auto simp: recordDeadLetter_def split: option.splits sum.splits)
    then show thesis by (intro letter) (simp_all add: alarm_count_def inc_def)
  qed
qed

lemma hands_of_outcome:
  "hands_of jobs (outcome_state i m d s) = (hands_of jobs s)\<lparr>ha_db := d, ha_alarm :=
     (if alarm_count (pl_metrics s) < alarm_count m then insert i (pl_alarm s) else pl_alarm s) \<union> pl_lost s\<rparr>"
  by (simp add: outcome_state_def hands_of_update)

lemma plant_outcome:
  assumes inv: "plant_inv jobs env s" and env: "env_valid env" and ok: "data_ok (pl_db s) (rj_data job)"
    and run: "onFailed db_err probe nid now job err (pl_metrics s) (pl_db s) = (m, d)"
  shows "plant_inv jobs env (outcome_state (jd_ticketId (rj_data job)) m d s)"
  using run
proof (cases rule: onFailed_cases)
  case retry
  then have "hands_of jobs (outcome_state (jd_ticketId (rj_data job)) m d s) = hands_of jobs s"
    unfolding hands_of_outcome by (simp add: hands_of_def)
  moreover have "pl_sys (outcome_state (jd_ticketId (rj_data job)) m d s) = pl_sys s"
    "pl_queued (outcome_state (jd_ticketId (rj_data job)) m d s) = pl_queued s"
    "pl_alarm (outcome_state (jd_ticketId (rj_data job)) m d s) = pl_alarm s"
    "pl_metrics (outcome_state (jd_ticketId (rj_data job)) m d s) = m"
    using retry by (simp_all add: outcome_state_def with_db_def)
  ultimately show ?thesis using inv retry(3) by (simp add: plant_inv_def)
next
  case alarm
  then have "hands_of jobs (outcome_state (jd_ticketId (rj_data job)) m d s)
      = (hands_of jobs s)\<lparr>ha_alarm := insert (jd_ticketId (rj_data job)) (ha_alarm (hands_of jobs s))\<rparr>"
    unfolding hands_of_outcome by (simp add: hands_of_def)
  moreover have "pl_sys (outcome_state (jd_ticketId (rj_data job)) m d s) = pl_sys s"
    "pl_queued (outcome_state (jd_ticketId (rj_data job)) m d s) = pl_queued s"
    "pl_metrics (outcome_state (jd_ticketId (rj_data job)) m d s) = m"
    using alarm by (simp_all add: outcome_state_def with_db_def)
  ultimately show ?thesis
    using inv hands_alarm [OF plant_invD(2) [OF inv]] alarm(2) by (simp add: plant_inv_def)
next
  case letter
  let ?r = "dead_letter_of nid now job err" and ?s = "outcome_state (jd_ticketId (rj_data job)) m d s"
  from letter(1) have new: "dl_id ?r \<notin> values_of dl_id (dead_letters (pl_db s))"
    "d = (pl_db s)\<lparr>dead_letters := dead_letters (pl_db s) @ [?r]\<rparr>"
    by (simp_all add: insert_dead_letter_def split: if_splits)
  have hands: "hands_of jobs ?s = (hands_of jobs s)\<lparr>ha_db := d\<rparr>"
    using letter(2) unfolding hands_of_outcome by (simp add: hands_of_def)
  have r: "job_of_json (dl_payload ?r) = rj_data job" "dl_status ?r = DL_PENDING"
    by (simp_all add: dead_letter_of_def job_json_roundtrip)
  have h: "hands_inv ((hands_of jobs s)\<lparr>ha_db := d\<rparr>)"
    by (rule hands_letter(1) [OF plant_invD(2) [OF inv] _ _ r(1) _ r(2)]) (use new ok in simp_all)
  show ?thesis
  proof (rule plant_letters [OF inv env])
    show "sys_step env dispatch (pl_sys s) ((pl_sys s)\<lparr>sy_db := d\<rparr>)" by (rule sys_step.bury [OF letter(1)])
    show "hands_inv (hands_of jobs ?s)" using h by (simp add: hands)
    show "idempotency_keys d = idempotency_keys (pl_db s)" using new(2) by simp
  qed (use letter(2) plant_invD(5) [OF inv] in \<open>simp_all add: outcome_state_def with_db_def\<close>)
qed

text \<open>An honest probe that says a job has not failed says it of no PENDING ticket's job.\<close>

lemma honest_retry:
  assumes "hands_inv h" and "ha_jobs h = jobs q" and "(j, data) \<in> ha_failing h" and "honest_probe jobs q j probe"
    and "\<not> classifyFailure probe job err"
  shows "\<not> pending (ha_db h) (jd_ticketId data)"
proof
  assume "pending (ha_db h) (jd_ticketId data)"
  with assms(1-3) obtain bj where bj: "jobs q j = Some bj" "bj_failed bj"
    unfolding hands_inv_def failing_ok_def by metis
  from assms(5) have "isTerminalFailure probe job err = Inr False"
    by (simp add: classifyFailure_def split: sum.splits)
  then have "withTimeout probe TERMINAL_PROBE_TIMEOUT_MS ''isFailed() probe timed out'' = Inr False"
    by (simp add: isTerminalFailure_def split: if_splits)
  then obtain u where "probe = Some (u, Inr False)"
    by (auto simp: withTimeout_def split: option.splits prod.splits if_splits)
  with assms(4) have "False = (\<exists>bj. jobs q j = Some bj \<and> bj_failed bj)" unfolding honest_probe_def by blast
  with bj show False by blast
qed

lemma plant_handled:
  assumes inv: "plant_inv jobs env s" and env: "env_valid env" and f: "(j, data) \<in> pl_failing s"
    and job: "rj_data job = data" and probe: "honest_probe jobs (pl_queue s) j probe"
    and run: "onFailed db_err probe nid now job err (pl_metrics s) (pl_db s) = (m, d)"
  shows "plant_inv jobs env ((outcome_state (jd_ticketId data) m d s)\<lparr>pl_failing := pl_failing s - {(j, data)}\<rparr>)"
proof -
  let ?s1 = "outcome_state (jd_ticketId data) m d s"
  let ?s = "?s1\<lparr>pl_failing := pl_failing s - {(j, data)}\<rparr>"
  note h = plant_invD(2) [OF inv]
  have ok: "data_ok (pl_db s) data" and named: "\<And>i. replays j i \<Longrightarrow> i \<in> values_of dl_id (dead_letters (pl_db s))"
    using h f unfolding hands_inv_def failing_ok_def job_ok_def by auto
  have inv1: "plant_inv jobs env ?s1" using plant_outcome [OF inv env _ run] ok by (simp add: job)
  have pf: "pl_failing ?s1 = pl_failing s" by (simp add: outcome_state_def)
  note hands1 = hands_of_outcome [of jobs "jd_ticketId data" m d s]
  have passed: "held ((hands_of jobs ?s1)\<lparr>ha_failing := F\<rparr>) (jd_ticketId data)
      \<and> (\<forall>i. replays j i \<longrightarrow> beyond (hands_of jobs ?s1) (jd_ticketId data) i)"
    if p: "pending (pl_db ?s1) (jd_ticketId data)" for F
    using run
  proof (cases rule: onFailed_cases)
    case retry
    from honest_retry [OF h _ _ probe retry(1)] f have "\<not> pending (pl_db s) (jd_ticketId data)" by simp
    with p retry(2) show ?thesis by (simp add: outcome_state_def)
  next
    case alarm
    then show ?thesis unfolding hands1 by (simp add: held_def beyond_def)
  next
    case letter
    let ?r = "dead_letter_of nid now job err"
    from letter(1) have new: "dl_id ?r \<notin> values_of dl_id (dead_letters (pl_db s))"
      "d = (pl_db s)\<lparr>dead_letters := dead_letters (pl_db s) @ [?r]\<rparr>"
      by (simp_all add: insert_dead_letter_def split: if_splits)
    have r: "job_of_json (dl_payload ?r) = data" "dl_status ?r = DL_PENDING"
      by (simp_all add: dead_letter_of_def job_json_roundtrip job)
    have "hands_of jobs ?s1 = (hands_of jobs s)\<lparr>ha_db := d\<rparr>"
      using letter(2) unfolding hands1 by (simp add: hands_of_def)
    then show ?thesis
      using hands_letter(2,3) [OF h _ _ r(1) _ r(2), of d] new ok named by (simp add: held_def)
  qed
  have "hands_inv (hands_of jobs ?s)"
    unfolding hands_of_update using hands_handled [OF plant_invD(2) [OF inv1], of j data] passed f pf by simp
  then show ?thesis
    by (rule plant_hands [OF inv1, rotated 3]) (use plant_invD(3) [OF inv1] in simp_all)
qed

text \<open>An operator's replay: the flip, the new job, or the undo.\<close>

lemma plant_flip:
  assumes inv: "plant_inv jobs env s" and env: "env_valid env" and run: "replay_flip now i (pl_db s) = (row # rows, d)"
  shows "plant_inv jobs env ((with_db d s)\<lparr>pl_replaying := insert (i, job_of_json (dl_payload row)) (pl_replaying s)\<rparr>)"
proof (rule plant_letters [OF inv env])
  let ?g = "\<lambda>r. if dl_id r = i \<and> dl_status r = DL_PENDING then r\<lparr>dl_status := DL_REPLAYED, dl_replayedAt := Some now\<rparr> else r"
  let ?s = "(with_db d s)\<lparr>pl_replaying := insert (i, job_of_json (dl_payload row)) (pl_replaying s)\<rparr>"
  note h = plant_invD(2) [OF inv]
  show "sys_step env dispatch (pl_sys s) ((pl_sys s)\<lparr>sy_db := d\<rparr>)" by (rule sys_step.replay [OF run])
  from run have d: "d = (pl_db s)\<lparr>dead_letters := map ?g (dead_letters (pl_db s))\<rparr>"
    by (auto simp: replay_flip_def update_where_def Let_def)
  from run have "map (\<lambda>r. r\<lparr>dl_status := DL_REPLAYED, dl_replayedAt := Some now\<rparr>)
      (filter (\<lambda>r. dl_id r = i \<and> dl_status r = DL_PENDING) (dead_letters (pl_db s))) = row # rows"
    by (simp add: replay_flip_def Let_def)
  then have "row \<in> set (map (\<lambda>r. r\<lparr>dl_status := DL_REPLAYED, dl_replayedAt := Some now\<rparr>)
      (filter (\<lambda>r. dl_id r = i \<and> dl_status r = DL_PENDING) (dead_letters (pl_db s))))"
    by (simp only: list.set_intros)
  then obtain r where r: "r \<in> set (dead_letters (pl_db s))" "dl_id r = i" "dl_payload row = dl_payload r" by auto
  have replaying: "\<exists>r \<in> set (dead_letters (pl_db s)). dl_id r = i' \<and> job_of_json (dl_payload r) = data"
    if "(i', data) \<in> insert (i, job_of_json (dl_payload row)) (pl_replaying s)" for i' data
    using that
  proof (cases "(i', data) \<in> pl_replaying s")
    case True
    then have "(i', data) \<in> ha_replaying (hands_of jobs s)" by simp
    from replaying_row [OF h this] show ?thesis by simp
  next
    case False
    with that r show ?thesis by auto
  qed
  have "hands_inv ((hands_of jobs s)\<lparr>ha_db := d, ha_replaying := insert (i, job_of_json (dl_payload row)) (pl_replaying s)\<rparr>)"
  proof (rule hands_redeal [OF h])
    show "d = (ha_db (hands_of jobs s))\<lparr>dead_letters := map ?g (dead_letters (ha_db (hands_of jobs s)))\<rparr>"
      unfolding hands_of_simps by (rule d)
    show "dl_id (?g r) = dl_id r" "dl_payload (?g r) = dl_payload r" for r by simp_all
    fix r assume "open_letter (hands_of jobs s) r"
    then show "open_letter ((hands_of jobs s)\<lparr>ha_db := d, ha_replaying := insert (i, job_of_json (dl_payload row))
        (pl_replaying s)\<rparr>) (?g r)" by (auto simp: open_letter_def)
  qed (unfold hands_of_simps, rule replaying)
  then show "hands_inv (hands_of jobs ?s)" by (simp add: hands_of_update)
  show "idempotency_keys d = idempotency_keys (pl_db s)" using d by simp
qed (use plant_invD(5) [OF inv] in \<open>simp_all add: with_db_def\<close>)

lemma plant_undo:
  assumes inv: "plant_inv jobs env s" and env: "env_valid env"
  shows "plant_inv jobs env ((with_db (replay_undo i (pl_db s)) s)\<lparr>pl_replaying := off i (pl_replaying s)\<rparr>)"
proof (rule plant_letters [OF inv env])
  let ?d = "replay_undo i (pl_db s)" and ?R = "off i (pl_replaying s)"
  let ?s = "(with_db ?d s)\<lparr>pl_replaying := ?R\<rparr>"
  let ?g = "\<lambda>r. if dl_id r = i then r\<lparr>dl_status := DL_PENDING, dl_replayedAt := None\<rparr> else r"
  note h = plant_invD(2) [OF inv]
  show "sys_step env dispatch (pl_sys s) ((pl_sys s)\<lparr>sy_db := ?d\<rparr>)" by (rule sys_step.undo)
  have d: "?d = (pl_db s)\<lparr>dead_letters := map ?g (dead_letters (pl_db s))\<rparr>"
    by (simp add: replay_undo_def update_where_def)
  have replaying: "\<exists>r \<in> set (dead_letters (pl_db s)). dl_id r = i' \<and> job_of_json (dl_payload r) = data"
    if "(i', data) \<in> ?R" for i' data
  proof -
    from that have "(i', data) \<in> ha_replaying (hands_of jobs s)" by (simp add: off_def)
    from replaying_row [OF h this] show ?thesis by simp
  qed
  have "hands_inv ((hands_of jobs s)\<lparr>ha_db := ?d, ha_replaying := ?R\<rparr>)"
  proof (rule hands_redeal [OF h])
    show "?d = (ha_db (hands_of jobs s))\<lparr>dead_letters := map ?g (dead_letters (ha_db (hands_of jobs s)))\<rparr>"
      unfolding hands_of_simps by (rule d)
    show "dl_id (?g r) = dl_id r" "dl_payload (?g r) = dl_payload r" for r by simp_all
    fix r assume "open_letter (hands_of jobs s) r"
    then show "open_letter ((hands_of jobs s)\<lparr>ha_db := ?d, ha_replaying := ?R\<rparr>) (?g r)"
      by (auto simp: open_letter_def off_ids)
  qed (unfold hands_of_simps, rule replaying)
  then show "hands_inv (hands_of jobs ?s)" by (simp add: hands_of_update)
  show "idempotency_keys ?d = idempotency_keys (pl_db s)" using d by simp
qed (use plant_invD(5) [OF inv] in \<open>simp_all add: with_db_def\<close>)

text \<open>The first enqueue of a key, and its acknowledgement.\<close>

lemma plant_first:
  assumes inv: "plant_inv jobs env s" and laws: "bull_laws Q jobs"
    and issued: "(jd_idempotencyKey data, jd_ticketId data) \<in> sy_issued (pl_sys s)"
    and run: "enqueue Q env data (pl_queue s) = (res, q)"
  shows "plant_inv jobs env (s\<lparr>pl_queue := q, pl_queued := (case res of
       Inr _ \<Rightarrow> insert (jd_idempotencyKey data, jd_ticketId data) (pl_queued s) | Inl _ \<Rightarrow> pl_queued s)\<rparr>)"
proof -
  let ?k = "jd_idempotencyKey data" and ?t = "jd_ticketId data" and ?h1 = "(hands_of jobs s)\<lparr>ha_jobs := jobs q\<rparr>"
  have n: "names (pl_db s) ?k ?t" using plant_invD(1) [OF inv] issued by (simp add: sys_inv_def)
  then have "assertUsableAsJobId ?k = Inr ()" by (intro plant_invD(6) [OF inv]) (auto simp: names_def)
  then have free: "CHR '':'' \<notin> set ?k" by (rule usable_no_colon)
  have id: "jo_jobId (standard_opts env ?k) = ?k" by (simp add: standard_opts_def)
  have add: "bull_add Q ENRICH_TICKET_JOB data (standard_opts env ?k) (pl_queue s) = (res, q)"
    using run by (simp add: enqueue_def)
  have ok: "job_ok (ha_db (hands_of jobs s)) (jo_jobId (standard_opts env ?k)) data"
    unfolding id using n free by (simp add: job_ok_def data_ok_def job_key_suffix)
  have named: "\<And>i. replays (jo_jobId (standard_opts env ?k)) i \<Longrightarrow> i \<in> values_of dl_id (dead_letters (ha_db (hands_of jobs s)))"
    unfolding id using not_replays(1) [OF free] by blast
  have jobs: "ha_jobs (hands_of jobs s) = jobs (pl_queue s)" by simp
  note inv1 = hands_bull_add(1) [OF laws add plant_invD(2) [OF inv] jobs ok named]
  have "hands_inv (hands_of jobs (s\<lparr>pl_queue := q, pl_queued := (case res of
       Inr _ \<Rightarrow> insert (?k, ?t) (pl_queued s) | Inl _ \<Rightarrow> pl_queued s)\<rparr>))"
  proof (cases res)
    case (Inl e)
    then have same: "s\<lparr>pl_queue := q, pl_queued := (case res of
       Inr _ \<Rightarrow> insert (?k, ?t) (pl_queued s) | Inl _ \<Rightarrow> pl_queued s)\<rparr> = s\<lparr>pl_queue := q\<rparr>" by simp
    show ?thesis unfolding same hands_of_update by (rule inv1)
  next
    case (Inr a)
    from hands_bull_add(2) [OF laws add plant_invD(2) [OF inv] jobs ok named Inr]
    obtain bj where bj: "jobs q ?k = Some bj" by (auto simp: id)
    then have "job_ok (pl_db s) ?k (bj_data bj)" using inv1 by (simp add: hands_inv_def jobs_ok_def)
    from job_same_ticket [OF this] ok have "jd_ticketId (bj_data bj) = ?t" by (simp add: id)
    with bj have "touched ?h1 ?t" by (auto simp: touched_def)
    with inv1 have "pending (pl_db s) ?t \<Longrightarrow> held ?h1 ?t" by (simp add: hands_inv_def held_ok_def)
    from hands_ack [OF inv1, of ?k ?t] n this Inr show ?thesis by (simp add: hands_of_update)
  qed
  then show ?thesis
    by (rule plant_hands [OF inv, rotated 3])
       (use plant_invD(3) [OF inv] issued in \<open>auto split: sum.splits\<close>)
qed

lemma completed_keys_completed:
  assumes "k' \<in> completed_keys (markCompleted now k t c b d)"
  shows "k' \<in> completed_keys d \<or> names (markCompleted now k t c b d) k' t \<and> k' = k"
  using assms by (auto simp: completed_keys_def names_def key_row_completed split: if_splits)

lemma plant_step_inv:
  assumes "plant_step Q jobs env dispatch s s'" and laws: "bull_laws Q jobs" and env: "env_valid env"
    and inv: "plant_inv jobs env s"
  shows "plant_inv jobs env s'"
proof -
  note h = plant_invD(2) [OF inv] and q = plant_invD(3) [OF inv]
  have jobs: "ha_jobs (hands_of jobs s) = jobs (pl_queue s)" by simp
  from assms(1) show ?thesis
  proof cases
    case (quiet x)
    show ?thesis unfolding quiet(1)
      by (rule plant_quiet [OF inv env quiet(2,3)]) (use quiet(4,5) in blast)+
  next
    case (first_add data res q)
    show ?thesis unfolding first_add(1) by (rule plant_first [OF inv laws first_add(2,3)])
  next
    case (complete k t now responseCode responseBody)
    let ?d = "markCompleted now k t responseCode responseBody (pl_db s)"
    have "(k, t) \<in> sy_issued (pl_sys s)" using complete(2) q by blast
    then have step: "sys_step env dispatch (pl_sys s) ((pl_sys s)\<lparr>sy_db := ?d\<rparr>)" by (rule sys_step.complete)
    have "plant_inv jobs env (s\<lparr>pl_sys := (pl_sys s)\<lparr>sy_db := ?d\<rparr>\<rparr>)"
    proof (rule plant_quiet [OF inv env step])
      fix k' assume "k' \<in> completed_keys (sy_db ((pl_sys s)\<lparr>sy_db := ?d\<rparr>))"
      then show "k' \<in> completed_keys (pl_db s)
          \<or> (\<exists>t. names (sy_db ((pl_sys s)\<lparr>sy_db := ?d\<rparr>)) k' t \<and> (k', t) \<in> pl_queued s)"
        using completed_keys_completed complete(2) by fastforce
    qed (simp_all add: key_row_completed)
    then show ?thesis unfolding complete(1) with_db_def .
  next
    case (upgrade_add j bj show_int r res q)
    have "hands_inv (hands_of jobs (s\<lparr>pl_queue := q\<rparr>))"
      unfolding hands_of_update by (rule hands_upgrade [OF laws upgrade_add(3) h jobs upgrade_add(2)])
    then show ?thesis unfolding upgrade_add(1)
      by (rule plant_hands [OF inv, rotated 3]) (use q in simp_all)
  next
    case (reconcile_add data res q)
    have "assertUsableAsJobId (jd_idempotencyKey data) = Inr ()"
      using reconcile_add(2) by (intro plant_invD(6) [OF inv]) (auto simp: names_def)
    then have "data_ok (ha_db (hands_of jobs s)) data"
      using reconcile_add(2) usable_no_colon by (simp add: data_ok_def)
    then have "hands_inv (hands_of jobs (s\<lparr>pl_queue := q\<rparr>))"
      unfolding hands_of_update
      by (rule hands_reconcile [OF laws reconcile_add(4) h jobs]) (use reconcile_add(3) in simp)
    then show ?thesis unfolding reconcile_add(1)
      by (rule plant_hands [OF inv, rotated 3]) (use plant_invD(3) [OF inv] in simp_all)
  next
    case (job_done j bj)
    have "hands_inv (hands_of jobs (s\<lparr>pl_done := insert j (pl_done s)\<rparr>))"
      unfolding hands_of_update using hands_done [OF h, of j bj] job_done by simp
    then show ?thesis unfolding job_done(1)
      by (rule plant_hands [OF inv, rotated 3]) (use q in simp_all)
  next
    case (job_failed j bj q)
    have "hands_inv (hands_of jobs (s\<lparr>pl_queue := q, pl_failing := insert (j, bj_data bj) (pl_failing s)\<rparr>))"
      unfolding hands_of_update using hands_fail [OF h, of j bj] job_failed by simp
    then show ?thesis unfolding job_failed(1)
      by (rule plant_hands [OF inv, rotated 3]) (use plant_invD(3) [OF inv] in simp_all)
  next
    case (job_dropped j bj q)
    have "\<not> pending (pl_db s) (jd_ticketId (bj_data bj)) \<or> bj_failed bj \<and> j \<notin> fst ` pl_failing s"
      using job_dropped(2,3) h by (auto simp: hands_inv_def done_ok_def)
    with hands_drop [OF h, of j bj] job_dropped(2)
    have "hands_inv (hands_of jobs (s\<lparr>pl_queue := q, pl_done := pl_done s - {j}\<rparr>))"
      unfolding hands_of_update by (simp add: job_dropped(4))
    then show ?thesis unfolding job_dropped(1)
      by (rule plant_hands [OF inv, rotated 3]) (use plant_invD(3) [OF inv] in simp_all)
  next
    case (attempt_failed j bj job db_err probe nid now err m d)
    have "data_ok (pl_db s) (rj_data job)"
      using h attempt_failed(2,4) by (simp add: hands_inv_def jobs_ok_def job_ok_def)
    from plant_outcome [OF inv env this attempt_failed(5)] show ?thesis
      by (simp add: attempt_failed(1) attempt_failed(4))
  next
    case (failure_handled j data job probe db_err nid now err m d)
    show ?thesis unfolding failure_handled(1)
      by (rule plant_handled [OF inv env failure_handled(2-5)])
  next
    case (flip now i row rows d)
    show ?thesis unfolding flip(1) by (rule plant_flip [OF inv env flip(2)])
  next
    case (replay_add i data res q)
    have rep: "(i, data) \<in> ha_replaying (hands_of jobs s)" using replay_add(2) by simp
    from hands_replay [OF laws replay_add(3) h jobs rep]
    have "hands_inv (hands_of jobs (s\<lparr>pl_queue := q, pl_replaying := (case res of
        Inr _ \<Rightarrow> off i (pl_replaying s) | Inl _ \<Rightarrow> pl_replaying s)\<rparr>))"
      unfolding hands_of_update by (simp only: hands_of_simps)
    then show ?thesis unfolding replay_add(1)
      by (rule plant_hands [OF inv, rotated 3]) (use plant_invD(3) [OF inv] in simp_all)
  next
    case (undo i data)
    show ?thesis unfolding undo(1) by (rule plant_undo [OF inv env])
  next
    case (died F R)
    let ?X = "pl_alarm s \<union> (pl_lost s \<union> (jd_ticketId \<circ> snd) ` F \<union> (jd_ticketId \<circ> snd) ` R)"
    have "hands_inv ((hands_of jobs s)\<lparr>ha_failing := pl_failing s - F, ha_replaying := pl_replaying s - R, ha_alarm := ?X\<rparr>)"
      by (rule hands_died [OF h]) (force+)
    then have "hands_inv (hands_of jobs s')" unfolding died(1) hands_of_update by simp
    then show ?thesis unfolding died(1)
      by (rule plant_hands [OF inv, rotated 3]) (use q in simp_all)
  qed
qed

lemma plant_start_inv:
  assumes "jobs q = Map.empty"
  shows "plant_inv jobs env (plant_start w m q)"
proof (rule plant_invI)
  show "sys_inv env (\<lambda>_. UNIV) (pl_sys (plant_start w m q))" by (simp add: plant_start_def sys_start_inv)
  have [simp]: "dead_letters empty_db = []" by (simp add: empty_db_def)
  show "hands_inv (hands_of jobs (plant_start w m q))"
    using assms
    by (simp add: plant_start_def hands_of_def sys_start_def custody_defs touched_def letters_def)
qed (simp_all add: plant_start_def sys_start_def completed_keys_def empty_db_def)

lemma plant_reach_inv:
  assumes "plant_reach Q jobs env dispatch s0 s" and "bull_laws Q jobs" and "env_valid env" and "plant_inv jobs env s0"
  shows "plant_inv jobs env s"
  using assms by (induction rule: plant_reach.induct) (auto intro: plant_step_inv)

end
