(* ===== verification/System_Refinement.thy ===== *)
theory System_Refinement
  imports System
begin

section \<open>The handlers are paths of the system\<close>

text \<open>
  The step relation of \<open>System\<close> is fine-grained; the handlers of the components are functions. Every
  run of a handler, on every branch and with every fault, is a path of steps: what is proved of all
  paths holds between and after any runs of the code's own operations.
\<close>

definition sys_at :: "'w sys \<Rightarrow> db \<Rightarrow> (string \<times> uuid) set \<Rightarrow> 'w sys" where
  "sys_at x d I = x\<lparr>sy_db := d, sy_issued := I\<rparr>"

lemma sys_at_simps [simp]:
  "sy_db (sys_at x d I) = d" "sy_issued (sys_at x d I) = I" "sy_seen (sys_at x d I) = sy_seen x"
  "sy_world (sys_at x d I) = sy_world x" "(sys_at x d I)\<lparr>sy_db := d'\<rparr> = sys_at x d' I"
  "(sys_at x d I)\<lparr>sy_issued := I'\<rparr> = sys_at x d I'"
  by (simp_all add: sys_at_def)

lemma claim_path:
  assumes "claim env nid t1 t3 key h d = (res, d')"
  shows "sys_reach env dispatch (sys_at x d I) (sys_at x d' I)"
proof -
  obtain won d1 where ins: "claim_insert nid t1 key h d = (won, d1)" by (rule prod.exhaust)
  obtain n d2 where rec: "claim_reclaim (IDEMPOTENCY_LEASE_MS env) t3 key d1 = (n, d2)" by (rule prod.exhaust)
  have one: "sys_reach env dispatch (sys_at x d I) (sys_at x d1 I)"
    using sys_reach_one [OF sys_step.insert_key [of nid t1 key h "sys_at x d I" won d1]] ins by simp
  have two: "sys_reach env dispatch (sys_at x d I) (sys_at x d2 I)"
    using sys_reach.more [OF one sys_step.reclaim_key [of env t3 key "sys_at x d1 I" n d2]] rec by simp
  have "d' = d1 \<or> d' = d2"
    using assms ins rec by (auto simp: claim_def split: bool.splits sum.splits option.splits if_splits)
  with one two show ?thesis by blast
qed

lemma processNew_path:
  assumes "processNew H env key dto s = (res, s')"
  shows "\<exists>I'. sys_reach env dispatch (sys_at x (ap_db s) I) (sys_at x (ap_db s') I')
    \<and> (\<forall>ans. res = Inr ans \<longrightarrow> (\<exists>t. ir_ticketId ans = Some t \<and> (key, t) \<in> I'))"
proof -
  let ?r = "createTicketIfAbsent H key dto (ap_db s)"
  let ?I = "issue key (tx_value ?r) I"
  have create: "sys_reach env dispatch (sys_at x (ap_db s) I) (sys_at x (tx_db ?r) ?I)"
    using sys_reach_one [OF sys_step.create [of ?r "ih_faults H" "ih_eventId H" "ih_ticketId H" "ih_create_at H"
          key dto "sys_at x (ap_db s) I" env dispatch]]
    by (simp add: createTicketIfAbsent_def)
  from assms show ?thesis
  proof (cases rule: processNew_cases)
    case (gave_up e)
    have "sys_reach env dispatch (sys_at x (ap_db s) I) (sys_at x (markFailed (ih_end_at H) key (tx_db ?r)) ?I)"
      using sys_reach.more [OF create sys_step.fail [of env dispatch "sys_at x (tx_db ?r) ?I" "ih_end_at H" key]] by simp
    with create gave_up show ?thesis by (intro exI [of _ ?I]) (simp add: Let_def)
  next
    case (unfinished t e err)
    with create show ?thesis by (intro exI [of _ ?I]) simp
  next
    case (accepted t e jobId q)
    then have issued: "(key, t) \<in> ?I" by (simp add: issue_def)
    then have "(key, t) \<in> sy_issued (sys_at x (tx_db ?r) ?I)" by simp
    from sys_reach.more [OF create sys_step.complete [OF this]]
    have "sys_reach env dispatch (sys_at x (ap_db s) I) (sys_at x (ap_db s') ?I)" by (simp add: accepted(4))
    with issued accepted show ?thesis by (intro exI [of _ ?I]) simp
  qed
qed

text \<open>
  C6: a run of \<open>ingest\<close>, on every branch and with every failure, is a path of the system: its claim
  statements, its ticket transaction, and its final mark. What it accepts it was issued, so the
  answer names the ticket every other answer of the key names.
\<close>

theorem ingest_refines_system:
  assumes "ingest H env dto headerKey s = (res, s')" and "sy_db x = ap_db s"
  shows "\<exists>I. sys_reach env dispatch x (x\<lparr>sy_db := ap_db s', sy_issued := I\<rparr>)
    \<and> (\<forall>ans. res = Inr ans \<and> ir_status ans = Accepted \<longrightarrow>
         (\<exists>t. ir_ticketId ans = Some t \<and> (ir_idempotencyKey ans, t) \<in> I))"
proof -
  have x: "x = sys_at x (ap_db s) (sy_issued x)" using assms(2) by (cases x) (simp add: sys_at_def)
  let ?h = "request_hash H dto" and ?key = "event_key (request_hash H dto) dto headerKey"
  have "\<exists>I. sys_reach env dispatch (sys_at x (ap_db s) (sy_issued x)) (sys_at x (ap_db s') I)
    \<and> (\<forall>ans. res = Inr ans \<and> ir_status ans = Accepted \<longrightarrow>
         (\<exists>t. ir_ticketId ans = Some t \<and> (ir_idempotencyKey ans, t) \<in> I))"
  proof (cases "assertUsableAsJobId ?key")
    case (Inl e)
    with assms(1) have "res = Inl e" "s' = s" by (simp_all add: ingest_def Let_def)
    then show ?thesis using sys_reach.start by auto
  next
    case (Inr u)
    obtain out d where cl: "claim env (ih_idemId H) (ih_claim_at H) (ih_reclaim_at H) ?key ?h (ap_db s) = (out, d)"
      by (rule prod.exhaust)
    have path: "sys_reach env dispatch (sys_at x (ap_db s) (sy_issued x)) (sys_at x d (sy_issued x))" by (rule claim_path [OF cl])
    show ?thesis
    proof (cases "out = Inr CR_NEW")
      case True
      with Inr cl assms(1) have run: "processNew H env ?key dto (s\<lparr>ap_db := d\<rparr>) = (res, s')"
        by (simp add: ingest_def Let_def answer_claim_def)
      from processNew_path [OF this, of dispatch x "sy_issued x"] obtain I where
        I: "sys_reach env dispatch (sys_at x d (sy_issued x)) (sys_at x (ap_db s') I)"
          "\<forall>ans. res = Inr ans \<longrightarrow> (\<exists>t. ir_ticketId ans = Some t \<and> (?key, t) \<in> I)"
        by auto
      have "ir_idempotencyKey ans = ?key" if "res = Inr ans" for ans
        using run that by (cases rule: processNew_cases) auto
      with I sys_reach_trans [OF I(1) path] show ?thesis by metis
    next
      case False
      with Inr cl assms(1) have "ap_db s' = d" "res = Inr ans \<Longrightarrow> ir_status ans \<noteq> Accepted" for ans
        by (auto simp: ingest_def Let_def answer_claim_def replay_answer_def
            split: sum.splits claim_result.splits)
      with path show ?thesis by auto
    qed
  qed
  then show ?thesis using x by (metis sys_at_def)
qed

lemma process_job_db:
  assumes run: "process_job H env data p = (res, p')"
  obtains (nothing) "pp_db p' = pp_db p"
    | (persisted) t out cid a where "findByIdOrThrow (jd_ticketId data) (pp_db p) = Inr t"
      "ph_enrich H cid t (pp_ai p) = (Inr out, a)"
      "pp_db p' = tx_db (persistAndEmit (ph_faults H) (ph_newid H) (ph_now H) (tk_id t) (tk_enrichmentStatus t) out data (pp_db p))"
proof -
  obtain cid where assms: "process_in_scope H env data p cid = (res, p')"
    using run unfolding process_job_def runWithCorrelation_def by blast
  show thesis
proof (cases "findByIdOrThrow (jd_ticketId data) (pp_db p)")
  case (Inl e)
  with assms have "pp_db p' = pp_db p" by (simp add: process_in_scope_def)
  then show thesis by (rule nothing)
next
  case (Inr t)
  obtain ans a where call: "ph_enrich H cid t (pp_ai p) = (ans, a)" by (rule prod.exhaust)
  show thesis
  proof (cases ans)
    case (Inl e)
    with Inr call assms have "pp_db p' = pp_db p" by (auto simp: process_in_scope_def Let_def)
    then show thesis by (rule nothing)
  next
    case (Inr out)
    let ?db = "tx_db (persistAndEmit (ph_faults H) (ph_newid H) (ph_now H) (tk_id t) (tk_enrichmentStatus t) out data (pp_db p))"
    have "pp_db p' = ?db"
      using assms \<open>findByIdOrThrow _ _ = Inr t\<close> call Inr
      by (auto simp: process_in_scope_def Let_def split: sum.splits prod.splits if_splits)
    with persisted [OF \<open>findByIdOrThrow _ _ = Inr t\<close>] call Inr show thesis by simp
  qed
qed
qed

text \<open>A worker's whole job, whatever its enricher answers and whichever call fails.\<close>

lemma process_job_path:
  assumes db: "sy_db x = pp_db p" and run: "process_job H env data p = (res, p')"
    and enricher: "\<And>c t a out a'. ph_enrich H c t a = (Inr out, a') \<Longrightarrow> outcome_ok out"
  shows "\<exists>seen. sys_reach env dispatch x (x\<lparr>sy_db := pp_db p', sy_seen := seen\<rparr>)"
  using run
proof (cases rule: process_job_db)
  case nothing
  with db have "x\<lparr>sy_db := pp_db p', sy_seen := sy_seen x\<rparr> = x" by (cases x) simp
  then show ?thesis using sys_reach.start by metis
next
  case (persisted t out cid a)
  let ?seen = "insert (jd_ticketId data, tk_enrichmentStatus t) (sy_seen x)"
  have "tk_row (jd_ticketId data) (pp_db p) = Some t" using persisted(1) by (simp add: findByIdOrThrow_ok)
  then have id: "tk_id t = jd_ticketId data" by (auto dest: row_with_SomeD)
  have "work_step (pp_db p, sy_seen x) (pp_db p, ?seen)" using persisted(1) by (rule work_step.read)
  then have one: "sys_step env dispatch x (x\<lparr>sy_db := pp_db p, sy_seen := ?seen\<rparr>)"
    using db by (auto intro: sys_step.work)
  have "outcome_ok out" using enricher persisted(2) by blast
  moreover have "pp_db p' = tx_db (persistAndEmit (ph_faults H) (ph_newid H) (ph_now H) (jd_ticketId data)
      (tk_enrichmentStatus t) out data (pp_db p))"
    using persisted(3) id by simp
  ultimately have "work_step (pp_db p, ?seen) (pp_db p', ?seen)"
    using work_step.persist [OF _ _ refl, of "jd_ticketId data" "tk_enrichmentStatus t" ?seen out] by simp
  then have "sys_step env dispatch (x\<lparr>sy_db := pp_db p, sy_seen := ?seen\<rparr>)
      ((x\<lparr>sy_db := pp_db p, sy_seen := ?seen\<rparr>)\<lparr>sy_db := pp_db p', sy_seen := ?seen\<rparr>)"
    by (intro sys_step.work) simp
  then have "sys_reach env dispatch x (x\<lparr>sy_db := pp_db p', sy_seen := ?seen\<rparr>)"
    using sys_reach.more [OF sys_reach_one [OF one]] by simp
  then show ?thesis by blast
qed

subsection \<open>Concrete runs\<close>

theorem ingest_refines_system_witness:
  "\<exists>I. sys_reach env_defaults (webhook_dispatch (\<lambda>_. []) env_defaults sink_fetch) (sys_start ([], {}) no_metrics)
     ((sys_start ([], {}) no_metrics)\<lparr>sy_db := ap_db (snd (ingest order_host env_defaults order_request None order_api)),
        sy_issued := I\<rparr>)"
proof -
  obtain res s' where run: "ingest order_host env_defaults order_request None order_api = (res, s')" by (rule prod.exhaust)
  have "sy_db (sys_start ([], {}) no_metrics) = ap_db order_api" by (simp add: sys_start_def order_api_def)
  from ingest_refines_system [OF run this] show ?thesis unfolding run snd_conv by blast
qed

end
