(* ===== verification/Custody_Runs.thy ===== *)
theory Custody_Runs
  imports Custody System_Refinement
begin

section \<open>No accepted ticket is lost\<close>

text \<open>
  Every run of the code's own operations is a path of \<open>Custody\<close>'s steps: a submission, a job, the handler of
  a failed job, an operator's replay, a reconcile sweep. So the invariant speaks of the code, and its
  consequence is the promise behind \<open>202 Accepted\<close>.
\<close>

lemma plant_reach_trans:
  assumes "plant_reach Q jobs env dispatch s1 s2" and "plant_reach Q jobs env dispatch s0 s1"
  shows "plant_reach Q jobs env dispatch s0 s2"
  using assms by (induction rule: plant_reach.induct) (auto intro: plant_reach.more)

lemma plant_reach_one: "plant_step Q jobs env dispatch s s' \<Longrightarrow> plant_reach Q jobs env dispatch s s'"
  by (rule plant_reach.more [OF plant_reach.start])

text \<open>\<open>plant_at s x q\<close>: the same processes over another system state and queue.\<close>

definition plant_at :: "('w, 'q) plant \<Rightarrow> 'w sys \<Rightarrow> 'q \<Rightarrow> ('w, 'q) plant" where
  "plant_at s x q = s\<lparr>pl_sys := x, pl_queue := q\<rparr>"

lemma plant_at_simps [simp]:
  "pl_sys (plant_at s x q) = x" "pl_queue (plant_at s x q) = q" "pl_queued (plant_at s x q) = pl_queued s"
  "pl_failing (plant_at s x q) = pl_failing s" "pl_replaying (plant_at s x q) = pl_replaying s"
  "pl_done (plant_at s x q) = pl_done s" "pl_alarm (plant_at s x q) = pl_alarm s" "pl_lost (plant_at s x q) = pl_lost s"
  "pl_metrics (plant_at s x q) = pl_metrics s"
  "(plant_at s x q)\<lparr>pl_sys := x'\<rparr> = plant_at s x' q" "(plant_at s x q)\<lparr>pl_queue := q'\<rparr> = plant_at s x q'"
  by (simp_all add: plant_at_def)

text \<open>A run that takes nothing over and loses nothing.\<close>

definition same_hands :: "('w, 'q) plant \<Rightarrow> ('w, 'q) plant \<Rightarrow> bool" where
  "same_hands s s' \<longleftrightarrow> pl_failing s' = pl_failing s \<and> pl_replaying s' = pl_replaying s \<and> pl_lost s' = pl_lost s
     \<and> pl_alarm s' = pl_alarm s \<and> pl_metrics s' = pl_metrics s"

lemma same_hands_refl [simp]: "same_hands s s"
  by (simp add: same_hands_def)

lemma quiet_at:
  assumes "sys_step env dispatch x x'" and "dead_letters (sy_db x') = dead_letters (sy_db x)"
    and "completed_keys (sy_db x') \<subseteq> completed_keys (sy_db x)"
    and "\<And>k. key_row k (sy_db x') \<noteq> None \<Longrightarrow> key_row k (sy_db x) = None \<Longrightarrow> assertUsableAsJobId k = Inr ()"
  shows "plant_step Q jobs env dispatch (plant_at s x q) (plant_at s x' q)"
  using plant_step.quiet [of env dispatch "plant_at s x q" x' Q jobs] assms by simp

lemma quiet_same:
  assumes "sys_step env dispatch x x'" and "dead_letters (sy_db x') = dead_letters (sy_db x)"
    and keys: "idempotency_keys (sy_db x') = idempotency_keys (sy_db x)"
  shows "plant_step Q jobs env dispatch (plant_at s x q) (plant_at s x' q)"
  by (rule quiet_at [OF assms(1,2)]) (simp_all add: completed_keys_def keys)

subsection \<open>A submission\<close>

lemma claim_insert_completed:
  assumes "claim_insert nid now key h d = (won, d')"
  shows "completed_keys d' \<subseteq> completed_keys d"
    and "key_row k d' \<noteq> None \<Longrightarrow> key_row k d = None \<Longrightarrow> k = key"
  using assms by (auto simp: claim_insert_def completed_keys_def row_with_append split: if_splits option.splits)

lemma claim_reclaim_completed:
  assumes "claim_reclaim lease now key d = (n, d')"
  shows "completed_keys d' \<subseteq> completed_keys d" and "key_row k d' \<noteq> None \<Longrightarrow> key_row k d = None \<Longrightarrow> P"
  using assms by (auto simp: completed_keys_def key_row_reclaim split: if_splits)

lemma create_completed:
  assumes "d' = tx_db (createTicketIfAbsent H key dto d)"
  shows "completed_keys d' \<subseteq> completed_keys d" and "dead_letters d' = dead_letters d"
    and "key_row k d' \<noteq> None \<Longrightarrow> key_row k d = None \<Longrightarrow> P"
proof -
  have "completed_keys d' \<subseteq> completed_keys d \<and> dead_letters d' = dead_letters d
    \<and> (key_row k d' \<noteq> None \<longrightarrow> key_row k d \<noteq> None)"
  proof (cases "d' = d")
    case False
    with tx.run_atomic [of "ih_faults H"] assms obtain r where
      "fst (create_work (ih_eventId H) (ih_ticketId H) (ih_create_at H) key dto () d) = Inr (r, d')"
      unfolding createTicketIfAbsent_def by metis
    then have "fst (create_work (ih_eventId H) (ih_ticketId H) (ih_create_at H) key dto () d) = Inr ((fst r, snd r), d')"
      by simp
    then show ?thesis
      by (cases rule: create_work_cases) (auto simp: completed_keys_def key_row_attach split: if_splits)
  qed simp
  then show "completed_keys d' \<subseteq> completed_keys d" and "dead_letters d' = dead_letters d"
    and "key_row k d' \<noteq> None \<Longrightarrow> key_row k d = None \<Longrightarrow> P" by blast+
qed

lemma markFailed_completed:
  "completed_keys (markFailed now key d) \<subseteq> completed_keys d"
  "key_row k (markFailed now key d) = None \<longleftrightarrow> key_row k d = None"
  by (auto simp: completed_keys_def key_row_failed split: if_splits)

lemma claim_custody:
  assumes run: "claim env nid t1 t3 key h d = (res, d')" and ok: "assertUsableAsJobId key = Inr ()"
  shows "plant_reach Q jobs env dispatch (plant_at s (sys_at x d I) q) (plant_at s (sys_at x d' I) q)"
proof -
  obtain won d1 where ins: "claim_insert nid t1 key h d = (won, d1)" by (rule prod.exhaust)
  obtain n d2 where rec: "claim_reclaim (IDEMPOTENCY_LEASE_MS env) t3 key d1 = (n, d2)" by (rule prod.exhaust)
  have "sys_step env dispatch (sys_at x d I) (sys_at x d1 I)"
    using sys_step.insert_key [of nid t1 key h "sys_at x d I" won d1] ins by simp
  then have one: "plant_reach Q jobs env dispatch (plant_at s (sys_at x d I) q) (plant_at s (sys_at x d1 I) q)"
    using claim_insert_frame [OF ins] claim_insert_completed [OF ins] ok
    by (intro plant_reach_one quiet_at) auto
  have "sys_step env dispatch (sys_at x d1 I) (sys_at x d2 I)"
    using sys_step.reclaim_key [of env t3 key "sys_at x d1 I" n d2] rec by simp
  then have "plant_step Q jobs env dispatch (plant_at s (sys_at x d1 I) q) (plant_at s (sys_at x d2 I) q)"
    using claim_reclaim_frame [OF rec] claim_reclaim_completed [OF rec]
    by (intro quiet_at) auto
  with one have two: "plant_reach Q jobs env dispatch (plant_at s (sys_at x d I) q) (plant_at s (sys_at x d2 I) q)"
    by (rule plant_reach.more)
  have "d' = d1 \<or> d' = d2"
    using run ins rec by (auto simp: claim_def split: bool.splits sum.splits option.splits if_splits)
  with one two show ?thesis by blast
qed

lemma give_up_custody:
  assumes "give_up H key e a = (res, a')"
  shows "plant_reach Q jobs env dispatch (plant_at s (sys_at x (ap_db a) I) (ap_queue a))
    (plant_at s (sys_at x (ap_db a') I) (ap_queue a'))"
proof (cases "ih_failed_err H")
  case (Some e')
  with assms show ?thesis by (auto simp: give_up_def intro: plant_reach.start)
next
  case None
  have "sys_step env dispatch (sys_at x (ap_db a) I) (sys_at x (markFailed (ih_end_at H) key (ap_db a)) I)"
    using sys_step.fail [of env dispatch "sys_at x (ap_db a) I" "ih_end_at H" key] by simp
  then have "plant_step Q jobs env dispatch (plant_at s (sys_at x (ap_db a) I) (ap_queue a))
      (plant_at s (sys_at x (markFailed (ih_end_at H) key (ap_db a)) I) (ap_queue a))"
    by (rule quiet_at) (simp_all add: markFailed_completed)
  with None assms show ?thesis by (auto simp: give_up_def intro: plant_reach_one)
qed

lemma processNew_custody:
  assumes run: "processNew H env key dto a = (res, a')"
  shows "\<exists>I' A. plant_reach (ih_bull H) jobs env dispatch (plant_at s (sys_at x (ap_db a) I) (ap_queue a))
    (plant_at (s\<lparr>pl_queued := A\<rparr>) (sys_at x (ap_db a') I') (ap_queue a'))"
proof -
  let ?r = "createTicketIfAbsent H key dto (ap_db a)"
  let ?I = "issue key (tx_value ?r) I"
  let ?s0 = "plant_at s (sys_at x (ap_db a) I) (ap_queue a)" and ?s1 = "plant_at s (sys_at x (tx_db ?r) ?I) (ap_queue a)"
  have "sys_step env dispatch (sys_at x (ap_db a) I) (sys_at x (tx_db ?r) ?I)"
    using sys_step.create [of ?r "ih_faults H" "ih_eventId H" "ih_ticketId H" "ih_create_at H" key dto "sys_at x (ap_db a) I"]
    by (simp add: createTicketIfAbsent_def)
  then have "plant_step (ih_bull H) jobs env dispatch ?s0 ?s1"
    by (rule quiet_at) (use create_completed [where H = H and key = key and dto = dto and d = "ap_db a", OF refl] in auto)
  then have one: "plant_reach (ih_bull H) jobs env dispatch ?s0 ?s1" by (rule plant_reach_one)
  have s_id: "s\<lparr>pl_queued := pl_queued s\<rparr> = s" by simp
  show ?thesis
  proof (cases "tx_value ?r")
    case (Inl e)
    with run have "give_up H key e (a\<lparr>ap_db := tx_db ?r\<rparr>) = (res, a')" by (simp add: processNew_def Let_def)
    from plant_reach_trans [OF give_up_custody [OF this] ] one
    have "plant_reach (ih_bull H) jobs env dispatch ?s0 (plant_at s (sys_at x (ap_db a') ?I) (ap_queue a'))" by simp
    then show ?thesis using s_id by metis
  next
    case (Inr p)
    obtain t e where p: "p = (t, e)" by (rule prod.exhaust)
    let ?job = "event_job H key t e"
    have job: "jd_idempotencyKey ?job = key" "jd_ticketId ?job = t" by (simp_all add: event_job_def)
    obtain out q where enq: "enqueue (ih_bull H) env ?job (ap_queue a) = (out, q)" by (rule prod.exhaust)
    let ?A = "case out of Inr _ \<Rightarrow> insert (key, t) (pl_queued s) | Inl _ \<Rightarrow> pl_queued s"
    let ?s2 = "plant_at (s\<lparr>pl_queued := ?A\<rparr>) (sys_at x (tx_db ?r) ?I) q"
    have "(key, t) \<in> ?I" using Inr p by (simp add: issue_def)
    then have "plant_step (ih_bull H) jobs env dispatch ?s1 (?s1\<lparr>pl_queue := q, pl_queued := (case out of
        Inr _ \<Rightarrow> insert (jd_idempotencyKey ?job, jd_ticketId ?job) (pl_queued ?s1) | Inl _ \<Rightarrow> pl_queued ?s1)\<rparr>)"
      by (intro plant_step.first_add) (simp_all add: job enq)
    moreover have "?s1\<lparr>pl_queue := q, pl_queued := (case out of
        Inr _ \<Rightarrow> insert (jd_idempotencyKey ?job, jd_ticketId ?job) (pl_queued ?s1) | Inl _ \<Rightarrow> pl_queued ?s1)\<rparr> = ?s2"
      by (cases out) (simp_all add: job plant_at_def)
    ultimately have "plant_step (ih_bull H) jobs env dispatch ?s1 ?s2" by simp
    with one have two: "plant_reach (ih_bull H) jobs env dispatch ?s0 ?s2" by (rule plant_reach.more)
    show ?thesis
    proof (cases out)
      case (Inl err)
      with \<open>tx_value ?r = Inr p\<close> p enq run
      have "give_up H key err (a\<lparr>ap_db := tx_db ?r, ap_queue := q\<rparr>) = (res, a')"
        by (simp add: processNew_def Let_def)
      from plant_reach_trans [OF give_up_custody [OF this]] two show ?thesis by fastforce
    next
      case (Inr jobId)
      then have A: "?A = insert (key, t) (pl_queued s)" by simp
      show ?thesis
      proof (cases "ih_completed_err H")
        case (Some err)
        with \<open>tx_value ?r = Inr p\<close> p enq run Inr have "ap_db a' = tx_db ?r" "ap_queue a' = q"
          by (auto simp: processNew_def Let_def)
        with two show ?thesis by metis
      next
        case None
        let ?d = "markCompleted (ih_end_at H) key t 202 (response_body key t jobId) (tx_db ?r)"
        have "plant_step (ih_bull H) jobs env dispatch ?s2 (with_db ?d ?s2)"
          using plant_step.complete [of key t ?s2 "ih_bull H" jobs env dispatch "ih_end_at H" 202 "response_body key t jobId"]
          by (simp add: A)
        with two have "plant_reach (ih_bull H) jobs env dispatch ?s0 (with_db ?d ?s2)" by (rule plant_reach.more)
        moreover have "with_db ?d ?s2 = plant_at (s\<lparr>pl_queued := ?A\<rparr>) (sys_at x ?d ?I) q"
          by (simp add: with_db_def)
        moreover have "ap_db a' = ?d" "ap_queue a' = q"
          using \<open>tx_value ?r = Inr p\<close> p enq run Inr None by (auto simp: processNew_def Let_def)
        ultimately show ?thesis by metis
      qed
    qed
  qed
qed

lemma ingest_custody:
  assumes run: "ingest H env dto headerKey a = (res, a')" and s: "pl_db s = ap_db a" "pl_queue s = ap_queue a"
  shows "\<exists>s'. plant_reach (ih_bull H) jobs env dispatch s s' \<and> pl_db s' = ap_db a' \<and> pl_queue s' = ap_queue a'
    \<and> same_hands s s' \<and> pl_done s' = pl_done s"
proof -
  let ?h = "request_hash H dto"
  let ?key = "event_key ?h dto headerKey" and ?I = "sy_issued (pl_sys s)"
  have at: "s = plant_at s (sys_at (pl_sys s) (ap_db a) ?I) (ap_queue a)"
    using s by (simp add: plant_at_def sys_at_def flip: s)
  show ?thesis
  proof (cases "assertUsableAsJobId ?key")
    case (Inl e)
    with run have "a' = a" by (simp add: ingest_def Let_def)
    with s plant_reach.start same_hands_refl show ?thesis by blast
  next
    case (Inr u)
    then have ok: "assertUsableAsJobId ?key = Inr ()" by simp
    obtain out d where cl: "claim env (ih_idemId H) (ih_claim_at H) (ih_reclaim_at H) ?key ?h (ap_db a) = (out, d)"
      by (rule prod.exhaust)
    let ?s1 = "plant_at s (sys_at (pl_sys s) d ?I) (ap_queue a)"
    from claim_custody [OF cl ok, of "ih_bull H" jobs dispatch s "pl_sys s" ?I "ap_queue a"] at
    have one: "plant_reach (ih_bull H) jobs env dispatch s ?s1" by simp
    show ?thesis
    proof (cases "out = Inr CR_NEW")
      case True
      with ok cl run have "processNew H env ?key dto (a\<lparr>ap_db := d\<rparr>) = (res, a')"
        by (simp add: ingest_def Let_def answer_claim_def)
      from processNew_custody [OF this, of jobs dispatch s "pl_sys s" ?I] obtain I' A where
        "plant_reach (ih_bull H) jobs env dispatch ?s1
           (plant_at (s\<lparr>pl_queued := A\<rparr>) (sys_at (pl_sys s) (ap_db a') I') (ap_queue a'))" by auto
      from plant_reach_trans [OF this one] show ?thesis
        by (intro exI [of _ "plant_at (s\<lparr>pl_queued := A\<rparr>) (sys_at (pl_sys s) (ap_db a') I') (ap_queue a')"])
           (simp add: same_hands_def)
    next
      case False
      with ok cl run have "ap_db a' = d" "ap_queue a' = ap_queue a"
        by (auto simp: ingest_def Let_def answer_claim_def split: sum.splits claim_result.splits)
      with one show ?thesis by (intro exI [of _ ?s1]) (simp add: same_hands_def)
    qed
  qed
qed

subsection \<open>A job\<close>

lemma persist_frames:
  assumes ok: "schema_ok d" and r: "r = persistAndEmit F nid now i prior out data d" and out: "outcome_ok out"
  shows "dead_letters (tx_db r) = dead_letters d" and "idempotency_keys (tx_db r) = idempotency_keys d"
    and "tx_value r = Inr u \<Longrightarrow> \<not> pending (tx_db r) i"
proof -
  have work: "fst (persist_work nid now i prior out data () d) = Inr (u, d') \<Longrightarrow>
      dead_letters d' = dead_letters d \<and> idempotency_keys d' = idempotency_keys d \<and> \<not> pending d' i" for u d'
    by (erule persist_work_cases [OF ok]) (use out in \<open>auto simp: pending_def may_write_def outcome_ok_def\<close>)
  have "tx_db r = d \<or> (\<exists>u. fst (persist_work nid now i prior out data () d) = Inr (u, tx_db r))"
    using tx.run_atomic [of F "persist_work nid now i prior out data" "()" d] r by (auto simp: persistAndEmit_def)
  then show "dead_letters (tx_db r) = dead_letters d" and "idempotency_keys (tx_db r) = idempotency_keys d"
    using work by auto
  show "\<not> pending (tx_db r) i" if "tx_value r = Inr u"
    using tx.run_value [of F "persist_work nid now i prior out data" "()" d u] that r work by (simp add: persistAndEmit_def)
qed

lemma scheduleUpgrade_keeps:
  assumes laws: "bull_laws Q jobs" and run: "scheduleUpgrade show_int r Q env data q = (res, q')"
    and job: "jobs q j = Some bj"
  shows "jobs q' j = Some bj"
proof (cases "q' = q")
  case False
  with run obtain a opts d where "bull_add Q ENRICH_TICKET_JOB d opts q = (a, q')"
    by (auto simp: scheduleUpgrade_def enqueueUpgrade_def Let_def split: if_splits sum.splits prod.splits)
  then show ?thesis
    using job bull_add_ok [OF laws, of ENRICH_TICKET_JOB d opts q] bull_add_err [OF laws, of ENRICH_TICKET_JOB d opts q]
    by (cases a) (auto split: if_splits)
qed (use job in simp)

lemma persist_custody:
  assumes ok: "schema_ok (pl_db s)" and t: "findByIdOrThrow i (pl_db s) = Inr t" and out: "outcome_ok out"
    and r: "r = persistAndEmit F nid now i (tk_enrichmentStatus t) out data (pl_db s)"
  shows "\<exists>seen. plant_reach Q jobs env dispatch s
    (plant_at s ((pl_sys s)\<lparr>sy_db := tx_db r, sy_seen := seen\<rparr>) (pl_queue s))"
proof -
  let ?x = "pl_sys s" and ?d = "pl_db s" and ?q = "pl_queue s"
  let ?seen = "insert (i, tk_enrichmentStatus t) (sy_seen ?x)"
  let ?x1 = "?x\<lparr>sy_db := ?d, sy_seen := ?seen\<rparr>" and ?x2 = "?x\<lparr>sy_db := tx_db r, sy_seen := ?seen\<rparr>"
  have "sys_step env dispatch ?x ?x1" by (rule sys_step.work, rule work_step.read [OF t])
  then have "plant_step Q jobs env dispatch (plant_at s ?x ?q) (plant_at s ?x1 ?q)"
    by (rule quiet_at) simp_all
  then have one: "plant_reach Q jobs env dispatch s (plant_at s ?x1 ?q)"
    by (intro plant_reach_one) (simp add: plant_at_def)
  have "work_step (?d, ?seen) (tx_db r, ?seen)" by (rule work_step.persist [OF _ out r]) simp
  then have "sys_step env dispatch ?x1 ?x2" using sys_step.work [of ?x1 "tx_db r" ?seen env dispatch] by simp
  then have "plant_step Q jobs env dispatch (plant_at s ?x1 ?q) (plant_at s ?x2 ?q)"
    by (rule quiet_same) (use persist_frames(1) [OF ok r out] persist_frames(2) [OF ok r out] in simp_all)
  with one have "plant_reach Q jobs env dispatch s (plant_at s ?x2 ?q)" by (rule plant_reach.more)
  then show ?thesis by (rule exI)
qed

text \<open>A job ends with what it has scheduled, and may be kept as completed only when its ticket is not PENDING.\<close>

lemma done_custody:
  assumes "plant_reach Q jobs env dispatch s s1" and "jobs (pl_queue s1) j = Some bj" "\<not> bj_failed bj"
    and "\<not> pending (pl_db s1) (jd_ticketId (bj_data bj))"
  shows "plant_reach Q jobs env dispatch s (s1\<lparr>pl_done := insert j (pl_done s1)\<rparr>)"
  by (rule plant_reach.more [OF assms(1)], rule plant_step.job_done) (use assms in simp_all)

lemma process_job_custody:
  assumes laws: "bull_laws (ph_bull H) jobs" and ok: "schema_ok (pp_db p)"
    and run: "process_job H env (bj_data bj) p = (res, p')"
    and s: "pl_db s = pp_db p" "pl_queue s = pp_queue p"
    and job: "jobs (pl_queue s) j = Some bj" "\<not> bj_failed bj"
    and enricher: "\<And>c t a out a'. ph_enrich H c t a = (Inr out, a') \<Longrightarrow> outcome_ok out"
  shows "\<exists>s'. plant_reach (ph_bull H) jobs env dispatch s s' \<and> pl_db s' = pp_db p' \<and> pl_queue s' = pp_queue p'
    \<and> same_hands s s' \<and> (res = Inr () \<longrightarrow> j \<in> pl_done s')"
proof -
  obtain cid where run: "process_in_scope H env (bj_data bj) p cid = (res, p')"
    using run unfolding process_job_def runWithCorrelation_def by blast
  let ?i = "jd_ticketId (bj_data bj)"
  have none: ?thesis if "p' = p\<lparr>pp_ai := a\<rparr>" "res \<noteq> Inr ()" for a
    using that s by (intro exI [of _ s]) (simp add: plant_reach.start)
  show ?thesis
  proof (cases "findByIdOrThrow ?i (pp_db p)")
    case (Inl e)
    with run have "p' = p\<lparr>pp_ai := pp_ai p\<rparr>" "res = Inl e" by (simp_all add: process_in_scope_def)
    then show ?thesis by (intro none [of "pp_ai p"]) simp_all
  next
    case t: (Inr t)
    then have id: "tk_id t = ?i" by (auto simp: findByIdOrThrow_ok dest: row_with_SomeD)
    obtain ans a where call: "ph_enrich H cid t (pp_ai p) = (ans, a)" by (rule prod.exhaust)
    show ?thesis
    proof (cases ans)
      case (Inl e)
      with t run call have "p' = p\<lparr>pp_ai := a\<rparr>" "res = Inl e" by (simp_all add: process_in_scope_def Let_def)
      then show ?thesis by (intro none) simp_all
    next
      case (Inr out)
      have out: "outcome_ok out" using enricher call Inr by blast
      define r where "r = persistAndEmit (ph_faults H) (ph_newid H) (ph_now H) ?i (tk_enrichmentStatus t) out (bj_data bj) (pl_db s)"
      note frames = persist_frames(3) [OF _ r_def out, unfolded s, OF ok]
      from persist_custody [OF _ _ out r_def] ok t s obtain x where
        two: "plant_reach (ph_bull H) jobs env dispatch s (plant_at s x (pl_queue s))" "sy_db x = tx_db r" by fastforce
      let ?rest = "if eo_status out = ES_DEGRADED
            then scheduleUpgrade (ph_show_int H) (ph_random H) (ph_bull H) env (bj_data bj) (pp_queue p)
            else (Inr (), pp_queue p)"
      have r': "persistAndEmit (ph_faults H) (ph_newid H) (ph_now H) (tk_id t) (tk_enrichmentStatus t) out (bj_data bj) (pp_db p) = r"
        by (simp add: r_def id s)
      show ?thesis
      proof (cases "tx_value r")
        case (Inl e)
        with t run call \<open>ans = Inr out\<close> r' have "pp_db p' = tx_db r" "pp_queue p' = pp_queue p" "res = Inl e"
          by (auto simp: process_in_scope_def Let_def)
        with two s show ?thesis by (intro exI [of _ "plant_at s x (pl_queue s)"]) (simp add: same_hands_def)
      next
        case val: (Inr u)
        obtain sched q where sch: "?rest = (sched, q)" by (rule prod.exhaust)
        have res: "pp_db p' = tx_db r" "pp_queue p' = q"
          using t run call Inr r' val sch
          by (auto simp: process_in_scope_def Let_def split: sum.splits prod.splits if_splits)
        have three: "plant_reach (ph_bull H) jobs env dispatch s (plant_at s x q) \<and> jobs q j = Some bj"
        proof (cases "eo_status out = ES_DEGRADED")
          case False
          with sch two job s show ?thesis by simp
        next
          case True
          with sch have up: "scheduleUpgrade (ph_show_int H) (ph_random H) (ph_bull H) env (bj_data bj) (pp_queue p) = (sched, q)"
            by simp
          have "plant_step (ph_bull H) jobs env dispatch (plant_at s x (pl_queue s)) (plant_at s x q)"
            using plant_step.upgrade_add [of jobs "plant_at s x (pl_queue s)" j bj] up job s by simp
          with two(1) have "plant_reach (ph_bull H) jobs env dispatch s (plant_at s x q)" by (rule plant_reach.more)
          with scheduleUpgrade_keeps [OF laws up] job s show ?thesis by simp
        qed
        have "plant_reach (ph_bull H) jobs env dispatch s ((plant_at s x q)\<lparr>pl_done := insert j (pl_done (plant_at s x q))\<rparr>)"
          by (rule done_custody [of _ _ _ _ _ _ j bj]) (use three job two(2) frames [OF val] in simp_all)
        with res two(2) show ?thesis
          by (intro exI [of _ "(plant_at s x q)\<lparr>pl_done := insert j (pl_done (plant_at s x q))\<rparr>"])
             (simp add: same_hands_def)
      qed
    qed
  qed
qed

subsection \<open>A replay, and a sweep\<close>

lemma replay_flip_none:
  assumes "replay_flip now i d = ([], d')"
  shows "d' = d"
proof -
  let ?p = "\<lambda>r. dl_id r = i \<and> dl_status r = DL_PENDING"
  have "\<not> ?p r" if "r \<in> set (dead_letters d)" for r
    using assms that by (auto simp: replay_flip_def Let_def filter_empty_conv)
  then have "update_where ?p f (dead_letters d) = dead_letters d" for f by (intro update_where_no_match) blast
  with assms show ?thesis by (auto simp: replay_flip_def Let_def)
qed

text \<open>
  A replay gives up the letter it took: its job is in the queue, or the letter is PENDING again. Only an undo
  that throws loses the ticket.
\<close>

lemma dlq_replay_custody:
  assumes run: "dlq_replay Q env E now i (pl_queue s) (pl_db s) = (res, q, d)"
  shows "\<exists>s'. plant_reach Q jobs env dispatch s s' \<and> pl_db s' = d \<and> pl_queue s' = q
    \<and> pl_failing s' = pl_failing s \<and> pl_replaying s' \<subseteq> pl_replaying s \<and> (re_undo E = None \<longrightarrow> pl_lost s' = pl_lost s)"
proof -
  obtain rows d1 where flip: "replay_flip now i (pl_db s) = (rows, d1)" by (rule prod.exhaust)
  show ?thesis
  proof (cases "re_flip E = None \<and> rows \<noteq> []")
    case False
    then have "q = pl_queue s \<and> d = pl_db s"
      using run flip replay_flip_none [of now i "pl_db s" d1] by (auto simp: dlq_replay_def split: option.splits)
    then show ?thesis by (intro exI [of _ s]) (simp add: plant_reach.start)
  next
    case True
    then obtain row rest where Cons: "rows = row # rest" and unflipped: "re_flip E = None" by (cases rows) auto
    let ?data = "job_of_json (dl_payload row)"
    let ?s1 = "(with_db d1 s)\<lparr>pl_replaying := insert (i, ?data) (pl_replaying s)\<rparr>"
    from flip Cons have "replay_flip now i (pl_db s) = (row # rest, d1)" by simp
    then have one: "plant_reach Q jobs env dispatch s ?s1" by (intro plant_reach_one plant_step.flip)
    obtain out q1 where enq: "enqueueReplay Q env ?data i (pl_queue s) = (out, q1)" by (rule prod.exhaust)
    let ?s2 = "?s1\<lparr>pl_queue := q1, pl_replaying :=
        (case out of Inr _ \<Rightarrow> off i (pl_replaying ?s1) | Inl _ \<Rightarrow> pl_replaying ?s1)\<rparr>"
    have "plant_step Q jobs env dispatch ?s1 ?s2"
      by (rule plant_step.replay_add [of i ?data _ Q env out]) (simp_all add: enq)
    with one have two: "plant_reach Q jobs env dispatch s ?s2" by (rule plant_reach.more)
    show ?thesis
    proof (cases out)
      case (Inr jobId)
      with flip Cons run enq unflipped have "q = q1" "d = d1" by (simp_all add: dlq_replay_def)
      with two Inr show ?thesis by (intro exI [of _ ?s2]) (auto simp: off_def)
    next
      case (Inl e)
      show ?thesis
      proof (cases "re_undo E")
        case None
        let ?s3 = "(with_db (replay_undo i (pl_db ?s2)) ?s2)\<lparr>pl_replaying := off i (pl_replaying ?s2)\<rparr>"
        have "plant_step Q jobs env dispatch ?s2 ?s3"
          by (rule plant_step.undo [of i ?data]) (simp add: Inl)
        with two have "plant_reach Q jobs env dispatch s ?s3" by (rule plant_reach.more)
        moreover have "q = q1" "d = replay_undo i d1"
          using flip Cons run enq Inl unflipped None by (simp_all add: dlq_replay_def)
        ultimately show ?thesis by (intro exI [of _ ?s3]) (auto simp: off_def Inl)
      next
        case (Some e')
        let ?F = "{} :: (string \<times> job_data) set"
        let ?s3 = "?s2\<lparr>pl_failing := pl_failing ?s2 - ?F, pl_replaying := pl_replaying ?s2 - {(i, ?data)},
          pl_lost := pl_lost ?s2 \<union> (jd_ticketId \<circ> snd) ` ?F \<union> (jd_ticketId \<circ> snd) ` {(i, ?data)}\<rparr>"
        have "plant_step Q jobs env dispatch ?s2 ?s3" by (rule plant_step.died) (simp_all add: Inl)
        with two have "plant_reach Q jobs env dispatch s ?s3" by (rule plant_reach.more)
        moreover have "q = q1" "d = d1"
          using flip Cons run enq Inl unflipped Some by (simp_all add: dlq_replay_def)
        ultimately show ?thesis by (intro exI [of _ ?s3]) (auto simp: Inl Some)
      qed
    qed
  qed
qed

lemma redrive_custody:
  assumes "\<And>row. row \<in> set rows \<Longrightarrow> names (pl_db s) (sr_key row) (sr_ticketId row) \<and> \<not> pending (pl_db s) (sr_ticketId row)"
    and "redrive_all Q env rows (pl_queue s) = (n, failed, q)"
  shows "plant_reach Q jobs env dispatch s (s\<lparr>pl_queue := q\<rparr>)"
  using assms
proof (induction rows arbitrary: s n failed)
  case Nil
  then have "s\<lparr>pl_queue := q\<rparr> = s" by simp
  then show ?case by (simp add: plant_reach.start)
next
  case (Cons row rows)
  obtain out q1 where one: "enqueueReconcile Q env (reconcile_data row) (pl_queue s) = (out, q1)" by (rule prod.exhaust)
  obtain n' fs q2 where rest: "redrive_all Q env rows q1 = (n', fs, q2)" by (rule prod_cases3)
  have q: "q2 = q" using Cons.prems(2) one rest by (auto split: sum.splits)
  have "plant_step Q jobs env dispatch s (s\<lparr>pl_queue := q1\<rparr>)"
    by (rule plant_step.reconcile_add [OF _ _ one]) (use Cons.prems(1) [of row] in \<open>simp_all add: reconcile_data_def\<close>)
  then have first: "plant_reach Q jobs env dispatch s (s\<lparr>pl_queue := q1\<rparr>)" by (rule plant_reach_one)
  have "plant_reach Q jobs env dispatch (s\<lparr>pl_queue := q1\<rparr>) ((s\<lparr>pl_queue := q1\<rparr>)\<lparr>pl_queue := q\<rparr>)"
    by (rule Cons.IH [where n = n' and failed = fs]) (use Cons.prems(1) rest q in simp_all)
  from plant_reach_trans [OF this first] show ?case by simp
qed

text \<open>A stranded row is a DEGRADED ticket under the key that names it.\<close>

lemma stranded_named:
  assumes "sys_inv env' delivered x" and "row \<in> set (stranded env now (sy_db x))"
  shows "names (sy_db x) (sr_key row) (sr_ticketId row) \<and> \<not> pending (sy_db x) (sr_ticketId row)"
proof -
  from stranded_sound [OF assms(2)] obtain t e where
    t: "t \<in> set (tickets (sy_db x))" "e \<in> set (events (sy_db x))" "ev_id e = tk_eventId t"
      "is_stranded env now t" "row = stranded_of (t, e)" by blast
  have ok: "schema_ok (sy_db x)" and one: "one_ticket (sy_db x)" using assms(1) by (auto simp: sys_inv_def work_inv_def)
  have "tk_row (tk_id t) (sy_db x) = Some t" using ok t(1) by (intro row_with_unique) (auto simp: schema_ok_def)
  moreover have "ev_row (tk_eventId t) (sy_db x) = Some e"
    using ok t(2,3) row_with_unique [of ev_id "events (sy_db x)" e] by (auto simp: schema_ok_def)
  ultimately have "ticket_key (sy_db x) (ev_idempotencyKey e) (tk_id t)" by (auto simp: ticket_key_def)
  with one have "names (sy_db x) (ev_idempotencyKey e) (tk_id t)" by (auto simp: one_ticket_def)
  moreover have "\<not> pending (sy_db x) (tk_id t)"
    using \<open>tk_row (tk_id t) (sy_db x) = Some t\<close> t(4) by (auto simp: pending_def is_stranded_def)
  ultimately show ?thesis by (simp add: t(5) stranded_of_def)
qed

lemma sweep_custody:
  assumes "sys_inv env' delivered (pl_sys s)"
    and "reconcile_sweep Q env query_err now (pl_db s) w (pl_queue s) = (n, failed, w', q)"
  shows "plant_reach Q jobs env dispatch s (s\<lparr>pl_queue := q\<rparr>)"
proof -
  have stay: "plant_reach Q jobs env dispatch s (s\<lparr>pl_queue := q\<rparr>)" if "q = pl_queue s"
    using plant_reach.start [of Q jobs env dispatch s] that by simp
  have go: "plant_reach Q jobs env dispatch s (s\<lparr>pl_queue := q\<rparr>)"
    if "redrive_all Q env (stranded env now (pl_db s)) (pl_queue s) = (n, failed, q)" for n failed
    by (rule redrive_custody [OF _ that]) (rule stranded_named [OF assms(1)])
  from assms(2) stay go show ?thesis
    by (auto simp: reconcile_sweep_def split: option.splits prod.splits)
qed

subsection \<open>Every run is a path\<close>

lemma relay_custody:
  assumes "schema_ok (pl_db s)" and "env_valid env" and "good_host host"
    and r: "r = drainOnce F env now host locked dispatch (sy_world (pl_sys s)) (pl_db s)"
  shows "\<exists>s'. plant_reach Q jobs env dispatch s s' \<and> pl_db s' = tx_db r \<and> pl_queue s' = pl_queue s \<and> same_hands s s'"
proof -
  let ?x = "(pl_sys s)\<lparr>sy_db := tx_db r, sy_world := tx_world r\<rparr>"
  have base: "0 \<le> OUTBOX_BACKOFF_BASE_MS env" using assms(2) by (rule env_validD)
  obtain w m where w: "sy_world (pl_sys s) = (w, m)" by (rule prod.exhaust)
  have r': "r = drainOnce F env now host locked dispatch (w, m) (pl_db s)" using r w by simp
  have same: "dead_letters (tx_db r) = dead_letters (pl_db s) \<and> idempotency_keys (tx_db r) = idempotency_keys (pl_db s)"
    by (rule drain_cases [OF assms(1) base assms(3) r' refl]) simp_all
  have "sys_step env dispatch (pl_sys s) ?x" by (rule sys_step.relay [OF assms(3) r])
  then have "plant_step Q jobs env dispatch (plant_at s (pl_sys s) (pl_queue s)) (plant_at s ?x (pl_queue s))"
    by (rule quiet_same) (use same in simp_all)
  then have "plant_reach Q jobs env dispatch s (plant_at s ?x (pl_queue s))"
    by (intro plant_reach_one) (simp add: plant_at_def)
  then show ?thesis by (intro exI [of _ "plant_at s ?x (pl_queue s)"]) (simp add: same_hands_def)
qed

lemma handler_custody:
  assumes "(j, data) \<in> pl_failing s" and "rj_data job = data" and "honest_probe jobs (pl_queue s) j probe"
    and "onFailed db_err probe nid now job err (pl_metrics s) (pl_db s) = (m, d)"
  shows "\<exists>s'. plant_reach Q jobs env dispatch s s' \<and> pl_db s' = d \<and> pl_metrics s' = m \<and> pl_queue s' = pl_queue s
    \<and> pl_failing s' = pl_failing s - {(j, data)} \<and> pl_replaying s' = pl_replaying s \<and> pl_lost s' = pl_lost s"
  by (rule exI, rule conjI, rule plant_reach_one, rule plant_step.failure_handled [OF assms])
     (simp add: outcome_state_def)

text \<open>
  C9: the code's own runs are paths of the custody relation, and let go of what they hold. From any reachable
  state, whichever of their calls fail: a submission, a worker's run of a live job, a drain of the relay and a
  reconcile sweep each end in a reachable state with the database and the queue the run leaves, and neither take
  nor lose a ticket on the way; a job that succeeds may be marked completed there. The handler of a failed job
  ends with that job off its hands and nothing lost. An operator's replay ends with no letter in its hands that
  it did not find there, and loses no ticket unless its undo throws.
\<close>

theorem runs_keep_custody:
  assumes "bull_laws Q jobs" and "env_valid env" and "jobs q0 = Map.empty"
    and "plant_reach Q jobs env dispatch (plant_start w m q0) s"
  shows "(ingest H env dto headerKey a = (res, a') \<and> ih_bull H = Q \<and> ap_db a = pl_db s \<and> ap_queue a = pl_queue s \<longrightarrow>
        (\<exists>s'. plant_reach Q jobs env dispatch s s' \<and> pl_db s' = ap_db a' \<and> pl_queue s' = ap_queue a' \<and> same_hands s s'))
    \<and> (process_job W env (bj_data bj) p = (rj, p') \<and> ph_bull W = Q \<and> pp_db p = pl_db s \<and> pp_queue p = pl_queue s
        \<and> jobs (pl_queue s) j = Some bj \<and> \<not> bj_failed bj
        \<and> (\<forall>c t b out b'. ph_enrich W c t b = (Inr out, b') \<longrightarrow> outcome_ok out) \<longrightarrow>
        (\<exists>s'. plant_reach Q jobs env dispatch s s' \<and> pl_db s' = pp_db p' \<and> pl_queue s' = pp_queue p' \<and> same_hands s s'
          \<and> (rj = Inr () \<longrightarrow> j \<in> pl_done s')))
    \<and> ((f, data) \<in> pl_failing s \<and> rj_data job = data \<and> honest_probe jobs (pl_queue s) f probe
        \<and> onFailed db_err probe nid now job err (pl_metrics s) (pl_db s) = (m1, d1) \<longrightarrow>
        (\<exists>s'. plant_reach Q jobs env dispatch s s' \<and> pl_db s' = d1 \<and> pl_queue s' = pl_queue s \<and> pl_metrics s' = m1
          \<and> pl_failing s' = pl_failing s - {(f, data)} \<and> pl_replaying s' = pl_replaying s \<and> pl_lost s' = pl_lost s))
    \<and> (dlq_replay Q env E now i (pl_queue s) (pl_db s) = (ans, q2, d2) \<longrightarrow>
        (\<exists>s'. plant_reach Q jobs env dispatch s s' \<and> pl_db s' = d2 \<and> pl_queue s' = q2 \<and> pl_failing s' = pl_failing s
          \<and> pl_replaying s' \<subseteq> pl_replaying s \<and> (re_undo E = None \<longrightarrow> pl_lost s' = pl_lost s)))
    \<and> (good_host host \<and> r = drainOnce F env now host locked dispatch (sy_world (pl_sys s)) (pl_db s) \<longrightarrow>
        (\<exists>s'. plant_reach Q jobs env dispatch s s' \<and> pl_db s' = tx_db r \<and> pl_queue s' = pl_queue s \<and> same_hands s s'))
    \<and> (reconcile_sweep Q env query_err now (pl_db s) sw (pl_queue s) = (n, failed, sw', q3) \<longrightarrow>
        plant_reach Q jobs env dispatch s (s\<lparr>pl_queue := q3\<rparr>))"
proof -
  have "plant_inv jobs env (plant_start w m q0)" by (rule plant_start_inv) (rule assms(3))
  from plant_invD(1) [OF plant_reach_inv [OF assms(4,1,2) this]] have inv: "sys_inv env (\<lambda>_. UNIV) (pl_sys s)" .
  then have ok: "schema_ok (pl_db s)" by (simp add: sys_inv_def work_inv_def)
  have submission: "\<exists>s'. plant_reach Q jobs env dispatch s s' \<and> pl_db s' = ap_db a' \<and> pl_queue s' = ap_queue a' \<and> same_hands s s'"
    if "ingest H env dto headerKey a = (res, a') \<and> ih_bull H = Q \<and> ap_db a = pl_db s \<and> ap_queue a = pl_queue s"
    using ingest_custody [of H env dto headerKey a res a' s jobs dispatch] that by auto
  have worker: "\<exists>s'. plant_reach Q jobs env dispatch s s' \<and> pl_db s' = pp_db p' \<and> pl_queue s' = pp_queue p' \<and> same_hands s s'
          \<and> (rj = Inr () \<longrightarrow> j \<in> pl_done s')"
    if a: "process_job W env (bj_data bj) p = (rj, p') \<and> ph_bull W = Q \<and> pp_db p = pl_db s \<and> pp_queue p = pl_queue s
        \<and> jobs (pl_queue s) j = Some bj \<and> \<not> bj_failed bj
        \<and> (\<forall>c t b out b'. ph_enrich W c t b = (Inr out, b') \<longrightarrow> outcome_ok out)"
  proof -
    from a have run: "process_job W env (bj_data bj) p = (rj, p')" and Q: "ph_bull W = Q"
      and same: "pl_db s = pp_db p" "pl_queue s = pp_queue p" and job: "jobs (pl_queue s) j = Some bj" "\<not> bj_failed bj"
      by simp_all
    have enricher: "outcome_ok out" if "ph_enrich W c t b = (Inr out, b')" for c t b out b' using a that by blast
    have laws: "bull_laws (ph_bull W) jobs" using assms(1) Q by simp
    from process_job_custody [OF laws ok [unfolded same] run same job, of dispatch] enricher
    show ?thesis unfolding Q by blast
  qed
  have handler: "\<exists>s'. plant_reach Q jobs env dispatch s s' \<and> pl_db s' = d1 \<and> pl_queue s' = pl_queue s \<and> pl_metrics s' = m1
          \<and> pl_failing s' = pl_failing s - {(f, data)} \<and> pl_replaying s' = pl_replaying s \<and> pl_lost s' = pl_lost s"
    if "(f, data) \<in> pl_failing s \<and> rj_data job = data \<and> honest_probe jobs (pl_queue s) f probe
        \<and> onFailed db_err probe nid now job err (pl_metrics s) (pl_db s) = (m1, d1)"
    using handler_custody [of f data s job jobs probe db_err nid now err m1 d1 Q env dispatch] that by auto
  have drain: "\<exists>s'. plant_reach Q jobs env dispatch s s' \<and> pl_db s' = tx_db r \<and> pl_queue s' = pl_queue s \<and> same_hands s s'"
    if "good_host host \<and> r = drainOnce F env now host locked dispatch (sy_world (pl_sys s)) (pl_db s)"
    using relay_custody [OF ok assms(2), of host r F now locked dispatch Q jobs] that by auto
  show ?thesis
    by (intro conjI impI) (rule submission worker handler drain dlq_replay_custody sweep_custody [OF inv], assumption)+
qed

subsection \<open>The promise of 202\<close>

lemma held_spelled_out:
  assumes inv: "plant_inv jobs env s" and held: "held (hands_of jobs s) i"
  shows "(\<exists>j bj. jobs (pl_queue s) j = Some bj \<and> \<not> bj_failed bj \<and> j \<notin> pl_done s \<and> jd_ticketId (bj_data bj) = i)
    \<or> (\<exists>r \<in> set (dead_letters (pl_db s)). dl_status r = DL_PENDING \<and> jd_ticketId (job_of_json (dl_payload r)) = i)
    \<or> (\<exists>j data. (j, data) \<in> pl_failing s \<and> jd_ticketId data = i)
    \<or> (\<exists>l data. (l, data) \<in> pl_replaying s \<and> jd_ticketId data = i)
    \<or> i \<in> pl_alarm s \<and> 0 < alarm_count (pl_metrics s) \<or> i \<in> pl_lost s"
proof -
  let ?h = "hands_of jobs s"
  from held consider "live ?h i" | "i \<in> pl_alarm s" | "i \<in> pl_lost s" | "failing ?h i" | "on_letter ?h i" by (auto simp: held_def)
  then show ?thesis
  proof cases
    case 2
    then have "pl_alarm s \<noteq> {}" by blast
    from plant_invD(5) [OF inv this] 2 show ?thesis by blast
  next
    case 5
    then have ne: "letters (pl_db s) i \<noteq> []" by (simp add: on_letter_def)
    let ?r = "last (letters (pl_db s) i)"
    from last_in_set [OF ne] have r: "?r \<in> set (dead_letters (pl_db s))" "jd_ticketId (job_of_json (dl_payload ?r)) = i"
      by (simp_all add: letters_def)
    from 5 consider "dl_status ?r = DL_PENDING" | "dl_id ?r \<in> fst ` pl_replaying s"
      by (auto simp: on_letter_def open_letter_def)
    then show ?thesis
    proof cases
      case 1
      with r show ?thesis by blast
    next
      case 2
      then obtain data where rep: "(dl_id ?r, data) \<in> pl_replaying s" by auto
      then have "(dl_id ?r, data) \<in> ha_replaying ?h" by simp
      from replaying_letter [OF plant_invD(2) [OF inv] this] r(1) have "job_of_json (dl_payload ?r) = data" by auto
      with rep r(2) show ?thesis by blast
    qed
  qed (auto simp: live_def failing_def)
qed

text \<open>
  C3: no accepted ticket is lost, unless a process dies with it. In every state that any interleaving of
  submissions, workers, the queue's own moves, failure handlers, relays, operators' replays, reconcile sweeps and
  dying processes can reach (the retention sweep, which deletes settled rows, is not among the steps): a
  COMPLETED key names a ticket that exists. If that is ENRICHED or DEGRADED, its triage has been announced, and a
  DEGRADED one that has not changed for the configured time is picked by the next sweep whose batch is not full.
  And if it is still PENDING, something holds it: a live job; a dead letter an operator can replay; a failed job
  whose handler is at work, or a replay at work; or its own dead letter could not be written and the alarm
  counter says so. The one other case is that the process which handled its failure or replayed its letter died
  doing so, or the undo of that replay threw.
\<close>

theorem accepted_tickets_are_held:
  assumes "bull_laws Q jobs" and "env_valid env" and "jobs q0 = Map.empty"
    and "plant_reach Q jobs env dispatch (plant_start w m q0) s"
    and "key_row k (pl_db s) = Some x" and "ik_status x = IK_COMPLETED"
  shows "\<exists>i t. ik_ticketId x = Some i \<and> tk_row i (pl_db s) = Some t \<and>
    (case tk_enrichmentStatus t of
       ES_FAILED \<Rightarrow> False
     | ES_ENRICHED \<Rightarrow> effect_key i SIDE_EFFECT_TRIAGED \<in> dedup_keys (pl_db s)
     | ES_DEGRADED \<Rightarrow> effect_key i SIDE_EFFECT_TRIAGED \<in> dedup_keys (pl_db s)
         \<and> (\<forall>now. tk_updatedAt t < now - interval_ms (RECONCILE_DEGRADED_AFTER_MS env)
              \<and> length (stranded env now (pl_db s)) < nat (RECONCILE_BATCH_SIZE env) \<longrightarrow>
              (\<exists>row \<in> set (stranded env now (pl_db s)). sr_ticketId row = i))
     | ES_PENDING \<Rightarrow>
         (\<exists>j bj. jobs (pl_queue s) j = Some bj \<and> \<not> bj_failed bj \<and> j \<notin> pl_done s \<and> jd_ticketId (bj_data bj) = i)
       \<or> (\<exists>r \<in> set (dead_letters (pl_db s)). dl_status r = DL_PENDING \<and> jd_ticketId (job_of_json (dl_payload r)) = i)
       \<or> (\<exists>j data. (j, data) \<in> pl_failing s \<and> jd_ticketId data = i)
       \<or> (\<exists>l data. (l, data) \<in> pl_replaying s \<and> jd_ticketId data = i)
       \<or> i \<in> pl_alarm s \<and> 0 < alarm_count (pl_metrics s)
       \<or> i \<in> pl_lost s)"
proof -
  have "plant_inv jobs env (plant_start w m q0)" by (rule plant_start_inv) (rule assms(3))
  from plant_reach_inv [OF assms(4,1,2) this] have inv: "plant_inv jobs env s" .
  let ?h = "hands_of jobs s" and ?d = "pl_db s"
  have hands: "hands_inv ?h" by (rule plant_invD(2) [OF inv])
  have ok: "schema_ok ?d" and ann: "announced ?d" using plant_invD(1) [OF inv] by (auto simp: sys_inv_def work_inv_def)
  have "k \<in> completed_keys ?d" using assms(5,6) by (simp add: completed_keys_def)
  from plant_invD(4) [OF inv this] obtain i where i: "names ?d k i" "(k, i) \<in> pl_queued s" by blast
  then have tid: "ik_ticketId x = Some i" using assms(5) by (simp add: names_def)
  have "i \<in> values_of tk_id (tickets ?d)"
    using i(1) ok by (auto simp: names_def schema_ok_def idem_fk_ok_def dest!: row_with_SomeD)
  then obtain t where t: "tk_row i ?d = Some t" by (metis not_None_eq row_with_None_iff)
  then have member: "t \<in> set (tickets ?d)" "tk_id t = i" by (auto dest: row_with_SomeD)
  have triaged: "effect_key i SIDE_EFFECT_TRIAGED \<in> dedup_keys ?d" if "tk_enrichmentStatus t \<noteq> ES_PENDING"
    using ann t that unfolding announced_def by blast
  have held: "held ?h i" if "tk_enrichmentStatus t = ES_PENDING"
  proof -
    have "pending ?d i" using t that by (simp add: pending_def)
    moreover have "touched ?h i" using i(2) by (auto simp: touched_def)
    ultimately show ?thesis using hands by (simp add: hands_inv_def held_ok_def)
  qed
  have swept: "\<exists>row \<in> set (stranded env now ?d). sr_ticketId row = i"
    if "tk_enrichmentStatus t = ES_DEGRADED" "tk_updatedAt t < now - interval_ms (RECONCILE_DEGRADED_AFTER_MS env)"
      "length (stranded env now ?d) < nat (RECONCILE_BATCH_SIZE env)" for now
    using stranded_complete [OF ok member(1) _ that(3)] that(1,2) member(2) by (simp add: is_stranded_def)
  have alive: "tk_enrichmentStatus t \<noteq> ES_FAILED" using ann t by (auto simp: announced_def)
  show ?thesis
    by (intro exI [of _ i] exI [of _ t] conjI tid t)
       (cases "tk_enrichmentStatus t", use triaged swept alive held_spelled_out [OF inv held] in simp_all)
qed

subsection \<open>A concrete path\<close>

definition order_data :: job_data where
  "order_data = event_job order_host ''order-1'' ''t1'' ''e1''"

definition order_queue :: ref_queue where
  "order_queue = empty_queue\<lparr>rq_jobs := [(''order-1'', new_job order_data (standard_opts env_defaults ''order-1''))]\<rparr>"

lemma ingest_dead_letters:
  assumes run: "ingest H env dto headerKey a = (res, a')"
  shows "dead_letters (ap_db a') = dead_letters (ap_db a)"
proof (cases "assertUsableAsJobId (event_key (request_hash H dto) dto headerKey)")
  case (Inl e)
  with run show ?thesis by (simp add: ingest_def Let_def)
next
  case (Inr u)
  let ?key = "event_key (request_hash H dto) dto headerKey"
  obtain out d where cl: "claim env (ih_idemId H) (ih_claim_at H) (ih_reclaim_at H) ?key (request_hash H dto) (ap_db a) = (out, d)"
    by (rule prod.exhaust)
  show ?thesis
  proof (cases "out = Inr CR_NEW")
    case True
    with Inr cl run have "processNew H env ?key dto (a\<lparr>ap_db := d\<rparr>) = (res, a')"
      by (simp add: ingest_def Let_def answer_claim_def)
    then show ?thesis
      by (cases rule: processNew_cases)
         (simp_all add: Let_def create_completed(2) [OF refl] claim_frame [OF cl])
  next
    case False
    with Inr cl run have "ap_db a' = d"
      by (auto simp: ingest_def Let_def answer_claim_def split: sum.splits claim_result.splits)
    with claim_frame [OF cl] show ?thesis by simp
  qed
qed

text \<open>The order is accepted: its key COMPLETED, its ticket PENDING, its job in the queue.\<close>

lemma order_accepted:
  "\<exists>a x. ingest order_host env_defaults order_request None order_api = (Inr \<lparr>ir_status = Accepted,
       ir_idempotencyKey = ''order-1'', ir_ticketId = Some ''t1'', ir_jobId = Some ''order-1''\<rparr>, a)
   \<and> ap_queue a = order_queue \<and> key_row ''order-1'' (ap_db a) = Some x \<and> ik_status x = IK_COMPLETED
   \<and> ik_ticketId x = Some ''t1'' \<and> tickets (ap_db a) = [new_ticket_row ''t1'' (ih_create_at order_host) ''e1'' order_request]
   \<and> dead_letters (ap_db a) = []"
proof -
  have enq: "enqueue (ih_bull order_host) env_defaults (event_job order_host ''order-1'' (ih_ticketId order_host)
        (ih_eventId order_host)) (ap_queue order_api) = (Inr ''order-1'', order_queue)"
    by (simp add: enqueue_def ref_bull_def empty_queue_def order_host_def standard_opts_def order_id_ok event_job_def
        order_api_def order_queue_def order_data_def)
  have h: "ih_ticketId order_host = ''t1''" "ih_eventId order_host = ''e1''" "ih_faults order_host = no_faults"
      "ih_completed_err order_host = None" by (simp_all add: order_host_def)
  have e: "schema_ok (ap_db order_api)" "key_row ''order-1'' (ap_db order_api) = None"
      "ih_idemId order_host \<notin> values_of ik_id (idempotency_keys (ap_db order_api))"
      "ih_eventId order_host \<notin> values_of ev_id (events (ap_db order_api))"
      "ih_ticketId order_host \<notin> values_of tk_id (tickets (ap_db order_api))" "tickets (ap_db order_api) = []"
      "dead_letters (ap_db order_api) = []"
    by (simp_all add: order_api_def schema_ok_empty) (simp_all add: empty_db_def)
  from accepted_then_replayed_aux [OF e(1) order_key [symmetric] order_usable e(2-5) h(3,4) enq] obtain a x where
    a: "ingest order_host env_defaults order_request None order_api = (Inr \<lparr>ir_status = Accepted,
       ir_idempotencyKey = ''order-1'', ir_ticketId = Some ''t1'', ir_jobId = Some ''order-1''\<rparr>, a)"
    "ap_queue a = order_queue" "key_row ''order-1'' (ap_db a) = Some x" "ik_status x = IK_COMPLETED"
    "ik_ticketId x = Some ''t1''" "tickets (ap_db a) = [new_ticket_row ''t1'' (ih_create_at order_host) ''e1'' order_request]"
    by (auto simp: h(1,2) e(6))
  moreover have "dead_letters (ap_db a) = []" using ingest_dead_letters [OF a(1)] e(7) by simp
  ultimately show ?thesis by blast
qed

definition order_plant :: "'w \<Rightarrow> ref_queue \<Rightarrow> ('w, ref_queue) plant" where
  "order_plant w q = plant_start w no_metrics q"

lemma order_plant_accepted:
  "\<exists>s x. plant_reach ref_bull ref_jobs env_defaults dispatch (order_plant w empty_queue) s \<and> pl_queue s = order_queue
   \<and> key_row ''order-1'' (pl_db s) = Some x \<and> ik_status x = IK_COMPLETED \<and> ik_ticketId x = Some ''t1''
   \<and> tk_row ''t1'' (pl_db s) = Some (new_ticket_row ''t1'' (ih_create_at order_host) ''e1'' order_request)
   \<and> pl_failing s = {} \<and> pl_replaying s = {} \<and> pl_alarm s = {} \<and> pl_lost s = {} \<and> pl_done s = {} \<and> pl_metrics s = no_metrics
   \<and> dead_letters (pl_db s) = []"
proof -
  from order_accepted obtain a x where a: "ingest order_host env_defaults order_request None order_api = (Inr \<lparr>ir_status = Accepted,
       ir_idempotencyKey = ''order-1'', ir_ticketId = Some ''t1'', ir_jobId = Some ''order-1''\<rparr>, a)"
    "ap_queue a = order_queue" "key_row ''order-1'' (ap_db a) = Some x" "ik_status x = IK_COMPLETED"
    "ik_ticketId x = Some ''t1''" "tickets (ap_db a) = [new_ticket_row ''t1'' (ih_create_at order_host) ''e1'' order_request]"
    "dead_letters (ap_db a) = []"
    by blast
  have s: "pl_db (order_plant w empty_queue) = ap_db order_api" "pl_queue (order_plant w empty_queue) = ap_queue order_api"
    "pl_failing (order_plant w empty_queue) = {}" "pl_replaying (order_plant w empty_queue) = {}"
    "pl_alarm (order_plant w empty_queue) = {}" "pl_lost (order_plant w empty_queue) = {}" "pl_done (order_plant w empty_queue) = {}"
    "pl_metrics (order_plant w empty_queue) = no_metrics"
    by (simp_all add: order_plant_def plant_start_def sys_start_def order_api_def)
  have bull: "ih_bull order_host = ref_bull" by (simp add: order_host_def)
  from ingest_custody [OF a(1) s(1,2), of ref_jobs dispatch, unfolded bull s same_hands_def] obtain s' where
    "plant_reach ref_bull ref_jobs env_defaults dispatch (order_plant w empty_queue) s'" "pl_db s' = ap_db a"
    "pl_queue s' = ap_queue a" "pl_failing s' = {}" "pl_replaying s' = {}" "pl_alarm s' = {}" "pl_lost s' = {}" "pl_done s' = {}"
    "pl_metrics s' = no_metrics" by blast
  with a(2-7) show ?thesis by (intro exI [of _ s'] exI [of _ x]) (simp add: new_ticket_row_def)
qed

theorem accepted_tickets_are_held_witness:
  "\<exists>s. plant_reach ref_bull ref_jobs env_defaults (\<lambda>_ _ w. (Inr (), w)) (order_plant (0::nat) empty_queue) s
   \<and> tk_row ''t1'' (pl_db s) \<noteq> None
   \<and> ((\<exists>j bj. ref_jobs (pl_queue s) j = Some bj \<and> \<not> bj_failed bj \<and> jd_ticketId (bj_data bj) = ''t1'')
     \<or> (\<exists>r \<in> set (dead_letters (pl_db s)). dl_status r = DL_PENDING \<and> jd_ticketId (job_of_json (dl_payload r)) = ''t1''))"
proof -
  from order_plant_accepted [of "\<lambda>_ _ w. (Inr (), w)" "0::nat"] obtain s x where
    s: "plant_reach ref_bull ref_jobs env_defaults (\<lambda>_ _ w. (Inr (), w)) (order_plant (0::nat) empty_queue) s"
      "key_row ''order-1'' (pl_db s) = Some x" "ik_status x = IK_COMPLETED" "ik_ticketId x = Some ''t1''"
      "tk_row ''t1'' (pl_db s) = Some (new_ticket_row ''t1'' (ih_create_at order_host) ''e1'' order_request)"
      "pl_failing s = {}" "pl_replaying s = {}" "pl_alarm s = {}" "pl_lost s = {}" by blast
  have none: "ref_jobs empty_queue = Map.empty" by (simp add: ref_jobs_def empty_queue_def)
  from accepted_tickets_are_held [OF ref_bull_laws env_defaults_valid none s(1) [unfolded order_plant_def] s(2,3)]
  have "(\<exists>j bj. ref_jobs (pl_queue s) j = Some bj \<and> \<not> bj_failed bj \<and> j \<notin> pl_done s \<and> jd_ticketId (bj_data bj) = ''t1'')
     \<or> (\<exists>r \<in> set (dead_letters (pl_db s)). dl_status r = DL_PENDING \<and> jd_ticketId (job_of_json (dl_payload r)) = ''t1'')"
    by (simp add: s(4-9) new_ticket_row_def)
  with s(1,5) show ?thesis by (intro exI [of _ s]) auto
qed

text \<open>Its job fails for good; the \<open>failed\<close> handler has not run yet.\<close>

definition order_run :: run_job where
  "order_run = \<lparr>rj_id = Some ''order-1'', rj_queueName = ''ticket-pipeline'', rj_data = order_data,
     rj_attemptsMade = 5, rj_attempts = Some 5\<rparr>"

definition order_error :: js_error where
  "order_error = \<lparr>er_exn = JsError ''boom'', er_name = ''Error'', er_stack = None\<rparr>"

definition failed_queue :: ref_queue where
  "failed_queue = empty_queue\<lparr>rq_jobs := [(''order-1'',
     (new_job order_data (standard_opts env_defaults ''order-1''))\<lparr>bj_failed := True\<rparr>)]\<rparr>"

lemma order_data_fields:
  "jd_ticketId order_data = ''t1''" "rj_data order_run = order_data"
  "bj_data (new_job order_data (standard_opts env_defaults ''order-1'')) = order_data"
  by (simp_all add: order_data_def event_job_def order_run_def new_job_def)

lemma order_plant_failed:
  "\<exists>s x. plant_reach ref_bull ref_jobs env_defaults dispatch (order_plant w empty_queue) s \<and> pl_queue s = failed_queue
   \<and> key_row ''order-1'' (pl_db s) = Some x \<and> ik_status x = IK_COMPLETED \<and> ik_ticketId x = Some ''t1''
   \<and> tk_row ''t1'' (pl_db s) = Some (new_ticket_row ''t1'' (ih_create_at order_host) ''e1'' order_request)
   \<and> pl_failing s = {(''order-1'', order_data)} \<and> pl_replaying s = {} \<and> pl_alarm s = {} \<and> pl_lost s = {} \<and> pl_done s = {}
   \<and> dead_letters (pl_db s) = []"
proof -
  let ?bj = "new_job order_data (standard_opts env_defaults ''order-1'')"
  from order_plant_accepted [of dispatch w] obtain s x where
    one: "plant_reach ref_bull ref_jobs env_defaults dispatch (order_plant w empty_queue) s" and
    s: "pl_queue s = order_queue" "key_row ''order-1'' (pl_db s) = Some x" "ik_status x = IK_COMPLETED"
      "ik_ticketId x = Some ''t1''"
      "tk_row ''t1'' (pl_db s) = Some (new_ticket_row ''t1'' (ih_create_at order_host) ''e1'' order_request)"
      "pl_failing s = {}" "pl_replaying s = {}" "pl_alarm s = {}" "pl_lost s = {}" "pl_done s = {}" "dead_letters (pl_db s) = []"
    by blast
  let ?s = "s\<lparr>pl_queue := failed_queue, pl_failing := insert (''order-1'', bj_data ?bj) (pl_failing s)\<rparr>"
  have "plant_step ref_bull ref_jobs env_defaults dispatch s ?s"
    by (rule plant_step.job_failed)
       (simp_all add: s order_queue_def failed_queue_def empty_queue_def ref_jobs_def new_job_def)
  with one have "plant_reach ref_bull ref_jobs env_defaults dispatch (order_plant w empty_queue) ?s"
    by (rule plant_reach.more)
  with s show ?thesis by (intro exI [of _ ?s] exI [of _ x]) (simp add: order_data_fields)
qed

definition order_letter_row :: dead_letter_row where
  "order_letter_row = dead_letter_of ''dl1'' 5 order_run order_error"

lemma order_handler:
  assumes "dead_letters d = []"
  shows "onFailed None None ''dl1'' 5 order_run order_error m d
    = (inc (EventsFailed ''dead_letter'') m, d\<lparr>dead_letters := [order_letter_row]\<rparr>)"
  by (simp add: onFailed_def classifyFailure_def isTerminalFailure_def order_run_def order_error_def is_unrecoverable_def
      recordDeadLetter_def insert_dead_letter_def assms order_letter_row_def)

theorem runs_keep_custody_witness:
  "(\<exists>s. plant_reach ref_bull ref_jobs env_defaults (\<lambda>_ _ w. (Inr (), w)) (order_plant (0::nat) empty_queue) s
     \<and> pl_queue s = order_queue)
   \<and> (\<exists>s. plant_reach ref_bull ref_jobs env_defaults (\<lambda>_ _ w. (Inr (), w)) (order_plant (0::nat) empty_queue) s
     \<and> dead_letters (pl_db s) = [order_letter_row] \<and> pl_failing s = {})"
proof
  let ?s = "order_plant (0::nat) empty_queue" and ?D = "\<lambda>_ _ w. (Inr (), w)"
  have none: "ref_jobs empty_queue = Map.empty" by (simp add: ref_jobs_def empty_queue_def)
  have start: "plant_reach ref_bull ref_jobs env_defaults ?D (plant_start (0::nat) no_metrics empty_queue) ?s"
    unfolding order_plant_def by (rule plant_reach.start)
  from order_accepted obtain res a where a: "ingest order_host env_defaults order_request None order_api = (res, a)"
    "ap_queue a = order_queue" by blast
  have same: "ih_bull order_host = ref_bull" "ap_db order_api = pl_db ?s" "ap_queue order_api = pl_queue ?s"
    by (simp_all add: order_host_def order_api_def order_plant_def plant_start_def sys_start_def)
  from runs_keep_custody [OF ref_bull_laws env_defaults_valid none start, THEN conjunct1, THEN mp, OF conjI,
      OF a(1) conjI, OF same(1) conjI, OF same(2,3)] a(2)
  show "\<exists>s. plant_reach ref_bull ref_jobs env_defaults ?D ?s s \<and> pl_queue s = order_queue" by auto
  from order_plant_failed [of ?D "0::nat"] obtain s where
    s: "plant_reach ref_bull ref_jobs env_defaults ?D ?s s" "pl_failing s = {(''order-1'', order_data)}"
      "dead_letters (pl_db s) = []" by blast
  have probe: "honest_probe ref_jobs (pl_queue s) ''order-1'' None" by (simp add: honest_probe_def)
  have f: "(''order-1'', order_data) \<in> pl_failing s" by (simp add: s(2))
  from runs_keep_custody [OF ref_bull_laws env_defaults_valid none s(1) [unfolded order_plant_def], THEN conjunct2,
      THEN conjunct2, THEN conjunct1, THEN mp, OF conjI, OF f conjI, OF order_data_fields(2) conjI, OF probe
      order_handler [OF s(3)]]
  obtain s' where "plant_reach ref_bull ref_jobs env_defaults ?D s s'" "dead_letters (pl_db s') = [order_letter_row]"
    "pl_failing s' = {}" by (auto simp: s(2))
  with plant_reach_trans [OF _ s(1)] show "\<exists>s. plant_reach ref_bull ref_jobs env_defaults ?D ?s s
     \<and> dead_letters (pl_db s) = [order_letter_row] \<and> pl_failing s = {}" by blast
qed

subsection \<open>What a crash can lose\<close>

text \<open>
  Two of the hands are processes, and a crash takes them away. \<open>replay\<close> flips the dead letter before it
  enqueues, so a process that dies between the two leaves a REPLAYED letter without a job: every later replay of
  it is refused as already replayed, a resubmission is answered \<open>replayed\<close> without an enqueue, and the sweep looks
  for DEGRADED tickets only. An undo that throws leaves the same.
\<close>

lemma crashed_replay_is_final:
  assumes "schema_ok d" and "replay_flip now i d = (row # rows, d')" and "pending d t"
    and "assertUsableAsJobId key = Inr ()" and "key_row key d = Some x" and "ik_status x = IK_COMPLETED"
    and "ik_requestHash x = request_hash H dto" and "key = event_key (request_hash H dto) dto headerKey"
    and "ap_db a = d'"
  shows "pending d' t \<and> dlq_replay Q env no_replay_errs now' i q d' = (Inl (already_replayed i), q, d')
    \<and> (\<exists>a'. ingest H env dto headerKey a = (Inr (replay_answer key x), a') \<and> ap_db a' = d' \<and> ap_queue a' = ap_queue a)
    \<and> (\<forall>row \<in> set (stranded env now' d'). sr_ticketId row \<noteq> t)"
proof (intro conjI)
  note frame = replay_frames(1) [OF assms(2)] and ok' = replay_flip_schema_ok [OF assms(1,2)]
  show p: "pending d' t" using assms(3) frame by (simp add: pending_def)
  from replay_flip_rows [OF assms(1,2)] obtain r where "dl_row i d = Some r" "dl_status r = DL_PENDING"
    by (auto split: option.splits if_splits)
  then have gone: "dl_row i d' = Some (r\<lparr>dl_status := DL_REPLAYED, dl_replayedAt := Some now\<rparr>)"
    by (simp add: dl_row_flip [OF assms(2)])
  obtain rows' d'' where again: "replay_flip now' i d' = (rows', d'')" by (rule prod.exhaust)
  from replay_flip_rows [OF ok' again] gone have "rows' = []" by simp
  with again have "d'' = d'" by (auto dest: replay_flip_none)
  with again \<open>rows' = []\<close> gone show "dlq_replay Q env no_replay_errs now' i q d' = (Inl (already_replayed i), q, d')"
    by (simp add: dlq_replay_def)
  have "key_row key (ap_db a) = Some x" using assms(5,9) frame by simp
  from replay_answers [OF assms(4) this assms(6-8)] assms(9)
  show "\<exists>a'. ingest H env dto headerKey a = (Inr (replay_answer key x), a') \<and> ap_db a' = d' \<and> ap_queue a' = ap_queue a"
    by simp
  show "\<forall>row \<in> set (stranded env now' d'). sr_ticketId row \<noteq> t"
  proof
    fix row' assume "row' \<in> set (stranded env now' d')"
    from stranded_sound [OF this] obtain t' e where t': "t' \<in> set (tickets d')" "is_stranded env now' t'" "row' = stranded_of (t', e)"
      by blast
    have "tk_row (tk_id t') d' = Some t'" using ok' t'(1) by (intro row_with_unique) (auto simp: schema_ok_def)
    with p t' show "sr_ticketId row' \<noteq> t" by (auto simp: pending_def is_stranded_def stranded_of_def)
  qed
qed

text \<open>And such a state is reached: submit, fail, dead-letter, begin the replay, crash.\<close>

lemma crashed_replay_loses_ticket:
  "\<exists>s. plant_reach ref_bull ref_jobs env_defaults dispatch (order_plant w empty_queue) s \<and> pending (pl_db s) ''t1''
    \<and> ''order-1'' \<in> completed_keys (pl_db s) \<and> names (pl_db s) ''order-1'' ''t1''
    \<and> ''t1'' \<in> pl_lost s \<and> \<not> held (hands_of ref_jobs (s\<lparr>pl_lost := {}\<rparr>)) ''t1''"
proof -
  from order_plant_failed [of dispatch w] obtain s x where
    one: "plant_reach ref_bull ref_jobs env_defaults dispatch (order_plant w empty_queue) s" and
    s: "pl_queue s = failed_queue" "key_row ''order-1'' (pl_db s) = Some x" "ik_status x = IK_COMPLETED"
      "ik_ticketId x = Some ''t1''"
      "tk_row ''t1'' (pl_db s) = Some (new_ticket_row ''t1'' (ih_create_at order_host) ''e1'' order_request)"
      "pl_failing s = {(''order-1'', order_data)}" "pl_replaying s = {}" "pl_alarm s = {}" "pl_lost s = {}" "dead_letters (pl_db s) = []"
    by blast
  let ?d3 = "(pl_db s)\<lparr>dead_letters := [order_letter_row]\<rparr>" and ?m3 = "inc (EventsFailed ''dead_letter'') (pl_metrics s)"
  let ?s3 = "(outcome_state (jd_ticketId order_data) ?m3 ?d3 s)\<lparr>pl_failing := pl_failing s - {(''order-1'', order_data)}\<rparr>"
  have "plant_step ref_bull ref_jobs env_defaults dispatch s ?s3"
    by (rule plant_step.failure_handled [OF _ order_data_fields(2) _ order_handler [OF s(10)]])
       (simp_all add: s(6) honest_probe_def)
  with one have two: "plant_reach ref_bull ref_jobs env_defaults dispatch (order_plant w empty_queue) ?s3"
    by (rule plant_reach.more)
  let ?flipped = "order_letter_row\<lparr>dl_status := DL_REPLAYED, dl_replayedAt := Some 9\<rparr>"
  let ?d4 = "?d3\<lparr>dead_letters := [?flipped]\<rparr>"
  have flip: "replay_flip 9 ''dl1'' (pl_db ?s3) = ([?flipped], ?d4)"
    by (simp add: replay_flip_def outcome_state_def order_letter_row_def dead_letter_of_def)
  let ?s4 = "(with_db ?d4 ?s3)\<lparr>pl_replaying := insert (''dl1'', job_of_json (dl_payload ?flipped)) (pl_replaying ?s3)\<rparr>"
  have "plant_step ref_bull ref_jobs env_defaults dispatch ?s3 ?s4" by (rule plant_step.flip, rule flip)
  with two have three: "plant_reach ref_bull ref_jobs env_defaults dispatch (order_plant w empty_queue) ?s4"
    by (rule plant_reach.more)
  let ?F = "{} :: (string \<times> job_data) set" and ?R = "{(''dl1'', job_of_json (dl_payload ?flipped))}"
  let ?s5 = "?s4\<lparr>pl_failing := pl_failing ?s4 - ?F, pl_replaying := pl_replaying ?s4 - ?R,
      pl_lost := pl_lost ?s4 \<union> (jd_ticketId \<circ> snd) ` ?F \<union> (jd_ticketId \<circ> snd) ` ?R\<rparr>"
  have "plant_step ref_bull ref_jobs env_defaults dispatch ?s4 ?s5" by (rule plant_step.died) simp_all
  with three have four: "plant_reach ref_bull ref_jobs env_defaults dispatch (order_plant w empty_queue) ?s5"
    by (rule plant_reach.more)
  have "job_of_json (dl_payload ?flipped) = order_data"
    by (simp add: order_letter_row_def dead_letter_of_def order_data_fields job_json_roundtrip)
  then have lost: "''t1'' \<in> pl_lost ?s5" by (simp add: order_data_fields)
  have "letters ?d4 ''t1'' = [] \<or> letters ?d4 ''t1'' = [?flipped]" by (simp add: letters_def)
  then have "\<not> held (hands_of ref_jobs (?s5\<lparr>pl_lost := {}\<rparr>)) ''t1''"
    by (auto simp: held_def live_def failing_def on_letter_def open_letter_def hands_of_def outcome_state_def
        with_db_def s failed_queue_def empty_queue_def ref_jobs_def alarm_count_def split: if_splits)
  moreover have "pending (pl_db ?s5) ''t1''" "''order-1'' \<in> completed_keys (pl_db ?s5)" "names (pl_db ?s5) ''order-1'' ''t1''"
    using s(2-5) by (simp_all add: pending_def completed_keys_def names_def new_ticket_row_def)
  ultimately show ?thesis using four lost by blast
qed

end
