(* ===== verification/Relay_Progress.thy ===== *)
theory Relay_Progress
  imports Webhook_Delivery
begin

section \<open>The relay makes progress\<close>

text \<open>
  What a poll claims, how much delivery work a database holds and how every drain uses some of it
  up, until nothing is pending; and the tick around a drain: never two at once, always rearmed.
\<close>

subsection \<open>The claim query\<close>

text \<open>
  A poll claims due rows nobody else has locked, at most a batch, oldest due time first: a due
  row it leaves out is never older than one it takes, and is left out only because the batch is
  full. A second relay polling while the first holds its locks claims none of the same rows.
\<close>

lemma poll_claims_oldest_due:
  assumes "batch = poll_due now n locked d"
  shows "sorted (map ob_nextAttemptAt batch) \<and> length batch \<le> nat n
    \<and> (\<forall>r \<in> set batch. r \<in> set (outbox_messages d) \<and> is_due now r \<and> ob_id r \<notin> locked)
    \<and> (\<forall>r \<in> set (outbox_messages d). is_due now r \<and> ob_id r \<notin> locked \<and> r \<notin> set batch \<longrightarrow>
         length batch = nat n \<and> (\<forall>b \<in> set batch. ob_nextAttemptAt b \<le> ob_nextAttemptAt r))
    \<and> ob_id ` set batch \<inter> ob_id ` set (poll_due now' n' (locked \<union> ob_id ` set batch) d) = {}"
proof -
  define xs where "xs = sort_key ob_nextAttemptAt
    (filter (\<lambda>r. is_due now r \<and> ob_id r \<notin> locked) (outbox_messages d))"
  have batch: "batch = take (nat n) xs" using assms by (simp add: poll_due_def xs_def)
  have split: "sorted (map ob_nextAttemptAt (take (nat n) xs) @ map ob_nextAttemptAt (drop (nat n) xs))"
    by (simp add: xs_def flip: map_append)
  have left: "length batch = nat n \<and> (\<forall>b \<in> set batch. ob_nextAttemptAt b \<le> ob_nextAttemptAt r)"
    if "r \<in> set (outbox_messages d)" "is_due now r" "ob_id r \<notin> locked" "r \<notin> set batch" for r
  proof -
    have "r \<in> set xs" using that by (simp add: xs_def)
    then have r: "r \<in> set (drop (nat n) xs)"
      using that(4) batch by (metis Un_iff append_take_drop_id set_append)
    then have "nat n < length xs" by (cases "nat n < length xs") auto
    with r split show ?thesis by (auto simp: batch sorted_append)
  qed
  have apart: "ob_id ` set batch \<inter> ob_id ` set (poll_due now' n' (locked \<union> ob_id ` set batch) d) = {}"
  proof (rule equals0I)
    fix i assume i: "i \<in> ob_id ` set batch \<inter>
        ob_id ` set (poll_due now' n' (locked \<union> ob_id ` set batch) d)"
    then obtain r where "r \<in> set (poll_due now' n' (locked \<union> ob_id ` set batch) d)" "i = ob_id r"
      by (elim IntE imageE)
    with poll_due_set [OF this(1)] i show False by simp
  qed
  have taken: "\<forall>r \<in> set batch. r \<in> set (outbox_messages d) \<and> is_due now r \<and> ob_id r \<notin> locked"
    using assms poll_due_set by blast
  have sorted: "sorted (map ob_nextAttemptAt batch)" and size: "length batch \<le> nat n"
    using split by (simp_all add: batch sorted_append)
  show ?thesis
    by (intro conjI ballI impI sorted size apart) (use taken left in blast)+
qed

lemma poll_claims_oldest_due_witness:
  "sorted (map ob_nextAttemptAt (poll_due 10 20 {} due_db)) \<and> poll_due 10 20 {} due_db = [due_row]"
  using poll_claims_oldest_due [of "poll_due 10 20 {} due_db" 10 20 "{}" due_db, OF refl]
  by (simp add: poll_due_def due_db_def is_due_def due_row_def)

lemma poll_nonempty:
  assumes "r \<in> set (outbox_messages d)" and "is_due now r" and "1 \<le> n"
  shows "poll_due now n {} d \<noteq> []"
proof -
  have "r \<in> set (sort_key ob_nextAttemptAt (filter (is_due now) (outbox_messages d)))"
    using assms(1,2) by simp
  then have "sort_key ob_nextAttemptAt (filter (is_due now) (outbox_messages d)) \<noteq> []"
    by (metis empty_iff empty_set)
  then show ?thesis using assms(3) by (simp add: poll_due_def)
qed

subsection \<open>The delivery work left\<close>

text \<open>The attempts a row may still use while it is pending.\<close>

definition row_work :: "EnvVars \<Rightarrow> outbox_row \<Rightarrow> nat" where
  "row_work env r =
     (if ob_status r = OB_PENDING then nat (OUTBOX_MAX_ATTEMPTS env - ob_attempts r) else 0)"

definition work_left :: "EnvVars \<Rightarrow> db \<Rightarrow> nat" where
  "work_left env d = sum_list (map (row_work env) (outbox_messages d))"

lemma row_progress_work:
  assumes "row_progress env now r r'" and "attempts_ok env r" and "ob_status r = OB_PENDING"
  shows "row_work env r' < row_work env r"
  using assms(1)
  by (rule row_progress_cases) (use assms(2,3) in \<open>auto simp: row_work_def attempts_ok_def\<close>)

lemma work_left_ids:
  assumes "schema_ok d"
  shows "work_left env d = (\<Sum>i \<in> values_of ob_id (outbox_messages d). row_work env (the (ob_row i d)))"
  unfolding work_left_def
  by (rule sum_list_row_with) (use assms in \<open>simp add: schema_ok_def\<close>)

text \<open>A committed drain uses up at least one attempt of every row it claims.\<close>

lemma drain_uses_work:
  assumes "schema_ok d" and "env_valid env" and "good_host host" and "outbox_ok env d"
    and "r = drainOnce no_faults env now host locked dispatch wm d"
    and "batch = poll_due now (OUTBOX_RELAY_BATCH_SIZE env) locked d"
  shows "work_left env (tx_db r) + length batch \<le> work_left env d"
proof -
  have base: "0 \<le> OUTBOX_BACKOFF_BASE_MS env" using assms(2) by (rule env_validD)
  obtain wm' d' where run: "dispatchRows env now host dispatch batch wm d = (wm', d')" by fastforce
  then have d': "tx_db r = d'"
    using assms(5,6) by (simp add: drainOnce_def runInTransaction_no_faults Let_def)
  have P: "(\<forall>row \<in> set batch. \<exists>r'. ob_row (ob_id row) d' = Some r' \<and> row_progress env now row r')
    \<and> (\<forall>i. i \<notin> ob_id ` set batch \<longrightarrow> ob_row i d' = ob_row i d) \<and> schema_ok d'"
    using dispatchRows_poll [OF assms(1) base assms(3) run [unfolded assms(6)]]
    unfolding assms(6) by blast
  have batch: "row \<in> set (outbox_messages d) \<and> ob_status row = OB_PENDING \<and> ob_row (ob_id row) d = Some row"
    if "row \<in> set batch" for row
    using poll_due_set [OF that [unfolded assms(6)]] assms(1)
    by (auto simp: is_due_def outbox_rows_iff)
  let ?ids = "values_of ob_id (outbox_messages d)" and ?B = "ob_id ` set batch"
  have fin: "finite ?ids" by (simp add: values_of_def)
  have sub: "?B \<subseteq> ?ids" using batch by (auto simp: values_of_def)
  have ids: "values_of ob_id (outbox_messages d') = ?ids"
  proof (rule set_eqI)
    fix i show "i \<in> values_of ob_id (outbox_messages d') \<longleftrightarrow> i \<in> ?ids"
    proof (cases "i \<in> ?B")
      case True
      with P have "ob_row i d' \<noteq> None" by auto
      with True sub show ?thesis by (auto simp: row_with_None_iff)
    next
      case False
      with P have "ob_row i d' = ob_row i d" by blast
      then show ?thesis by (metis row_with_None_iff)
    qed
  qed
  have step: "row_work env (the (ob_row i d')) + (if i \<in> ?B then 1 else 0) \<le> row_work env (the (ob_row i d))"
    if "i \<in> ?ids" for i
  proof (cases "i \<in> ?B")
    case True
    then obtain row where row: "row \<in> set batch" "i = ob_id row" by blast
    with P obtain r' where r': "ob_row i d' = Some r'" "row_progress env now row r'" by blast
    from batch [OF row(1)] assms(4) have "attempts_ok env row" by (simp add: outbox_ok_def)
    from row_progress_work [OF r'(2) this] batch [OF row(1)] r'(1) row(2) True show ?thesis by simp
  next
    case False
    with P show ?thesis by simp
  qed
  have dist: "distinct (map ob_id batch)"
    using assms(1,6) poll_due_distinct by (simp add: schema_ok_def)
  have "length batch = card ?B" using distinct_card [OF dist] by simp
  also have "\<dots> = (\<Sum>i \<in> ?ids. if i \<in> ?B then 1 else 0)"
    using fin sub by (simp add: sum.If_cases Int_absorb1)
  finally have "work_left env d' + length batch =
      (\<Sum>i \<in> ?ids. row_work env (the (ob_row i d')) + (if i \<in> ?B then 1 else 0))"
    using P ids by (simp add: work_left_ids sum.distrib)
  also have "\<dots> \<le> work_left env d"
    using step assms(1) by (simp add: work_left_ids sum_mono)
  finally show ?thesis using d' by simp
qed

subsection \<open>Everything settles\<close>

text \<open>
  Drains one after the other at given times. \<open>retry_gap\<close> bounds every delay the relay can choose
  for a row it keeps; a schedule is spaced when each drain waits that long after the one before.
\<close>

type_synonym schedule = "(timestamp \<times> relay_host) list"

fun drain_times ::
  "EnvVars \<Rightarrow> 'w dispatcher \<Rightarrow> schedule \<Rightarrow> 'w \<times> metrics \<Rightarrow> db \<Rightarrow> ('w \<times> metrics) \<times> db" where
  "drain_times env dispatch [] wm d = (wm, d)"
| "drain_times env dispatch ((now, host) # ts) wm d =
     (let r = drainOnce no_faults env now host {} dispatch wm d
      in drain_times env dispatch ts (tx_world r) (tx_db r))"

definition retry_gap :: "EnvVars \<Rightarrow> int" where
  "retry_gap env =
     interval_ms (backoff_exp (OUTBOX_MAX_ATTEMPTS env) (OUTBOX_BACKOFF_BASE_MS env) None)"

fun well_spaced :: "int \<Rightarrow> timestamp \<Rightarrow> schedule \<Rightarrow> bool" where
  "well_spaced gap t [] = True"
| "well_spaced gap t ((now, host) # ts) =
     (t \<le> now \<and> good_host host \<and> well_spaced gap (now + gap) ts)"

definition due_by :: "timestamp \<Rightarrow> db \<Rightarrow> bool" where
  "due_by t d \<longleftrightarrow>
     (\<forall>r \<in> set (outbox_messages d). ob_status r = OB_PENDING \<longrightarrow> ob_nextAttemptAt r \<le> t)"

definition settled :: "db \<Rightarrow> bool" where
  "settled d \<longleftrightarrow> (\<forall>r \<in> set (outbox_messages d). ob_status r \<noteq> OB_PENDING)"

lemma row_progress_due:
  assumes "row_progress env now r r'" and "env_valid env" and "ob_status r' = OB_PENDING"
    and "ob_nextAttemptAt r \<le> now + retry_gap env"
  shows "ob_nextAttemptAt r' \<le> now + retry_gap env"
  using assms(1)
proof (rule row_progress_cases)
  assume "r' = r\<lparr>ob_status := OB_SENT, ob_dispatchedAt := Some now, ob_lastError := None\<rparr>"
  with assms(3) show ?thesis by simp
next
  fix msg
  assume "r' = r\<lparr>ob_status := OB_FAILED, ob_attempts := ob_attempts r + 1, ob_lastError := Some msg\<rparr>"
  with assms(3) show ?thesis by simp
next
  fix msg delay
  assume lim: "ob_attempts r + 1 < OUTBOX_MAX_ATTEMPTS env"
    and delay: "delay \<le> backoff_exp (ob_attempts r + 1) (OUTBOX_BACKOFF_BASE_MS env) None"
    and r': "r' = r\<lparr>ob_attempts := ob_attempts r + 1, ob_lastError := Some msg,
                 ob_nextAttemptAt := now + interval_ms delay\<rparr>"
  have "backoff_exp (ob_attempts r + 1) (OUTBOX_BACKOFF_BASE_MS env) None
      \<le> backoff_exp (OUTBOX_MAX_ATTEMPTS env) (OUTBOX_BACKOFF_BASE_MS env) None"
    using lim env_validD(5) [OF assms(2)] by (intro backoff_exp_mono) auto
  with delay have "interval_ms delay \<le> retry_gap env" by (simp add: retry_gap_def)
  with r' show ?thesis by simp
qed

lemma retry_gap_nonneg:
  assumes "env_valid env"
  shows "0 \<le> retry_gap env"
proof -
  have "0 \<le> backoff_exp (OUTBOX_MAX_ATTEMPTS env) (OUTBOX_BACKOFF_BASE_MS env) None"
    using env_validD(5) [OF assms] by (intro backoff_exp_nonneg) auto
  then show ?thesis by (simp add: retry_gap_def)
qed

text \<open>One drain of a spaced schedule.\<close>

lemma drain_due:
  assumes "schema_ok d" and "env_valid env" and "good_host host" and "due_by t d" and "t \<le> now"
    and "r = drainOnce no_faults env now host {} dispatch wm d"
  shows "schema_ok (tx_db r) \<and> due_by (now + retry_gap env) (tx_db r)"
proof -
  have base: "0 \<le> OUTBOX_BACKOFF_BASE_MS env" using assms(2) by (rule env_validD)
  have gap: "0 \<le> retry_gap env" using assms(2) by (rule retry_gap_nonneg)
  from assms(4,5) gap have later: "due_by (now + retry_gap env) d" by (fastforce simp: due_by_def)
  show ?thesis
  proof (rule drain_cases [OF assms(1) base assms(3,6) refl])
    assume "tx_db r = d"
    with later assms(1) show ?thesis by simp
  next
    let ?batch = "poll_due now (OUTBOX_RELAY_BATCH_SIZE env) {} d"
    assume ok': "schema_ok (tx_db r)"
      and moved: "\<forall>row \<in> set ?batch. \<exists>r'. ob_row (ob_id row) (tx_db r) = Some r' \<and> row_progress env now row r'"
      and rest: "\<forall>i. i \<notin> ob_id ` set ?batch \<longrightarrow> ob_row i (tx_db r) = ob_row i d"
    have "ob_nextAttemptAt r' \<le> now + retry_gap env"
      if r': "r' \<in> set (outbox_messages (tx_db r))" "ob_status r' = OB_PENDING" for r'
    proof -
      from r'(1) ok' have row': "ob_row (ob_id r') (tx_db r) = Some r'" by (simp add: outbox_rows_iff)
      show ?thesis
      proof (cases "ob_id r' \<in> ob_id ` set ?batch")
        case True
        then obtain row where row: "row \<in> set ?batch" "ob_id r' = ob_id row" by blast
        with moved row' have prog: "row_progress env now row r'" by fastforce
        from row(1) have "row \<in> set (outbox_messages d)" "ob_status row = OB_PENDING"
          by (auto dest!: poll_due_set simp: is_due_def)
        with later have "ob_nextAttemptAt row \<le> now + retry_gap env" by (simp add: due_by_def)
        with prog assms(2) r'(2) show ?thesis by (rule row_progress_due)
      next
        case False
        with rest row' have "r' \<in> set (outbox_messages d)" by (auto dest: row_with_SomeD)
        with later r'(2) show ?thesis by (simp add: due_by_def)
      qed
    qed
    with ok' show ?thesis by (simp add: due_by_def)
  qed
qed

lemma row_work_0:
  "attempts_ok env r \<Longrightarrow> row_work env r = 0 \<longleftrightarrow> ob_status r \<noteq> OB_PENDING"
  by (auto simp: row_work_def attempts_ok_def)

lemma settled_no_work:
  assumes "outbox_ok env d"
  shows "settled d \<longleftrightarrow> work_left env d = 0"
  using assms row_work_0 by (auto simp: settled_def work_left_def outbox_ok_def)

lemma drain_settled:
  assumes "settled d"
  shows "tx_db (drainOnce no_faults env now host locked dispatch wm d) = d"
proof -
  have "filter (\<lambda>r. is_due now r \<and> ob_id r \<notin> locked) (outbox_messages d) = []"
    using assms by (auto simp: settled_def is_due_def filter_empty_conv)
  then have "poll_due now n locked d = []" for n by (simp add: poll_due_def)
  then show ?thesis by (simp add: drainOnce_def runInTransaction_no_faults Let_def)
qed

lemma drain_times_settles:
  assumes "schema_ok d" and "env_valid env" and "outbox_ok env d" and "due_by t d"
    and "well_spaced (retry_gap env) t ts" and "work_left env d \<le> length ts"
  shows "settled (snd (drain_times env dispatch ts wm d))"
  using assms
proof (induction ts arbitrary: t wm d)
  case Nil
  then show ?case by (simp add: settled_no_work)
next
  case (Cons th ts)
  obtain now host where th: "th = (now, host)" by (cases th)
  define r where "r = drainOnce no_faults env now host {} dispatch wm d"
  from Cons.prems(5) th have now: "t \<le> now" and host: "good_host host"
    and spaced: "well_spaced (retry_gap env) (now + retry_gap env) ts" by simp_all
  have d1: "schema_ok (tx_db r) \<and> due_by (now + retry_gap env) (tx_db r)"
    by (rule drain_due [OF Cons.prems(1,2) host Cons.prems(4) now r_def])
  have ok1: "outbox_ok env (tx_db r)"
    by (rule drain_outbox_ok [OF Cons.prems(1,2) host Cons.prems(3) r_def])
  have "work_left env (tx_db r) \<le> length ts"
  proof (cases "settled d")
    case True
    then have "tx_db r = d" by (simp add: r_def drain_settled)
    with True Cons.prems(3) show ?thesis by (simp add: settled_no_work)
  next
    case False
    then obtain row where row: "row \<in> set (outbox_messages d)" "ob_status row = OB_PENDING"
      by (auto simp: settled_def)
    with Cons.prems(4) now have "is_due now row" by (fastforce simp: due_by_def is_due_def)
    with row(1) env_validD(3) [OF Cons.prems(2)]
    have "poll_due now (OUTBOX_RELAY_BATCH_SIZE env) {} d \<noteq> []" by (intro poll_nonempty)
    then have "0 < length (poll_due now (OUTBOX_RELAY_BATCH_SIZE env) {} d)" by simp
    moreover have "work_left env d \<le> Suc (length ts)" using Cons.prems(6) by simp
    ultimately show ?thesis
      using drain_uses_work [OF Cons.prems(1,2) host Cons.prems(3) r_def refl] by linarith
  qed
  from Cons.IH [OF _ Cons.prems(2) ok1 _ spaced this] d1 th show ?case
    by (simp add: r_def [symmetric])
qed

text \<open>
  C22: nothing stays in the outbox for ever. Whatever the target does, after as many drains as there
  are attempts left, each a full backoff after the one before, no row is pending: every one is SENT
  or was given up at the attempt limit.
\<close>

theorem outbox_settles:
  assumes "schema_ok d" and "env_valid env" and "outbox_ok env d" and "due_by t d"
    and "well_spaced (retry_gap env) t ts" and "work_left env d \<le> length ts"
  shows "\<forall>r \<in> set (outbox_messages (snd (drain_times env dispatch ts wm d))).
    ob_status r = OB_SENT \<or> ob_status r = OB_FAILED"
  using drain_times_settles [OF assms, of dispatch wm] OutboxStatus.exhaust
  unfolding settled_def by metis

definition one_try :: EnvVars where
  "one_try = env_defaults\<lparr>OUTBOX_MAX_ATTEMPTS := 1\<rparr>"

lemma one_try_valid: "env_valid one_try"
  by (simp add: one_try_def env_valid_def env_defaults_def)

theorem outbox_settles_witness:
  "list_all (\<lambda>r. ob_status r = OB_SENT \<or> ob_status r = OB_FAILED)
     (outbox_messages (snd (drain_times one_try down_target [(10, half_host)] ((), no_metrics) due_db)))"
  unfolding list_all_iff
proof (rule outbox_settles [OF due_db_ok one_try_valid])
  show "outbox_ok one_try due_db"
    by (simp add: outbox_ok_def attempts_ok_def one_try_def due_db_def due_row_def)
  show "due_by 0 due_db" by (simp add: due_by_def due_db_def due_row_def)
  show "well_spaced (retry_gap one_try) 0 [(10, half_host)]" by (simp add: half_host_ok)
  show "work_left one_try due_db \<le> length [(10, half_host)]"
    by (simp add: work_left_def row_work_def one_try_def due_db_def due_row_def)
qed

subsection \<open>The tick\<close>

lemma tick_skips:
  "rl_stopped s \<or> rl_draining s \<Longrightarrow> tick F count_ok env now host locked dispatch s wm d = (s, wm, d)"
  by (auto simp: tick_def tick_begin_def)

lemma tick_runs:
  assumes "\<not> rl_stopped s" and "\<not> rl_draining s"
    and "r = drainOnce F env now host locked dispatch wm d"
    and "n = (case tx_value r of Inl e \<Rightarrow> 0 | Inr processed \<Rightarrow> processed)"
  shows "\<exists>wm'. tick F count_ok env now host locked dispatch s wm d =
    (tick_finally env n (s\<lparr>rl_draining := True\<rparr>), wm', tx_db r)"
  using assms by (cases "tx_value r") (auto simp: tick_def tick_begin_def Let_def split: prod.splits)

lemma tick_finally_timer:
  "\<not> rl_stopped s \<Longrightarrow> tick_finally env n s = s\<lparr>rl_draining := False,
     rl_timer := Some (if OUTBOX_RELAY_BATCH_SIZE env \<le> int n then 0 else OUTBOX_RELAY_POLL_INTERVAL_MS env)\<rparr>"
  by (simp add: tick_finally_def scheduleNext_def Let_def)

text \<open>
  The relay never overlaps itself and never stops on its own. A tick of a running, idle relay
  ends idle, with a timer set: at once after a full batch, after the poll interval otherwise, also
  when the drain threw. A tick of a stopped or busy relay does nothing, and no order of timer
  firings and completions has two passes in progress.
\<close>

lemma tick_rearms:
  assumes "env_valid env"
    and "tick F count_ok env now host locked dispatch s wm d = (s', wm', d')"
    and "r = drainOnce F env now host locked dispatch wm d"
  shows "(rl_stopped s \<or> rl_draining s \<longrightarrow> s' = s \<and> wm' = wm \<and> d' = d)
    \<and> (\<not> rl_stopped s \<and> \<not> rl_draining s \<longrightarrow>
         \<not> rl_draining s' \<and> \<not> rl_stopped s' \<and> d' = tx_db r
       \<and> rl_timer s' = Some (if \<exists>n. tx_value r = Inr n \<and> OUTBOX_RELAY_BATCH_SIZE env \<le> int n then 0
                             else OUTBOX_RELAY_POLL_INTERVAL_MS env))
    \<and> (\<forall>es n s2 A. flight tick_begin (tick_finally env n) es (relay_new, {}) = (s2, A) \<longrightarrow>
         card A \<le> 1 \<and> (rl_draining s2 \<longleftrightarrow> A \<noteq> {}))"
proof (intro conjI)
  show "rl_stopped s \<or> rl_draining s \<longrightarrow> s' = s \<and> wm' = wm \<and> d' = d"
    using assms(2) tick_skips [of s F count_ok env now host locked dispatch wm d] by auto
  have pos: "\<not> OUTBOX_RELAY_BATCH_SIZE env \<le> 0" using env_validD(3) [OF assms(1)] by simp
  show "\<not> rl_stopped s \<and> \<not> rl_draining s \<longrightarrow>
         \<not> rl_draining s' \<and> \<not> rl_stopped s' \<and> d' = tx_db r
       \<and> rl_timer s' = Some (if \<exists>n. tx_value r = Inr n \<and> OUTBOX_RELAY_BATCH_SIZE env \<le> int n then 0
                             else OUTBOX_RELAY_POLL_INTERVAL_MS env)"
  proof
    assume idle: "\<not> rl_stopped s \<and> \<not> rl_draining s"
    let ?n = "case tx_value r of Inl e \<Rightarrow> 0 | Inr processed \<Rightarrow> processed"
    from tick_runs [of s r F env now host locked dispatch wm d ?n count_ok] idle assms(2,3)
    have s': "s' = tick_finally env ?n (s\<lparr>rl_draining := True\<rparr>)" and d': "d' = tx_db r" by auto
    have "s' = s\<lparr>rl_draining := False, rl_timer := Some (if OUTBOX_RELAY_BATCH_SIZE env \<le> int ?n then 0
        else OUTBOX_RELAY_POLL_INTERVAL_MS env)\<rparr>"
      using idle by (simp add: s' tick_finally_timer)
    with d' idle pos show "\<not> rl_draining s' \<and> \<not> rl_stopped s' \<and> d' = tx_db r
       \<and> rl_timer s' = Some (if \<exists>n. tx_value r = Inr n \<and> OUTBOX_RELAY_BATCH_SIZE env \<le> int n then 0
                             else OUTBOX_RELAY_POLL_INTERVAL_MS env)"
      by (cases "tx_value r") auto
  qed
  show "\<forall>es n s2 A. flight tick_begin (tick_finally env n) es (relay_new, {}) = (s2, A) \<longrightarrow>
         card A \<le> 1 \<and> (rl_draining s2 \<longleftrightarrow> A \<noteq> {})"
    using relay_guard.flight_exclusive [of relay_new] by (simp add: relay_new_def)
qed

lemma tick_rearms_witness:
  "\<not> rl_draining (fst (tick no_faults True env_defaults 10 half_host {} down_target relay_new
       ((), no_metrics) due_db))"
proof -
  obtain s' wm' d' where t: "tick no_faults True env_defaults 10 half_host {} down_target relay_new
       ((), no_metrics) due_db = (s', wm', d')" by (rule prod_cases3)
  have "\<not> rl_stopped relay_new" "\<not> rl_draining relay_new" by (simp_all add: relay_new_def)
  with tick_rearms [OF env_defaults_valid t refl] show ?thesis by (simp add: t)
qed

end
