(* ===== verification/Liveness.thy ===== *)
theory Liveness
  imports System Relay_Progress
begin

section \<open>A relay whose target is up\<close>

text \<open>
  The invariants say what a reachable state looks like; this theory is about getting done. An announcement in the
  outbox belongs to a ticket that has left PENDING, and passes of the relay over a target that is up send
  whatever is pending. \<open>Finishing\<close> puts the workers before them.
\<close>

subsection \<open>The effect of a pending ticket is not taken\<close>

text \<open>A \<open>ticket.triaged\<close> effect in the outbox belongs to a ticket that has left PENDING.\<close>

definition triaged_known :: "db \<Rightarrow> bool" where
  "triaged_known d \<longleftrightarrow> (\<forall>i. effect_key i SIDE_EFFECT_TRIAGED \<in> dedup_keys d \<longrightarrow>
     (\<exists>t. tk_row i d = Some t \<and> tk_enrichmentStatus t \<noteq> ES_PENDING))"

lemma triaged_known_frame:
  "triaged_known d \<Longrightarrow> tickets d' = tickets d \<Longrightarrow> outbox_messages d' = outbox_messages d \<Longrightarrow> triaged_known d'"
  by (simp add: triaged_known_def dedup_keys_def)

lemma triaged_known_persist:
  assumes "schema_ok d" and "triaged_known d" and "outcome_ok out"
    and "fst (persist_work nid now i prior out data w d) = Inr (u, d')"
  shows "triaged_known d'"
proof (cases rule: persist_work_cases [OF assms(1,4)])
  case 1
  with assms(2) show ?thesis by simp
next
  case (2 t)
  have st: "tk_enrichmentStatus (write_outcome now out t) \<noteq> ES_PENDING" using assms(3) by (auto simp: outcome_ok_def)
  show ?thesis
    unfolding triaged_known_def
  proof (intro allI impI)
    fix j assume j: "effect_key j SIDE_EFFECT_TRIAGED \<in> dedup_keys d'"
    show "\<exists>t. tk_row j d' = Some t \<and> tk_enrichmentStatus t \<noteq> ES_PENDING"
    proof (cases "j = i")
      case True
      with 2(3) [of i] st show ?thesis by simp
    next
      case False
      have "effect_key j SIDE_EFFECT_TRIAGED \<noteq> effect_key i ev" if "side_effect prior out = Some ev" for ev
      proof -
        from that have "ev = SIDE_EFFECT_TRIAGED \<or> ev = SIDE_EFFECT_UPGRADED"
          by (auto simp: side_effect_def split: if_splits)
        then show ?thesis using False effect_key_ticket effect_key_kind by metis
      qed
      with j 2(4) have "effect_key j SIDE_EFFECT_TRIAGED \<in> dedup_keys d" by (auto split: option.splits)
      with assms(2) 2(3) [of j] False show ?thesis by (auto simp: triaged_known_def)
    qed
  qed
qed

lemma sys_step_triaged_known:
  assumes "sys_step env dispatch s s'" and "env_valid env" and "sys_inv env (\<lambda>_. UNIV) s"
    and "triaged_known (sy_db s)"
  shows "triaged_known (sy_db s')"
proof -
  note frame = triaged_known_frame [OF assms(4)]
  have ok: "schema_ok (sy_db s)" and one: "one_ticket (sy_db s)"
    using assms(3) by (auto simp: sys_inv_def work_inv_def)
  from assms(1) show ?thesis
  proof cases
    case (insert_key nid now key h won d)
    with frame claim_insert_frame [OF insert_key(2)] show ?thesis by simp
  next
    case (reclaim_key now key n d)
    with frame claim_reclaim_frame [OF reclaim_key(2)] show ?thesis by simp
  next
    case (create r F eid tid now key dto)
    show ?thesis
    proof (cases "tx_db r = sy_db s")
      case True
      with create assms(4) show ?thesis by simp
    next
      case False
      with tx.run_atomic [of F "create_work eid tid now key dto" "()" "sy_db s"] create(2) obtain a e where
        made: "fst (create_work eid tid now key dto () (sy_db s)) = Inr ((a, e), tx_db r)" by fastforce
      have "outbox_messages (tx_db r) = outbox_messages (sy_db s)" using create_facts [OF ok one made] by blast
      with assms(4) create_work_keeps_tickets [OF made] create(1) show ?thesis
        by (fastforce simp: triaged_known_def dedup_keys_def)
    qed
  next
    case (work d seen)
    from work(2) show ?thesis
    proof cases
      case (persist i prior out r F nid now data)
      from tx.run_atomic [of F "persist_work nid now i prior out data" "()" "sy_db s"] persist
      consider "d = sy_db s" | u where "fst (persist_work nid now i prior out data () (sy_db s)) = Inr (u, d)"
        by (auto simp: persistAndEmit_def)
      then show ?thesis
      proof cases
        case 2
        with triaged_known_persist [OF ok assms(4) _ 2] persist work(1) show ?thesis by simp
      qed (use work(1) assms(4) in simp)
    qed (use work(1) assms(4) in simp)
  next
    case (relay host r F now locked)
    have base: "0 \<le> OUTBOX_BACKOFF_BASE_MS env" using assms(2) by (rule env_validD)
    have "dedup_keys (tx_db r) = dedup_keys (sy_db s) \<and> tickets (tx_db r) = tickets (sy_db s)"
      by (rule drain_cases [OF ok base relay(2,3) refl]) simp_all
    with relay(1) assms(4) show ?thesis by (simp add: triaged_known_def)
  next
    case (bury nid now job err d)
    with frame show ?thesis by (auto simp: insert_dead_letter_def split: if_splits)
  next
    case (replay now i rows d)
    with frame replay_frames(1) [OF replay(2)] show ?thesis by simp
  qed (use frame in \<open>simp_all add: replay_frames\<close>)
qed

lemma sys_reach_triaged_known:
  assumes "sys_reach env dispatch (sys_start w m) s" and "env_valid env"
  shows "triaged_known (sy_db s)"
  using assms(1)
proof (induction rule: sys_reach.induct)
  case start
  show ?case by (simp add: triaged_known_def sys_start_def dedup_keys_def empty_db_def)
next
  case (more s s')
  with sys_step_triaged_known [OF _ assms(2) sys_inv_any [OF more.hyps(1) assms(2) sys_start_inv]] show ?case by blast
qed

subsection \<open>A relay whose target is up\<close>

definition target_up :: "'w dispatcher \<Rightarrow> bool" where
  "target_up dispatch \<longleftrightarrow> (\<forall>cid msg w. fst (dispatch cid msg w) = Inr ())"

lemma dispatchRow_up:
  assumes "target_up dispatch"
  shows "snd (dispatchRow env now host dispatch row wm d) = mark_sent now row d"
  using assms unfolding target_up_def by (auto simp: dispatchRow_def runWithCorrelation_def Let_def split: prod.split option.split)
     (metis fst_conv old.sum.simps(5) old.sum.simps(6) snd_conv)+

lemma dispatchRows_up:
  assumes "target_up dispatch"
  shows "snd (dispatchRows env now host dispatch rows wm d) = fold (mark_sent now) rows d"
proof (induction rows arbitrary: wm d)
  case Nil
  show ?case by simp
next
  case (Cons row rows)
  with dispatchRow_up [OF assms, of env now host row wm d] show ?case
    by (cases "dispatchRow env now host dispatch row wm d") simp
qed

lemma update_where_twice:
  assumes "\<And>r. f (f r) = f r" and "\<And>r. q (f r) = q r"
  shows "update_where q f (update_where p f rs) = update_where (\<lambda>r. p r \<or> q r) f rs"
  using assms by (induction rs) auto

lemma fold_mark_sent:
  "outbox_messages (fold (mark_sent now) rows d) = update_where (\<lambda>r. ob_id r \<in> ob_id ` set rows)
     (\<lambda>r. r\<lparr>ob_status := OB_SENT, ob_dispatchedAt := Some now, ob_lastError := None\<rparr>) (outbox_messages d)"
proof (induction rows arbitrary: d)
  case Nil
  show ?case by (simp add: update_where_no_match)
next
  case (Cons row rows)
  show ?case by (simp add: Cons.IH) (simp add: mark_sent_def update_where_twice)
qed

lemma fold_mark_sent_frame: "tickets (fold (mark_sent now) rows d) = tickets d"
  by (induction rows arbitrary: d) (simp_all add: mark_sent_def)

lemma drain_up:
  assumes "target_up dispatch"
  shows "tx_db (drainOnce no_faults env now host {} dispatch wm d)
    = fold (mark_sent now) (poll_due now (OUTBOX_RELAY_BATCH_SIZE env) {} d) d"
  using dispatchRows_up [OF assms]
  by (simp add: drainOnce_def runInTransaction_no_faults Let_def split: prod.split)
     (metis snd_conv)

lemma affected_update_less:
  assumes "\<And>r. q r \<Longrightarrow> \<not> p (f r)" and "r0 \<in> set rs" and "q r0" and "p r0"
  shows "affected p (update_where q f rs) < affected p rs"
proof -
  have le: "affected p (update_where q f rs) \<le> affected p rs" for rs
    using assms(1) by (induction rs) auto
  from assms(2) show ?thesis
  proof (induction rs)
    case (Cons r rs)
    with assms(1,3,4) le [of rs] show ?case by (auto simp: less_Suc_eq_le le_SucI)
  qed simp
qed

text \<open>A pass sends at least one row once every row is due, unless none is pending; it gives up none.\<close>

definition settles :: "db \<Rightarrow> db \<Rightarrow> bool" where
  "settles d d' \<longleftrightarrow> tickets d' = tickets d \<and> pending_count d' \<le> pending_count d
     \<and> ob_nextAttemptAt ` set (outbox_messages d') \<subseteq> ob_nextAttemptAt ` set (outbox_messages d)
     \<and> (\<forall>r \<in> set (outbox_messages d'). ob_status r = OB_FAILED \<longrightarrow> r \<in> set (outbox_messages d))"

lemma settles_trans:
  assumes "settles a b" and "settles b c"
  shows "settles a c"
proof -
  note ab = assms(1) [unfolded settles_def] and bc = assms(2) [unfolded settles_def]
  have "ob_nextAttemptAt ` set (outbox_messages c) \<subseteq> ob_nextAttemptAt ` set (outbox_messages a)"
    using ab bc by (elim conjE) (rule subset_trans)
  moreover have "\<forall>r \<in> set (outbox_messages c). ob_status r = OB_FAILED \<longrightarrow> r \<in> set (outbox_messages a)"
    using ab bc by (elim conjE) simp
  ultimately show ?thesis using ab bc unfolding settles_def by (elim conjE) simp
qed

lemma pass_sends:
  assumes "env_valid env" and "target_up dispatch" and due: "\<And>r. r \<in> set (outbox_messages d) \<Longrightarrow> ob_nextAttemptAt r \<le> now"
    and r: "r = drainOnce no_faults env now host {} dispatch wm d"
  shows "settles d (tx_db r) \<and> (0 < pending_count d \<longrightarrow> pending_count (tx_db r) < pending_count d)"
proof -
  let ?batch = "poll_due now (OUTBOX_RELAY_BATCH_SIZE env) {} d"
  let ?sent = "\<lambda>r. r\<lparr>ob_status := OB_SENT, ob_dispatchedAt := Some now, ob_lastError := None\<rparr>"
  have db: "tx_db r = fold (mark_sent now) ?batch d" unfolding r by (rule drain_up [OF assms(2)])
  have out: "outbox_messages (tx_db r) = update_where (\<lambda>r. ob_id r \<in> ob_id ` set ?batch) ?sent (outbox_messages d)"
    unfolding db by (rule fold_mark_sent)
  have "affected (\<lambda>r. ob_status r = OB_PENDING) (update_where q ?sent rs) \<le> affected (\<lambda>r. ob_status r = OB_PENDING) rs" for q rs
    by (induction rs) auto
  then have "pending_count (tx_db r) \<le> pending_count d" unfolding pending_count_def out .
  moreover have "tickets (tx_db r) = tickets d" unfolding db by (rule fold_mark_sent_frame)
  ultimately have "settles d (tx_db r)" by (auto simp: settles_def out set_update_where)
  moreover have "pending_count (tx_db r) < pending_count d" if pc: "0 < pending_count d"
  proof -
    obtain row where row: "row \<in> set (outbox_messages d)" "ob_status row = OB_PENDING"
      using pc by (auto simp: pending_count_def affected_pos_iff)
    with due have "is_due now row" by (simp add: is_due_def)
    with row(1) env_validD(3) [OF assms(1)] have "?batch \<noteq> []" by (intro poll_nonempty)
    then obtain r0 where r0: "r0 \<in> set ?batch" by fastforce
    then have "r0 \<in> set (outbox_messages d)" "ob_status r0 = OB_PENDING"
      by (auto dest!: poll_due_set simp: is_due_def)
    with r0 show ?thesis unfolding pending_count_def out by (intro affected_update_less) auto
  qed
  ultimately show ?thesis by blast
qed

text \<open>The relay's passes one after the other, at the given times.\<close>

fun drains :: "EnvVars \<Rightarrow> relay_host \<Rightarrow> 'w dispatcher \<Rightarrow> timestamp list \<Rightarrow> 'w \<times> metrics \<Rightarrow> db \<Rightarrow> ('w \<times> metrics) \<times> db" where
  "drains env host dispatch [] wm d = (wm, d)"
| "drains env host dispatch (now # nows) wm d =
     (let r = drainOnce no_faults env now host {} dispatch wm d in drains env host dispatch nows (tx_world r) (tx_db r))"

lemma drains_settle:
  assumes "env_valid env" and "target_up dispatch" and "good_host host"
    and "\<And>now r. now \<in> set nows \<Longrightarrow> r \<in> set (outbox_messages (sy_db x)) \<Longrightarrow> ob_nextAttemptAt r \<le> now"
    and "drains env host dispatch nows (sy_world x) (sy_db x) = (wm, d)"
  shows "sys_reach env dispatch x (x\<lparr>sy_db := d, sy_world := wm\<rparr>) \<and> settles (sy_db x) d
    \<and> (pending_count (sy_db x) \<le> length nows \<longrightarrow> pending_count d = 0)"
  using assms(4,5)
proof (induction nows arbitrary: x)
  case Nil
  then have d: "d = sy_db x" and "wm = sy_world x" by simp_all
  then have same: "x\<lparr>sy_db := d, sy_world := wm\<rparr> = x" by simp
  show ?case unfolding same by (simp add: sys_reach.start settles_def d)
next
  case (Cons now nows)
  define r where "r = drainOnce no_faults env now host {} dispatch (sy_world x) (sy_db x)"
  let ?x = "x\<lparr>sy_db := tx_db r, sy_world := tx_world r\<rparr>"
  have one: "sys_reach env dispatch x ?x" by (rule sys_reach_one, rule sys_step.relay [OF assms(3) r_def])
  have p: "settles (sy_db x) (tx_db r) \<and> (0 < pending_count (sy_db x) \<longrightarrow> pending_count (tx_db r) < pending_count (sy_db x))"
    by (rule pass_sends [OF assms(1,2) _ r_def]) (rule Cons.prems(1), simp_all)
  have rest: "drains env host dispatch nows (sy_world ?x) (sy_db ?x) = (wm, d)" using Cons.prems(2) by (simp add: r_def Let_def)
  have later: "ob_nextAttemptAt r' \<le> now'" if "now' \<in> set nows" "r' \<in> set (outbox_messages (sy_db ?x))" for now' r'
  proof -
    from p that(2) have "ob_nextAttemptAt r' \<in> ob_nextAttemptAt ` set (outbox_messages (sy_db x))" by (auto simp: settles_def)
    with Cons.prems(1) that(1) show ?thesis by auto
  qed
  from Cons.IH [OF later rest] have
    ih: "sys_reach env dispatch ?x (x\<lparr>sy_db := d, sy_world := wm\<rparr>)" "settles (tx_db r) d"
      "pending_count (tx_db r) \<le> length nows \<longrightarrow> pending_count d = 0" by simp_all
  have "pending_count (sy_db x) \<le> Suc (length nows) \<Longrightarrow> pending_count (tx_db r) \<le> length nows"
    using p by (cases "pending_count (sy_db x) = 0") (auto simp: settles_def)
  with ih sys_reach_trans [OF ih(1) one] p settles_trans show ?case by auto
qed

text \<open>A webhook that answers every request with a 2xx.\<close>

definition webhook_up :: "'w fetch \<Rightarrow> bool" where
  "webhook_up fetch \<longleftrightarrow> (\<forall>t req w. \<exists>r. fst (fetch t req w) = Inr r \<and> response_ok r)"

lemma webhook_up_dispatch:
  assumes "webhook_up fetch"
  shows "target_up (webhook_dispatch show_int env fetch)"
  unfolding target_up_def
proof (intro allI)
  fix cid msg w
  obtain r where "fst (fetch WEBHOOK_TIMEOUT_MS (webhook_request env cid msg) w) = Inr r" "response_ok r"
    using assms unfolding webhook_up_def by blast
  then show "fst (webhook_dispatch show_int env fetch cid msg w) = Inr ()"
    by (cases "fetch WEBHOOK_TIMEOUT_MS (webhook_request env cid msg) w") (simp add: webhook_dispatch_def)
qed

end
