(* ===== verification/Finishing.thy ===== *)
theory Finishing
  imports Custody_Runs Liveness
begin

section \<open>A live queue and a live webhook finish the work\<close>

text \<open>
  \<open>Custody_Runs\<close> says that an accepted PENDING ticket which nothing went wrong with has a live job. Here those
  jobs are run, by the code's own \<open>process_job\<close>, and the relay drains after them.
\<close>

subsection \<open>Runs of jobs\<close>

fun work_off :: "EnvVars \<Rightarrow> (('q, 'e) pipe_host \<times> job_data) list \<Rightarrow> ('q, 'e) pipe \<Rightarrow> ('q, 'e) pipe" where
  "work_off env [] p = p"
| "work_off env ((H, data) # runs) p = work_off env runs (snd (process_job H env data p))"

text \<open>A worker whose database holds up and whose enricher answers, as \<open>ai_enrich\<close> always does.\<close>

definition working :: "('q, 'e) pipe_host \<Rightarrow> bool" where
  "working H \<longleftrightarrow> ph_faults H = no_faults \<and> (\<forall>c t a. \<exists>out a'. ph_enrich H c t a = (Inr out, a') \<and> outcome_ok out)"

lemma working_enricher: "working H \<Longrightarrow> ph_enrich H c t a = (Inr out, a') \<Longrightarrow> outcome_ok out"
  unfolding working_def by (metis prod.inject sum.inject(2))

text \<open>The ids the runs give their outbox rows are fresh.\<close>

definition fresh_runs :: "(('q, 'e) pipe_host \<times> job_data) list \<Rightarrow> db \<Rightarrow> bool" where
  "fresh_runs runs d \<longleftrightarrow> distinct (map (ph_newid \<circ> fst) runs)
     \<and> (ph_newid \<circ> fst) ` set runs \<inter> values_of ob_id (outbox_messages d) = {}"

lemma fresh_runs_Cons:
  assumes "fresh_runs ((H, data) # runs) d"
    and "values_of ob_id (outbox_messages d1) \<subseteq> insert (ph_newid H) (values_of ob_id (outbox_messages d))"
  shows "ph_newid H \<notin> values_of ob_id (outbox_messages d)" and "fresh_runs runs d1"
proof -
  define A where "A = (ph_newid \<circ> fst) ` set runs"
  have h: "ph_newid H \<notin> A" "A \<inter> values_of ob_id (outbox_messages d) = {}"
    "ph_newid H \<notin> values_of ob_id (outbox_messages d)" "distinct (map (ph_newid \<circ> fst) runs)"
    using assms(1) by (auto simp: fresh_runs_def A_def)
  with assms(2) have "A \<inter> values_of ob_id (outbox_messages d1) = {}" by blast
  with h show "ph_newid H \<notin> values_of ob_id (outbox_messages d)" and "fresh_runs runs d1"
    unfolding fresh_runs_def A_def by blast+
qed

lemma persist_ids:
  assumes "d' = tx_db (persistAndEmit F nid now i prior out data d)"
  shows "(\<forall>r \<in> set (outbox_messages d'). r \<in> set (outbox_messages d) \<or> ob_status r = OB_PENDING)
    \<and> values_of ob_id (outbox_messages d') \<subseteq> insert nid (values_of ob_id (outbox_messages d))"
proof (cases "d' = d")
  case False
  with tx.run_atomic [of F "persist_work nid now i prior out data" "()" d] assms obtain u where
    ran: "fst (persist_work nid now i prior out data () d) = Inr (u, d')" by (auto simp: persistAndEmit_def)
  obtain n d1 where upd: "update_ticket now i out d = (n, d1)" by (rule prod.exhaust)
  then have "outbox_messages d1 = outbox_messages d" using update_ticket_frame by blast
  with ran upd have "values_of ob_id (outbox_messages d') \<subseteq> insert nid (values_of ob_id (outbox_messages d))"
    by (auto simp: persist_work_def emit_def Let_def values_of_def
        split: nat.splits option.splits sum.splits prod.splits if_splits)
  with persist_work_rows [OF ran] show ?thesis by blast
qed auto

lemma process_job_ids:
  assumes "process_job H env data p = (res, p')"
  shows "(\<forall>r \<in> set (outbox_messages (pp_db p')). r \<in> set (outbox_messages (pp_db p)) \<or> ob_status r = OB_PENDING)
    \<and> values_of ob_id (outbox_messages (pp_db p')) \<subseteq> insert (ph_newid H) (values_of ob_id (outbox_messages (pp_db p)))"
  using assms by (cases rule: process_job_db) (use persist_ids in auto)

text \<open>A job triages the PENDING ticket it is for.\<close>

lemma process_job_triages:
  assumes run: "process_job H env data p = (res, p')" and H: "working H" and ok: "schema_ok (pp_db p)"
    and fresh: "ph_newid H \<notin> values_of ob_id (outbox_messages (pp_db p))"
    and t: "tk_row (jd_ticketId data) (pp_db p) = Some t" "tk_enrichmentStatus t = ES_PENDING"
  shows "\<not> pending (pp_db p') (jd_ticketId data)"
proof -
  let ?i = "jd_ticketId data"
  obtain cid where in_scope: "process_in_scope H env data p cid = (res, p')"
    using run unfolding process_job_def runWithCorrelation_def by blast
  have found: "findByIdOrThrow ?i (pp_db p) = Inr t" using t(1) by (simp add: findByIdOrThrow_ok)
  have id: "tk_id t = ?i" using t(1) by (auto dest: row_with_SomeD)
  obtain out a where call: "ph_enrich H cid t (pp_ai p) = (Inr out, a)" "outcome_ok out"
    using H unfolding working_def by blast
  have F: "ph_faults H = no_faults" using H by (simp add: working_def)
  let ?r = "persistAndEmit no_faults (ph_newid H) (ph_now H) ?i (tk_enrichmentStatus t) out data (pp_db p)"
  have "pp_db p' = tx_db ?r"
    using in_scope found call id F
    by (auto simp: process_in_scope_def Let_def split: sum.splits prod.splits if_splits)
  moreover have "may_write out t" using t(2) by (simp add: may_write_def)
  ultimately have "tk_row ?i (pp_db p') = Some (write_outcome (ph_now H) out t)"
    using persist_no_faults [OF ok t(1) _ fresh, of out "pp_db p'" "ph_now H" "tk_enrichmentStatus t" data] by simp
  with call(2) show ?thesis by (auto simp: pending_def outcome_ok_def)
qed

text \<open>Any sequence of runs is a path; a ticket one of them is for is triaged at its end.\<close>

lemma not_pending_later:
  assumes "sys_reach env dispatch x x'" and "env_valid env" and "sys_inv env (\<lambda>_. UNIV) x"
    and "tk_row i (sy_db x) = Some t" and "\<not> pending (sy_db x) i"
  shows "\<not> pending (sy_db x') i"
proof -
  from sys_reach_later [OF assms(1-3)] assms(4) obtain t' where
    "tk_row i (sy_db x') = Some t'" "later t t'" by blast
  then have t': "tk_row i (sy_db x') = Some t'" "tk_enrichmentStatus t \<le> tk_enrichmentStatus t'" by (simp_all add: later_def)
  have "tk_enrichmentStatus t \<noteq> ES_FAILED" using assms(3,4) by (auto simp: sys_inv_def work_inv_def announced_def)
  moreover have "tk_enrichmentStatus t \<noteq> ES_PENDING" using assms(4,5) by (auto simp: pending_def)
  ultimately have "tk_enrichmentStatus t' \<noteq> ES_PENDING" using t'(2) by (cases "tk_enrichmentStatus t") auto
  with t'(1) show ?thesis by (simp add: pending_def)
qed

lemma work_off_path:
  assumes "env_valid env" and "sys_inv env (\<lambda>_. UNIV) x" and "sy_db x = pp_db p"
    and "\<forall>(H, data) \<in> set runs. working H" and "fresh_runs runs (pp_db p)"
  shows "\<exists>x'. sys_reach env dispatch x x' \<and> sy_db x' = pp_db (work_off env runs p) \<and> sy_world x' = sy_world x
    \<and> (\<forall>r \<in> set (outbox_messages (sy_db x')). r \<in> set (outbox_messages (sy_db x)) \<or> ob_status r = OB_PENDING)
    \<and> (\<forall>(H, data) \<in> set runs. \<forall>t. tk_row (jd_ticketId data) (sy_db x) = Some t \<longrightarrow> \<not> pending (sy_db x') (jd_ticketId data))"
  using assms(2-5)
proof (induction runs arbitrary: x p)
  case Nil
  then show ?case by (intro exI [of _ x]) (simp add: sys_reach.start)
next
  case (Cons run runs)
  obtain H data where r: "run = (H, data)" by (rule prod.exhaust)
  obtain res p1 where one: "process_job H env data p = (res, p1)" by (rule prod.exhaust)
  have H: "working H" using Cons.prems(3) r by simp
  have "\<exists>seen. sys_reach env dispatch x (x\<lparr>sy_db := pp_db p1, sy_seen := seen\<rparr>)"
    by (rule process_job_path [OF Cons.prems(2) one]) (rule working_enricher [OF H])
  then obtain seen where path1: "sys_reach env dispatch x (x\<lparr>sy_db := pp_db p1, sy_seen := seen\<rparr>)" by blast
  let ?x1 = "x\<lparr>sy_db := pp_db p1, sy_seen := seen\<rparr>"
  have inv1: "sys_inv env (\<lambda>_. UNIV) ?x1" by (rule sys_inv_any [OF path1 assms(1) Cons.prems(1)])
  have ids: "ph_newid H \<notin> values_of ob_id (outbox_messages (pp_db p))" and fresh1: "fresh_runs runs (pp_db p1)"
    using fresh_runs_Cons [of H data runs "pp_db p" "pp_db p1"] Cons.prems(4) process_job_ids [OF one] r by blast+
  from Cons.IH [OF inv1, of p1] Cons.prems(3) fresh1 obtain x' where
    x': "sys_reach env dispatch ?x1 x'" "sy_db x' = pp_db (work_off env runs p1)" "sy_world x' = sy_world x"
      "\<forall>r \<in> set (outbox_messages (sy_db x')). r \<in> set (outbox_messages (pp_db p1)) \<or> ob_status r = OB_PENDING"
      "\<forall>(H, data) \<in> set runs. \<forall>t. tk_row (jd_ticketId data) (pp_db p1) = Some t \<longrightarrow> \<not> pending (sy_db x') (jd_ticketId data)"
    by auto
  have kept: "\<exists>t'. tk_row i (pp_db p1) = Some t'" if "tk_row i (sy_db x) = Some t" for i t
  proof -
    from sys_reach_later [OF path1 assms(1) Cons.prems(1)] that
    have "\<exists>t'. tk_row i (sy_db ?x1) = Some t' \<and> later t t'" by blast
    then show ?thesis by auto
  qed
  have this_one: "\<not> pending (sy_db x') (jd_ticketId data)" if t: "tk_row (jd_ticketId data) (sy_db x) = Some t" for t
  proof -
    have "\<not> pending (pp_db p1) (jd_ticketId data)"
    proof (cases "tk_enrichmentStatus t = ES_PENDING")
      case True
      have "schema_ok (pp_db p)" using Cons.prems(1,2) by (simp add: sys_inv_def work_inv_def)
      from process_job_triages [OF one H this ids _ True] t Cons.prems(2) show ?thesis by simp
    next
      case False
      with t have "\<not> pending (sy_db x) (jd_ticketId data)" by (simp add: pending_def)
      from not_pending_later [OF path1 assms(1) Cons.prems(1) t this] show ?thesis by simp
    qed
    moreover obtain t' where "tk_row (jd_ticketId data) (sy_db ?x1) = Some t'" using kept [OF t] by auto
    ultimately show ?thesis using not_pending_later [OF x'(1) assms(1) inv1] by simp
  qed
  have rows: "\<forall>r \<in> set (outbox_messages (sy_db x')). r \<in> set (outbox_messages (sy_db x)) \<or> ob_status r = OB_PENDING"
    using x'(4) process_job_ids [OF one] Cons.prems(2) by auto
  have tickets: "\<forall>(H, data) \<in> set (run # runs). \<forall>t. tk_row (jd_ticketId data) (sy_db x) = Some t \<longrightarrow>
      \<not> pending (sy_db x') (jd_ticketId data)"
    using x'(5) kept this_one r by fastforce
  have "sy_db x' = pp_db (work_off env (run # runs) p)" using x'(2) one r by simp
  with sys_reach_trans [OF x'(1) path1] x'(3) rows tickets show ?case by blast
qed

subsection \<open>The system inside the plant\<close>

lemma handled_sys:
  assumes "onFailed db_err probe nid now job err m (sy_db x) = (m', d)"
  shows "sys_reach env dispatch x (x\<lparr>sy_db := d\<rparr>)"
  using assms
proof (cases rule: onFailed_cases)
  case letter
  then show ?thesis by (intro sys_reach_one sys_step.bury)
qed (simp_all add: sys_reach.start)

lemma plant_step_sys:
  assumes "plant_step Q jobs env dispatch s s'" and "pl_queued s \<subseteq> sy_issued (pl_sys s)"
  shows "sys_reach env dispatch (pl_sys s) (pl_sys s')"
  using assms(1)
proof cases
  case (quiet x)
  then show ?thesis by (simp add: sys_reach_one)
next
  case (complete k t now responseCode responseBody)
  with assms(2) show ?thesis by (auto simp: with_db_def intro!: sys_reach_one sys_step.complete)
next
  case (attempt_failed j bj job db_err probe nid now err m d)
  from handled_sys [OF attempt_failed(5)] show ?thesis by (simp add: attempt_failed(1) outcome_state_def with_db_def)
next
  case (failure_handled j data job probe db_err nid now err m d)
  from handled_sys [OF failure_handled(5)] show ?thesis by (simp add: failure_handled(1) outcome_state_def with_db_def)
next
  case (flip now i row rows d)
  then show ?thesis by (auto simp: with_db_def intro: sys_reach_one sys_step.replay)
next
  case (undo i data)
  then show ?thesis by (auto simp: with_db_def intro: sys_reach_one sys_step.undo)
qed (simp_all add: sys_reach.start)

lemma plant_reach_sys:
  assumes "plant_reach Q jobs env dispatch s0 s" and "bull_laws Q jobs" and "env_valid env" and "plant_inv jobs env s0"
  shows "sys_reach env dispatch (pl_sys s0) (pl_sys s)"
  using assms(1)
proof (induction rule: plant_reach.induct)
  case start
  show ?case by (rule sys_reach.start)
next
  case (more s s')
  have "pl_queued s \<subseteq> sy_issued (pl_sys s)" by (rule plant_invD(3) [OF plant_reach_inv [OF more.hyps(1) assms(2-4)]])
  from sys_reach_trans [OF plant_step_sys [OF more.hyps(2) this] more.IH] show ?case .
qed

subsection \<open>Finishing\<close>

text \<open>Nothing went wrong with a ticket: no handler, replay, dead letter, alarm or crash has it.\<close>

definition untroubled :: "('w, 'q) plant \<Rightarrow> uuid \<Rightarrow> bool" where
  "untroubled s i \<longleftrightarrow> i \<notin> pl_alarm s \<and> i \<notin> pl_lost s
     \<and> (\<forall>(j, data) \<in> pl_failing s. jd_ticketId data \<noteq> i) \<and> (\<forall>(l, data) \<in> pl_replaying s. jd_ticketId data \<noteq> i)
     \<and> (\<forall>r \<in> set (dead_letters (pl_db s)). dl_status r = DL_PENDING \<longrightarrow> jd_ticketId (job_of_json (dl_payload r)) \<noteq> i)"

text \<open>The jobs of the queue that will run: neither failed nor already done.\<close>

definition live_jobs :: "('q \<Rightarrow> string \<rightharpoonup> bull_job) \<Rightarrow> ('w, 'q) plant \<Rightarrow> job_data set" where
  "live_jobs jobs s = {bj_data bj | j bj. jobs (pl_queue s) j = Some bj \<and> \<not> bj_failed bj \<and> j \<notin> pl_done s}"

text \<open>
  C20: a live queue and a live webhook finish the work. Take any state the system and its queue can reach, let
  every live job be run once, in any order and beside any other runs, by workers whose enricher answers and whose
  database holds up, and then let the relay make as many passes as rows are pending, past the last due time, over
  a webhook that answers 2xx. Then every ticket of a COMPLETED key that was PENDING and that nothing had gone
  wrong with is triaged, its notification has been accepted by the webhook, and no row of the outbox is pending.
\<close>

theorem live_jobs_finish:
  assumes "bull_laws Q jobs" and "env_valid env" and "jobs q0 = Map.empty"
    and "fetch_ok fetch accepted" and "webhook_up fetch"
    and "plant_reach Q jobs env (webhook_dispatch show_int env fetch) (plant_start w m q0) s"
    and "pp_db p = pl_db s" and "\<forall>(H, data) \<in> set runs. working H" and "fresh_runs runs (pl_db s)"
    and "live_jobs jobs s \<subseteq> snd ` set runs"
    and "good_host host" and "pending_count (pp_db (work_off env runs p)) \<le> length nows"
    and "\<forall>now \<in> set nows. \<forall>r \<in> set (outbox_messages (pp_db (work_off env runs p))). ob_nextAttemptAt r \<le> now"
    and "drains env host (webhook_dispatch show_int env fetch) nows (sy_world (pl_sys s)) (pp_db (work_off env runs p))
      = ((world, metrics), d)"
  shows "pending_count d = 0
    \<and> (\<forall>k x i t. key_row k (pl_db s) = Some x \<and> ik_status x = IK_COMPLETED \<and> ik_ticketId x = Some i
         \<and> tk_row i (pl_db s) = Some t \<and> tk_enrichmentStatus t = ES_PENDING \<and> untroubled s i \<longrightarrow>
         (\<exists>t'. tk_row i d = Some t' \<and> tk_enrichmentStatus t' \<in> {ES_ENRICHED, ES_DEGRADED})
         \<and> effect_key i SIDE_EFFECT_TRIAGED \<in> accepted world)"
proof -
  let ?D = "webhook_dispatch show_int env fetch" and ?x = "pl_sys s"
  have start: "plant_inv jobs env (plant_start w m q0)" by (rule plant_start_inv) (rule assms(3))
  have plant: "plant_inv jobs env s" by (rule plant_reach_inv [OF assms(6,1,2) start])
  have from_start: "sys_reach env ?D (sys_start w m) ?x"
    using plant_reach_sys [OF assms(6,1,2) start] by (simp add: plant_start_def)
  have inv: "sys_inv env (\<lambda>_. UNIV) ?x" by (rule plant_invD(1) [OF plant])
  from work_off_path [OF assms(2) inv assms(7) [symmetric] assms(8), of ?D] assms(7,9) obtain x1 where
    x1: "sys_reach env ?D ?x x1" "sy_db x1 = pp_db (work_off env runs p)" "sy_world x1 = sy_world ?x"
      "\<forall>r \<in> set (outbox_messages (sy_db x1)). r \<in> set (outbox_messages (pl_db s)) \<or> ob_status r = OB_PENDING"
      "\<forall>(H, data) \<in> set runs. \<forall>t. tk_row (jd_ticketId data) (pl_db s) = Some t \<longrightarrow> \<not> pending (sy_db x1) (jd_ticketId data)"
    by auto
  let ?x2 = "x1\<lparr>sy_db := d, sy_world := (world, metrics)\<rparr>"
  have dr: "drains env host ?D nows (sy_world x1) (sy_db x1) = ((world, metrics), d)" using assms(14) x1(2,3) by simp
  have due: "ob_nextAttemptAt r \<le> now" if "now \<in> set nows" "r \<in> set (outbox_messages (sy_db x1))" for now r
    using that assms(13) x1(2) by auto
  from drains_settle [OF assms(2) webhook_up_dispatch [OF assms(5)] assms(11) due dr] assms(12) x1(2)
  have x2: "sys_reach env ?D x1 ?x2" and settled: "settles (sy_db x1) d" and none: "pending_count d = 0" by auto
  have path: "sys_reach env ?D ?x ?x2" by (rule sys_reach_trans [OF x2 x1(1)])
  have inv2: "sys_inv env accepted ?x2"
    by (rule webhook_target.sys_inv_webhook [OF webhook_targetI [OF assms(4)] sys_reach_trans [OF path from_start] assms(2)])
  have done_one: "(\<exists>t'. tk_row i d = Some t' \<and> tk_enrichmentStatus t' \<in> {ES_ENRICHED, ES_DEGRADED})
      \<and> effect_key i SIDE_EFFECT_TRIAGED \<in> accepted world"
    if k: "key_row k (pl_db s) = Some x" "ik_status x = IK_COMPLETED" "ik_ticketId x = Some i"
      and t: "tk_row i (pl_db s) = Some t" "tk_enrichmentStatus t = ES_PENDING" and fine: "untroubled s i" for k x i t
  proof -
    let ?K = "effect_key i SIDE_EFFECT_TRIAGED"
    have "k \<in> completed_keys (pl_db s)" using k by (simp add: completed_keys_def)
    from plant_invD(4) [OF plant this] have "(k, i) \<in> pl_queued s" using k by (auto simp: names_def)
    then have "touched (hands_of jobs s) i" by (auto simp: touched_def)
    moreover have "pending (pl_db s) i" using t by (simp add: pending_def)
    ultimately have "held (hands_of jobs s) i" using plant_invD(2) [OF plant] by (simp add: hands_inv_def held_ok_def)
    from held_spelled_out [OF plant this] fine
    obtain j bj where "jobs (pl_queue s) j = Some bj" "\<not> bj_failed bj" "j \<notin> pl_done s" and job: "jd_ticketId (bj_data bj) = i"
      unfolding untroubled_def by blast
    then have "bj_data bj \<in> live_jobs jobs s" unfolding live_jobs_def by blast
    with assms(10) obtain H where "(H, bj_data bj) \<in> set runs" by force
    with x1(5) t(1) job have "\<not> pending (sy_db x1) i" by blast
    moreover have "tickets d = tickets (sy_db x1)" using settled by (simp add: settles_def)
    ultimately have over: "\<not> pending d i" by (simp add: pending_def)
    from sys_reach_later [OF path assms(2) inv] t(1) obtain t' where "tk_row i (sy_db ?x2) = Some t'" by blast
    then have t': "tk_row i d = Some t'" by simp
    with inv2 have st: "tk_enrichmentStatus t' \<noteq> ES_FAILED" by (auto simp: sys_inv_def work_inv_def announced_def)
    from over t' have st': "tk_enrichmentStatus t' \<noteq> ES_PENDING" by (simp add: pending_def)
    with inv2 t' have "?K \<in> dedup_keys d" unfolding sys_inv_def work_inv_def announced_def by auto
    then obtain r where r: "r \<in> set (outbox_messages d)" "ob_dedupKey r = ?K" by (auto simp: dedup_keys_def values_of_def)
    have new: "?K \<notin> dedup_keys (pl_db s)"
      using sys_reach_triaged_known [OF from_start assms(2)] t by (auto simp: triaged_known_def)
    have "ob_status r \<noteq> OB_FAILED"
    proof
      assume failed: "ob_status r = OB_FAILED"
      with settled r(1) have "r \<in> set (outbox_messages (sy_db x1))" by (simp add: settles_def)
      with x1(4) failed have "r \<in> set (outbox_messages (pl_db s))" by fastforce
      then have "ob_dedupKey r \<in> dedup_keys (pl_db s)" by (simp add: dedup_keys_def values_of_def)
      with r(2) new show False by simp
    qed
    moreover have "ob_status r \<noteq> OB_PENDING" using none r(1) by (auto simp: pending_count_def affected_0_iff)
    ultimately have "ob_status r = OB_SENT" by (cases "ob_status r") auto
    with inv2 r have "?K \<in> accepted world" by (auto simp: sys_inv_def sent_delivered_def)
    moreover have "tk_enrichmentStatus t' \<in> {ES_ENRICHED, ES_DEGRADED}" using st st' by (cases "tk_enrichmentStatus t'") auto
    ultimately show ?thesis using t' by blast
  qed
  from none done_one show ?thesis by blast
qed

subsection \<open>A concrete run\<close>

definition order_worker :: "uuid \<Rightarrow> (ref_queue, nat \<times> metrics) pipe_host" where
  "order_worker nid = \<lparr>ph_bull = ref_bull, ph_enrich = (\<lambda>_. ai_enrich dead_breaker (\<lambda>_. 0) env_defaults),
     ph_show_int = tally, ph_faults = no_faults, ph_random = 0, ph_newid = nid, ph_minted = ''m1'', ph_now = 5\<rparr>"

lemma order_worker_works: "working (order_worker nid)"
proof -
  have "\<exists>out a'. ai_enrich dead_breaker (\<lambda>_. 0) env_defaults t a = (Inr out, a') \<and> outcome_ok out" for t a
    by (rule ai.never_throws)
  then show ?thesis by (simp add: working_def order_worker_def)
qed

lemma some_time: "\<exists>now. \<forall>r \<in> set rs. g r \<le> (now :: timestamp)"
  by (rule exI [of _ "Max (g ` set rs)"]) simp

theorem live_jobs_finish_witness:
  "\<exists>s nid nows world m d. plant_reach ref_bull ref_jobs env_defaults (webhook_dispatch (\<lambda>_. []) env_defaults sink_fetch)
        (order_plant ([], {}) empty_queue) s
     \<and> drains env_defaults half_host (webhook_dispatch (\<lambda>_. []) env_defaults sink_fetch) nows (sy_world (pl_sys s))
        (pp_db (work_off env_defaults [(order_worker nid, order_data)]
          \<lparr>pp_db = pl_db s, pp_queue = pl_queue s, pp_ai = (0, no_metrics), pp_metrics = no_metrics\<rparr>)) = ((world, m), d)
     \<and> effect_key ''t1'' SIDE_EFFECT_TRIAGED \<in> snd world"
proof -
  let ?D = "webhook_dispatch (\<lambda>_. []) env_defaults sink_fetch" and ?bj = "new_job order_data (standard_opts env_defaults ''order-1'')"
  from order_plant_accepted [of ?D "([], {})"] obtain s x where
    s: "plant_reach ref_bull ref_jobs env_defaults ?D (order_plant ([], {}) empty_queue) s" "pl_queue s = order_queue"
      "key_row ''order-1'' (pl_db s) = Some x" "ik_status x = IK_COMPLETED" "ik_ticketId x = Some ''t1''"
      "tk_row ''t1'' (pl_db s) = Some (new_ticket_row ''t1'' (ih_create_at order_host) ''e1'' order_request)"
      "pl_failing s = {}" "pl_replaying s = {}" "pl_alarm s = {}" "pl_lost s = {}" "dead_letters (pl_db s) = []" by blast
  let ?p = "\<lparr>pp_db = pl_db s, pp_queue = pl_queue s, pp_ai = (0, no_metrics), pp_metrics = no_metrics\<rparr>"
  have none: "ref_jobs empty_queue = Map.empty" by (simp add: ref_jobs_def empty_queue_def)
  have up: "webhook_up sink_fetch" by (simp add: webhook_up_def sink_fetch_def Let_def response_ok_def OK_200_def)
  have "finite (values_of ob_id (outbox_messages (pl_db s)))" by (simp add: values_of_def)
  then obtain nid where nid: "nid \<notin> values_of ob_id (outbox_messages (pl_db s))"
    using ex_new_if_finite [OF infinite_UNIV_listI] by blast
  let ?runs = "[(order_worker nid, order_data)]"
  let ?d1 = "pp_db (work_off env_defaults ?runs ?p)"
  have works: "\<forall>(H, data) \<in> set ?runs. working H" by (simp add: order_worker_works)
  have fresh: "fresh_runs ?runs (pl_db s)" using nid by (simp add: fresh_runs_def order_worker_def)
  have live: "live_jobs ref_jobs s \<subseteq> snd ` set ?runs"
    by (auto simp: live_jobs_def s(2) order_queue_def ref_jobs_def empty_queue_def order_data_fields split: if_splits)
  obtain now where now: "\<forall>r \<in> set (outbox_messages ?d1). ob_nextAttemptAt r \<le> now"
    using some_time [of "outbox_messages ?d1" ob_nextAttemptAt] by blast
  let ?nows = "replicate (pending_count ?d1) now"
  obtain world m d where dr: "drains env_defaults half_host ?D ?nows (sy_world (pl_sys s)) ?d1 = ((world, m), d)"
    by (metis prod.exhaust)
  have fine: "untroubled s ''t1''" by (simp add: untroubled_def s(7-11))
  have waiting: "tk_enrichmentStatus (new_ticket_row ''t1'' (ih_create_at order_host) ''e1'' order_request) = ES_PENDING"
    by (simp add: new_ticket_row_def)
  have "effect_key ''t1'' SIDE_EFFECT_TRIAGED \<in> snd world"
    using live_jobs_finish [OF ref_bull_laws env_defaults_valid none sink_fetch_ok up s(1) [unfolded order_plant_def],
        of ?p ?runs, OF _ works fresh live half_host_ok _ _ dr] now s(3-6) fine waiting by simp
  with s(1) dr show ?thesis by blast
qed

end
