(* ===== verification/Relay_Faults.thy ===== *)
theory Relay_Faults
  imports System
begin

section \<open>Statements that throw inside a drain (src/outbox/outbox.relay.ts)\<close>

text \<open>
  \<open>drainOnce\<close> of \<open>Outbox\<close> lets the driver's transaction calls throw. Here the statements of the work may
  throw as well: the claim query, and the UPDATE of any row. Postgres then refuses every later statement
  of the transaction until it is rolled back, so what the \<open>catch\<close> of \<open>dispatchRow\<close> tries next throws too.
  The latency histogram is a list of the rows observed, one entry per call of \<open>stopTimer\<close>.
\<close>

subsection \<open>The drain, statement by statement\<close>

record stmt_faults =
  sf_poll :: "exn option"
  sf_update :: "uuid \<Rightarrow> exn option"
  sf_aborted :: exn

record 'w drain_world =
  dw_world :: 'w
  dw_metrics :: metrics
  dw_latency :: "uuid list"

definition stopTimer :: "outbox_row \<Rightarrow> 'w drain_world \<Rightarrow> 'w drain_world" where
  "stopTimer row s = s\<lparr>dw_latency := dw_latency s @ [ob_id row]\<rparr>"

text \<open>
  The UPDATE that marks a row SENT is inside the \<open>try\<close>: when it throws, the row is handled as a failed
  dispatch, after the target has accepted it, by an UPDATE that throws in turn.
\<close>

definition dispatchRow_st ::
  "stmt_faults \<Rightarrow> EnvVars \<Rightarrow> timestamp \<Rightarrow> relay_host \<Rightarrow> 'w dispatcher \<Rightarrow> outbox_row \<Rightarrow> 'w drain_world \<Rightarrow> db \<Rightarrow>
   (exn + db) \<times> 'w drain_world" where
  "dispatchRow_st S env now host dispatch row s d =
     (let correlationId = json_str (json_field ''correlationId'' (ob_payload row));
          (res, w) = runWithCorrelation (rh_uuid host (ob_id row)) correlationId
                       (\<lambda>cid. dispatch cid (message_of row) (dw_world s));
          s1 = stopTimer row (s\<lparr>dw_world := w\<rparr>)
      in case res of
           Inr _ \<Rightarrow>
             (case sf_update S (ob_id row) of
                None \<Rightarrow> (Inr (mark_sent now row d), s1\<lparr>dw_metrics := inc OutboxDispatched (dw_metrics s1)\<rparr>)
              | Some e \<Rightarrow> (Inl (sf_aborted S), stopTimer row s1))
         | Inl err \<Rightarrow>
             (case sf_update S (ob_id row) of
                None \<Rightarrow> (case handleDispatchFailure env now host row err (dw_metrics s1) d of
                    (m, d') \<Rightarrow> (Inr d', s1\<lparr>dw_metrics := m\<rparr>))
              | Some e \<Rightarrow> (Inl e, s1)))"

fun dispatchRows_st ::
  "stmt_faults \<Rightarrow> EnvVars \<Rightarrow> timestamp \<Rightarrow> relay_host \<Rightarrow> 'w dispatcher \<Rightarrow> outbox_row list \<Rightarrow> 'w drain_world \<Rightarrow> db \<Rightarrow>
   (exn + db) \<times> 'w drain_world" where
  "dispatchRows_st S env now host dispatch [] s d = (Inr d, s)"
| "dispatchRows_st S env now host dispatch (row # rows) s d =
     (case dispatchRow_st S env now host dispatch row s d of
        (Inl e, s') \<Rightarrow> (Inl e, s')
      | (Inr d', s') \<Rightarrow> dispatchRows_st S env now host dispatch rows s' d')"

definition drainOnce_st ::
  "stmt_faults \<Rightarrow> tx_faults \<Rightarrow> EnvVars \<Rightarrow> timestamp \<Rightarrow> relay_host \<Rightarrow> uuid set \<Rightarrow> 'w dispatcher \<Rightarrow>
   'w drain_world \<Rightarrow> db \<Rightarrow> (nat, 'w drain_world) tx_result" where
  "drainOnce_st S F env now host locked dispatch s d =
     runInTransaction F
       (\<lambda>s d. case sf_poll S of
          Some e \<Rightarrow> (Inl e, s)
        | None \<Rightarrow>
            (let rows = poll_due now (OUTBOX_RELAY_BATCH_SIZE env) locked d in
             case dispatchRows_st S env now host dispatch rows s d of
               (Inl e, s') \<Rightarrow> (Inl e, s')
             | (Inr d', s') \<Rightarrow> (Inr (length rows, d'), s')))
       s d"

subsection \<open>Rows up to the first statement that throws\<close>

text \<open>One row, beside \<open>dispatchRow\<close>: the same dispatch; and the same outcome unless its UPDATE throws.\<close>

lemma dispatchRow_st_world:
  assumes "dispatchRow_st S env now host dispatch row s d = (res, s')"
    and "dispatchRow env now host dispatch row (dw_world s, m) d = ((w', m'), d')"
  shows "dw_world s' = w'"
  using assms
  by (auto simp: dispatchRow_st_def dispatchRow_def Let_def stopTimer_def split: sum.splits option.splits prod.splits)

lemma dispatchRow_st_ok:
  assumes "dispatchRow_st S env now host dispatch row s d = (res, s')" and "sf_update S (ob_id row) = None"
    and "dispatchRow env now host dispatch row (dw_world s, dw_metrics s) d = ((w', m'), d')"
  shows "res = Inr d' \<and> s' = \<lparr>dw_world = w', dw_metrics = m', dw_latency = dw_latency s @ [ob_id row]\<rparr>"
  using assms
  by (cases s) (auto simp: dispatchRow_st_def dispatchRow_def Let_def stopTimer_def split: sum.splits prod.splits)

lemma dispatchRow_st_throws:
  assumes "dispatchRow_st S env now host dispatch row s d = (Inl e, s')"
  shows "sf_update S (ob_id row) \<noteq> None"
  using assms by (auto simp: dispatchRow_st_def Let_def split: sum.splits option.splits prod.splits)

lemma dispatchRow_st_returns:
  assumes "dispatchRow_st S env now host dispatch row s d = (Inr d1, s')"
  shows "sf_update S (ob_id row) = None"
  using assms by (auto simp: dispatchRow_st_def Let_def split: sum.splits option.splits prod.splits)

text \<open>A batch whose statements return is \<open>dispatchRows\<close>, each row observed once.\<close>

lemma dispatchRows_st_ok:
  assumes "dispatchRows_st S env now host dispatch rows s d = (Inr d1, s')"
    and "dispatchRows env now host dispatch rows (dw_world s, dw_metrics s) d = ((w', m'), d')"
  shows "d1 = d' \<and> s' = \<lparr>dw_world = w', dw_metrics = m', dw_latency = dw_latency s @ map ob_id rows\<rparr>"
  using assms
proof (induction rows arbitrary: s d)
  case Nil
  then show ?case by (cases s) simp
next
  case (Cons row rows)
  obtain r s1 where one: "dispatchRow_st S env now host dispatch row s d = (r, s1)" by (rule prod.exhaust)
  obtain w1 m1 d1' where row: "dispatchRow env now host dispatch row (dw_world s, dw_metrics s) d = ((w1, m1), d1')"
    by (metis prod.exhaust)
  from Cons.prems(1) one obtain d2 where r: "r = Inr d2" by (cases r) auto
  from dispatchRow_st_ok [OF one dispatchRow_st_returns [OF one [unfolded r]] row] r
  have d2: "d2 = d1'" and s1: "s1 = \<lparr>dw_world = w1, dw_metrics = m1, dw_latency = dw_latency s @ [ob_id row]\<rparr>"
    by simp_all
  have "dispatchRows_st S env now host dispatch rows s1 d2 = (Inr d1, s')" using Cons.prems(1) one r by simp
  moreover have "dispatchRows env now host dispatch rows (dw_world s1, dw_metrics s1) d2 = ((w', m'), d')"
    using Cons.prems(2) row by (simp add: d2 s1)
  ultimately show ?case using Cons.IH s1 by fastforce
qed

text \<open>
  And one that throws has dispatched exactly the rows up to the one whose UPDATE threw, that row included:
  the world is the one \<open>dispatchRows\<close> leaves after them.
\<close>

lemma dispatchRows_st_throws:
  assumes "dispatchRows_st S env now host dispatch rows s d = (Inl e, s')"
  shows "\<exists>k < length rows. sf_update S (ob_id (rows ! k)) \<noteq> None
    \<and> (\<exists>m' d'. dispatchRows env now host dispatch (take (Suc k) rows) (dw_world s, dw_metrics s) d
         = ((dw_world s', m'), d'))"
  using assms
proof (induction rows arbitrary: s d)
  case Nil
  then show ?case by simp
next
  case (Cons row rows)
  obtain r s1 where one: "dispatchRow_st S env now host dispatch row s d = (r, s1)" by (rule prod.exhaust)
  obtain w1 m1 d1 where row: "dispatchRow env now host dispatch row (dw_world s, dw_metrics s) d = ((w1, m1), d1)"
    by (metis prod.exhaust)
  show ?case
  proof (cases r)
    case (Inl e')
    with Cons.prems one have "s' = s1" by simp
    with dispatchRow_st_world [OF one row] dispatchRow_st_throws [OF one [unfolded Inl]] row show ?thesis
      by (intro exI [of _ 0]) simp
  next
    case (Inr d2)
    from dispatchRow_st_ok [OF one dispatchRow_st_returns [OF one [unfolded Inr]] row] Inr
    have d2: "d2 = d1" and s1: "dw_world s1 = w1" "dw_metrics s1 = m1" by simp_all
    have "dispatchRows_st S env now host dispatch rows s1 d2 = (Inl e, s')" using Cons.prems one Inr by simp
    from Cons.IH [OF this] obtain k m' d' where
      "k < length rows" "sf_update S (ob_id (rows ! k)) \<noteq> None"
      "dispatchRows env now host dispatch (take (Suc k) rows) (w1, m1) d1 = ((dw_world s', m'), d')"
      unfolding d2 s1 by blast
    with row show ?thesis by (intro exI [of _ "Suc k"]) simp
  qed
qed

subsection \<open>A failed drain is one whose commit failed\<close>

lemma filter_prefix:
  assumes "distinct (map c ys)"
  shows "filter (\<lambda>y. c y \<in> c ` set (take k ys)) ys = take k ys"
  using assms
proof (induction ys arbitrary: k)
  case Nil
  then show ?case by simp
next
  case (Cons y ys)
  show ?case
  proof (cases k)
    case 0
    then show ?thesis by simp
  next
    case (Suc j)
    have "filter (\<lambda>z. c z \<in> insert (c y) (c ` set (take j ys))) ys = filter (\<lambda>z. c z \<in> c ` set (take j ys)) ys"
    proof (rule filter_cong [OF refl])
      fix z assume "z \<in> set ys"
      then have "c z \<in> c ` set ys" by (rule imageI)
      moreover have "c y \<notin> c ` set ys" using Cons.prems by simp
      ultimately have "c z \<noteq> c y" by metis
      then show "(c z \<in> insert (c y) (c ` set (take j ys))) = (c z \<in> c ` set (take j ys))" by simp
    qed
    with Suc Cons show ?thesis by simp
  qed
qed

text \<open>Locking all rows but a prefix of the batch makes that prefix the batch.\<close>

lemma poll_due_prefix:
  assumes "unique_by ob_id (outbox_messages d)" and "rows = poll_due now batch locked d"
    and "locked' = - (ob_id ` set (take k rows))"
  shows "poll_due now batch locked' d = take k rows"
proof -
  define all where "all = sort_key ob_nextAttemptAt (filter (\<lambda>r. is_due now r \<and> ob_id r \<notin> locked) (outbox_messages d))"
  have rows: "rows = take (nat batch) all" by (simp add: assms(2) poll_due_def all_def)
  have dist: "distinct (map ob_id all)"
    using assms(1) distinct_map_filter [of ob_id "outbox_messages d"]
    by (simp add: unique_by_def all_def distinct_map)
  have set_all: "set all = {r \<in> set (outbox_messages d). is_due now r \<and> ob_id r \<notin> locked}" by (simp add: all_def)
  have cut: "take k rows = take (min k (nat batch)) all" by (simp add: rows)
  have sub: "set (take k rows) \<subseteq> set all" unfolding cut by (rule set_take_subset)
  have "filter (\<lambda>r. is_due now r \<and> ob_id r \<notin> locked') (outbox_messages d)
      = filter (\<lambda>r. ob_id r \<in> ob_id ` set (take k rows))
          (filter (\<lambda>r. is_due now r \<and> ob_id r \<notin> locked) (outbox_messages d))"
    unfolding filter_filter
  proof (rule filter_cong [OF refl])
    fix r assume r: "r \<in> set (outbox_messages d)"
    have "is_due now r \<and> ob_id r \<notin> locked" if "ob_id r \<in> ob_id ` set (take k rows)"
    proof -
      from that sub set_all obtain r' where r': "r' \<in> set (outbox_messages d)" "is_due now r'" "ob_id r' \<notin> locked"
        "ob_id r' = ob_id r" by force
      with r assms(1) have "r' = r" using unique_by_inj by metis
      with r' show ?thesis by simp
    qed
    then show "(is_due now r \<and> ob_id r \<notin> locked')
        = ((is_due now r \<and> ob_id r \<notin> locked) \<and> ob_id r \<in> ob_id ` set (take k rows))"
      by (auto simp: assms(3))
  qed
  then have "sort_key ob_nextAttemptAt (filter (\<lambda>r. is_due now r \<and> ob_id r \<notin> locked') (outbox_messages d))
      = filter (\<lambda>r. ob_id r \<in> ob_id ` set (take k rows)) all"
    by (simp add: all_def filter_sort)
  also have "\<dots> = take k rows" unfolding cut by (rule filter_prefix [OF dist])
  finally show ?thesis by (simp add: poll_due_def rows)
qed

definition commit_fails :: "exn \<Rightarrow> tx_faults" where
  "commit_fails e = no_faults\<lparr>commit_err := Some e\<rparr>"

lemma commit_fails_run:
  "runInTransaction (commit_fails e) work w d = \<lparr>tx_value = Inl (case fst (work w d) of Inl e' \<Rightarrow> e' | Inr _ \<Rightarrow> e),
     tx_db = d, tx_world = snd (work w d), tx_calls = tx_calls (runInTransaction (commit_fails e) work w d)\<rparr>"
  by (simp add: runInTransaction_def commit_fails_def no_faults_def tx_body_def split: prod.splits sum.splits)

text \<open>With no statement that throws, this is \<open>drainOnce\<close> of \<open>Outbox\<close>.\<close>

lemma no_stmt_faults_drain:
  assumes "sf_poll S = None" and "\<forall>i. sf_update S i = None"
  shows "tx_value (drainOnce_st S F env now host locked dispatch s d)
      = tx_value (drainOnce F env now host locked dispatch (dw_world s, dw_metrics s) d)
    \<and> tx_db (drainOnce_st S F env now host locked dispatch s d)
      = tx_db (drainOnce F env now host locked dispatch (dw_world s, dw_metrics s) d)
    \<and> (dw_world (tx_world (drainOnce_st S F env now host locked dispatch s d)),
       dw_metrics (tx_world (drainOnce_st S F env now host locked dispatch s d)))
      = tx_world (drainOnce F env now host locked dispatch (dw_world s, dw_metrics s) d)"
proof -
  let ?rows = "poll_due now (OUTBOX_RELAY_BATCH_SIZE env) locked d"
  obtain r s' where st: "dispatchRows_st S env now host dispatch ?rows s d = (r, s')" by (rule prod.exhaust)
  obtain w' m' d' where plain: "dispatchRows env now host dispatch ?rows (dw_world s, dw_metrics s) d = ((w', m'), d')"
    by (metis prod.exhaust)
  have "\<exists>d1. r = Inr d1" using dispatchRows_st_throws st assms(2) by (cases r) fastforce+
  then obtain d1 where "r = Inr d1" by blast
  with st plain dispatchRows_st_ok [of S env now host dispatch ?rows s d d1 s' w' m' d'] have
    "r = Inr d'" "s' = \<lparr>dw_world = w', dw_metrics = m', dw_latency = dw_latency s @ map ob_id ?rows\<rparr>" by simp_all
  with st plain assms(1) show ?thesis
    by (simp add: drainOnce_st_def drainOnce_def runInTransaction_def Let_def tx_body_def
        split: option.splits prod.splits sum.splits)
qed

text \<open>
  A drain, whatever statement throws in it, leaves the database and the target as some drain of \<open>drainOnce\<close>
  does: itself when none throws; nothing at all when the claim query throws; and one over the rows
  dispatched so far whose commit fails when an UPDATE throws.
\<close>

lemma faulty_drain_is_drain:
  assumes ok: "schema_ok d" and r: "r = drainOnce_st S F env now host locked dispatch s d"
  shows "\<exists>F' locked' r'. r' = drainOnce F' env now host locked' dispatch (dw_world s, dw_metrics s) d
    \<and> tx_db r = tx_db r' \<and> dw_world (tx_world r) = fst (tx_world r')"
proof -
  let ?rows = "poll_due now (OUTBOX_RELAY_BATCH_SIZE env) locked d"
  let ?wm = "(dw_world s, dw_metrics s)"
  have idle: "\<exists>F' locked' r'. r' = drainOnce F' env now host locked' dispatch ?wm d
      \<and> d = tx_db r' \<and> dw_world s = fst (tx_world r')"
    by (intro exI [of _ "no_faults\<lparr>connect_err := Some (JsError [])\<rparr>"] exI conjI, rule refl)
       (simp_all add: drainOnce_def runInTransaction_def)
  show ?thesis
  proof (cases "connect_err F = None \<and> start_err F = None \<and> sf_poll S = None")
    case False
    then have "tx_db r = d" "tx_world r = s"
      by (auto simp: r drainOnce_st_def runInTransaction_def tx_body_def split: option.splits)
    with idle show ?thesis by simp
  next
    case True
    obtain res s' where st: "dispatchRows_st S env now host dispatch ?rows s d = (res, s')" by (rule prod.exhaust)
    show ?thesis
    proof (cases res)
      case (Inl e)
      with True st have here: "tx_db r = d" "tx_world r = s'"
        by (simp_all add: r drainOnce_st_def runInTransaction_def tx_body_def Let_def)
      from dispatchRows_st_throws [OF st [unfolded Inl]] obtain k m' d' where
        k: "dispatchRows env now host dispatch (take (Suc k) ?rows) ?wm d = ((dw_world s', m'), d')" by blast
      let ?locked = "- (ob_id ` set (take (Suc k) ?rows))"
      have "unique_by ob_id (outbox_messages d)" using ok by (simp add: schema_ok_def)
      from poll_due_prefix [OF this refl refl]
      have poll: "poll_due now (OUTBOX_RELAY_BATCH_SIZE env) ?locked d = take (Suc k) ?rows" .
      let ?r = "drainOnce (commit_fails e) env now host ?locked dispatch ?wm d"
      have "tx_db ?r = d" "tx_world ?r = (dw_world s', m')"
        unfolding drainOnce_def by (subst commit_fails_run, simp add: poll k Let_def)+
      with here show ?thesis by (intro exI [of _ "commit_fails e"] exI [of _ ?locked] exI [of _ ?r]) simp
    next
      case (Inr d1)
      obtain w' m' d' where plain: "dispatchRows env now host dispatch ?rows ?wm d = ((w', m'), d')"
        by (metis prod.exhaust)
      from dispatchRows_st_ok [OF st [unfolded Inr] plain] Inr
      have "res = Inr d'" "dw_world s' = w'" by simp_all
      with True st plain have "tx_db r = tx_db (drainOnce F env now host locked dispatch ?wm d)
          \<and> dw_world (tx_world r) = fst (tx_world (drainOnce F env now host locked dispatch ?wm d))"
        by (simp add: r drainOnce_st_def drainOnce_def runInTransaction_def tx_body_def Let_def split: option.splits)
      then show ?thesis by blast
    qed
  qed
qed

text \<open>So every faulty drain is a path of the system, up to the metrics it leaves.\<close>

lemma faulty_drain_path:
  assumes "schema_ok (sy_db x)" and "good_host host" and "sy_world x = (dw_world s, dw_metrics s)"
    and r: "r = drainOnce_st S F env now host locked dispatch s (sy_db x)"
  shows "\<exists>m. sys_reach env dispatch x (x\<lparr>sy_db := tx_db r, sy_world := (dw_world (tx_world r), m)\<rparr>)"
proof -
  from faulty_drain_is_drain [OF assms(1) r] obtain F' locked' r' where
    r': "r' = drainOnce F' env now host locked' dispatch (sy_world x) (sy_db x)"
      "tx_db r = tx_db r'" "dw_world (tx_world r) = fst (tx_world r')"
    unfolding assms(3) by blast
  from sys_reach_one [OF sys_step.relay [OF assms(2) r'(1)]]
  have "sys_reach env dispatch x (x\<lparr>sy_db := tx_db r, sy_world := (dw_world (tx_world r), snd (tx_world r'))\<rparr>)"
    by (simp add: r'(2,3))
  then show ?thesis by blast
qed

text \<open>The first row whose UPDATE throws ends the batch: it and the rows before it have been dispatched.\<close>

lemma dispatchRows_st_first:
  assumes "k < length rows" and "sf_update S (ob_id (rows ! k)) \<noteq> None"
    and "\<And>j. j < k \<Longrightarrow> sf_update S (ob_id (rows ! j)) = None"
  shows "\<exists>e s'. dispatchRows_st S env now host dispatch rows s d = (Inl e, s')
    \<and> dw_world s' = fst (fst (dispatchRows env now host dispatch (take (Suc k) rows) (dw_world s, dw_metrics s) d))"
  using assms
proof (induction rows arbitrary: k s d)
  case Nil
  then show ?case by simp
next
  case (Cons row rows)
  obtain r s1 where one: "dispatchRow_st S env now host dispatch row s d = (r, s1)" by (rule prod.exhaust)
  obtain w1 m1 d1 where row: "dispatchRow env now host dispatch row (dw_world s, dw_metrics s) d = ((w1, m1), d1)"
    by (metis prod.exhaust)
  show ?case
  proof (cases k)
    case 0
    with Cons.prems(2) have "sf_update S (ob_id row) \<noteq> None" by simp
    with one dispatchRow_st_returns obtain e where "r = Inl e" by (cases r) fastforce+
    with 0 one row dispatchRow_st_world [OF one row] show ?thesis by simp
  next
    case (Suc j)
    have "sf_update S (ob_id row) = None" using Cons.prems(3) [of 0] Suc by simp
    with dispatchRow_st_throws one obtain d2 where r: "r = Inr d2" by (cases r) fastforce+
    from dispatchRow_st_ok [OF one dispatchRow_st_returns [OF one [unfolded r]] row] r
    have d2: "d2 = d1" and s1: "dw_world s1 = w1" "dw_metrics s1 = m1" by simp_all
    have "j < length rows" "sf_update S (ob_id (rows ! j)) \<noteq> None" using Cons.prems(1,2) Suc by simp_all
    moreover have "sf_update S (ob_id (rows ! i)) = None" if "i < j" for i using Cons.prems(3) [of "Suc i"] that Suc by simp
    ultimately obtain e s' where "dispatchRows_st S env now host dispatch rows s1 d1 = (Inl e, s')"
      "dw_world s' = fst (fst (dispatchRows env now host dispatch (take (Suc j) rows) (w1, m1) d1))"
      using Cons.IH [of j s1 d1] s1 by auto
    with one r d2 row Suc show ?thesis by simp
  qed
qed

text \<open>
  C10: a statement that throws inside a drain loses no announcement and records none that was not made. When
  the claim query throws, the drain throws, no row has changed and nothing was sent. When the UPDATE of a row
  throws, the drain throws and no row of the database has changed (so the whole batch is still due), while the
  target has received exactly what it would have received of the rows up to that one: what it accepted of them
  is sent again by a later drain. When no statement throws, database, target, metrics and answer are those of
  \<open>drainOnce\<close>. In every case the drain is a path of the system, so what holds in all its states holds after
  it.
\<close>

theorem drain_survives_statement_faults:
  assumes "schema_ok (sy_db x)" and "good_host host" and "sy_world x = (dw_world s, dw_metrics s)"
    and "connect_err F = None" and "start_err F = None"
    and "r = drainOnce_st S F env now host locked dispatch s (sy_db x)"
    and "rows = poll_due now (OUTBOX_RELAY_BATCH_SIZE env) locked (sy_db x)"
    and "r0 = drainOnce F env now host locked dispatch (sy_world x) (sy_db x)"
  shows "(sf_poll S \<noteq> None \<longrightarrow> (\<exists>e. tx_value r = Inl e) \<and> tx_db r = sy_db x \<and> tx_world r = s)
    \<and> (\<forall>k < length rows. sf_poll S = None \<and> sf_update S (ob_id (rows ! k)) \<noteq> None
          \<and> (\<forall>j < k. sf_update S (ob_id (rows ! j)) = None) \<longrightarrow>
        (\<exists>e. tx_value r = Inl e) \<and> tx_db r = sy_db x
        \<and> dw_world (tx_world r) =
            fst (fst (dispatchRows env now host dispatch (take (Suc k) rows) (sy_world x) (sy_db x))))
    \<and> (sf_poll S = None \<and> (\<forall>i. sf_update S i = None) \<longrightarrow> tx_value r = tx_value r0 \<and> tx_db r = tx_db r0
        \<and> (dw_world (tx_world r), dw_metrics (tx_world r)) = tx_world r0)
    \<and> (\<exists>m. sys_reach env dispatch x (x\<lparr>sy_db := tx_db r, sy_world := (dw_world (tx_world r), m)\<rparr>))"
proof (intro conjI allI impI)
  let ?work = "\<lambda>s d. case sf_poll S of Some e \<Rightarrow> (Inl e, s)
        | None \<Rightarrow> (let rows = poll_due now (OUTBOX_RELAY_BATCH_SIZE env) locked d in
             case dispatchRows_st S env now host dispatch rows s d of
               (Inl e, s') \<Rightarrow> (Inl e, s') | (Inr d', s') \<Rightarrow> (Inr (length rows, d'), s'))"
  have r: "r = runInTransaction F ?work s (sy_db x)" by (simp add: assms(6) drainOnce_st_def)
  have world: "tx_world r = snd (?work s (sy_db x))"
    using assms(4,5) by (simp add: r runInTransaction_def tx_body_def split: prod.splits sum.splits option.splits)
  note thrown = tx.run_throw_rolls_back [of ?work s "sy_db x" _ F, folded r]
  show "\<exists>e. tx_value r = Inl e" and "tx_db r = sy_db x" and "tx_world r = s" if "sf_poll S \<noteq> None"
    using that thrown world by auto
  fix k assume k: "k < length rows" and "sf_poll S = None \<and> sf_update S (ob_id (rows ! k)) \<noteq> None
          \<and> (\<forall>j < k. sf_update S (ob_id (rows ! j)) = None)"
  then have S: "sf_poll S = None" "sf_update S (ob_id (rows ! k)) \<noteq> None"
      "\<And>j. j < k \<Longrightarrow> sf_update S (ob_id (rows ! j)) = None" by blast+
  from dispatchRows_st_first [where env = env and now = now and host = host and dispatch = dispatch and s = s
      and d = "sy_db x", OF k S(2,3)] obtain e s' where
    st: "dispatchRows_st S env now host dispatch rows s (sy_db x) = (Inl e, s')"
    "dw_world s' = fst (fst (dispatchRows env now host dispatch (take (Suc k) rows) (sy_world x) (sy_db x)))"
    using assms(3) by auto
  then have "?work s (sy_db x) = (Inl e, s')" using S(1) assms(7) by (simp add: Let_def)
  with thrown world st(2) show "\<exists>e. tx_value r = Inl e" and "tx_db r = sy_db x"
    and "dw_world (tx_world r) =
            fst (fst (dispatchRows env now host dispatch (take (Suc k) rows) (sy_world x) (sy_db x)))" by auto
next
  assume "sf_poll S = None \<and> (\<forall>i. sf_update S i = None)"
  with no_stmt_faults_drain [of S F env now host locked dispatch s "sy_db x", folded assms(6) assms(3)]
  show "tx_value r = tx_value r0" and "tx_db r = tx_db r0"
    and "(dw_world (tx_world r), dw_metrics (tx_world r)) = tx_world r0" by (simp_all add: assms(8))
next
  show "\<exists>m. sys_reach env dispatch x (x\<lparr>sy_db := tx_db r, sy_world := (dw_world (tx_world r), m)\<rparr>)"
    by (rule faulty_drain_path [OF assms(1-3,6)])
qed

text \<open>One due row; the target counts what it accepts; the UPDATE to SENT loses the connection.\<close>

theorem drain_survives_statement_faults_witness:
  "\<exists>r. r = drainOnce_st \<lparr>sf_poll = None, sf_update = (\<lambda>_. Some (JsError ''terminated'')), sf_aborted = JsError ''aborted''\<rparr>
       no_faults env_defaults 10 half_host {} (\<lambda>cid msg w. (Inr (), Suc w))
       \<lparr>dw_world = 0, dw_metrics = no_metrics, dw_latency = []\<rparr> due_db
    \<and> tx_db r = due_db \<and> dw_world (tx_world r) = 1"
proof -
  let ?S = "\<lparr>sf_poll = None, sf_update = (\<lambda>_. Some (JsError ''terminated'')), sf_aborted = JsError ''aborted''\<rparr>"
  let ?D = "\<lambda>cid msg w. (Inr (), Suc w)" and ?s = "\<lparr>dw_world = 0 :: nat, dw_metrics = no_metrics, dw_latency = []\<rparr>"
  let ?x = "(sys_start 0 no_metrics)\<lparr>sy_db := due_db\<rparr> :: nat sys"
  obtain r where r: "r = drainOnce_st ?S no_faults env_defaults 10 half_host {} ?D ?s due_db" by simp
  have x: "schema_ok (sy_db ?x)" "sy_world ?x = (dw_world ?s, dw_metrics ?s)" "sy_db ?x = due_db"
    by (simp_all add: due_db_ok sys_start_def)
  have F: "connect_err no_faults = None" "start_err no_faults = None" by (simp_all add: no_faults_def)
  have batch: "poll_due 10 (OUTBOX_RELAY_BATCH_SIZE env_defaults) {} due_db = [due_row]"
    by (simp add: poll_due_def due_db_def is_due_def due_row_def env_defaults_def)
  have "tx_db r = due_db
    \<and> dw_world (tx_world r) = fst (fst (dispatchRows env_defaults 10 half_host ?D [due_row] (0, no_metrics) due_db))"
    using drain_survives_statement_faults [OF x(1) half_host_ok x(2) F _ refl refl, of r ?S env_defaults 10 "{}" ?D,
        THEN conjunct2, THEN conjunct1, THEN spec, of 0] r x
    by (simp add: batch)
  moreover have "fst (fst (dispatchRows env_defaults 10 half_host ?D [due_row] (0, no_metrics) due_db)) = 1"
    by (simp add: dispatchRow_def Let_def runWithCorrelation_def)
  ultimately show ?thesis using r by auto
qed

text \<open>
  But its latency is observed twice: \<open>stopTimer()\<close> runs in the \<open>try\<close> before the UPDATE and again in the
  \<open>catch\<close>, and the second observation includes the time the UPDATE took.
\<close>

lemma failed_mark_observed_twice:
  assumes "dispatchRow_st S env now host dispatch row s d = (res, s')" and "sf_update S (ob_id row) = Some e"
    and "\<And>cid. fst (dispatch cid (message_of row) (dw_world s)) = Inr ()"
  shows "dw_latency s' = dw_latency s @ [ob_id row, ob_id row] \<and> res = Inl (sf_aborted S)"
proof -
  let ?cid = "case json_str (json_field ''correlationId'' (ob_payload row)) of
      Some c \<Rightarrow> c | None \<Rightarrow> rh_uuid host (ob_id row)"
  obtain w where "dispatch ?cid (message_of row) (dw_world s) = (Inr (), w)"
    using assms(3) [of ?cid] by (metis prod.collapse)
  with assms(1,2) show ?thesis
    by (auto simp: dispatchRow_st_def runWithCorrelation_def stopTimer_def Let_def)
qed

end
