(* ===== verification/Http_Api.thy ===== *)
theory Http_Api
  imports Events Dlq Sink
begin

section \<open>Rate limits of the HTTP surface\<close>

text \<open>
  The routes of the controllers, the two limits of src/common/rate-limit/rate-limit.module.ts and the
  exemption each route is decorated with. The throttler guard is not under src/: it is a parameter over a
  state of its own, with \<open>guard_laws\<close> for what its documentation promises, and \<open>ref_guard\<close> is a guard that
  keeps them.
\<close>

subsection \<open>Limits and exemptions\<close>

definition READ_LIMIT :: string where
  "READ_LIMIT = ''read''"

definition WRITE_LIMIT :: string where
  "WRITE_LIMIT = ''write''"

definition SKIP_ALL :: "(string \<times> bool) list" where
  "SKIP_ALL = [(READ_LIMIT, True), (WRITE_LIMIT, True)]"

definition READS_ONLY :: "(string \<times> bool) list" where
  "READS_ONLY = [(WRITE_LIMIT, True)]"

record throttler =
  th_name :: string
  th_ttl :: int
  th_limit :: int

definition throttlers :: "EnvVars \<Rightarrow> throttler list" where
  "throttlers env =
     [\<lparr>th_name = READ_LIMIT, th_ttl = RATE_LIMIT_TTL_MS env, th_limit = RATE_LIMIT_GLOBAL env\<rparr>,
      \<lparr>th_name = WRITE_LIMIT, th_ttl = RATE_LIMIT_TTL_MS env, th_limit = RATE_LIMIT_WRITES env\<rparr>]"

text \<open>The routes, one per handler, and the exemption each one or its controller is decorated with.\<close>

datatype route =
    Index | Post_Events | Get_Ticket | List_Dlq | Get_Dlq | Replay_Dlq
  | Sink_Webhook | Sink_Deliveries | Health | Ready | Metrics

fun landing_skip :: "route \<Rightarrow> (string \<times> bool) list option" where
  "landing_skip Index = Some SKIP_ALL"
| "landing_skip r = None"

fun tickets_skip :: "route \<Rightarrow> (string \<times> bool) list option" where
  "tickets_skip Get_Ticket = Some READS_ONLY"
| "tickets_skip r = None"

fun sink_skip :: "route \<Rightarrow> (string \<times> bool) list option" where
  "sink_skip Sink_Webhook = Some SKIP_ALL"
| "sink_skip Sink_Deliveries = Some SKIP_ALL"
| "sink_skip r = None"

fun health_skip :: "route \<Rightarrow> (string \<times> bool) list option" where
  "health_skip Health = Some SKIP_ALL"
| "health_skip Ready = Some SKIP_ALL"
| "health_skip r = None"

fun metrics_skip :: "route \<Rightarrow> (string \<times> bool) list option" where
  "metrics_skip Metrics = Some SKIP_ALL"
| "metrics_skip r = None"

text \<open>The first decorator found; the events and dead-letter controllers have none.\<close>

definition skip_throttle :: "route \<Rightarrow> (string \<times> bool) list" where
  "skip_throttle r = (case List.find (\<lambda>d. d \<noteq> None)
       [landing_skip r, tickets_skip r, sink_skip r, health_skip r, metrics_skip r] of
     Some (Some skip) \<Rightarrow> skip | _ \<Rightarrow> [])"

definition skips :: "route \<Rightarrow> string \<Rightarrow> bool" where
  "skips r name \<longleftrightarrow> map_of (skip_throttle r) name = Some True"

text \<open>The limits a route is charged to.\<close>

definition charged :: "EnvVars \<Rightarrow> route \<Rightarrow> string list" where
  "charged env r = filter (\<lambda>n. \<not> skips r n) (map th_name (throttlers env))"

lemma names_distinct [simp]: "READ_LIMIT \<noteq> WRITE_LIMIT" "WRITE_LIMIT \<noteq> READ_LIMIT"
  by (simp_all add: READ_LIMIT_def WRITE_LIMIT_def)

lemma charged_routes:
  "charged env Index = []" "charged env Sink_Webhook = []" "charged env Sink_Deliveries = []"
  "charged env Health = []" "charged env Ready = []" "charged env Metrics = []"
  "charged env Get_Ticket = [READ_LIMIT]"
  "charged env Post_Events = [READ_LIMIT, WRITE_LIMIT]" "charged env Replay_Dlq = [READ_LIMIT, WRITE_LIMIT]"
  "charged env List_Dlq = [READ_LIMIT, WRITE_LIMIT]" "charged env Get_Dlq = [READ_LIMIT, WRITE_LIMIT]"
  by (simp_all add: charged_def skips_def skip_throttle_def throttlers_def SKIP_ALL_def READS_ONLY_def)

subsection \<open>The guard\<close>

text \<open>
  The guard is given the throttlers, the handler and its flags, the caller's address and the time; it
  admits the request or not, and keeps its own counts, one for each bucket \<open>B r name\<close> and address. Whether
  handlers share a bucket is the guard's business; limits of different names never do.
  \<open>hits s now b ip\<close> are the live hits.
\<close>

type_synonym 's guard = "throttler list \<Rightarrow> route \<Rightarrow> (string \<Rightarrow> bool) \<Rightarrow> string \<Rightarrow> int \<Rightarrow> 's \<Rightarrow> bool \<times> 's"

definition guard_laws ::
  "'s guard \<Rightarrow> (route \<Rightarrow> string \<Rightarrow> 'b) \<Rightarrow> ('s \<Rightarrow> int \<Rightarrow> 'b \<Rightarrow> string \<Rightarrow> nat) \<Rightarrow> bool" where
  "guard_laws G B hits \<longleftrightarrow>
     (\<forall>r n r' n'. B r n = B r' n' \<longrightarrow> n = n')
   \<and> (\<forall>ts r skip ip now s. fst (G ts r skip ip now s) \<longleftrightarrow>
        (\<forall>t \<in> set ts. \<not> skip (th_name t) \<longrightarrow> int (hits s now (B r (th_name t)) ip) < th_limit t))
   \<and> (\<forall>ts r skip ip now s r' n a t. now \<le> t \<longrightarrow> a \<noteq> ip \<or> skip n \<or> n \<notin> th_name ` set ts \<longrightarrow>
        hits (snd (G ts r skip ip now s)) t (B r' n) a = hits s t (B r' n) a)
   \<and> (\<forall>ts r skip ip now s n. fst (G ts r skip ip now s) \<longrightarrow> \<not> skip n \<longrightarrow> n \<in> th_name ` set ts \<longrightarrow>
        hits (snd (G ts r skip ip now s)) now (B r n) ip = Suc (hits s now (B r n) ip))"

definition admit :: "'s guard \<Rightarrow> EnvVars \<Rightarrow> route \<Rightarrow> string \<Rightarrow> int \<Rightarrow> 's \<Rightarrow> bool \<times> 's" where
  "admit G env r ip now s = G (throttlers env) r (skips r) ip now s"

text \<open>A sequence of requests, each a route, an address and a time: which are admitted.\<close>

fun admit_all :: "'s guard \<Rightarrow> EnvVars \<Rightarrow> (route \<times> string \<times> int) list \<Rightarrow> 's \<Rightarrow> bool list \<times> 's" where
  "admit_all G env [] s = ([], s)"
| "admit_all G env ((r, ip, now) # reqs) s =
     (case admit G env r ip now s of (ok, s1) \<Rightarrow>
        (case admit_all G env reqs s1 of (oks, s2) \<Rightarrow> (ok # oks, s2)))"

lemma names_throttlers [simp]: "th_name ` set (throttlers env) = {READ_LIMIT, WRITE_LIMIT}"
  by (simp add: throttlers_def)

lemma charged_iff: "n \<in> set (charged env r) \<longleftrightarrow> n \<in> {READ_LIMIT, WRITE_LIMIT} \<and> \<not> skips r n"
  by (auto simp: charged_def throttlers_def)

lemma guard_lawsD:
  assumes "guard_laws G B hits"
  shows "fst (G ts r skip ip now s) \<longleftrightarrow>
      (\<forall>t \<in> set ts. \<not> skip (th_name t) \<longrightarrow> int (hits s now (B r (th_name t)) ip) < th_limit t)"
    and "now \<le> t \<Longrightarrow> a \<noteq> ip \<or> skip n \<or> n \<notin> th_name ` set ts \<Longrightarrow>
      hits (snd (G ts r skip ip now s)) t (B r' n) a = hits s t (B r' n) a"
    and "fst (G ts r skip ip now s) \<Longrightarrow> \<not> skip n \<Longrightarrow> n \<in> th_name ` set ts \<Longrightarrow>
      hits (snd (G ts r skip ip now s)) now (B r n) ip = Suc (hits s now (B r n) ip)"
proof -
  note laws = assms [unfolded guard_laws_def, THEN conjunct2]
  show "fst (G ts r skip ip now s) \<longleftrightarrow>
      (\<forall>t \<in> set ts. \<not> skip (th_name t) \<longrightarrow> int (hits s now (B r (th_name t)) ip) < th_limit t)"
    by (rule laws [THEN conjunct1, rule_format])
  show "hits (snd (G ts r skip ip now s)) t (B r' n) a = hits s t (B r' n) a"
    if "now \<le> t" "a \<noteq> ip \<or> skip n \<or> n \<notin> th_name ` set ts"
    by (rule laws [THEN conjunct2, THEN conjunct1, rule_format]) (fact that)+
  show "hits (snd (G ts r skip ip now s)) now (B r n) ip = Suc (hits s now (B r n) ip)"
    if "fst (G ts r skip ip now s)" "\<not> skip n" "n \<in> th_name ` set ts"
    by (rule laws [THEN conjunct2, THEN conjunct2, rule_format]) (fact that)+
qed

lemma admit_iff:
  assumes "guard_laws G B hits"
  shows "fst (admit G env r ip now s) \<longleftrightarrow>
      (READ_LIMIT \<in> set (charged env r) \<longrightarrow> int (hits s now (B r READ_LIMIT) ip) < RATE_LIMIT_GLOBAL env)
    \<and> (WRITE_LIMIT \<in> set (charged env r) \<longrightarrow> int (hits s now (B r WRITE_LIMIT) ip) < RATE_LIMIT_WRITES env)"
  by (simp add: admit_def guard_lawsD(1) [OF assms] charged_iff throttlers_def)

lemma admit_uncharged:
  assumes "guard_laws G B hits" and "now \<le> t" and "n \<notin> set (charged env r)"
  shows "hits (snd (admit G env r ip now s)) t (B r' n) a = hits s t (B r' n) a"
  unfolding admit_def using assms(3)
  by (intro guard_lawsD(2) [OF assms(1,2)]) (auto simp: charged_iff)

lemma admit_charges:
  assumes "guard_laws G B hits" and "fst (admit G env r ip now s)" and "n \<in> set (charged env r)"
  shows "hits (snd (admit G env r ip now s)) now (B r n) ip = Suc (hits s now (B r n) ip)"
  using assms(2,3) unfolding admit_def
  by (intro guard_lawsD(3) [OF assms(1)]) (auto simp: charged_iff)

lemma admit_all_ConsE:
  assumes "admit_all G env ((r, ip, now) # reqs) s = (oks, s')"
  obtains oks' where "oks = fst (admit G env r ip now s) # oks'"
    "admit_all G env reqs (snd (admit G env r ip now s)) = (oks', s')"
  using assms by (auto split: prod.splits)

text \<open>Requests that are not charged to a limit, at any times up to \<open>t\<close>, leave its live hits alone.\<close>

lemma admit_all_uncharged:
  assumes "guard_laws G B hits"
    and "list_all (\<lambda>(r, ip, now). n \<notin> set (charged env r) \<and> now \<le> t) reqs"
    and "admit_all G env reqs s = (oks, s')"
  shows "hits s' t (B r' n) a = hits s t (B r' n) a"
  using assms(2,3)
proof (induction reqs arbitrary: s oks)
  case Nil
  then show ?case by simp
next
  case (Cons req reqs)
  obtain r ip now where req: "req = (r, ip, now)" by (rule prod_cases3)
  from Cons.prems(2) [unfolded req]
  obtain oks' where rest: "admit_all G env reqs (snd (admit G env r ip now s)) = (oks', s')"
    by (rule admit_all_ConsE)
  from Cons.prems(1) have now: "now \<le> t" and free: "n \<notin> set (charged env r)"
    and others: "list_all (\<lambda>(r, ip, now). n \<notin> set (charged env r) \<and> now \<le> t) reqs"
    by (simp_all add: req)
  from Cons.IH [OF others rest] show ?case by (simp add: admit_uncharged [OF assms(1) now free])
qed

lemma length_admit_all: "admit_all G env reqs s = (oks, s') \<Longrightarrow> length oks = length reqs"
  by (induction reqs arbitrary: s oks) (auto split: prod.splits)

definition exempt :: "route \<Rightarrow> bool" where
  "exempt r \<longleftrightarrow> r \<in> {Index, Sink_Webhook, Sink_Deliveries, Health, Ready, Metrics}"

lemma exempt_charged: "exempt r \<Longrightarrow> charged env r = []"
  by (auto simp: exempt_def charged_routes)

lemma exempt_admitted: "guard_laws G B hits \<Longrightarrow> exempt r \<Longrightarrow> fst (admit G env r ip now s)"
  by (simp add: admit_iff exempt_charged)

lemma exempt_all_admitted:
  assumes "guard_laws G B hits" and "admit_all G env reqs s = (oks, s')"
    and "i < length reqs" and "exempt (fst (reqs ! i))"
  shows "oks ! i"
  using assms(2-4)
proof (induction reqs arbitrary: s oks i)
  case Nil
  then show ?case by simp
next
  case (Cons req reqs)
  obtain r ip now where req: "req = (r, ip, now)" by (rule prod_cases3)
  from Cons.prems(1) [unfolded req]
  obtain oks' where oks: "oks = fst (admit G env r ip now s) # oks'"
    and rest: "admit_all G env reqs (snd (admit G env r ip now s)) = (oks', s')"
    by (rule admit_all_ConsE)
  show ?case
  proof (cases i)
    case 0
    with Cons.prems(3) oks show ?thesis by (simp add: req exempt_admitted [OF assms(1)])
  next
    case (Suc j)
    then have "j < length reqs" "exempt (fst (reqs ! j))" using Cons.prems(2,3) by simp_all
    from Cons.IH [OF rest this] show ?thesis by (simp add: oks Suc)
  qed
qed

text \<open>
  C32: watching tickets costs nobody a submission. However many ticket reads (\<open>GET /tickets/:id\<close>), probes,
  scrapes, sink deliveries and index pages any clients ask for, every one but the ticket reads is admitted,
  whatever the counts; the reads of dead letters are not among them (they are charged to the write limit);
  and
  the write limit of submissions is at every later time where it would have been, whichever handlers the
  guard counts together: a submission is admitted exactly if its caller was not over that limit before,
  and is not over the generous one.
\<close>

theorem reads_leave_writes_alone:
  assumes "guard_laws G B hits" and "admit_all G env reqs s = (oks, s')"
    and "list_all (\<lambda>(r, ip, now). (exempt r \<or> r = Get_Ticket) \<and> now \<le> t) reqs"
  shows "(\<forall>i < length reqs. exempt (fst (reqs ! i)) \<longrightarrow> oks ! i)
    \<and> hits s' t (B Post_Events WRITE_LIMIT) ip = hits s t (B Post_Events WRITE_LIMIT) ip
    \<and> (fst (admit G env Post_Events ip t s') \<longleftrightarrow>
         int (hits s t (B Post_Events WRITE_LIMIT) ip) < RATE_LIMIT_WRITES env
         \<and> int (hits s' t (B Post_Events READ_LIMIT) ip) < RATE_LIMIT_GLOBAL env)"
proof -
  have "list_all (\<lambda>(r, ip, now). WRITE_LIMIT \<notin> set (charged env r) \<and> now \<le> t) reqs"
    using assms(3) by (auto simp: list_all_iff exempt_charged charged_routes)
  from admit_all_uncharged [OF assms(1) this assms(2)]
  have "hits s' t (B Post_Events WRITE_LIMIT) ip = hits s t (B Post_Events WRITE_LIMIT) ip" .
  then show ?thesis
    using exempt_all_admitted [OF assms(1,2)] by (simp add: admit_iff [OF assms(1)] charged_routes conj_commute)
qed

text \<open>The dead-letter reads are not exempt from the write limit: it is the one that stops them.\<close>

lemma dlq_reads_hits:
  assumes laws: "guard_laws G B hits" and "charged env r = [READ_LIMIT, WRITE_LIMIT]"
    and "hits s now (B r READ_LIMIT) ip = j" and "hits s now (B r WRITE_LIMIT) ip = j"
    and "int (j + k) \<le> RATE_LIMIT_WRITES env" and "int (j + k) \<le> RATE_LIMIT_GLOBAL env"
  shows "\<exists>s'. admit_all G env (replicate k (r, ip, now)) s = (replicate k True, s')
    \<and> hits s' now (B r READ_LIMIT) ip = j + k \<and> hits s' now (B r WRITE_LIMIT) ip = j + k"
  using assms(3-)
proof (induction k arbitrary: s j)
  case 0
  then show ?case by simp
next
  case (Suc k)
  obtain ok s1 where one: "admit G env r ip now s = (ok, s1)" by (rule prod.exhaust)
  have "fst (admit G env r ip now s)" using Suc.prems by (simp add: admit_iff [OF laws] assms(2))
  with admit_charges [OF laws this] one Suc.prems(1,2) have "ok"
    and "hits s1 now (B r READ_LIMIT) ip = Suc j" "hits s1 now (B r WRITE_LIMIT) ip = Suc j"
    by (simp_all add: assms(2))
  with Suc.IH [of s1 "Suc j"] Suc.prems(3,4) one show ?case by auto
qed

lemma dlq_reads_hit_write_limit:
  assumes "guard_laws G B hits" and "env_valid env" and "RATE_LIMIT_WRITES env < RATE_LIMIT_GLOBAL env"
    and "hits s now (B List_Dlq READ_LIMIT) ip = 0" and "hits s now (B List_Dlq WRITE_LIMIT) ip = 0"
  shows "\<exists>s'. admit_all G env (replicate (nat (RATE_LIMIT_WRITES env)) (List_Dlq, ip, now)) s
        = (replicate (nat (RATE_LIMIT_WRITES env)) True, s')
    \<and> int (hits s' now (B List_Dlq READ_LIMIT) ip) < RATE_LIMIT_GLOBAL env
    \<and> \<not> fst (admit G env List_Dlq ip now s')"
proof -
  let ?n = "nat (RATE_LIMIT_WRITES env)"
  have "int ?n = RATE_LIMIT_WRITES env" using assms(2) by (simp add: env_valid_def)
  with dlq_reads_hits [where env = env, OF assms(1) charged_routes(10) assms(4,5), of ?n] assms(3)
  obtain s' where "admit_all G env (replicate ?n (List_Dlq, ip, now)) s = (replicate ?n True, s')"
    "hits s' now (B List_Dlq READ_LIMIT) ip = ?n" "hits s' now (B List_Dlq WRITE_LIMIT) ip = ?n" by auto
  with assms(3) \<open>int ?n = RATE_LIMIT_WRITES env\<close> show ?thesis
    by (intro exI [of _ s']) (simp add: admit_iff [OF assms(1)] charged_routes)
qed

text \<open>
  A guard that keeps its laws, with a bucket for each handler and limit: the hits of the last minute, each
  with when it lapses.
\<close>

type_synonym ref_hits_state = "((route \<times> string) \<times> string \<times> int) list"

definition ref_hits :: "ref_hits_state \<Rightarrow> int \<Rightarrow> route \<times> string \<Rightarrow> string \<Rightarrow> nat" where
  "ref_hits s now b ip = length (filter (\<lambda>(b', a, e). b' = b \<and> a = ip \<and> now \<le> e) s)"

definition ref_guard :: "ref_hits_state guard" where
  "ref_guard ts r skip ip now s =
     (let names = filter (\<lambda>n. \<not> skip n) (remdups (map th_name ts))
      in if list_all (\<lambda>t. skip (th_name t) \<or> int (ref_hits s now (r, th_name t) ip) < th_limit t) ts
         then (True, map (\<lambda>n. ((r, n), ip, now + 60000)) names @ s) else (False, s))"

lemma filter_distinct_name:
  "distinct xs \<Longrightarrow> length (filter (\<lambda>m. m = n) xs) = (if n \<in> set xs then 1 else 0)"
  by (induction xs) auto

lemma ref_hits_charge:
  "ref_hits (map (\<lambda>m. ((r, m), ip, e)) names @ s) t (r', n) a =
     (if r' = r \<and> a = ip \<and> t \<le> e then length (filter (\<lambda>m. m = n) names) else 0) + ref_hits s t (r', n) a"
  by (induction names) (auto simp: ref_hits_def)

lemma ref_guard_admits:
  "fst (ref_guard ts r skip ip now s) \<longleftrightarrow>
     (\<forall>t \<in> set ts. \<not> skip (th_name t) \<longrightarrow> int (ref_hits s now (r, th_name t) ip) < th_limit t)"
  by (auto simp: ref_guard_def Let_def list_all_iff)

lemma ref_guard_hits:
  "ref_hits (snd (ref_guard ts r skip ip now s)) t (r', n) a =
     (if fst (ref_guard ts r skip ip now s) \<and> r' = r \<and> a = ip \<and> t \<le> now + 60000
         \<and> n \<in> th_name ` set ts \<and> \<not> skip n
      then 1 else 0) + ref_hits s t (r', n) a"
proof -
  let ?names = "filter (\<lambda>n. \<not> skip n) (remdups (map th_name ts))"
  have "length (filter (\<lambda>m. m = n) ?names) = (if n \<in> set ?names then 1 else 0)"
    by (rule filter_distinct_name) simp
  moreover have "snd (ref_guard ts r skip ip now s) =
      (if fst (ref_guard ts r skip ip now s) then map (\<lambda>n. ((r, n), ip, now + 60000)) ?names @ s else s)"
    by (simp add: ref_guard_def Let_def)
  ultimately show ?thesis by (auto simp: ref_hits_charge)
qed

lemma ref_guard_laws: "guard_laws ref_guard Pair ref_hits"
  unfolding guard_laws_def
  by (intro conjI allI impI) (auto simp: ref_guard_admits ref_guard_hits)

theorem reads_leave_writes_alone_witness:
  "fst (admit ref_guard env_defaults Post_Events ''1.2.3.4'' 9
     (snd (admit_all ref_guard env_defaults [(Get_Ticket, ''1.2.3.4'', 5), (Ready, ''1.2.3.4'', 6)] [])))"
proof -
  let ?reqs = "[(Get_Ticket, ''1.2.3.4'', 5), (Ready, ''1.2.3.4'', 6)]"
  obtain oks s' where run: "admit_all ref_guard env_defaults ?reqs [] = (oks, s')" by (rule prod.exhaust)
  have none: "ref_hits [] 9 b ''1.2.3.4'' = 0" for b by (simp add: ref_hits_def)
  have "s' = snd (admit ref_guard env_defaults Ready ''1.2.3.4'' 6
      (snd (admit ref_guard env_defaults Get_Ticket ''1.2.3.4'' 5 [])))"
    using run by (simp split: prod.splits)
  then have "ref_hits s' 9 (Post_Events, READ_LIMIT) ''1.2.3.4'' = 0"
    by (simp only: admit_def ref_guard_hits none) simp
  moreover from reads_leave_writes_alone [OF ref_guard_laws run, of 9 "''1.2.3.4''"]
  have "fst (admit ref_guard env_defaults Post_Events ''1.2.3.4'' 9 s') \<longleftrightarrow>
      int (ref_hits [] 9 (Post_Events, WRITE_LIMIT) ''1.2.3.4'') < RATE_LIMIT_WRITES env_defaults
      \<and> int (ref_hits s' 9 (Post_Events, READ_LIMIT) ''1.2.3.4'') < RATE_LIMIT_GLOBAL env_defaults"
    by (simp add: exempt_def)
  ultimately show ?thesis using run by (simp add: none env_defaults_def)
qed

end
