(* ===== verification/Http_Handlers.thy ===== *)
theory Http_Handlers
  imports Http_Api
begin

section \<open>The handlers\<close>

text \<open>
  The \<open>ValidationPipe\<close> of src/main.ts on \<open>CreateEventDto\<close>, and the handlers of the events, tickets,
  dead-letter, sink and landing controllers, as functions from a request to a status and a JSON body.
  Nest's exception filter is the parameter \<open>nest\<close>: the status and the body it gives a thrown exception.
\<close>

subsection \<open>The body of POST /events\<close>

text \<open>
  \<open>whitelist\<close> with \<open>forbidNonWhitelisted\<close> refuses a property the class does not declare;
  \<open>enableImplicitConversion: false\<close> leaves a value of another type as it is, for its decorator to refuse.
\<close>

definition CREATE_EVENT_FIELDS :: "string list" where
  "CREATE_EVENT_FIELDS =
     [''idempotencyKey'', ''subject'', ''body'', ''requesterEmail'', ''source'', ''metadata'']"

fun is_string :: "json option \<Rightarrow> string option" where
  "is_string (Some (JStr s)) = Some s"
| "is_string _ = None"

text \<open>\<open>@IsOptional() @IsString()\<close>, and \<open>@IsOptional() @IsObject()\<close>: the outer \<open>None\<close> is a refusal.\<close>

fun optional_string :: "json option \<Rightarrow> string option option" where
  "optional_string None = Some None"
| "optional_string (Some JNull) = Some None"
| "optional_string (Some (JStr s)) = Some (Some s)"
| "optional_string (Some _) = None"

fun optional_object :: "json option \<Rightarrow> (string \<times> json) list option option" where
  "optional_object None = Some None"
| "optional_object (Some JNull) = Some None"
| "optional_object (Some (JObj ps)) = Some (Some ps)"
| "optional_object (Some _) = None"

definition read_dto :: "(string \<times> json) list \<Rightarrow> create_event option" where
  "read_dto ps =
     (case (optional_string (js_get ''idempotencyKey'' ps), is_string (js_get ''subject'' ps),
            is_string (js_get ''body'' ps), optional_string (js_get ''requesterEmail'' ps),
            optional_string (js_get ''source'' ps), optional_object (js_get ''metadata'' ps)) of
        (Some k, Some subj, Some bod, Some mail, Some src, Some meta) \<Rightarrow>
          Some \<lparr>ce_idempotencyKey = k, ce_subject = subj, ce_body = bod, ce_requesterEmail = mail,
                ce_source = src, ce_metadata = meta\<rparr>
      | _ \<Rightarrow> None)"

definition validation_pipe :: "(string \<Rightarrow> bool) \<Rightarrow> (string \<times> json) list \<Rightarrow> create_event option" where
  "validation_pipe isEmail ps =
     (if list_all (\<lambda>(k, _). k \<in> set CREATE_EVENT_FIELDS) ps
      then (case read_dto ps of
              Some dto \<Rightarrow> if dto_ok isEmail dto then Some dto else None
            | None \<Rightarrow> None)
      else None)"

text \<open>What is stored of a validated body reads back, and validates, as the same request.\<close>

lemma read_dto_json: "dto_json dto = JObj ps \<Longrightarrow> read_dto ps = Some dto"
  by (cases dto; cases "ce_idempotencyKey dto"; cases "ce_requesterEmail dto"; cases "ce_source dto";
      cases "ce_metadata dto")
     (auto simp: dto_json_def read_dto_def opt_field_def js_get_def)

lemma dto_json_fields: "dto_json dto = JObj ps \<Longrightarrow> list_all (\<lambda>(k, _). k \<in> set CREATE_EVENT_FIELDS) ps"
  by (auto simp: dto_json_def opt_field_def CREATE_EVENT_FIELDS_def split: option.splits)

lemma validation_roundtrip:
  "dto_json dto = JObj ps \<Longrightarrow> dto_ok isEmail dto \<Longrightarrow> validation_pipe isEmail ps = Some dto"
  by (simp add: validation_pipe_def read_dto_json dto_json_fields)

lemma validated_ok: "validation_pipe isEmail ps = Some dto \<Longrightarrow> dto_ok isEmail dto"
  by (auto simp: validation_pipe_def split: if_splits option.splits)

subsection \<open>Answers\<close>

record http_answer =
  hx_status :: int
  hx_body :: json

record nest =
  ns_status :: "exn \<Rightarrow> int"
  ns_body :: "exn \<Rightarrow> json"
  ns_invalid :: "(string \<times> json) list \<Rightarrow> string"

text \<open>The statuses of the three exceptions of Nest the code throws.\<close>

definition filter_laws :: "nest \<Rightarrow> bool" where
  "filter_laws N \<longleftrightarrow> (\<forall>m. ns_status N (BadRequestException m) = 400
     \<and> ns_status N (NotFoundException m) = 404 \<and> ns_status N (ConflictException m) = 409)"

definition failed :: "nest \<Rightarrow> exn \<Rightarrow> http_answer" where
  "failed N e = \<lparr>hx_status = ns_status N e, hx_body = ns_body N e\<rparr>"

definition answer_json :: "ingest_result \<Rightarrow> json" where
  "answer_json r = JObj ([(''status'', JStr (ingest_status_name (ir_status r))),
      (''idempotencyKey'', JStr (ir_idempotencyKey r)), (''ticketId'', str_or_null (ir_ticketId r))]
     @ opt_field ''jobId'' (map_option JStr (ir_jobId r)))"

text \<open>\<open>EventsController.ingest\<close>: the pipe, then the service; 202 for every answer of it.\<close>

definition post_events ::
  "nest \<Rightarrow> (string \<Rightarrow> bool) \<Rightarrow> 'q ingest_host \<Rightarrow> EnvVars \<Rightarrow> string option \<Rightarrow> (string \<times> json) list \<Rightarrow> 'q api \<Rightarrow>
   http_answer \<times> 'q api" where
  "post_events N isEmail H env idempotencyKey ps s =
     (case validation_pipe isEmail ps of
        None \<Rightarrow> (failed N (BadRequestException (ns_invalid N ps)), s)
      | Some dto \<Rightarrow>
          (case ingest H env dto idempotencyKey s of
             (Inl e, s') \<Rightarrow> (failed N e, s')
           | (Inr r, s') \<Rightarrow> (\<lparr>hx_status = 202, hx_body = answer_json r\<rparr>, s')))"

lemma post_events_invalid:
  "filter_laws N \<Longrightarrow> validation_pipe isEmail ps = None \<Longrightarrow>
     hx_status (fst (post_events N isEmail H env k ps s)) = 400 \<and> snd (post_events N isEmail H env k ps s) = s"
  by (simp add: post_events_def failed_def filter_laws_def)

lemma post_events_bad_key:
  assumes "filter_laws N" and "validation_pipe isEmail ps = Some dto"
    and "assertUsableAsJobId (event_key (request_hash H dto) dto k) = Inl e"
  shows "hx_status (fst (post_events N isEmail H env k ps s)) = 400 \<and> snd (post_events N isEmail H env k ps s) = s"
proof -
  obtain m where "e = BadRequestException m"
    using assms(3) by (auto simp: assertUsableAsJobId_def split: if_splits)
  with assms show ?thesis by (simp add: post_events_def ingest_def Let_def failed_def filter_laws_def)
qed

subsection \<open>Reading\<close>

text \<open>\<open>ParseUUIDPipe\<close> on a path parameter; \<open>isUuid\<close> is its check.\<close>

definition parse_uuid :: "(string \<Rightarrow> bool) \<Rightarrow> string \<Rightarrow> exn + uuid" where
  "parse_uuid isUuid i =
     (if isUuid i then Inr i else Inl (BadRequestException ''Validation failed (uuid is expected)''))"

definition get_ticket :: "nest \<Rightarrow> (string \<Rightarrow> bool) \<Rightarrow> (ticket_view \<Rightarrow> json) \<Rightarrow> string \<Rightarrow> db \<Rightarrow> http_answer" where
  "get_ticket N isUuid show_view i d = (case parse_uuid isUuid i of
       Inl e \<Rightarrow> failed N e
     | Inr i' \<Rightarrow> (case getTicket i' d of
           Inl e \<Rightarrow> failed N e
         | Inr v \<Rightarrow> \<lparr>hx_status = 200, hx_body = show_view v\<rparr>))"

lemma get_ticket_status:
  assumes "filter_laws N"
  shows "hx_status (get_ticket N isUuid show_view i d) =
    (if \<not> isUuid i then 400 else if tk_row i d = None then 404 else 200)"
  using assms
  by (auto simp: get_ticket_def parse_uuid_def getTicket_def findByIdOrThrow_def ticket_missing_def failed_def
      filter_laws_def split: option.splits)

text \<open>\<open>DlqController.toView\<close>: the row with the error's two columns under one property.\<close>

record dead_letter_view =
  dv_id :: uuid
  dv_queue :: string
  dv_jobId :: string
  dv_idempotencyKey :: string
  dv_status :: DeadLetterStatus
  dv_attemptsMade :: int
  dv_error :: "string \<times> string option"
  dv_payload :: json
  dv_failedAt :: timestamp
  dv_replayedAt :: "timestamp option"
  dv_createdAt :: timestamp

definition dlq_toView :: "dead_letter_row \<Rightarrow> dead_letter_view" where
  "dlq_toView r = \<lparr>dv_id = dl_id r, dv_queue = dl_queue r, dv_jobId = dl_jobId r,
     dv_idempotencyKey = dl_idempotencyKey r, dv_status = dl_status r,
     dv_attemptsMade = dl_attemptsMade r, dv_error = (dl_errorMessage r, dl_errorStack r),
     dv_payload = dl_payload r, dv_failedAt = dl_failedAt r, dv_replayedAt = dl_replayedAt r,
     dv_createdAt = dl_createdAt r\<rparr>"

text \<open>Nothing of a dead letter is lost in its view.\<close>

definition dlq_ofView :: "dead_letter_view \<Rightarrow> dead_letter_row" where
  "dlq_ofView v = \<lparr>dl_id = dv_id v, dl_queue = dv_queue v, dl_jobId = dv_jobId v,
     dl_idempotencyKey = dv_idempotencyKey v, dl_payload = dv_payload v,
     dl_errorMessage = fst (dv_error v), dl_errorStack = snd (dv_error v),
     dl_attemptsMade = dv_attemptsMade v, dl_status = dv_status v, dl_failedAt = dv_failedAt v,
     dl_replayedAt = dv_replayedAt v, dl_createdAt = dv_createdAt v\<rparr>"

lemma dlq_view_roundtrip: "dlq_ofView (dlq_toView r) = r"
  by (simp add: dlq_ofView_def dlq_toView_def)

definition dlq_getById :: "(string \<Rightarrow> bool) \<Rightarrow> string \<Rightarrow> db \<Rightarrow> exn + dead_letter_view" where
  "dlq_getById isUuid i d = (case parse_uuid isUuid i of
       Inl e \<Rightarrow> Inl e
     | Inr i' \<Rightarrow> (case dlq_getByIdOrThrow i' d of Inl e \<Rightarrow> Inl e | Inr r \<Rightarrow> Inr (dlq_toView r)))"

definition dlq_replay_endpoint ::
  "nest \<Rightarrow> (string \<Rightarrow> bool) \<Rightarrow> 'q bull \<Rightarrow> EnvVars \<Rightarrow> replay_errs \<Rightarrow> timestamp \<Rightarrow> string \<Rightarrow> 'q \<Rightarrow> db \<Rightarrow>
   http_answer \<times> 'q \<times> db" where
  "dlq_replay_endpoint N isUuid Q env E now i q d = (case parse_uuid isUuid i of
       Inl e \<Rightarrow> (failed N e, q, d)
     | Inr i' \<Rightarrow> (case dlq_replay Q env E now i' q d of
           (Inl e, q', d') \<Rightarrow> (failed N e, q', d')
         | (Inr (letter, jobId), q', d') \<Rightarrow>
             (\<lparr>hx_status = 202, hx_body = JObj [(''deadLetterId'', JStr letter), (''jobId'', JStr jobId)]\<rparr>, q', d')))"

definition dlq_list_view ::
  "(dead_letter_row list \<Rightarrow> exn + dead_letter_row list) \<Rightarrow> DeadLetterStatus option \<Rightarrow> int option \<Rightarrow> int option \<Rightarrow> db \<Rightarrow>
   exn + (nat \<times> dead_letter_view list)" where
  "dlq_list_view edge status limit offset d = (case dlq_page edge status limit offset d of
       Inl e \<Rightarrow> Inl e | Inr (n, rows) \<Rightarrow> Inr (n, map dlq_toView rows))"

lemma dlq_list_view_capped:
  assumes "dlq_list_view edge status (Some limit) None d = Inr (n, items)" and "1 \<le> limit"
  shows "n = length items \<and> int n \<le> min limit 200"
  using assms
  by (auto simp: dlq_list_view_def dlq_page_def dlq_list_def Let_def split: sum.splits if_splits)

text \<open>\<open>GET /_sink/deliveries\<close>.\<close>

fun deliveries_json :: "deliveries_view \<Rightarrow> json" where
  "deliveries_json (ForKey k n) = JObj [(''dedupKey'', JStr k), (''count'', JNum (of_nat n))]"
| "deliveries_json (Totals u n) = JObj [(''unique'', JNum (of_nat u)), (''total'', JNum (of_nat n))]"

definition get_deliveries :: "string option \<Rightarrow> sink \<Rightarrow> http_answer" where
  "get_deliveries dedupKey s = \<lparr>hx_status = 200, hx_body = deliveries_json (sink_list dedupKey s)\<rparr>"

text \<open>\<open>GET /\<close>: the page for a browser, the index of the routes for any other client.\<close>

datatype landing_answer = Index_Html | Index_Json

definition landing_index :: "string option \<Rightarrow> landing_answer" where
  "landing_index accept = (case accept of
       Some a \<Rightarrow> if str_includes a ''text/html'' then Index_Html else Index_Json
     | None \<Rightarrow> Index_Json)"

lemma landing_html: "landing_index a = Index_Html \<longleftrightarrow> (\<exists>p q. a = Some (p @ ''text/html'' @ q))"
  unfolding landing_index_def by (cases a) (simp_all add: str_includes_iff)

end
