(* ===== verification/Nul_Text.thy ===== *)
theory Nul_Text
  imports Http_Handlers
begin

section \<open>Text that Postgres cannot store (src/events/)\<close>

text \<open>
  Neither \<open>text\<close> nor \<open>jsonb\<close> can hold the character U+0000: Postgres refuses the statement. No decorator of
  \<open>CreateEventDto\<close> excludes it. Here the INSERT of the event refuses such a payload, and the consequence is
  followed through \<open>createTicketIfAbsent\<close> to the endpoint. The key cannot hold it: \<open>assertUsableAsJobId\<close>
  comes before the ledger.
\<close>

subsection \<open>The refusal\<close>

definition storable_text :: "string \<Rightarrow> bool" where
  "storable_text s \<longleftrightarrow> CHR 0x00 \<notin> set s"

fun storable :: "json \<Rightarrow> bool" where
  "storable JNull = True"
| "storable (JBool b) = True"
| "storable (JNum q) = True"
| "storable (JStr s) = storable_text s"
| "storable (JArr xs) = (\<forall>x \<in> set xs. storable x)"
| "storable (JObj ps) = (\<forall>(k, v) \<in> set ps. storable_text k \<and> storable v)"

definition nul_refused :: exn where
  "nul_refused = JsError ''unsupported Unicode escape sequence''"

definition insert_event_pg :: "event_row \<Rightarrow> db \<Rightarrow> exn + db" where
  "insert_event_pg r d = (if storable (ev_payload r) then insert_event r d else Inl nul_refused)"

text \<open>\<open>create_work\<close> of \<open>Events\<close> over that statement; the ticket's texts are among those of the payload.\<close>

definition create_work_pg ::
  "uuid \<Rightarrow> uuid \<Rightarrow> timestamp \<Rightarrow> string \<Rightarrow> create_event \<Rightarrow> (uuid \<times> uuid, 'w) tx_work" where
  "create_work_pg eventId ticketId now key dto w d =
     ((case lockForUpdate key d of
         Inl e \<Rightarrow> Inl e
       | Inr idem \<Rightarrow>
           (case ik_ticketId idem of
              Some t \<Rightarrow>
                (case tk_row t d of
                   None \<Rightarrow> Inl (EntityNotFoundError ''TicketEntity'')
                 | Some existing \<Rightarrow> Inr ((tk_id existing, tk_eventId existing), d))
            | None \<Rightarrow>
                (case insert_event_pg (new_event_row eventId now key dto) d of
                   Inl e \<Rightarrow> Inl e
                 | Inr d1 \<Rightarrow>
                     (case insert_ticket (new_ticket_row ticketId now eventId dto) d1 of
                        Inl e \<Rightarrow> Inl e
                      | Inr d2 \<Rightarrow> Inr ((ticketId, eventId), attachTicket now key ticketId d2))))), w)"

lemma create_work_pg_storable:
  assumes "storable (dto_json dto)"
  shows "create_work_pg eventId ticketId now key dto w d = create_work eventId ticketId now key dto w d"
proof -
  have "insert_event_pg (new_event_row eventId now key dto) d = insert_event (new_event_row eventId now key dto) d"
    using assms by (simp add: insert_event_pg_def new_event_row_def)
  then show ?thesis by (simp only: create_work_pg_def create_work_def)
qed

lemma create_work_pg_refused:
  assumes "\<not> storable (dto_json dto)" and "key_row key d = Some x" and "ik_ticketId x = None"
  shows "create_work_pg eventId ticketId now key dto w d = (Inl nul_refused, w)"
  using assms by (simp add: create_work_pg_def lockForUpdate_key_row insert_event_pg_def new_event_row_def)

subsection \<open>The refusal as a transaction that does not commit\<close>

definition pg_host :: "create_event \<Rightarrow> 'q ingest_host \<Rightarrow> 'q ingest_host" where
  "pg_host dto H = (if storable (dto_json dto) then H
     else H\<lparr>ih_faults := (ih_faults H)\<lparr>commit_err := Some nul_refused\<rparr>\<rparr>)"

lemma pg_host_simps [simp]:
  "ih_bull (pg_host dto H) = ih_bull H" "ih_num (pg_host dto H) = ih_num H" "ih_sha256 (pg_host dto H) = ih_sha256 H"
  "ih_idemId (pg_host dto H) = ih_idemId H" "ih_eventId (pg_host dto H) = ih_eventId H"
  "ih_ticketId (pg_host dto H) = ih_ticketId H" "ih_claim_at (pg_host dto H) = ih_claim_at H"
  "ih_reclaim_at (pg_host dto H) = ih_reclaim_at H" "ih_create_at (pg_host dto H) = ih_create_at H"
  "ih_end_at (pg_host dto H) = ih_end_at H" "ih_failed_err (pg_host dto H) = ih_failed_err H"
  by (simp_all add: pg_host_def)

lemma uncommitted:
  assumes "commit_err F = Some e"
  shows "tx_db (runInTransaction F work w d) = d \<and> (\<exists>e'. tx_value (runInTransaction F work w d) = Inl e')"
  using assms
  by (auto simp: runInTransaction_def tx_body_def or_throw_def Let_def split: option.splits prod.splits sum.splits)

text \<open>So the host of \<open>ingest\<close> that stands for Postgres is \<open>pg_host\<close>.\<close>

lemma pg_host_creates:
  assumes row: "key_row key d = Some x" "ik_ticketId x = None"
    and r: "r = runInTransaction (ih_faults H) (create_work_pg (ih_eventId H) (ih_ticketId H) (ih_create_at H) key dto) () d"
    and r': "r' = createTicketIfAbsent (pg_host dto H) key dto d"
  shows "tx_db r' = tx_db r \<and> (if storable (dto_json dto) then tx_value r' = tx_value r
    else (\<exists>e. tx_value r = Inl e) \<and> (\<exists>e. tx_value r' = Inl e))"
proof (cases "storable (dto_json dto)")
  case True
  then have "create_work_pg (ih_eventId H) (ih_ticketId H) (ih_create_at H) key dto
      = (create_work (ih_eventId H) (ih_ticketId H) (ih_create_at H) key dto :: (uuid \<times> uuid, unit) tx_work)"
    by (intro ext create_work_pg_storable)
  with True show ?thesis by (simp add: r r' createTicketIfAbsent_def pg_host_def)
next
  case False
  have "commit_err (ih_faults (pg_host dto H)) = Some nul_refused" using False by (simp add: pg_host_def)
  from uncommitted [OF this] have "tx_db r' = d \<and> (\<exists>e. tx_value r' = Inl e)"
    unfolding r' createTicketIfAbsent_def .
  moreover have "tx_db r = d \<and> (\<exists>e. tx_value r = Inl e)"
    unfolding r by (rule tx.run_throw_rolls_back) (simp add: create_work_pg_refused [OF False row])
  ultimately show ?thesis using False by simp
qed

subsection \<open>Every submission fails\<close>

text \<open>A key no submission of the content has been served for.\<close>

definition unserved :: "string \<Rightarrow> string \<Rightarrow> db \<Rightarrow> bool" where
  "unserved key h d \<longleftrightarrow> schema_ok d \<and> (\<forall>x. key_row key d = Some x \<longrightarrow>
     ik_requestHash x = h \<and> ik_status x = IK_FAILED \<and> ik_ticketId x = None)"

lemma unserved_claim:
  assumes un: "unserved key h d" and nid: "nid \<notin> values_of ik_id (idempotency_keys d)"
    and run: "claim env nid t1 t3 key h d = (res, d')"
  shows "res = Inr CR_NEW \<and> schema_ok d' \<and> tickets d' = tickets d
    \<and> (\<exists>x. key_row key d' = Some x \<and> ik_requestHash x = h \<and> ik_ticketId x = None)"
proof -
  have ok: "schema_ok d" using un by (simp add: unserved_def)
  note keep = claim_schema_ok [OF ok run] claim_frame [OF run]
  show ?thesis
  proof (cases "key_row key d")
    case None
    with run claim_wins [OF None nid, of env t1 t3 h] keep show ?thesis by (auto simp: row_with_append)
  next
    case (Some x)
    with un have x: "ik_requestHash x = h" "ik_status x = IK_FAILED" "ik_ticketId x = None" by (simp_all add: unserved_def)
    from claim_reclaims_failed [OF ok Some x(1,2), of env nid t1 t3] run have "res = Inr CR_NEW" by simp
    moreover obtain x' where "key_row key d' = Some x'" "ik_ticketId x' = None" "ik_requestHash x' = h"
      using claim_keeps_row [OF run Some] x by metis
    ultimately show ?thesis using keep by blast
  qed
qed

lemma nul_submission_fails:
  assumes nul: "\<not> storable (dto_json dto)" and key: "key = event_key (request_hash H dto) dto headerKey"
    and usable: "assertUsableAsJobId key = Inr ()" and un: "unserved key (request_hash H dto) (ap_db s)"
    and nid: "ih_idemId H \<notin> values_of ik_id (idempotency_keys (ap_db s))" and marked: "ih_failed_err H = None"
    and run: "ingest (pg_host dto H) env dto headerKey s = (res, s')"
  shows "(\<exists>e. res = Inl e) \<and> unserved key (request_hash H dto) (ap_db s')
    \<and> tickets (ap_db s') = tickets (ap_db s) \<and> ap_queue s' = ap_queue s"
proof -
  let ?h = "request_hash H dto" and ?H = "pg_host dto H"
  obtain out d where cl: "claim env (ih_idemId H) (ih_claim_at H) (ih_reclaim_at H) key ?h (ap_db s) = (out, d)"
    by (rule prod.exhaust)
  from unserved_claim [OF un nid cl] obtain x where d: "out = Inr CR_NEW" "schema_ok d" "tickets d = tickets (ap_db s)"
    "key_row key d = Some x" "ik_requestHash x = ?h" "ik_ticketId x = None" by blast
  have "commit_err (ih_faults ?H) = Some nul_refused" using nul by (simp add: pg_host_def)
  then have "tx_db (createTicketIfAbsent ?H key dto d) = d \<and> (\<exists>e. tx_value (createTicketIfAbsent ?H key dto d) = Inl e)"
    unfolding createTicketIfAbsent_def by (rule uncommitted)
  then obtain e where
    e: "tx_db (createTicketIfAbsent ?H key dto d) = d" "tx_value (createTicketIfAbsent ?H key dto d) = Inl e"
    by (elim conjE exE)
  have "ingest ?H env dto headerKey s = processNew ?H env key dto (s\<lparr>ap_db := d\<rparr>)"
    using usable [unfolded key] cl [unfolded key] d(1) unfolding key by (simp add: ingest_def Let_def answer_claim_def)
  with run e marked have "res = Inl e" "s' = s\<lparr>ap_db := markFailed (ih_end_at H) key d\<rparr>"
    by (simp_all add: processNew_def Let_def give_up_def)
  with d markFailed_schema_ok [OF d(2)] show ?thesis by (simp add: unserved_def key_row_failed)
qed

text \<open>
  However often it is submitted, on whatever host and configuration, a request with U+0000 in a text passes
  validation and is answered by an error of the server; no ticket is ever created for it.
\<close>

fun submissions :: "('q ingest_host \<times> EnvVars) list \<Rightarrow> create_event \<Rightarrow> string option \<Rightarrow> 'q api \<Rightarrow>
    (exn + ingest_result) list \<times> 'q api" where
  "submissions [] dto headerKey s = ([], s)"
| "submissions ((H, env) # runs) dto headerKey s =
     (case ingest (pg_host dto H) env dto headerKey s of
        (res, s') \<Rightarrow> (case submissions runs dto headerKey s' of (rs, s'') \<Rightarrow> (res # rs, s'')))"

fun hosts_ok :: "string \<Rightarrow> ('q ingest_host \<times> EnvVars) list \<Rightarrow> create_event \<Rightarrow> string option \<Rightarrow> 'q api \<Rightarrow> bool" where
  "hosts_ok h [] dto headerKey s = True"
| "hosts_ok h ((H, env) # runs) dto headerKey s \<longleftrightarrow> request_hash H dto = h \<and> ih_failed_err H = None
     \<and> ih_idemId H \<notin> values_of ik_id (idempotency_keys (ap_db s))
     \<and> hosts_ok h runs dto headerKey (snd (ingest (pg_host dto H) env dto headerKey s))"

lemma nul_request_never_served:
  assumes "\<not> storable (dto_json dto)" and "key = event_key h dto headerKey"
    and "assertUsableAsJobId key = Inr ()" and "unserved key h (ap_db s)" and "hosts_ok h runs dto headerKey s"
    and "submissions runs dto headerKey s = (rs, s')"
  shows "list_all (\<lambda>r. \<exists>e. r = Inl e) rs \<and> tickets (ap_db s') = tickets (ap_db s) \<and> ap_queue s' = ap_queue s"
  using assms(4-6)
proof (induction runs arbitrary: s rs s')
  case Nil
  then show ?case by simp
next
  case (Cons run runs)
  obtain H env where r: "run = (H, env)" by (rule prod.exhaust)
  obtain res s1 where one: "ingest (pg_host dto H) env dto headerKey s = (res, s1)" by (rule prod.exhaust)
  obtain rs1 s2 where more: "submissions runs dto headerKey s1 = (rs1, s2)" by (rule prod.exhaust)
  from Cons.prems(2) r one have H: "request_hash H dto = h" "ih_failed_err H = None"
    "ih_idemId H \<notin> values_of ik_id (idempotency_keys (ap_db s))" "hosts_ok h runs dto headerKey s1" by simp_all
  have key: "key = event_key (request_hash H dto) dto headerKey" using assms(2) H(1) by simp
  from nul_submission_fails [OF assms(1) key assms(3) _ H(3,2) one] Cons.prems(1) H(1)
  have this_one: "\<exists>e. res = Inl e" "unserved key h (ap_db s1)" "tickets (ap_db s1) = tickets (ap_db s)"
    "ap_queue s1 = ap_queue s" by simp_all
  from Cons.IH [OF this_one(2) H(4) more] this_one Cons.prems(3) r one more show ?case by auto
qed

text \<open>Such a request exists, and it is valid: one character more in the body of a valid one.\<close>

definition nul_request :: create_event where
  "nul_request = order_request\<lparr>ce_body := [CHR 0x00]\<rparr>"

lemma nul_request_valid:
  "dto_json nul_request = JObj ps \<Longrightarrow> validation_pipe isEmail ps = Some nul_request"
  "\<not> storable (dto_json nul_request)"
proof -
  have "dto_ok isEmail nul_request"
    by (simp add: dto_ok_def nul_request_def order_request_def max_len_def)
  then show "dto_json nul_request = JObj ps \<Longrightarrow> validation_pipe isEmail ps = Some nul_request"
    by (intro validation_roundtrip)
  show "\<not> storable (dto_json nul_request)"
    by (simp add: dto_json_def nul_request_def order_request_def opt_field_def storable_text_def)
qed

lemma nul_request_example:
  "\<exists>e s'. submissions [(order_host, env_defaults)] nul_request None order_api = ([Inl e], s') \<and> tickets (ap_db s') = []"
proof -
  let ?runs = "[(order_host, env_defaults)]" and ?h = "request_hash order_host nul_request"
  obtain res s' where one: "ingest (pg_host nul_request order_host) env_defaults nul_request None order_api = (res, s')"
    by (rule prod.exhaust)
  have key: "''order-1'' = event_key ?h nul_request None" by (simp add: event_key_def nul_request_def order_request_def)
  have none: "idempotency_keys (ap_db order_api) = []" "tickets (ap_db order_api) = []"
    by (simp_all add: order_api_def empty_db_def)
  have "schema_ok (ap_db order_api)" by (simp add: order_api_def schema_ok_empty)
  with none have un: "unserved ''order-1'' ?h (ap_db order_api)" by (simp add: unserved_def)
  have hosts: "hosts_ok ?h ?runs nul_request None order_api" using none by (simp add: order_host_def)
  have run: "submissions ?runs nul_request None order_api = ([res], s')" using one by simp
  from nul_request_never_served [OF nul_request_valid(2) key order_usable un hosts run] none run show ?thesis by auto
qed

end
