(* ===== verification/Retention.thy ===== *)
theory Retention
  imports Config Entities Observability Single_Flight
begin

section \<open>Retention (src/retention/retention.sweeper.ts)\<close>

text \<open>
  The five DELETE statements in their order, children before parents, inside one transaction; the
  counts they answer; and the sweep with its guard. \<open>DataSource.transaction\<close> is TypeORM's: it commits
  what its callback returned, or throws and has done nothing. The counters are incremented in the
  callback, so a commit that fails leaves them incremented.
\<close>

record retention_state =
  rt_timer :: "int option"
  rt_stopped :: bool
  rt_running :: bool

definition retention_new :: retention_state where
  "retention_new = \<lparr>rt_timer = None, rt_stopped = False, rt_running = False\<rparr>"

definition retention_onModuleInit :: "EnvVars \<Rightarrow> retention_state \<Rightarrow> retention_state" where
  "retention_onModuleInit env s =
     (if \<not> RETENTION_ENABLED env then s else s\<lparr>rt_timer := Some (RETENTION_SWEEP_INTERVAL_MS env)\<rparr>)"

definition retention_onModuleDestroy :: "retention_state \<Rightarrow> retention_state" where
  "retention_onModuleDestroy s = s\<lparr>rt_stopped := True, rt_timer := None\<rparr>"

definition retention_begin :: "retention_state \<Rightarrow> retention_state option" where
  "retention_begin s = (if rt_stopped s \<or> rt_running s then None else Some (s\<lparr>rt_running := True\<rparr>))"

definition retention_finally :: "retention_state \<Rightarrow> retention_state" where
  "retention_finally s = s\<lparr>rt_running := False\<rparr>"

interpretation retention_guard: single_flight retention_begin retention_finally rt_running
  by unfold_locales (auto simp: retention_begin_def retention_finally_def split: if_splits)

subsection \<open>The statements\<close>

definition retention_cutoff :: "EnvVars \<Rightarrow> timestamp \<Rightarrow> timestamp" where
  "retention_cutoff env now = now - interval_ms (RETENTION_MAX_AGE_MS env)"

definition old_outbox :: "timestamp \<Rightarrow> outbox_row \<Rightarrow> bool" where
  "old_outbox cutoff r \<longleftrightarrow> ob_status r \<in> {OB_SENT, OB_FAILED} \<and> ob_createdAt r < cutoff"

definition old_dead_letter :: "timestamp \<Rightarrow> dead_letter_row \<Rightarrow> bool" where
  "old_dead_letter cutoff r \<longleftrightarrow> dl_status r = DL_REPLAYED \<and> dl_createdAt r < cutoff"

definition old_key :: "timestamp \<Rightarrow> idem_row \<Rightarrow> bool" where
  "old_key cutoff k \<longleftrightarrow> ik_status k = IK_COMPLETED \<and> ik_createdAt k < cutoff"

definition old_ticket :: "timestamp \<Rightarrow> db \<Rightarrow> ticket_row \<Rightarrow> bool" where
  "old_ticket cutoff d t \<longleftrightarrow> tk_enrichmentStatus t \<in> {ES_ENRICHED, ES_FAILED} \<and> tk_updatedAt t < cutoff
     \<and> \<not> (\<exists>k \<in> set (idempotency_keys d). ik_ticketId k = Some (tk_id t))"

definition old_event :: "timestamp \<Rightarrow> db \<Rightarrow> event_row \<Rightarrow> bool" where
  "old_event cutoff d e \<longleftrightarrow> ev_receivedAt e < cutoff
     \<and> \<not> (\<exists>t \<in> set (tickets d). tk_eventId t = ev_id e)"

definition prune_outbox :: "timestamp \<Rightarrow> db \<Rightarrow> nat \<times> db" where
  "prune_outbox cutoff d = (affected (old_outbox cutoff) (outbox_messages d),
     d\<lparr>outbox_messages := delete_where (old_outbox cutoff) (outbox_messages d)\<rparr>)"

definition prune_dead_letters :: "timestamp \<Rightarrow> db \<Rightarrow> nat \<times> db" where
  "prune_dead_letters cutoff d = (affected (old_dead_letter cutoff) (dead_letters d),
     d\<lparr>dead_letters := delete_where (old_dead_letter cutoff) (dead_letters d)\<rparr>)"

definition prune_keys :: "timestamp \<Rightarrow> db \<Rightarrow> nat \<times> db" where
  "prune_keys cutoff d = (affected (old_key cutoff) (idempotency_keys d),
     d\<lparr>idempotency_keys := delete_where (old_key cutoff) (idempotency_keys d)\<rparr>)"

type_synonym pruned = "(string \<times> nat) list"

definition retention_work :: "timestamp \<Rightarrow> db \<Rightarrow> exn + (pruned \<times> db)" where
  "retention_work cutoff d =
     (let (outbox, d1) = prune_outbox cutoff d;
          (deadLetters, d2) = prune_dead_letters cutoff d1;
          (keys, d3) = prune_keys cutoff d2;
          (tks, d4) = delete_tickets (old_ticket cutoff d3) d3
      in case delete_events (old_event cutoff d4) d4 of
           Inl e \<Rightarrow> Inl e
         | Inr (evs, d5) \<Rightarrow>
             Inr ([(''outbox_messages'', outbox), (''dead_letters'', deadLetters),
                   (''idempotency_keys'', keys), (''tickets'', tks), (''events'', evs)], d5))"

definition count_pruned :: "pruned \<Rightarrow> metrics \<Rightarrow> metrics" where
  "count_pruned p m =
     (if 0 < sum_list (map snd p) then fold (\<lambda>(table, n). inc_by n (RetentionPruned table)) p m else m)"

definition retention_sweep ::
  "EnvVars \<Rightarrow> exn option \<Rightarrow> timestamp \<Rightarrow> retention_state \<Rightarrow> metrics \<Rightarrow> db \<Rightarrow>
   pruned \<times> retention_state \<times> metrics \<times> db" where
  "retention_sweep env commit_error now s m d =
     (case retention_begin s of
        None \<Rightarrow> ([], s, m, d)
      | Some s1 \<Rightarrow>
          (case retention_work (retention_cutoff env now) d of
             Inl e \<Rightarrow> ([], retention_finally s1, m, d)
           | Inr (p, d') \<Rightarrow>
               (case commit_error of
                  Some e \<Rightarrow> ([], retention_finally s1, count_pruned p m, d)
                | None \<Rightarrow> (p, retention_finally s1, count_pruned p m, d'))))"

subsection \<open>What is left\<close>

text \<open>
  No row that is deleted is referenced: the \<open>SET NULL\<close> of the ticket reference never happens, and
  \<open>RESTRICT\<close> never fires.
\<close>

lemma delete_old_tickets:
  "snd (delete_tickets (old_ticket cutoff d) d) = d\<lparr>tickets := delete_where (old_ticket cutoff d) (tickets d)\<rparr>"
proof -
  have "update_where (\<lambda>k. case ik_ticketId k of Some t \<Rightarrow> t \<in> values_of tk_id (filter (old_ticket cutoff d) (tickets d)) | None \<Rightarrow> False)
      (\<lambda>k. k\<lparr>ik_ticketId := None\<rparr>) (idempotency_keys d) = idempotency_keys d"
    by (rule update_where_no_match) (auto simp: values_of_def old_ticket_def split: option.splits)
  then show ?thesis by (simp add: delete_tickets_def Let_def)
qed

lemma delete_old_events:
  "delete_events (old_event cutoff d) d =
     Inr (affected (old_event cutoff d) (events d), d\<lparr>events := delete_where (old_event cutoff d) (events d)\<rparr>)"
  by (auto simp: delete_events_def old_event_def values_of_def)

definition retained :: "timestamp \<Rightarrow> db \<Rightarrow> db" where
  "retained cutoff d =
     (let ks = delete_where (old_key cutoff) (idempotency_keys d);
          d3 = d\<lparr>idempotency_keys := ks\<rparr>;
          ts = delete_where (old_ticket cutoff d3) (tickets d)
      in \<lparr>events = delete_where (old_event cutoff (d\<lparr>tickets := ts\<rparr>)) (events d), tickets = ts,
          idempotency_keys = ks, outbox_messages = delete_where (old_outbox cutoff) (outbox_messages d),
          dead_letters = delete_where (old_dead_letter cutoff) (dead_letters d)\<rparr>)"

lemma old_ticket_keys: "idempotency_keys d = idempotency_keys d' \<Longrightarrow> old_ticket cutoff d = old_ticket cutoff d'"
  by (simp add: old_ticket_def fun_eq_iff)

lemma old_event_tickets: "tickets d = tickets d' \<Longrightarrow> old_event cutoff d = old_event cutoff d'"
  by (simp add: old_event_def fun_eq_iff)

lemma affected_length: "affected p rs = length rs - length (delete_where p rs)"
  using length_delete_where [of p rs] by simp

lemma retention_work_eq:
  "\<exists>p. retention_work cutoff d = Inr (p, retained cutoff d) \<and> map fst p =
      [''outbox_messages'', ''dead_letters'', ''idempotency_keys'', ''tickets'', ''events'']
    \<and> map snd p = [affected (old_outbox cutoff) (outbox_messages d),
        affected (old_dead_letter cutoff) (dead_letters d), affected (old_key cutoff) (idempotency_keys d),
        length (tickets d) - length (tickets (retained cutoff d)),
        length (events d) - length (events (retained cutoff d))]"
proof -
  let ?d3 = "d\<lparr>outbox_messages := delete_where (old_outbox cutoff) (outbox_messages d),
      dead_letters := delete_where (old_dead_letter cutoff) (dead_letters d),
      idempotency_keys := delete_where (old_key cutoff) (idempotency_keys d)\<rparr>"
  let ?k3 = "d\<lparr>idempotency_keys := delete_where (old_key cutoff) (idempotency_keys d)\<rparr>"
  let ?ts = "delete_where (old_ticket cutoff ?k3) (tickets d)"
  let ?d4 = "?d3\<lparr>tickets := ?ts\<rparr>"
  have t3: "old_ticket cutoff ?d3 = old_ticket cutoff ?k3" by (rule old_ticket_keys) simp
  have e4: "old_event cutoff ?d4 = old_event cutoff (d\<lparr>tickets := ?ts\<rparr>)" by (rule old_event_tickets) simp
  have "delete_tickets (old_ticket cutoff ?d3) ?d3 = (affected (old_ticket cutoff ?k3) (tickets d), ?d4)"
    using delete_old_tickets [of cutoff ?d3] t3 by (simp add: delete_tickets_def Let_def)
  moreover have "delete_events (old_event cutoff ?d4) ?d4 =
      Inr (affected (old_event cutoff (d\<lparr>tickets := ?ts\<rparr>)) (events d), retained cutoff d)"
    using delete_old_events [of cutoff ?d4] e4 by (simp add: retained_def Let_def)
  ultimately show ?thesis
    by (simp add: affected_length retention_work_def prune_outbox_def prune_dead_letters_def prune_keys_def retained_def Let_def)
qed

lemma retained_schema_ok:
  assumes "schema_ok d"
  shows "schema_ok (retained cutoff d)"
proof -
  have "tickets_fk_ok (retained cutoff d)"
    using assms
    by (fastforce simp: retained_def Let_def schema_ok_def tickets_fk_ok_def values_of_delete_where
        old_event_def values_of_def)
  moreover have "idem_fk_ok (retained cutoff d)"
    using assms
    by (fastforce simp: retained_def Let_def schema_ok_def idem_fk_ok_def values_of_delete_where
        old_ticket_def values_of_def)
  ultimately show ?thesis
    using assms by (simp add: schema_ok_def retained_def Let_def unique_by_delete_where)
qed

text \<open>
  C37: retention deletes only settled, expired rows, and nothing a live row needs. The sweep's
  statements never hit a foreign key; every ticket still PENDING or DEGRADED, every outbox row still
  pending, every pending dead letter and every key that is not COMPLETED stays, at any age; every
  surviving row is as it was, so no surviving key loses its ticket; and the schema still holds.
\<close>

theorem retention_keeps_live_rows:
  assumes "schema_ok d"
  shows "\<exists>p d'. retention_work cutoff d = Inr (p, d') \<and> schema_ok d'
    \<and> set (tickets d') \<subseteq> set (tickets d) \<and> set (events d') \<subseteq> set (events d)
    \<and> set (idempotency_keys d') \<subseteq> set (idempotency_keys d)
    \<and> set (outbox_messages d') \<subseteq> set (outbox_messages d) \<and> set (dead_letters d') \<subseteq> set (dead_letters d)
    \<and> (\<forall>t \<in> set (tickets d). tk_enrichmentStatus t \<in> {ES_PENDING, ES_DEGRADED} \<or> cutoff \<le> tk_updatedAt t \<longrightarrow>
         t \<in> set (tickets d') \<and> (\<forall>e \<in> set (events d). ev_id e = tk_eventId t \<longrightarrow> e \<in> set (events d')))
    \<and> (\<forall>r \<in> set (outbox_messages d). ob_status r = OB_PENDING \<or> cutoff \<le> ob_createdAt r \<longrightarrow> r \<in> set (outbox_messages d'))
    \<and> (\<forall>r \<in> set (dead_letters d). dl_status r = DL_PENDING \<or> cutoff \<le> dl_createdAt r \<longrightarrow> r \<in> set (dead_letters d'))
    \<and> (\<forall>k \<in> set (idempotency_keys d). ik_status k \<noteq> IK_COMPLETED \<or> cutoff \<le> ik_createdAt k \<longrightarrow>
         k \<in> set (idempotency_keys d'))"
proof -
  obtain p where p: "retention_work cutoff d = Inr (p, retained cutoff d)"
    using retention_work_eq [of cutoff d] by blast
  let ?d = "retained cutoff d"
  have "t \<in> set (tickets ?d) \<and> (\<forall>e \<in> set (events d). ev_id e = tk_eventId t \<longrightarrow> e \<in> set (events ?d))"
    if "t \<in> set (tickets d)" "tk_enrichmentStatus t \<in> {ES_PENDING, ES_DEGRADED} \<or> cutoff \<le> tk_updatedAt t" for t
  proof -
    have t: "t \<in> set (tickets ?d)" using that by (auto simp: retained_def Let_def old_ticket_def)
    moreover have "e \<in> set (events ?d)" if "e \<in> set (events d)" "ev_id e = tk_eventId t" for e
      using t that by (auto simp: retained_def Let_def old_event_def)
    ultimately show ?thesis by blast
  qed
  note keep = this
  show ?thesis
    by (intro exI [of _ p] exI [of _ ?d] conjI ballI impI p retained_schema_ok [OF assms] subsetI)
       (use keep in \<open>auto simp: retained_def Let_def old_outbox_def old_dead_letter_def old_key_def\<close>)
qed

lemma retained_fields:
  "idempotency_keys (retained cutoff d) = delete_where (old_key cutoff) (idempotency_keys d)"
  "tickets (retained cutoff d) = delete_where (old_ticket cutoff (retained cutoff d)) (tickets d)"
  "events (retained cutoff d) = delete_where (old_event cutoff (retained cutoff d)) (events d)"
  "outbox_messages (retained cutoff d) = delete_where (old_outbox cutoff) (outbox_messages d)"
  "dead_letters (retained cutoff d) = delete_where (old_dead_letter cutoff) (dead_letters d)"
proof -
  let ?r = "retained cutoff d"
  let ?d3 = "d\<lparr>idempotency_keys := delete_where (old_key cutoff) (idempotency_keys d)\<rparr>"
  have "old_ticket cutoff ?d3 = old_ticket cutoff ?r" by (rule old_ticket_keys) (simp add: retained_def Let_def)
  then show ts: "tickets ?r = delete_where (old_ticket cutoff ?r) (tickets d)"
    by (subst retained_def) (simp add: Let_def)
  have "old_event cutoff (d\<lparr>tickets := delete_where (old_ticket cutoff ?d3) (tickets d)\<rparr>) = old_event cutoff ?r"
    by (rule old_event_tickets) (simp add: retained_def Let_def)
  then show "events ?r = delete_where (old_event cutoff ?r) (events d)"
    by (subst retained_def) (simp add: Let_def)
qed (simp_all add: retained_def Let_def)

lemma retained_twice: "retained cutoff (retained cutoff d) = retained cutoff d"
proof -
  let ?r = "retained cutoff d" let ?s = "retained cutoff ?r"
  have no: "delete_where q (delete_where q rs) = delete_where q rs" for q :: "'r \<Rightarrow> bool" and rs
    by (simp add: delete_where_def)
  have ks: "idempotency_keys ?s = idempotency_keys ?r" by (simp add: retained_fields(1) no)
  have ts: "tickets ?s = tickets ?r"
    using retained_fields(2) [of cutoff ?r] old_ticket_keys [OF ks, of cutoff] retained_fields(2) [of cutoff d] no by metis
  have es: "events ?s = events ?r"
    using retained_fields(3) [of cutoff ?r] old_event_tickets [OF ts, of cutoff] retained_fields(3) [of cutoff d] no by metis
  show ?thesis by (rule db.equality) (simp_all add: ks ts es retained_fields(4,5) no)
qed

text \<open>
  A sweep is complete: run again at the same time it finds nothing more to delete.
\<close>

lemma retention_idempotent:
  assumes "retention_work cutoff d = Inr (p, d')"
  shows "\<exists>p'. retention_work cutoff d' = Inr (p', d') \<and> sum_list (map snd p') = 0"
proof -
  have d': "d' = retained cutoff d" using retention_work_eq [of cutoff d] assms by auto
  have again: "retained cutoff d' = d'" by (simp add: d' retained_twice)
  have "affected q (delete_where q rs) = 0" for q :: "'r \<Rightarrow> bool" and rs by (auto simp: affected_0_iff)
  then have zero: "affected (old_outbox cutoff) (outbox_messages d') = 0"
    "affected (old_dead_letter cutoff) (dead_letters d') = 0" "affected (old_key cutoff) (idempotency_keys d') = 0"
    by (simp_all add: d' retained_def Let_def)
  from retention_work_eq [of cutoff d', unfolded again] zero show ?thesis by auto
qed

definition spent_db :: db where
  "spent_db = empty_db\<lparr>outbox_messages := [\<lparr>ob_id = ''o1'', ob_aggregateType = ''ticket'', ob_aggregateId = ''t1'',
     ob_eventType = ''ticket.triaged'', ob_payload = JNull, ob_status = OB_SENT, ob_attempts = 0,
     ob_nextAttemptAt = 0, ob_lastError = None, ob_dedupKey = ''k'', ob_createdAt = 0, ob_dispatchedAt = Some 1\<rparr>]\<rparr>"

theorem retention_keeps_live_rows_witness:
  "\<exists>p d'. retention_work 10 spent_db = Inr (p, d') \<and> schema_ok d'"
proof -
  have "schema_ok spent_db"
    by (simp add: spent_db_def empty_db_def schema_ok_def tickets_fk_ok_def idem_fk_ok_def unique_by_def)
  from retention_keeps_live_rows [OF this, of 10] show ?thesis by blast
qed

lemma retention_idempotent_witness:
  "\<exists>p d' p'. retention_work 10 spent_db = Inr (p, d') \<and> outbox_messages d' = []
     \<and> retention_work 10 d' = Inr (p', d')"
proof -
  obtain p d' where run: "retention_work 10 spent_db = Inr (p, d')" "d' = retained 10 spent_db"
    using retention_work_eq [of 10 spent_db] by blast
  moreover have "outbox_messages (retained 10 spent_db) = []"
    by (simp add: retained_def spent_db_def old_outbox_def Let_def)
  ultimately show ?thesis using retention_idempotent [OF run(1)] by blast
qed

end
