(* ===== verification/Retention_Reopens.thy ===== *)
theory Retention_Reopens
  imports System Retention
begin

section \<open>Retention against one ticket per key\<close>

text \<open>
  Retention is the one operation that takes a key out of the ledger. It keeps a ticket that is still
  PENDING or DEGRADED, and its event, but deletes the COMPLETED row of its key once that is old enough.
\<close>

lemma retained_key_row:
  assumes "schema_ok d" and "key_row k d = Some x"
  shows "key_row k (retained cutoff d) = (if old_key cutoff x then None else Some x)"
proof (cases "old_key cutoff x")
  case True
  have "k \<notin> values_of ik_key (delete_where (old_key cutoff) (idempotency_keys d))"
  proof
    assume "k \<in> values_of ik_key (delete_where (old_key cutoff) (idempotency_keys d))"
    then obtain y where y: "y \<in> set (idempotency_keys d)" "\<not> old_key cutoff y" "ik_key y = k"
      by (auto simp: values_of_def)
    moreover have "x \<in> set (idempotency_keys d)" "ik_key x = k" using assms(2) by (auto dest: row_with_SomeD)
    ultimately have "y = x" using assms(1) unique_by_inj [of ik_key "idempotency_keys d" x y] by (auto simp: schema_ok_def)
    with True y show False by simp
  qed
  with True show ?thesis by (simp add: retained_fields row_with_None_iff)
next
  case False
  have "x \<in> set (idempotency_keys d)" "ik_key x = k" using assms(2) by (auto dest: row_with_SomeD)
  with False have "x \<in> set (delete_where (old_key cutoff) (idempotency_keys d))" by simp
  moreover have "unique_by ik_key (delete_where (old_key cutoff) (idempotency_keys d))"
    using assms(1) by (simp add: schema_ok_def unique_by_delete_where)
  ultimately have "key_row (ik_key x) (retained cutoff d) = Some x"
    by (simp add: retained_fields row_with_unique)
  with False \<open>ik_key x = k\<close> show ?thesis by simp
qed

lemma retained_live_ticket:
  assumes "schema_ok d" and "ticket_key d k i" and "tk_row i d = Some t"
    and "tk_enrichmentStatus t \<in> {ES_PENDING, ES_DEGRADED}"
  shows "ticket_key (retained cutoff d) k i"
proof -
  let ?r = "retained cutoff d"
  have ok: "schema_ok ?r" by (rule retained_schema_ok [OF assms(1)])
  have t: "t \<in> set (tickets d)" "tk_id t = i" using assms(3) by (auto dest: row_with_SomeD)
  have "t \<in> set (tickets ?r)" using t(1) assms(4) by (auto simp: retained_fields(2) old_ticket_def)
  then have "tk_row (tk_id t) ?r = Some t" using ok by (auto simp: schema_ok_def intro: row_with_unique)
  then have row: "tk_row i ?r = Some t" using t(2) by simp
  from assms(2,3) obtain e where e: "ev_row (tk_eventId t) d = Some e" "ev_idempotencyKey e = k"
    by (auto simp: ticket_key_def)
  then have e_in: "e \<in> set (events d)" "ev_id e = tk_eventId t" by (auto dest: row_with_SomeD)
  have "e \<in> set (events ?r)"
    using e_in \<open>t \<in> set (tickets ?r)\<close> by (auto simp: retained_fields(3) old_event_def)
  then have "ev_row (ev_id e) ?r = Some e" using ok by (auto simp: schema_ok_def intro: row_with_unique)
  with e e_in row show ?thesis by (auto simp: ticket_key_def)
qed

text \<open>
  The promise of one ticket per key ends with retention. Take a completed key older than the
  cutoff whose ticket is still waiting to be enriched: the sweep deletes the key and keeps the ticket
  with its event, so the next submission under the key, even of other content, claims it as NEW and
  creates a second ticket for it beside the first.
\<close>

lemma retention_reopens_key:
  assumes "schema_ok d" and "key_row k d = Some x" and "ik_status x = IK_COMPLETED" and "ik_createdAt x < cutoff"
    and "ticket_key d k i" and "tk_row i d = Some t" and "tk_enrichmentStatus t \<in> {ES_PENDING, ES_DEGRADED}"
    and "retention_work cutoff d = Inr (p, d1)"
    and "ih_idemId H \<notin> values_of ik_id (idempotency_keys d)" and "ih_eventId H \<notin> values_of ev_id (events d)"
    and "ih_ticketId H \<notin> values_of tk_id (tickets d)" and "ih_faults H = no_faults"
    and "claim env (ih_idemId H) t1 t3 k h d1 = (out, d2)"
  shows "out = Inr CR_NEW \<and> ih_ticketId H \<noteq> i
    \<and> ticket_key (tx_db (createTicketIfAbsent H k dto d2)) k i
    \<and> ticket_key (tx_db (createTicketIfAbsent H k dto d2)) k (ih_ticketId H)"
proof -
  obtain p' where "retention_work cutoff d = Inr (p', retained cutoff d)" using retention_work_eq [of cutoff d] by blast
  with assms(8) have d1: "d1 = retained cutoff d" by simp
  have sub: "set (idempotency_keys d1) \<subseteq> set (idempotency_keys d)" "set (events d1) \<subseteq> set (events d)"
    "set (tickets d1) \<subseteq> set (tickets d)"
    by (auto simp: d1 retained_def Let_def)
  have fresh: "ih_idemId H \<notin> values_of ik_id (idempotency_keys d1)" "ih_eventId H \<notin> values_of ev_id (events d1)"
    "ih_ticketId H \<notin> values_of tk_id (tickets d1)"
    using assms(9-11) sub by (auto simp: values_of_def)
  have "old_key cutoff x" using assms(3,4) by (simp add: old_key_def)
  then have gone: "key_row k d1 = None" using retained_key_row [OF assms(1,2)] by (simp add: d1)
  from claim_wins [OF gone fresh(1)] assms(13) have out: "out = Inr CR_NEW"
    and d2: "d2 = d1\<lparr>idempotency_keys := idempotency_keys d1 @ [new_idem_row (ih_idemId H) t1 k h]\<rparr>" by simp_all
  have row2: "key_row k d2 = Some (new_idem_row (ih_idemId H) t1 k h)" using gone by (simp add: d2 row_with_append)
  have ok1: "schema_ok d1" unfolding d1 by (rule retained_schema_ok [OF assms(1)])
  have ok2: "schema_ok d2" by (rule claim_schema_ok [OF ok1 assms(13)])
  let ?d3 = "tx_db (createTicketIfAbsent H k dto d2)"
  have d3: "?d3 = attachTicket (ih_create_at H) k (ih_ticketId H)
        (d2\<lparr>events := events d2 @ [new_event_row (ih_eventId H) (ih_create_at H) k dto],
           tickets := tickets d2 @ [new_ticket_row (ih_ticketId H) (ih_create_at H) (ih_eventId H) dto]\<rparr>)"
    using first_create [OF ok2 row2 _ _ _ assms(12)] fresh by (simp add: d2)
  have live: "ticket_key d2 k i"
    using retained_live_ticket [OF assms(1,5,6,7), of cutoff] by (simp add: d1 d2 ticket_key_def)
  have "i \<in> values_of tk_id (tickets d)" using assms(6) by (metis option.distinct(1) row_with_None_iff)
  with assms(11) have "ih_ticketId H \<noteq> i" by metis
  moreover have "ticket_key ?d3 k i"
    using live by (auto simp: d3 ticket_key_def row_with_append)
  moreover have "tk_row (ih_ticketId H) d2 = None" "ev_row (ih_eventId H) d2 = None"
    using fresh by (simp_all add: d2 row_with_None_iff)
  then have "ticket_key ?d3 k (ih_ticketId H)"
    by (simp add: d3 ticket_key_def row_with_append new_ticket_row_def new_event_row_def)
  ultimately show ?thesis using out by blast
qed

text \<open>The database of the witness: an old completed key whose ticket is DEGRADED.\<close>

definition old_key_row :: idem_row where
  "old_key_row = (new_idem_row ''k0'' 0 ''order-1'' ''h'')\<lparr>ik_status := IK_COMPLETED, ik_ticketId := Some ''t0''\<rparr>"

definition old_ticket_row :: ticket_row where
  "old_ticket_row = (new_ticket_row ''t0'' 0 ''e0'' order_request)\<lparr>tk_enrichmentStatus := ES_DEGRADED\<rparr>"

definition old_db :: db where
  "old_db = empty_db\<lparr>events := [new_event_row ''e0'' 0 ''order-1'' order_request], tickets := [old_ticket_row],
     idempotency_keys := [old_key_row]\<rparr>"

lemma old_db_facts:
  "schema_ok old_db" "key_row ''order-1'' old_db = Some old_key_row" "tk_row ''t0'' old_db = Some old_ticket_row"
  "ticket_key old_db ''order-1'' ''t0''"
  by (simp_all add: old_db_def empty_db_def schema_ok_def tickets_fk_ok_def idem_fk_ok_def unique_by_def
      old_key_row_def old_ticket_row_def new_ticket_row_def new_event_row_def ticket_key_def)

lemma retention_reopens_key_witness:
  "\<exists>p d1 d2. retention_work 10 old_db = Inr (p, d1) \<and> claim env_defaults ''k1'' 11 12 ''order-1'' ''h2'' d1 = (Inr CR_NEW, d2)
     \<and> ticket_key (tx_db (createTicketIfAbsent order_host ''order-1'' order_request d2)) ''order-1'' ''t0''
     \<and> ticket_key (tx_db (createTicketIfAbsent order_host ''order-1'' order_request d2)) ''order-1'' ''t1''"
proof -
  obtain p d1 where work: "retention_work 10 old_db = Inr (p, d1)" using retention_work_eq [of 10 old_db] by blast
  obtain out d2 where cl: "claim env_defaults ''k1'' 11 12 ''order-1'' ''h2'' d1 = (out, d2)" by (rule prod.exhaust)
  have h: "ih_idemId order_host = ''k1''" "ih_eventId order_host = ''e1''" "ih_ticketId order_host = ''t1''"
    "ih_faults order_host = no_faults" by (simp_all add: order_host_def)
  have "''k1'' \<notin> values_of ik_id (idempotency_keys old_db)" "''e1'' \<notin> values_of ev_id (events old_db)"
    "''t1'' \<notin> values_of tk_id (tickets old_db)"
    by (simp_all add: old_db_def old_key_row_def old_ticket_row_def new_ticket_row_def new_event_row_def)
  moreover have "ik_status old_key_row = IK_COMPLETED" "ik_createdAt old_key_row < 10"
    by (simp_all add: old_key_row_def new_idem_row_def)
  moreover have "tk_enrichmentStatus old_ticket_row \<in> {ES_PENDING, ES_DEGRADED}" by (simp add: old_ticket_row_def)
  ultimately have "out = Inr CR_NEW \<and> ''t1'' \<noteq> ''t0''
     \<and> ticket_key (tx_db (createTicketIfAbsent order_host ''order-1'' order_request d2)) ''order-1'' ''t0''
     \<and> ticket_key (tx_db (createTicketIfAbsent order_host ''order-1'' order_request d2)) ''order-1'' ''t1''"
    using retention_reopens_key [OF old_db_facts(1,2) _ _ old_db_facts(4,3) _ work, of order_host env_defaults 11 12 "''h2''" out d2] cl
    by (simp add: h)
  with work cl show ?thesis by blast
qed

end
