(* ===== verification/Correlation_Trace.thy ===== *)
theory Correlation_Trace
  imports Events Processor_Race Webhook_Delivery
begin

section \<open>One correlation id from the request to the webhook\<close>

text \<open>
  The middleware of src/main.ts, the id sources of src/common/logging/logging.config.ts, and the way of
  an id through the pipeline: request scope, job payload, upgrades and dead-letter replays, worker
  scope, outbox payload, relay scope, webhook header.
\<close>

subsection \<open>The request\<close>

text \<open>A header as node parses it; a repeated one is an array.\<close>

datatype header_value = No_Header | One_Value string | Many_Values "string list"

definition CORRELATION_HEADER :: string where
  "CORRELATION_HEADER = ''x-correlation-id''"

text \<open>\<open>(Array.isArray(incoming) ? incoming[0] : incoming) || randomUUID()\<close>.\<close>

definition request_correlation :: "string \<Rightarrow> header_value \<Rightarrow> string" where
  "request_correlation fresh incoming =
     (let first = (case incoming of No_Header \<Rightarrow> None | One_Value v \<Rightarrow> Some v
                   | Many_Values vs \<Rightarrow> (case vs of [] \<Rightarrow> None | v # _ \<Rightarrow> Some v))
      in case first of Some v \<Rightarrow> if v = '''' then fresh else v | None \<Rightarrow> fresh)"

text \<open>A scope is the store of the \<open>AsyncLocalStorage\<close>; the middleware opens one around the request.\<close>

type_synonym scope = "string option"

definition getCorrelationId :: "scope \<Rightarrow> string option" where
  "getCorrelationId store = store"

definition correlation_middleware ::
  "string \<Rightarrow> header_value \<Rightarrow> (scope \<Rightarrow> 'a) \<Rightarrow> (string \<times> string) list \<times> 'a" where
  "correlation_middleware fresh incoming handler =
     (let cid = request_correlation fresh incoming
      in ([(CORRELATION_HEADER, cid)], handler (Some cid)))"

subsection \<open>The logger\<close>

text \<open>
  \<open>genReqId\<close> casts the header to a string without looking: what it answers is a header value. The
  mixin stamps a line with the id in scope.
\<close>

definition genReqId :: "string \<Rightarrow> scope \<Rightarrow> header_value \<Rightarrow> header_value" where
  "genReqId fresh store incoming = (case getCorrelationId store of
       Some cid \<Rightarrow> One_Value cid
     | None \<Rightarrow> (case incoming of No_Header \<Rightarrow> One_Value fresh | v \<Rightarrow> v))"

definition log_mixin :: "scope \<Rightarrow> (string \<times> string) list" where
  "log_mixin store = (case getCorrelationId store of
       Some cid \<Rightarrow> if cid = '''' then [] else [(''correlationId'', cid)]
     | None \<Rightarrow> [])"

record logger_params =
  lp_level :: string
  lp_ignore :: "string \<Rightarrow> bool"
  lp_redact :: "string list"
  lp_pretty :: bool

definition buildLoggerParams :: "EnvVars \<Rightarrow> logger_params" where
  "buildLoggerParams env = \<lparr>lp_level = LOG_LEVEL env,
     lp_ignore = (\<lambda>url. url = ''/health'' \<or> url = ''/ready'' \<or> url = ''/metrics''),
     lp_redact = [''req.headers.authorization'', ''req.headers.cookie''],
     lp_pretty = (NODE_ENV env = ''development'')\<rparr>"

lemma request_correlation_nonempty: "fresh \<noteq> '''' \<Longrightarrow> request_correlation fresh incoming \<noteq> ''''"
  by (auto simp: request_correlation_def Let_def split: header_value.splits list.splits)

lemma request_correlation_honours:
  "v \<noteq> '''' \<Longrightarrow> request_correlation fresh (One_Value v) = v"
  "v \<noteq> '''' \<Longrightarrow> request_correlation fresh (Many_Values (v # vs)) = v"
  by (simp_all add: request_correlation_def)

text \<open>Inside a request the response header, the request's id and every log line carry the one id.\<close>

lemma request_scope_agrees:
  assumes "fresh \<noteq> ''''" and "cid = request_correlation fresh incoming"
  shows "correlation_middleware fresh incoming (\<lambda>st. (genReqId other st incoming, log_mixin st))
    = ([(CORRELATION_HEADER, cid)], One_Value cid, [(''correlationId'', cid)])"
  using request_correlation_nonempty [OF assms(1), of incoming] assms(2)
  by (simp add: correlation_middleware_def genReqId_def log_mixin_def getCorrelationId_def Let_def)

subsection \<open>The pipeline\<close>

text \<open>
  The jobs the code makes out of a job, read off the queue before and after a call: an \<open>add\<close> that put a
  job under a free id put the data it was given there, whether it answered or threw.
\<close>

lemma bull_add_new:
  assumes laws: "bull_laws Q jobs" and run: "bull_add Q nm data opts q = (res, q')"
    and new: "jobs q j = None" "jobs q' j = Some bj"
  shows "bj_data bj = data"
proof (cases res)
  case (Inl e)
  with bull_add_err [OF laws, of nm data opts q e q'] run new show ?thesis
    by (auto simp: new_job_def split: if_splits)
next
  case (Inr i)
  with bull_add_ok [OF laws, of nm data opts q i q'] run new show ?thesis
    by (auto simp: new_job_def split: if_splits)
qed

lemma ingest_new_job:
  assumes laws: "bull_laws (ih_bull H) jobs" and run: "ingest H env dto headerKey a = (res, a')"
    and new: "jobs (ap_queue a) j = None" "jobs (ap_queue a') j = Some bj"
  obtains t e where "bj_data bj = event_job H (event_key (request_hash H dto) dto headerKey) t e"
proof -
  let ?key = "event_key (request_hash H dto) dto headerKey"
  have moved: "ap_queue a' \<noteq> ap_queue a" using new by auto
  obtain d where "processNew H env ?key dto (a\<lparr>ap_db := d\<rparr>) = (res, a')"
    using run moved
    by (auto simp: ingest_def Let_def answer_claim_def split: sum.splits prod.splits claim_result.splits)
  then obtain t e out q where
    "enqueue (ih_bull H) env (event_job H ?key t e) (ap_queue a) = (out, q)" "ap_queue a' = q"
    using moved by (auto simp: processNew_def Let_def give_up_def split: sum.splits prod.splits option.splits)
  with bull_add_new [OF laws _ new] have "bj_data bj = event_job H ?key t e" by (auto simp: enqueue_def)
  then show thesis by (rule that)
qed

lemma scheduleUpgrade_new_job:
  assumes laws: "bull_laws Q jobs" and run: "scheduleUpgrade show_int r Q env data q = (res, q')"
    and new: "jobs q j = None" "jobs q' j = Some bj"
  obtains n where "bj_data bj = data\<lparr>jd_upgradeAttempt := Some n\<rparr>"
proof -
  have "q' \<noteq> q" using new by auto
  with run obtain n nm opts a where "bull_add Q nm (data\<lparr>jd_upgradeAttempt := Some n\<rparr>) opts q = (a, q')"
    by (auto simp: scheduleUpgrade_def enqueueUpgrade_def Let_def split: if_splits sum.splits prod.splits)
  from bull_add_new [OF laws this new] show thesis by (rule that)
qed

lemma process_job_new_job:
  assumes laws: "bull_laws (ph_bull H) jobs" and run: "process_job H env data p = (res, p')"
    and new: "jobs (pp_queue p) j = None" "jobs (pp_queue p') j = Some bj"
  obtains n where "bj_data bj = data\<lparr>jd_upgradeAttempt := Some n\<rparr>"
proof -
  obtain cid where in_scope: "process_in_scope H env data p cid = (res, p')"
    using run unfolding process_job_def runWithCorrelation_def by blast
  have "pp_queue p' \<noteq> pp_queue p" using new by auto
  with in_scope obtain a where
    "scheduleUpgrade (ph_show_int H) (ph_random H) (ph_bull H) env data (pp_queue p) = (a, pp_queue p')"
    by (auto simp: process_in_scope_def Let_def split: sum.splits prod.splits if_splits)
  then show thesis by (rule scheduleUpgrade_new_job [OF laws _ new]) (rule that)
qed

lemma dlq_replay_new_job:
  assumes laws: "bull_laws Q jobs" and ok: "schema_ok d" and row: "dl_row i d = Some r"
    and run: "dlq_replay Q env E now i q d = (res, q', d')"
    and new: "jobs q j = None" "jobs q' j = Some bj"
  shows "bj_data bj = (job_of_json (dl_payload r))\<lparr>jd_replayOf := Some i\<rparr>"
proof -
  obtain rows d1 where flip: "replay_flip now i d = (rows, d1)" by (rule prod.exhaust)
  have "q' \<noteq> q" using new by auto
  with run flip obtain x rest a where x: "rows = x # rest"
      "enqueueReplay Q env (job_of_json (dl_payload x)) i q = (a, q')"
    by (auto simp: dlq_replay_def split: option.splits list.splits sum.splits prod.splits)
  have "dl_payload x = dl_payload r"
    using replay_flip_rows [OF ok flip] row x(1) by (auto split: if_splits)
  with bull_add_new [OF laws x(2) [unfolded enqueueReplay_def] new] show ?thesis by simp
qed

lemma onFailed_new_letter:
  assumes "onFailed db_err probe nid now job err m d = (m', d')"
    and "letter \<in> set (dead_letters d')" and "letter \<notin> set (dead_letters d)"
  shows "dl_payload letter = job_json (rj_data job)"
  using assms
  by (auto simp: onFailed_def recordDeadLetter_def insert_dead_letter_def dead_letter_of_def
      split: if_splits option.splits sum.splits)

text \<open>
  The jobs that come of a first one, over the calls that make them: a run of \<open>process_job\<close> that put a job
  in the queue (an upgrade), and a \<open>dlq_replay\<close> that put one there for the letter \<open>onFailed\<close> wrote for a job,
  whatever happened in between, as long as the letter has kept its payload. \<open>W\<close> holds the workers.
\<close>

inductive lineage ::
  "('q, 'e) pipe_host set \<Rightarrow> ('q \<Rightarrow> string \<rightharpoonup> bull_job) \<Rightarrow> EnvVars \<Rightarrow> job_data \<Rightarrow> job_data \<Rightarrow> bool"
  for W jobs env d0 where
  itself: "lineage W jobs env d0 d0"
| worked: "lineage W jobs env d0 data \<Longrightarrow> H \<in> W \<Longrightarrow> process_job H env data p = (res, p') \<Longrightarrow>
    jobs (pp_queue p) j = None \<Longrightarrow> jobs (pp_queue p') j = Some bj \<Longrightarrow> lineage W jobs env d0 (bj_data bj)"
| replayed: "lineage W jobs env d0 (rj_data job) \<Longrightarrow>
    onFailed db_err probe nid now job err m d = (m', d1) \<Longrightarrow>
    letter \<in> set (dead_letters d1) \<Longrightarrow> letter \<notin> set (dead_letters d) \<Longrightarrow>
    schema_ok d2 \<Longrightarrow> dl_row i d2 = Some r \<Longrightarrow> dl_payload r = dl_payload letter \<Longrightarrow>
    H \<in> W \<Longrightarrow> dlq_replay (ph_bull H) env E later i q d2 = (ans, q', d3) \<Longrightarrow>
    jobs q j = None \<Longrightarrow> jobs q' j = Some bj \<Longrightarrow> lineage W jobs env d0 (bj_data bj)"

lemma lineage_correlation:
  assumes "lineage W jobs env d0 data" and laws: "\<And>X. X \<in> W \<Longrightarrow> bull_laws (ph_bull X) jobs"
  shows "jd_correlationId data = jd_correlationId d0"
  using assms(1)
proof (induction rule: lineage.induct)
  case itself
  show ?case by simp
next
  case (worked data H p res p' j bj)
  from process_job_new_job [OF laws [OF worked.hyps(2)] worked.hyps(3-5)] obtain n where
    "bj_data bj = data\<lparr>jd_upgradeAttempt := Some n\<rparr>" by blast
  with worked.IH show ?case by simp
next
  case (replayed job db_err probe nid now err m d m' d1 letter d2 i r H E later q ans q' d3 j bj)
  have "bj_data bj = (job_of_json (dl_payload r))\<lparr>jd_replayOf := Some i\<rparr>"
    by (rule dlq_replay_new_job [OF laws [OF replayed.hyps(8)] replayed.hyps(5,6,9-11)])
  moreover have "dl_payload r = job_json (rj_data job)"
    using onFailed_new_letter [OF replayed.hyps(2-4)] replayed.hyps(7) by simp
  ultimately show ?case using replayed.IH by (simp add: job_json_roundtrip)
qed

lemma persisted_row:
  assumes "row \<in> set (outbox_messages (tx_db (persistAndEmit F nid now i prior out data d)))"
    and "row \<notin> set (outbox_messages d)"
  obtains eventType where "row = new_outbox_row nid now (ticket_effect i eventType (effect_payload i out data))"
proof -
  let ?work = "persist_work nid now i prior out data :: (unit, unit) tx_work"
  obtain d2 where d2: "tx_db (persistAndEmit F nid now i prior out data d) = d2" by simp
  with assms have new: "row \<in> set (outbox_messages d2)" "row \<notin> set (outbox_messages d)" by simp_all
  then have "d2 \<noteq> d" by auto
  then obtain u where ran: "fst (?work () d) = Inr (u, d2)"
    using runInTransaction_atomic [of F ?work "()" d] d2 by (auto simp: persistAndEmit_def)
  obtain n d1 where upd: "update_ticket now i out d = (n, d1)" by fastforce
  have frame: "outbox_messages d1 = outbox_messages d" using update_ticket_frame [OF upd] by simp
  show thesis
  proof (cases n)
    case 0
    with ran upd new show thesis by (simp add: persist_work_def)
  next
    case (Suc k)
    show thesis
    proof (cases "side_effect prior out")
      case None
      with ran upd Suc frame new show thesis by (simp add: persist_work_def)
    next
      case (Some ev)
      with ran upd Suc obtain key where
        "emit nid now (ticket_effect i ev (effect_payload i out data)) d1 = Inr (key, d2)"
        by (auto simp: persist_work_def split: sum.splits prod.splits)
      with new frame have "row = new_outbox_row nid now (ticket_effect i ev (effect_payload i out data))"
        by (auto simp: emit_def Let_def split: if_splits)
      then show thesis by (rule that)
    qed
  qed
qed

text \<open>A network that records the requests it is given.\<close>

definition recording :: "(http_request \<Rightarrow> exn + http_response) \<Rightarrow> http_request list fetch" where
  "recording answer t req w = (answer req, w @ [req])"

lemma dispatch_recorded:
  "fst (fst (dispatchRow env now host (webhook_dispatch show_int env (recording answer)) row (w, m) d)) =
     w @ [runWithCorrelation (rh_uuid host (ob_id row)) (json_str (json_field ''correlationId'' (ob_payload row)))
            (\<lambda>cid. webhook_request env cid (message_of row))]"
  by (simp add: dispatchRow_def Let_def runWithCorrelation_def webhook_dispatch_def recording_def
      split: sum.splits prod.splits)

text \<open>An enricher that keeps the ids in scope when it is called, and a job that wrote an effect.\<close>

definition observed ::
  "(ticket_row \<Rightarrow> exn + EnrichmentOutcome) \<Rightarrow> string \<Rightarrow> ticket_row \<Rightarrow> string list \<Rightarrow> (exn + EnrichmentOutcome) \<times> string list" where
  "observed answer cid t scopes = (answer t, scopes @ [cid])"

lemma process_job_written:
  assumes run: "process_job H env data p = (res, p')" and enrich: "ph_enrich H = observed answer"
    and row: "row \<in> set (outbox_messages (pp_db p'))" "row \<notin> set (outbox_messages (pp_db p))"
  obtains i ev out where
    "pp_ai p' = pp_ai p @ [case jd_correlationId data of Some c \<Rightarrow> c | None \<Rightarrow> ph_minted H]"
    "row = new_outbox_row (ph_newid H) (ph_now H) (ticket_effect i ev (effect_payload i out data))"
proof -
  let ?cid = "case jd_correlationId data of Some c \<Rightarrow> c | None \<Rightarrow> ph_minted H"
  have in_scope: "process_in_scope H env data p ?cid = (res, p')"
    using run by (simp add: process_job_def runWithCorrelation_def)
  have "pp_db p' \<noteq> pp_db p" using row by auto
  with in_scope obtain t where t: "findByIdOrThrow (jd_ticketId data) (pp_db p) = Inr t"
    by (auto simp: process_in_scope_def split: sum.splits)
  with in_scope \<open>pp_db p' \<noteq> pp_db p\<close> obtain out where out: "answer t = Inr out"
    by (auto simp: process_in_scope_def Let_def enrich observed_def split: sum.splits)
  have "pp_ai p' = pp_ai p @ [?cid]"
    "pp_db p' = tx_db (persistAndEmit (ph_faults H) (ph_newid H) (ph_now H) (tk_id t) (tk_enrichmentStatus t) out data (pp_db p))"
    using in_scope t out
    by (auto simp: process_in_scope_def Let_def enrich observed_def split: sum.splits prod.splits if_splits)
  moreover from this(2) row obtain ev where
    "row = new_outbox_row (ph_newid H) (ph_now H) (ticket_effect (tk_id t) ev (effect_payload (tk_id t) out data))"
    by (metis persisted_row)
  ultimately show thesis by (intro that)
qed

text \<open>
  C23: one id traces a ticket end to end. The id of the request that submitted an event, the caller's own
  or a minted one, is never empty. Take the job that the submission put in the queue and any job that
  workers and dead-letter replays made out of it, however often, and let a worker run it: when this run
  writes an effect to the outbox, the enricher was called once, with that id in scope, whatever id the
  worker would have minted; and the relay's delivery of the row, at any later time, sends exactly one
  webhook request, with that id in its correlation header and the row's dedup key in its key header.
  (The jobs of the reconcile sweep carry no id and start a trace of their own.)
\<close>

theorem correlation_reaches_webhook:
  assumes "fresh \<noteq> ''''" and "cid = request_correlation fresh incoming"
    and "ih_correlation H = snd (correlation_middleware fresh incoming getCorrelationId)"
    and "bull_laws (ih_bull H) jobs" and "\<forall>X \<in> W. bull_laws (ph_bull X) jobs"
    and "ingest H env dto headerKey a = (res, a')"
    and "jobs (ap_queue a) j = None" and "jobs (ap_queue a') j = Some bj"
    and "lineage W jobs env (bj_data bj) data"
    and "process_job X env data p = (out, p')" and "ph_enrich X = observed enricher" and "pp_ai p = []"
    and "row \<in> set (outbox_messages (pp_db p'))" and "row \<notin> set (outbox_messages (pp_db p))"
  shows "cid \<noteq> '''' \<and> pp_ai p' = [cid]
    \<and> (\<exists>req. fst (fst (dispatchRow env later host (webhook_dispatch show_int env (recording answer)) row ([], m) d))
          = [req]
        \<and> header_of CORRELATION_HEADER req = Some cid \<and> header_of ''idempotency-key'' req = Some (ob_dedupKey row))"
proof -
  obtain t e where "bj_data bj = event_job H (event_key (request_hash H dto) dto headerKey) t e"
    by (rule ingest_new_job [OF assms(4,6-8)])
  then have "jd_correlationId data = Some cid"
    using lineage_correlation [OF assms(9) bspec [OF assms(5)]] assms(2,3)
    by (simp add: event_job_def correlation_middleware_def getCorrelationId_def Let_def)
  moreover obtain i ev o' where seen: "pp_ai p' = pp_ai p @ [case jd_correlationId data of Some c \<Rightarrow> c | None \<Rightarrow> ph_minted X]"
      and row: "row = new_outbox_row (ph_newid X) (ph_now X) (ticket_effect i ev (effect_payload i o' data))"
    by (rule process_job_written [OF assms(10,11,13,14)])
  ultimately have "json_str (json_field ''correlationId'' (ob_payload row)) = Some cid" "pp_ai p' = [cid]"
    using assms(12)
    by (simp_all add: ticket_effect_def effect_payload_def json_field_def js_get_def json_str_def str_or_null_def)
  with request_correlation_nonempty [OF assms(1)] assms(2) show ?thesis
    by (simp add: dispatch_recorded runWithCorrelation_def header_of_def webhook_request_def message_of_def
        CORRELATION_HEADER_def)
qed

text \<open>
  An order is accepted, its job degrades the ticket and schedules an upgrade; here the first run writes
  the effect. The worker would have minted \<open>m1\<close>.
\<close>

definition traced_worker :: "(ref_queue, string list) pipe_host" where
  "traced_worker = \<lparr>ph_bull = ref_bull, ph_enrich = observed (\<lambda>_. Inr degraded_outcome), ph_show_int = tally,
     ph_faults = no_faults, ph_random = 0, ph_newid = ''o1'', ph_minted = ''m1'', ph_now = 9\<rparr>"

definition traced_pipe :: "ref_queue \<Rightarrow> (ref_queue, string list) pipe" where
  "traced_pipe q = \<lparr>pp_db = fresh_db, pp_queue = q, pp_ai = [], pp_metrics = no_metrics\<rparr>"

lemma traced_row:
  "outbox_messages (pp_db (snd (process_job traced_worker env_defaults (event_job order_host ''order-1'' ''t1'' ''e1'')
      (traced_pipe q)))) = [new_outbox_row ''o1'' 9 (ticket_effect ''t1'' SIDE_EFFECT_TRIAGED
         (effect_payload ''t1'' degraded_outcome (event_job order_host ''order-1'' ''t1'' ''e1'')))]"
proof -
  let ?data = "event_job order_host ''order-1'' ''t1'' ''e1''"
  have job: "jd_ticketId ?data = ''t1''" by (simp add: event_job_def)
  have found: "findByIdOrThrow ''t1'' fresh_db = Inr sample_ticket"
    by (simp add: findByIdOrThrow_ok fresh_db_def sample_ticket_def)
  have fine: "tx_value (persistAndEmit no_faults ''o1'' 9 ''t1'' ES_PENDING degraded_outcome ?data fresh_db) = Inr ()"
    "outbox_messages (tx_db (persistAndEmit no_faults ''o1'' 9 ''t1'' ES_PENDING degraded_outcome ?data fresh_db))
      = [new_outbox_row ''o1'' 9 (ticket_effect ''t1'' SIDE_EFFECT_TRIAGED (effect_payload ''t1'' degraded_outcome ?data))]"
    by (simp_all add: persistAndEmit_def runInTransaction_no_faults persist_work_def
        update_ticket_def fresh_db_def empty_db_def sample_ticket_def may_write_def side_effect_def
        emit_def outcome_status Let_def)
  have t: "tk_id sample_ticket = ''t1''" "tk_enrichmentStatus sample_ticket = ES_PENDING" by (simp_all add: sample_ticket_def)
  show ?thesis
    by (simp add: process_job_def runWithCorrelation_def process_in_scope_def Let_def job found t fine traced_worker_def
        traced_pipe_def observed_def split: sum.splits prod.splits)
qed

theorem correlation_reaches_webhook_witness:
  "\<exists>row p' req. process_job traced_worker env_defaults (event_job order_host ''order-1'' ''t1'' ''e1'')
        (traced_pipe empty_queue) = p' \<and> outbox_messages (pp_db (snd p')) = [row] \<and> pp_ai (snd p') = [''c1'']
    \<and> fst (fst (dispatchRow env_defaults 20 half_host (webhook_dispatch tally env_defaults
        (recording (\<lambda>_. Inr OK_200))) row ([], no_metrics) empty_db)) = [req]
    \<and> header_of CORRELATION_HEADER req = Some ''c1''"
proof -
  let ?data = "event_job order_host ''order-1'' ''t1'' ''e1''"
  let ?q = "empty_queue\<lparr>rq_jobs := [(''order-1'', new_job ?data (standard_opts env_defaults ''order-1''))]\<rparr>"
  have enq: "enqueue (ih_bull order_host) env_defaults (event_job order_host ''order-1'' (ih_ticketId order_host)
        (ih_eventId order_host)) (ap_queue order_api) = (Inr ''order-1'', ?q)"
    by (simp add: enqueue_def ref_bull_def empty_queue_def order_host_def standard_opts_def order_id_ok event_job_def
        order_api_def)
  have h: "ih_faults order_host = no_faults" "ih_completed_err order_host = None" by (simp_all add: order_host_def)
  have e: "schema_ok (ap_db order_api)" "key_row ''order-1'' (ap_db order_api) = None"
      "ih_idemId order_host \<notin> values_of ik_id (idempotency_keys (ap_db order_api))"
      "ih_eventId order_host \<notin> values_of ev_id (events (ap_db order_api))"
      "ih_ticketId order_host \<notin> values_of tk_id (tickets (ap_db order_api))"
    by (simp_all add: order_api_def schema_ok_empty) (simp_all add: empty_db_def)
  obtain res a where a: "ingest order_host env_defaults order_request None order_api = (res, a)" "ap_queue a = ?q"
    using accepted_then_replayed_aux [OF e(1) order_key [symmetric] order_usable e(2-5) h enq] by blast
  have job: "ref_jobs (ap_queue order_api) ''order-1'' = None"
    "ref_jobs (ap_queue a) ''order-1'' = Some (new_job ?data (standard_opts env_defaults ''order-1''))"
    by (simp_all add: a(2) ref_jobs_def) (simp add: order_api_def empty_queue_def)
  have id: "''c1'' = request_correlation ''r1'' (One_Value ''c1'')"
    by (rule request_correlation_honours(1) [symmetric]) simp
  have host: "ih_correlation order_host = snd (correlation_middleware ''r1'' (One_Value ''c1'') getCorrelationId)"
      "bull_laws (ih_bull order_host) ref_jobs"
    by (simp_all add: order_host_def correlation_middleware_def getCorrelationId_def request_correlation_def Let_def
        ref_bull_laws)
  have laws: "\<forall>X \<in> {traced_worker}. bull_laws (ph_bull X) ref_jobs" by (simp add: traced_worker_def ref_bull_laws)
  have itself: "lineage {traced_worker} ref_jobs env_defaults (bj_data (new_job ?data (standard_opts env_defaults ''order-1''))) ?data"
    by (simp add: new_job_def lineage.itself)
  obtain out p' where run: "process_job traced_worker env_defaults ?data (traced_pipe empty_queue) = (out, p')"
    by (rule prod.exhaust)
  have worker: "ph_enrich traced_worker = observed (\<lambda>_. Inr degraded_outcome)" "pp_ai (traced_pipe empty_queue) = []"
    by (simp_all add: traced_worker_def traced_pipe_def)
  let ?row = "new_outbox_row ''o1'' 9 (ticket_effect ''t1'' SIDE_EFFECT_TRIAGED (effect_payload ''t1'' degraded_outcome ?data))"
  have rows: "outbox_messages (pp_db p') = [?row]" using traced_row [of empty_queue] by (simp add: run)
  have row: "?row \<in> set (outbox_messages (pp_db p'))" "?row \<notin> set (outbox_messages (pp_db (traced_pipe empty_queue)))"
    by (simp_all add: rows) (simp add: traced_pipe_def fresh_db_def empty_db_def)
  have "''r1'' \<noteq> ''''" by simp
  from correlation_reaches_webhook [OF this id host laws a(1) job itself run worker row, THEN conjunct2]
  have "pp_ai p' = [''c1'']"
    and "\<exists>req. fst (fst (dispatchRow env_defaults 20 half_host (webhook_dispatch tally env_defaults
        (recording (\<lambda>_. Inr OK_200))) ?row ([], no_metrics) empty_db)) = [req]
      \<and> header_of CORRELATION_HEADER req = Some ''c1''" by blast+
  with run rows show ?thesis by auto
qed

end
