(* ===== verification/Metrics_Text.thy ===== *)
theory Metrics_Text
  imports Observability Js_Values
begin

section \<open>The metric registry and its text\<close>

text \<open>
  The metrics \<open>MetricsService\<close> registers, and the series the counters and gauges of \<open>Observability\<close> are
  in the Prometheus text format. prom-client, which renders the registry, is not under src/: its output is
  a list of lines with the property \<open>scrape_ok\<close>, which is what the format's documentation says of the
  lines of our own metrics; the default process metrics and the histograms may be among the others.
\<close>

subsection \<open>What is registered\<close>

datatype metric_kind = Counter_Metric | Gauge_Metric | Histogram_Metric "rat list"

record metric_def =
  md_name :: string
  md_help :: string
  md_kind :: metric_kind
  md_labels :: "string list"

definition registry :: "metric_def list" where
  "registry =
     [\<lparr>md_name = ''events_ingested_total'', md_help = ''Events received at POST /events, by ingestion outcome.'',
        md_kind = Counter_Metric, md_labels = [''result'']\<rparr>,
      \<lparr>md_name = ''events_processed_total'', md_help = ''Pipeline jobs that completed successfully.'',
        md_kind = Counter_Metric, md_labels = []\<rparr>,
      \<lparr>md_name = ''events_failed_total'', md_help = ''Pipeline job failures, by terminal disposition.'',
        md_kind = Counter_Metric, md_labels = [''disposition'']\<rparr>,
      \<lparr>md_name = ''pipeline_queue_depth'', md_help = ''Jobs waiting + delayed in the pipeline queue.'',
        md_kind = Gauge_Metric, md_labels = [''state'']\<rparr>,
      \<lparr>md_name = ''dlq_depth'', md_help = ''Rows currently in the dead_letters table awaiting replay.'',
        md_kind = Gauge_Metric, md_labels = []\<rparr>,
      \<lparr>md_name = ''enrichment_latency_seconds'', md_help = ''Wall-clock latency of an enrichment attempt.'',
        md_kind = Histogram_Metric [5 / 100, 1 / 10, 25 / 100, 5 / 10, 1, 2, 5, 10], md_labels = [''source'']\<rparr>,
      \<lparr>md_name = ''enrichment_results_total'', md_help = ''Enrichment outcomes by source and result.'',
        md_kind = Counter_Metric, md_labels = [''source'', ''result'']\<rparr>,
      \<lparr>md_name = ''circuit_breaker_state'',
        md_help = ''Mistral circuit breaker state (0 closed, 0.5 half-open, 1 open).'',
        md_kind = Gauge_Metric, md_labels = [''breaker'']\<rparr>,
      \<lparr>md_name = ''outbox_pending'', md_help = ''Outbox rows in PENDING state (undelivered side effects).'',
        md_kind = Gauge_Metric, md_labels = []\<rparr>,
      \<lparr>md_name = ''outbox_messages_dispatched_total'', md_help = ''Outbox messages successfully delivered.'',
        md_kind = Counter_Metric, md_labels = []\<rparr>,
      \<lparr>md_name = ''outbox_messages_failed_total'',
        md_help = ''Outbox messages that exhausted attempts and went terminal (FAILED).'',
        md_kind = Counter_Metric, md_labels = []\<rparr>,
      \<lparr>md_name = ''retention_rows_pruned_total'', md_help = ''Rows deleted by the retention sweep, by table.'',
        md_kind = Counter_Metric, md_labels = [''table'']\<rparr>,
      \<lparr>md_name = ''outbox_dispatch_latency_seconds'', md_help = ''Latency of a single outbox dispatch attempt.'',
        md_kind = Histogram_Metric [1 / 100, 5 / 100, 1 / 10, 25 / 100, 5 / 10, 1, 2, 5], md_labels = []\<rparr>]"

definition metric_named :: "string \<Rightarrow> metric_def option" where
  "metric_named n = List.find (\<lambda>d. md_name d = n) registry"

text \<open>The series of a counter or gauge: its metric and its label values.\<close>

type_synonym series = "string \<times> (string \<times> string) list"

fun counter_series :: "counter \<Rightarrow> series" where
  "counter_series (EventsIngested r) = (''events_ingested_total'', [(''result'', r)])"
| "counter_series EventsProcessed = (''events_processed_total'', [])"
| "counter_series (EventsFailed x) = (''events_failed_total'', [(''disposition'', x)])"
| "counter_series (EnrichmentResults src r) = (''enrichment_results_total'', [(''source'', src), (''result'', r)])"
| "counter_series OutboxDispatched = (''outbox_messages_dispatched_total'', [])"
| "counter_series OutboxFailed = (''outbox_messages_failed_total'', [])"
| "counter_series (RetentionPruned t) = (''retention_rows_pruned_total'', [(''table'', t)])"

fun gauge_series :: "gauge \<Rightarrow> series" where
  "gauge_series (QueueDepth st) = (''pipeline_queue_depth'', [(''state'', st)])"
| "gauge_series DlqDepth = (''dlq_depth'', [])"
| "gauge_series (CircuitBreakerState b) = (''circuit_breaker_state'', [(''breaker'', b)])"
| "gauge_series OutboxPending = (''outbox_pending'', [])"

text \<open>A series uses the labels its metric declares, no others, in their order; names are not shared.\<close>

definition declared :: "metric_kind \<Rightarrow> series \<Rightarrow> bool" where
  "declared k s = (case metric_named (fst s) of
       Some d \<Rightarrow> md_kind d = k \<and> map fst (snd s) = md_labels d | None \<Rightarrow> False)"

lemma series_declared: "declared Counter_Metric (counter_series c)" "declared Gauge_Metric (gauge_series g)"
  by (cases c; simp add: declared_def metric_named_def registry_def)
     (cases g; simp add: declared_def metric_named_def registry_def)

lemma registry_names_distinct: "distinct (map md_name registry)"
  by code_simp

lemma series_inject:
  "counter_series c = counter_series c' \<longleftrightarrow> c = c'" "gauge_series g = gauge_series g'\<longleftrightarrow> g = g'"
  by (cases c; cases c'; simp) (cases g; cases g'; simp)

subsection \<open>The text\<close>

definition line_feed :: char where
  "line_feed = CHR 0x0A"

text \<open>Comments, samples, and the empty lines a registry puts between its metrics.\<close>

datatype exposition_line = Comment string | Blank | Sample series string

definition label_text :: "string \<times> string \<Rightarrow> string" where
  "label_text kv = fst kv @ ''=\"'' @ snd kv @ ''\"''"

fun labels_text :: "(string \<times> string) list \<Rightarrow> string" where
  "labels_text [] = ''''"
| "labels_text ls = ''{'' @ str_join '','' (map label_text ls) @ ''}''"

fun line_text :: "exposition_line \<Rightarrow> string" where
  "line_text (Comment s) = ''#'' @ s"
| "line_text Blank = ''''"
| "line_text (Sample (n, ls) v) = n @ labels_text ls @ '' '' @ v"

definition exposition :: "exposition_line list \<Rightarrow> string" where
  "exposition ls = concat (map (\<lambda>l. line_text l @ [line_feed]) ls)"

text \<open>
  The answer of \<open>GET /metrics\<close> (src/observability/metrics.controller.ts): what the registry renders, under
  its content type, never cached.
\<close>

record scrape_answer =
  sc_status :: int
  sc_headers :: "(string \<times> string) list"
  sc_body :: string

definition scrape :: "string \<Rightarrow> string \<Rightarrow> scrape_answer" where
  "scrape contentType rendered = \<lparr>sc_status = 200,
     sc_headers = [(''Cache-Control'', ''no-store''), (''Content-Type'', contentType)], sc_body = rendered\<rparr>"

text \<open>Characters of metric and label names, and of the numbers the page reads.\<close>

definition is_name_char :: "char \<Rightarrow> bool" where
  "is_name_char c \<longleftrightarrow> is_lower c \<or> is_upper c \<or> is_digit c \<or> c = CHR ''_'' \<or> c = CHR '':''"

definition is_number_char :: "char \<Rightarrow> bool" where
  "is_number_char c \<longleftrightarrow> is_digit c \<or> c \<in> set ''.e+-''"

definition is_terminator :: "char \<Rightarrow> bool" where
  "is_terminator c \<longleftrightarrow> c = line_feed \<or> c = CHR 0x0D"

text \<open>
  A line of the format: empty; or comments and label values without line ends (the format escapes them) and,
  as every label value of the program is, without closing brace or quote; a value without white space.
\<close>

definition plain_value :: "string \<Rightarrow> bool" where
  "plain_value v \<longleftrightarrow> list_all (\<lambda>c. \<not> is_terminator c \<and> c \<notin> {CHR ''}'', CHR 0x22, CHR '','', CHR ''='' }) v"

definition value_ok :: "string \<Rightarrow> bool" where
  "value_ok v \<longleftrightarrow> v \<noteq> [] \<and> list_all (\<lambda>c. \<not> is_space c) v"

fun line_ok :: "exposition_line \<Rightarrow> bool" where
  "line_ok (Comment s) = list_all (\<lambda>c. \<not> is_terminator c) s"
| "line_ok Blank = True"
| "line_ok (Sample (n, ls) v) = (n \<noteq> [] \<and> list_all is_name_char n \<and> value_ok v
     \<and> list_all (\<lambda>(k, x). list_all is_name_char k \<and> plain_value x) ls)"

text \<open>
  What a scrape says of the metrics: the lines are lines of the format; a sample of a registered metric has
  the labels the metric declares; the value of a series is its counter's or gauge's as \<open>Number\<close> reads it,
  in the page's number characters; a series without a line has not been touched, so its value is 0.
\<close>

definition sample_of :: "series \<Rightarrow> exposition_line list \<Rightarrow> string option" where
  "sample_of s ls = map_of (List.map_filter (\<lambda>l. case l of Sample s' v \<Rightarrow> Some (s', v) | _ \<Rightarrow> None) ls) s"

fun labels_declared :: "exposition_line \<Rightarrow> bool" where
  "labels_declared (Comment s) = True"
| "labels_declared Blank = True"
| "labels_declared (Sample (n, ls) v) =
     (case metric_named n of Some d \<Rightarrow> map fst ls = md_labels d | None \<Rightarrow> True)"

definition reads_as :: "(string \<Rightarrow> rat) \<Rightarrow> real \<Rightarrow> string option \<Rightarrow> bool" where
  "reads_as number x v \<longleftrightarrow> (case v of None \<Rightarrow> x = 0 | Some t \<Rightarrow> list_all is_number_char t \<and> of_rat (number t) = x)"

definition scrape_ok :: "(string \<Rightarrow> rat) \<Rightarrow> metrics \<Rightarrow> exposition_line list \<Rightarrow> bool" where
  "scrape_ok number m ls \<longleftrightarrow> list_all line_ok ls \<and> list_all labels_declared ls
     \<and> (\<forall>c. reads_as number (real (counters m c)) (sample_of (counter_series c) ls))
     \<and> (\<forall>g. reads_as number (gauges m g) (sample_of (gauge_series g) ls))"

lemma sample_of_Nil [simp]: "sample_of s [] = None"
  by (simp add: sample_of_def List.map_filter_def)

lemma sample_of_Cons [simp]:
  "sample_of s (Comment c # ls) = sample_of s ls" "sample_of s (Blank # ls) = sample_of s ls"
  "sample_of s (Sample s' v # ls) = (if s' = s then Some v else sample_of s ls)"
  by (simp_all add: sample_of_def List.map_filter_def)

end
