(* ===== verification/Demo_Client.thy ===== *)
theory Demo_Client
  imports Js_Values
begin

section \<open>The demo client (public/app.js)\<close>

text \<open>
  The page that drives the service from a browser: the escaping of what it shows, the request log, the
  submission form, the polling of a ticket and of its delivery, and the attacks with the condition under
  which each reports that the service held. The DOM is what these keep of it; the wording of messages is
  not modelled. The metrics panel is in \<open>Demo_Panel\<close>, the presets, the race and the wiring in \<open>Demo_Form\<close>. \<open>fetch\<close> is a parameter over a world \<open>'w\<close>; it
  rejects (\<open>None\<close>) or answers a status and a text, and \<open>parse\<close>, \<open>stringify\<close> are the JSON object's.
\<close>

subsection \<open>Escaping and the log\<close>

definition esc_char :: "char \<Rightarrow> string" where
  "esc_char c = (if c = CHR ''&'' then ''&amp;'' else if c = CHR ''<'' then ''&lt;''
     else if c = CHR ''>'' then ''&gt;'' else if c = CHR 0x22 then ''&quot;''
     else if c = CHR 0x27 then ''&#39;'' else [c])"

definition esc :: "string \<Rightarrow> string" where
  "esc s = concat (map esc_char s)"

text \<open>The characters that open or close a tag or an attribute value.\<close>

definition markup :: "string \<Rightarrow> string" where
  "markup s = filter (\<lambda>c. c \<in> {CHR ''<'', CHR ''>'', CHR 0x22, CHR 0x27}) s"

datatype log_status = Err | Code int

fun status_text :: "(int \<Rightarrow> string) \<Rightarrow> log_status \<Rightarrow> string" where
  "status_text show_int Err = ''ERR''"
| "status_text show_int (Code n) = show_int n"

definition status_class :: "(int \<Rightarrow> string) \<Rightarrow> log_status \<Rightarrow> string" where
  "status_class show_int s = (case s of Err \<Rightarrow> ''cE'' | Code n \<Rightarrow> ''c'' @ take 1 (show_int n))"

definition log_html :: "(int \<Rightarrow> string) \<Rightarrow> log_status \<Rightarrow> string \<Rightarrow> int \<Rightarrow> string" where
  "log_html show_int s path ms =
     ''<span class=\"code '' @ status_class show_int s @ ''\">'' @ esc (status_text show_int s) @ ''</span>''
     @ ''<span class=\"path\">'' @ esc path @ ''</span>''
     @ ''<span class=\"ms\">'' @ show_int ms @ ''ms</span>''"

datatype log_child = Placeholder | Entry string

text \<open>The box, first child first: the placeholder goes, the row is prepended, the last ones past 60 go.\<close>

definition LOG_MAX :: nat where
  "LOG_MAX = 60"

function trim_log :: "'a list \<Rightarrow> 'a list" where
  "trim_log box = (if LOG_MAX < length box then trim_log (butlast box) else box)"
  by auto
termination by (relation "measure length") (auto simp: LOG_MAX_def)

declare trim_log.simps [simp del]

definition log_row :: "string \<Rightarrow> log_child list \<Rightarrow> log_child list" where
  "log_row html box = trim_log (Entry html # remove1 Placeholder box)"

subsection \<open>Requests\<close>

record client_request =
  cq_method :: string
  cq_path :: string
  cq_query :: "(string \<times> string) list"
  cq_headers :: "(string \<times> string) list"
  cq_body :: "string option"

type_synonym 'w network = "client_request \<Rightarrow> 'w \<Rightarrow> (int \<times> string) option \<times> 'w"

record json_lib =
  js_parse :: "string \<Rightarrow> json option"
  js_stringify :: "json \<Rightarrow> string"

datatype submit_note =
  No_Note | Rejected | Key_Taken | Rate_Limited | Unexpected int | Network_Error

record submission =
  sm_key :: string
  sm_ticketId :: "json option"
  sm_body :: "(string \<times> json) list"

text \<open>What the page shows, and the world behind the network. The log keeps status and path of a row.\<close>

record 'w page =
  pg_world :: 'w
  pg_log :: "(log_status \<times> string \<times> string) list"
  pg_current :: "submission option"
  pg_stage :: "string \<Rightarrow> string"
  pg_note :: submit_note
  pg_verdicts :: "bool list"

definition client_request ::
  "json_lib \<Rightarrow> string \<Rightarrow> string \<Rightarrow> (string \<times> string) list \<Rightarrow> json option \<Rightarrow> string option \<Rightarrow> client_request" where
  "client_request J m path query bod key = \<lparr>cq_method = m, cq_path = path, cq_query = query,
     cq_headers = (if bod \<noteq> None then [(''content-type'', ''application/json'')] else [])
       @ (case key of Some k \<Rightarrow> if k \<noteq> '''' then [(''Idempotency-Key'', k)] else [] | None \<Rightarrow> []),
     cq_body = map_option (js_stringify J) bod\<rparr>"

text \<open>
  \<open>call\<close>: every request is logged with its status, or as ERR when \<open>fetch\<close> rejects, which is rethrown;
  a text that is not JSON is the payload itself.
\<close>

definition call ::
  "json_lib \<Rightarrow> 'w network \<Rightarrow> string \<Rightarrow> string \<Rightarrow> (string \<times> string) list \<Rightarrow> json option \<Rightarrow> string option \<Rightarrow> 'w page \<Rightarrow>
   (exn + int \<times> json) \<times> 'w page" where
  "call J net m path query bod key p =
     (case net (client_request J m path query bod key) (pg_world p) of
        (None, w) \<Rightarrow>
          (Inl (JsError ''fetch failed''), p\<lparr>pg_world := w, pg_log := trim_log ((Err, m, path) # pg_log p)\<rparr>)
      | (Some (status, text), w) \<Rightarrow>
          (Inr (status, case js_parse J text of Some j \<Rightarrow> j | None \<Rightarrow> JStr text),
           p\<lparr>pg_world := w, pg_log := trim_log ((Code status, m, path) # pg_log p)\<rparr>))"

definition truthy :: "json option \<Rightarrow> bool" where
  "truthy v = (case v of None \<Rightarrow> False | Some JNull \<Rightarrow> False | Some (JBool b) \<Rightarrow> b | Some (JNum x) \<Rightarrow> x \<noteq> 0
     | Some (JStr s) \<Rightarrow> s \<noteq> '''' | Some (JArr _) \<Rightarrow> True | Some (JObj _) \<Rightarrow> True)"

subsection \<open>Submitting\<close>

definition set_stage :: "string \<Rightarrow> string \<Rightarrow> 'w page \<Rightarrow> 'w page" where
  "set_stage name st p = p\<lparr>pg_stage := (pg_stage p)(name := st)\<rparr>"

definition resetPipeline :: "'w page \<Rightarrow> 'w page" where
  "resetPipeline p = fold (\<lambda>s. set_stage s '''') [''accepted'', ''queued'', ''classified'', ''notified''] p"

definition note_of :: "int \<Rightarrow> submit_note" where
  "note_of status = (if status = 400 then Rejected else if status = 409 then Key_Taken
     else if status = 429 then Rate_Limited else Unexpected status)"

definition form_key :: "string \<Rightarrow> string \<Rightarrow> string" where
  "form_key demo_key input = (if str_trim input = '''' then demo_key else str_trim input)"

definition form_body :: "string \<Rightarrow> string \<Rightarrow> string \<Rightarrow> (string \<times> json) list" where
  "form_body subj bod email =
     [(''subject'', JStr (str_trim subj)), (''body'', JStr (str_trim bod))]
     @ (if str_trim email = '''' then [] else [(''requesterEmail'', JStr (str_trim email))])"

text \<open>
  \<open>demo_key\<close> is \<open>demo-${Date.now()}\<close>. A property of a \<open>null\<close> payload throws, which the same \<open>catch\<close>
  answers. Polling starts when the answer is \<open>True\<close>.
\<close>

definition submitTicket ::
  "json_lib \<Rightarrow> 'w network \<Rightarrow> string \<Rightarrow> string \<Rightarrow> (string \<times> json) list \<Rightarrow> 'w page \<Rightarrow> bool \<times> 'w page" where
  "submitTicket J net demo_key key_input bod p =
     (let key = form_key demo_key key_input;
          p1 = set_stage ''accepted'' ''active'' (resetPipeline (p\<lparr>pg_note := No_Note\<rparr>))
      in case call J net ''POST'' ''/events'' [] (Some (JObj bod)) (Some key) p1 of
           (Inl _, p2) \<Rightarrow> (False, p2\<lparr>pg_note := Network_Error\<rparr>)
         | (Inr (status, payload), p2) \<Rightarrow>
             (if status \<noteq> 202 then (False, (set_stage ''accepted'' '''' p2)\<lparr>pg_note := note_of status\<rparr>)
              else if payload = JNull then (False, p2\<lparr>pg_note := Network_Error\<rparr>)
              else (True, set_stage ''classified'' ''active''
                 (set_stage ''queued'' (if truthy (json_field ''jobId'' payload) then ''done'' else ''active'')
                 (set_stage ''accepted'' ''done''
                 (p2\<lparr>pg_current := Some \<lparr>sm_key = key, sm_ticketId = json_field ''ticketId'' payload,
                     sm_body = bod\<rparr>\<rparr>))))))"

subsection \<open>Polling\<close>

text \<open>
  The poll of one ticket over the answers its requests get, one at a time. The first tick is awaited, then
  the interval is started, whatever that tick did; a rejected request ends a tick after the count, and the
  first one's rejection ends the poll. \<open>po_checks\<close> counts the delivery checks started.
\<close>

record poll =
  po_timer :: bool
  po_tries :: nat
  po_checks :: nat

definition POLL_MAX :: nat where
  "POLL_MAX = 40"

definition settled :: "json \<Rightarrow> bool" where
  "settled payload =
     (let e = json_field ''enrichment'' payload;
          st = (if truthy e then (case e of Some o' \<Rightarrow> json_field ''status'' o' | None \<Rightarrow> None) else None)
      in truthy st \<and> st \<noteq> Some (JStr ''PENDING''))"

definition poll_tick :: "exn + int \<times> json \<Rightarrow> poll \<Rightarrow> poll" where
  "poll_tick a p =
     (let p1 = p\<lparr>po_tries := po_tries p + 1\<rparr> in
      case a of
        Inl _ \<Rightarrow> p1
      | Inr (status, payload) \<Rightarrow>
          (if status \<noteq> 200 then p1\<lparr>po_timer := False\<rparr>
           else if payload = JNull then p1
           else if settled payload then p1\<lparr>po_timer := False, po_checks := po_checks p1 + 1\<rparr>
           else if POLL_MAX < po_tries p1 then p1\<lparr>po_timer := False\<rparr>
           else p1))"

fun poll_ticks :: "(exn + int \<times> json) list \<Rightarrow> poll \<Rightarrow> poll" where
  "poll_ticks [] p = p"
| "poll_ticks (a # as) p = (if po_timer p then poll_ticks as (poll_tick a p) else p)"

definition poll_start :: poll where
  "poll_start = \<lparr>po_timer = False, po_tries = 0, po_checks = 0\<rparr>"

definition tick_throws :: "exn + int \<times> json \<Rightarrow> bool" where
  "tick_throws a = (case a of Inl _ \<Rightarrow> True | Inr (status, payload) \<Rightarrow> status = 200 \<and> payload = JNull)"

fun pollTicket :: "json option \<Rightarrow> (exn + int \<times> json) list \<Rightarrow> poll" where
  "pollTicket ticketId [] = poll_start"
| "pollTicket ticketId (a # as) =
     (if \<not> truthy ticketId then poll_start
      else if tick_throws a then poll_tick a poll_start
      else poll_ticks as ((poll_tick a poll_start)\<lparr>po_timer := True\<rparr>))"

text \<open>The delivery check: at most 15 requests, a second apart.\<close>

datatype delivery_outcome = Delivered rat | Not_Exposed | No_Delivery | Lost

definition dedup_key :: "string \<Rightarrow> string" where
  "dedup_key ticketId = ''ticket:'' @ ticketId @ '':ticket.triaged:v1''"

fun check_from :: "nat \<Rightarrow> json_lib \<Rightarrow> 'w network \<Rightarrow> string \<Rightarrow> 'w page \<Rightarrow> delivery_outcome \<times> 'w page" where
  "check_from 0 J net ticketId p = (No_Delivery, set_stage ''notified'' '''' p)"
| "check_from (Suc n) J net ticketId p =
     (case call J net ''GET'' ''/_sink/deliveries'' [(''dedupKey'', dedup_key ticketId)] None None p of
        (Inl _, p1) \<Rightarrow> (Lost, p1)
      | (Inr (status, payload), p1) \<Rightarrow>
          (case (status = 200, json_field ''count'' payload) of
             (True, Some (JNum n')) \<Rightarrow>
               (if 1 \<le> n' then (Delivered n', set_stage ''notified'' ''done'' p1)
                else check_from n J net ticketId p1)
           | _ \<Rightarrow> (Not_Exposed, set_stage ''notified'' '''' p1)))"

definition checkDelivery :: "json_lib \<Rightarrow> 'w network \<Rightarrow> string \<Rightarrow> 'w page \<Rightarrow> delivery_outcome \<times> 'w page" where
  "checkDelivery J net ticketId p = check_from 15 J net ticketId (set_stage ''notified'' ''active'' p)"

subsection \<open>Attacks\<close>

definition verdict :: "bool \<Rightarrow> 'w page \<Rightarrow> 'w page" where
  "verdict held p = p\<lparr>pg_verdicts := held # pg_verdicts p\<rparr>"

text \<open>\<open>===\<close>: two objects or arrays of different responses are never the same.\<close>

fun primitive :: "json option \<Rightarrow> bool" where
  "primitive (Some (JArr _)) = False"
| "primitive (Some (JObj _)) = False"
| "primitive _ = True"

definition strict_eq :: "json option \<Rightarrow> json option \<Rightarrow> bool" where
  "strict_eq a b \<longleftrightarrow> a = b \<and> primitive a"

definition post_event ::
  "json_lib \<Rightarrow> 'w network \<Rightarrow> (string \<times> json) list \<Rightarrow> string \<Rightarrow> 'w page \<Rightarrow> (exn + int \<times> json) \<times> 'w page" where
  "post_event J net bod key p = call J net ''POST'' ''/events'' [] (Some (JObj bod)) (Some key) p"

type_synonym 'w attack = "json_lib \<Rightarrow> 'w network \<Rightarrow> submission \<Rightarrow> 'w page \<Rightarrow> (exn + unit) \<times> 'w page"

definition attack_duplicate :: "'w attack" where
  "attack_duplicate J net cur p =
     (case post_event J net (sm_body cur) (sm_key cur) p of
        (Inl e, p1) \<Rightarrow> (Inl e, p1)
      | (Inr (status, payload), p1) \<Rightarrow>
          (if payload = JNull then (Inl (JsError ''null''), p1)
           else (Inr (), verdict (json_field ''status'' payload = Some (JStr ''replayed'')
                   \<and> strict_eq (json_field ''ticketId'' payload) (sm_ticketId cur)) p1)))"

definition conflict_body :: "(string \<times> json) list" where
  "conflict_body = [(''subject'', JStr ''Something else entirely''),
     (''body'', JStr ''A completely different message body.'')]"

definition attack_conflict :: "'w attack" where
  "attack_conflict J net cur p =
     (case post_event J net conflict_body (sm_key cur) p of
        (Inl e, p1) \<Rightarrow> (Inl e, p1)
      | (Inr (status, payload), p1) \<Rightarrow> (Inr (), verdict (status = 409) p1))"

definition attack_badkey :: "'w attack" where
  "attack_badkey J net cur p =
     (case post_event J net (sm_body cur) ''order:123'' p of
        (Inl e, p1) \<Rightarrow> (Inl e, p1)
      | (Inr (st1, _), p1) \<Rightarrow>
          (case post_event J net (sm_body cur) ''12345'' p1 of
             (Inl e, p2) \<Rightarrow> (Inl e, p2)
           | (Inr (st2, _), p2) \<Rightarrow> (Inr (), verdict (st1 = 400 \<and> st2 = 400) p2)))"

text \<open>
  The race fires twelve requests at once; its verdict is over their results in the order of the array,
  a rejected one as status 0 with an empty payload. \<open>filter(Boolean)\<close> drops the falsy ids.
\<close>

definition race_results :: "(exn + int \<times> json) list \<Rightarrow> (int \<times> json) list" where
  "race_results rs = map (\<lambda>r. case r of Inl _ \<Rightarrow> (0, JObj []) | Inr x \<Rightarrow> x) rs"

definition race_held :: "(int \<times> json) list \<Rightarrow> bool" where
  "race_held rs \<longleftrightarrow>
     length (filter (\<lambda>(_, payload). json_field ''status'' payload = Some (JStr ''accepted'')) rs) = 1
   \<and> length (remdups (filter truthy (map (\<lambda>(_, payload). json_field ''ticketId'' payload) rs))) \<le> 1"

text \<open>The flood: thirty submissions in turn, then the liveness probe.\<close>

fun flood_codes ::
  "json_lib \<Rightarrow> 'w network \<Rightarrow> (nat \<Rightarrow> (string \<times> json) list \<times> string) \<Rightarrow> nat \<Rightarrow> 'w page \<Rightarrow>
   (exn + int list) \<times> 'w page" where
  "flood_codes J net req 0 p = (Inr [], p)"
| "flood_codes J net req (Suc n) p =
     (case post_event J net (fst (req n)) (snd (req n)) p of
        (Inl e, p1) \<Rightarrow> (Inl e, p1)
      | (Inr (status, _), p1) \<Rightarrow>
          (case flood_codes J net req n p1 of
             (Inl e, p2) \<Rightarrow> (Inl e, p2)
           | (Inr codes, p2) \<Rightarrow> (Inr (status # codes), p2)))"

definition flood_held :: "int list \<Rightarrow> int \<Rightarrow> bool" where
  "flood_held codes health \<longleftrightarrow> 0 < length (filter (\<lambda>c. c = 429) codes) \<and> health = 200"

definition attack_flood :: "(nat \<Rightarrow> (string \<times> json) list \<times> string) \<Rightarrow> 'w attack" where
  "attack_flood req J net cur p =
     (case flood_codes J net req 30 p of
        (Inl e, p1) \<Rightarrow> (Inl e, p1)
      | (Inr codes, p1) \<Rightarrow>
          (case call J net ''GET'' ''/health'' [] None None p1 of
             (Inl e, p2) \<Rightarrow> (Inl e, p2)
           | (Inr (status, _), p2) \<Rightarrow> (Inr (), verdict (flood_held codes status) p2)))"

text \<open>A click on an attack: nothing without a submission; an error is a failed verdict.\<close>

definition click_attack :: "'w attack \<Rightarrow> json_lib \<Rightarrow> 'w network \<Rightarrow> 'w page \<Rightarrow> 'w page" where
  "click_attack att J net p = (case pg_current p of
       None \<Rightarrow> p
     | Some cur \<Rightarrow> (case att J net cur p of (Inl _, p1) \<Rightarrow> verdict False p1 | (Inr _, p1) \<Rightarrow> p1))"

subsection \<open>What the page shows is text\<close>

lemma markup_append [simp]: "markup (s @ t) = markup s @ markup t"
  by (simp add: markup_def)

lemma markup_Nil [simp]: "markup [] = []"
  by (simp add: markup_def)

lemma markup_Cons:
  "markup (c # s) = (if c \<in> {CHR ''<'', CHR ''>'', CHR 0x22, CHR 0x27} then c # markup s else markup s)"
  by (simp add: markup_def)

lemma markup_esc_char: "markup (esc_char c) = ''''"
  by (simp add: esc_char_def markup_def)

lemma markup_esc [simp]: "markup (esc s) = ''''"
  by (induction s) (simp_all add: esc_def markup_esc_char)

lemma markup_pieces:
  "markup ''<span class=\"code '' = ''<\"''" "markup ''\">'' = ''\">''" "markup ''</span>'' = ''<>''"
  "markup ''<span class=\"path\">'' = ''<\"\">''" "markup ''<span class=\"ms\">'' = ''<\"\">''"
  "markup ''ms</span>'' = ''<>''"
  by (simp_all add: markup_def)

text \<open>The entities are uniquely readable, so escaping loses nothing.\<close>

lemma esc_char_prefix:
  assumes "esc_char a @ s = esc_char b @ t"
  shows "a = b \<and> s = t"
  using assms by (auto simp: esc_char_def split: if_splits)

lemma esc_char_nonempty [simp]: "esc_char c \<noteq> []"
  by (simp add: esc_char_def)

lemma esc_inject: "esc s = esc t \<longleftrightarrow> s = t"
proof (induction s arbitrary: t)
  case Nil
  then show ?case by (cases t) (simp_all add: esc_def)
next
  case (Cons c s)
  show ?case
  proof (cases t)
    case Nil
    then show ?thesis by (simp add: esc_def)
  next
    case (Cons d t')
    have "esc_char c @ esc s = esc_char d @ esc t' \<longleftrightarrow> c = d \<and> esc s = esc t'"
      using esc_char_prefix by auto
    with Cons.IH Cons show ?thesis by (simp add: esc_def)
  qed
qed

lemma trim_log_take: "trim_log box = take LOG_MAX box"
proof (induction box rule: trim_log.induct)
  case (1 box)
  show ?case
  proof (cases "LOG_MAX < length box")
    case True
    then have "trim_log box = take LOG_MAX (butlast box)" using 1 by (subst trim_log.simps) simp
    also have "\<dots> = take LOG_MAX box" using True by (simp add: butlast_conv_take)
    finally show ?thesis .
  next
    case False
    then show ?thesis by (subst trim_log.simps) simp
  qed
qed

lemma log_row_newest: "Placeholder \<notin> set box \<Longrightarrow> log_row html box = take LOG_MAX (Entry html # box)"
  by (simp add: log_row_def trim_log_take remove1_idem)

lemma call_log: "\<exists>st. pg_log (snd (call J net m path query bod key p)) = take LOG_MAX ((st, m, path) # pg_log p)"
  by (auto simp: call_def trim_log_take split: prod.splits option.splits)

text \<open>
  What the service answers is shown as text. Whatever status, path and duration are logged, the row's
  HTML has the tags and quotes of its template and no other, so nothing in a response can add an element
  or leave an attribute; what is shown is what was answered, two strings escaping alike only if equal; and
  however many calls are made, the log keeps the last sixty, newest first.
\<close>

lemma log_rows_inert:
  assumes "\<And>n. markup (show_int n) = ''''"
  shows "markup (log_html show_int s path ms) = ''<\"\"><><\"\"><><\"\"><>''
    \<and> (esc path = esc other \<longleftrightarrow> path = other)
    \<and> (\<exists>st. pg_log (snd (call J net m path query bod key p)) = take LOG_MAX ((st, m, path) # pg_log p))"
proof -
  have "markup (take 1 (show_int n)) = ''''" for n
    using assms [of n] by (cases "show_int n") (auto simp: markup_Cons split: if_splits)
  then have cls: "markup (status_class show_int s) = []"
    by (cases s) (simp_all add: status_class_def markup_Cons)
  have row: "markup (log_html show_int s path ms) = ''<\"\"><><\"\"><><\"\"><>''"
    unfolding log_html_def markup_append markup_pieces markup_esc assms cls by simp
  show ?thesis by (intro conjI row esc_inject call_log)
qed

lemma log_rows_inert_witness:
  "markup (log_html (\<lambda>n. if n = 200 then ''200'' else ''7'') (Code 200) ''GET /<b>'' 7) = ''<\"\"><><\"\"><><\"\"><>''"
  by (rule log_rows_inert [THEN conjunct1]) (simp add: markup_Cons)

subsection \<open>Polling ends\<close>

lemma poll_tick_tries: "po_tries (poll_tick a p) = Suc (po_tries p)"
  by (simp add: poll_tick_def Let_def split: sum.splits prod.splits)

lemma poll_tick_stops:
  "\<not> tick_throws a \<Longrightarrow> POLL_MAX \<le> po_tries p \<Longrightarrow> \<not> po_timer (poll_tick a p)"
  by (auto simp: poll_tick_def tick_throws_def Let_def split: sum.splits prod.splits)

lemma poll_ticks_bounded:
  "list_all (\<lambda>a. \<not> tick_throws a) as \<Longrightarrow> po_tries p \<le> POLL_MAX + 1 \<Longrightarrow>
     po_timer p \<longrightarrow> po_tries p \<le> POLL_MAX \<Longrightarrow> po_tries (poll_ticks as p) \<le> POLL_MAX + 1"
proof (induction as arbitrary: p)
  case Nil
  then show ?case by simp
next
  case (Cons a as)
  show ?case
  proof (cases "po_timer p")
    case True
    with Cons.prems have "po_tries (poll_tick a p) \<le> POLL_MAX + 1" by (simp add: poll_tick_tries)
    moreover have "po_timer (poll_tick a p) \<longrightarrow> po_tries (poll_tick a p) \<le> POLL_MAX"
    proof
      assume "po_timer (poll_tick a p)"
      with poll_tick_stops [of a p] Cons.prems(1) have "\<not> POLL_MAX \<le> po_tries p" by auto
      then show "po_tries (poll_tick a p) \<le> POLL_MAX" by (simp add: poll_tick_tries)
    qed
    ultimately show ?thesis using Cons.IH Cons.prems(1) True by simp
  next
    case False
    with Cons.prems show ?thesis by simp
  qed
qed

text \<open>A poll whose requests are answered makes at most 41 of them.\<close>

lemma poll_bounded:
  assumes "list_all (\<lambda>a. \<not> tick_throws a) as"
  shows "po_tries (pollTicket t as) \<le> POLL_MAX + 1"
proof (cases as)
  case Nil
  then show ?thesis by (simp add: poll_start_def)
next
  case (Cons a bs)
  with assms have "po_tries (poll_ticks bs ((poll_tick a poll_start)\<lparr>po_timer := True\<rparr>)) \<le> POLL_MAX + 1"
    by (intro poll_ticks_bounded) (simp_all add: poll_tick_tries poll_start_def POLL_MAX_def)
  with Cons show ?thesis by (simp add: poll_start_def poll_tick_tries)
qed

text \<open>
  A ticket already triaged at the first tick is polled once more and its delivery checked twice: the
  interval starts after the tick that should have ended the poll.
\<close>

lemma poll_checks_twice:
  assumes "truthy t" and "settled x" and "x \<noteq> JNull"
  shows "pollTicket t [Inr (200, x), Inr (200, x)] = \<lparr>po_timer = False, po_tries = 2, po_checks = 2\<rparr>"
  using assms by (simp add: tick_throws_def poll_tick_def poll_start_def Let_def)

text \<open>A race whose requests were all rate limited reports that the service failed.\<close>

lemma race_limited_reports_failure: "\<not> race_held (race_results (replicate 12 (Inr (429, payload))))"
proof -
  have "length (filter (\<lambda>(_, q). json_field ''status'' q = Some (JStr ''accepted'')) (replicate 12 (429 :: int, payload))) \<noteq> 1"
    by (simp add: numeral_eq_Suc)
  then show ?thesis by (simp add: race_held_def race_results_def)
qed

end
