(* ===== verification/Probes.thy ===== *)
theory Probes
  imports Processor
begin

section \<open>Probes and gauges (src/health, src/pipeline/pipeline.observer.ts)\<close>

text \<open>
  The readiness of Redis as a race between the reply to a PING and a timer, the two probes, and the
  sampling of queue and dead-letter depth. Terminus, which runs the indicators, is not under src/: it is a
  parameter of the probes, with \<open>terminus_laws\<close>.
\<close>

subsection \<open>Redis\<close>

text \<open>An indicator's verdict: up, or down with a message; and whether its timer is still running.\<close>

datatype indicator = Up | Down string

record probe_run =
  pr_verdict :: indicator
  pr_at :: int
  pr_timer :: bool

text \<open>
  \<open>Promise.race\<close>: the ping when it settles before the timer fires; \<open>finally\<close> clears the timer.
\<close>

definition redis_race :: "int \<Rightarrow> string promise \<Rightarrow> int \<times> (exn + string)" where
  "redis_race timeoutMs ping = (case ping of
       Some (t, r) \<Rightarrow> if t < timeoutMs then (t, r) else (timeoutMs, Inl (JsError ''redis ping timed out''))
     | None \<Rightarrow> (timeoutMs, Inl (JsError ''redis ping timed out'')))"

definition redis_isHealthy :: "int \<Rightarrow> string promise \<Rightarrow> probe_run" where
  "redis_isHealthy timeoutMs ping =
     (let (at_ms, r) = redis_race timeoutMs ping;
          verdict = (case r of
              Inl e \<Rightarrow> Down (exn_message e)
            | Inr pong \<Rightarrow> if pong \<noteq> ''PONG'' then Down (''unexpected ping reply: '' @ pong) else Up)
      in \<lparr>pr_verdict = verdict, pr_at = at_ms, pr_timer = False\<rparr>)"

lemma redis_probe_answers:
  assumes "\<And>t r. ping = Some (t, r) \<Longrightarrow> 0 \<le> t" and "0 \<le> timeoutMs"
  shows "0 \<le> pr_at (redis_isHealthy timeoutMs ping) \<and> pr_at (redis_isHealthy timeoutMs ping) \<le> timeoutMs
    \<and> \<not> pr_timer (redis_isHealthy timeoutMs ping)
    \<and> (pr_verdict (redis_isHealthy timeoutMs ping) = Up \<longleftrightarrow>
         (\<exists>t < timeoutMs. ping = Some (t, Inr ''PONG'')))"
  using assms
  by (auto simp: redis_isHealthy_def redis_race_def Let_def split: option.splits sum.splits if_splits)

subsection \<open>Liveness and readiness\<close>

text \<open>Terminus runs every indicator: 200 if all are up, 503 if one is down.\<close>

type_synonym terminus = "indicator list \<Rightarrow> int"

definition terminus_laws :: "terminus \<Rightarrow> bool" where
  "terminus_laws T \<longleftrightarrow> (\<forall>is. T is = (if list_all (\<lambda>i. i = Up) is then 200 else 503))"

definition REDIS_PROBE_TIMEOUT_MS :: int where
  "REDIS_PROBE_TIMEOUT_MS = 2000"

definition liveness :: "terminus \<Rightarrow> int" where
  "liveness T = T []"

definition readiness :: "terminus \<Rightarrow> indicator \<Rightarrow> string promise \<Rightarrow> int" where
  "readiness T postgres ping = T [postgres, pr_verdict (redis_isHealthy REDIS_PROBE_TIMEOUT_MS ping)]"

lemma probes_answer:
  assumes "terminus_laws T"
  shows "liveness T = 200"
    and "readiness T postgres ping = 200 \<longleftrightarrow> postgres = Up \<and> (\<exists>t < 2000. ping = Some (t, Inr ''PONG''))"
    and "readiness T postgres ping \<in> {200, 503}"
  using assms
  by (auto simp: liveness_def readiness_def terminus_laws_def redis_isHealthy_def redis_race_def Let_def
      REDIS_PROBE_TIMEOUT_MS_def split: option.splits sum.splits if_splits)

subsection \<open>The observer\<close>

definition COLLECT_INTERVAL_MS :: int where
  "COLLECT_INTERVAL_MS = 5000"

record observer =
  os_timer :: bool
  os_stopped :: bool

definition observer_onModuleInit :: "observer \<Rightarrow> observer" where
  "observer_onModuleInit o' = o'\<lparr>os_timer := True\<rparr>"

definition observer_onModuleDestroy :: "observer \<Rightarrow> observer" where
  "observer_onModuleDestroy o' = o'\<lparr>os_stopped := True, os_timer := False\<rparr>"

text \<open>\<open>PipelineProducer.getJobCounts\<close>: the states asked for; \<open>ask\<close> is BullMQ's \<open>getJobCounts\<close>.\<close>

definition getJobCounts :: "(string list \<Rightarrow> 'q \<Rightarrow> exn + (string \<rightharpoonup> nat)) \<Rightarrow> 'q \<Rightarrow> exn + (string \<rightharpoonup> nat)" where
  "getJobCounts ask q = ask [''waiting'', ''active'', ''delayed'', ''failed'', ''completed''] q"

text \<open>
  One sampling. \<open>counts\<close> are the job counts BullMQ answered, or its error; a state it leaves out counts
  as 0. \<open>depth\<close> is the count query's answer. A failure keeps what was set before it.
\<close>

definition queue_states :: "string list" where
  "queue_states = [''waiting'', ''active'', ''delayed'', ''failed'']"

definition set_queue_depths :: "(string \<rightharpoonup> nat) \<Rightarrow> metrics \<Rightarrow> metrics" where
  "set_queue_depths counts m = fold (\<lambda>st. set_gauge (QueueDepth st)
     (case counts st of Some n \<Rightarrow> real n | None \<Rightarrow> 0)) queue_states m"

definition collect :: "observer \<Rightarrow> exn + (string \<rightharpoonup> nat) \<Rightarrow> exn + nat \<Rightarrow> metrics \<Rightarrow> metrics" where
  "collect o' counts depth m =
     (if os_stopped o' then m
      else (case counts of
              Inl _ \<Rightarrow> m
            | Inr c \<Rightarrow>
                (let m1 = set_queue_depths c m in
                 case depth of Inl _ \<Rightarrow> m1 | Inr n \<Rightarrow> set_gauge DlqDepth (real n) m1)))"

lemma gauges_set [simp]: "gauges (set_gauge g v m) = (gauges m)(g := v)"
  by (simp add: set_gauge_def)

text \<open>Sampling never counts anything, and touches only its own gauges; a full one shows the dead letters.\<close>

lemma collect_frame:
  "counters (collect o' counts depth m) = counters m
   \<and> gauges (collect o' counts depth m) OutboxPending = gauges m OutboxPending
   \<and> gauges (collect o' counts depth m) (CircuitBreakerState b) = gauges m (CircuitBreakerState b)"
  by (simp add: collect_def set_queue_depths_def queue_states_def Let_def split: sum.splits)

lemma collect_depths:
  assumes "\<not> os_stopped o'" and "m' = collect o' (Inr c) (Inr (pendingCount d)) m"
  shows "gauges m' DlqDepth = real (pendingCount d)
    \<and> (\<forall>st. st \<in> set queue_states \<longrightarrow> gauges m' (QueueDepth st) = (case c st of Some n \<Rightarrow> real n | None \<Rightarrow> 0))"
  using assms by (auto simp: collect_def set_queue_depths_def queue_states_def Let_def)

end
