(* ===== verification/Demo_Panel.thy ===== *)
theory Demo_Panel
  imports Metrics_Text Demo_Client Probes
begin

section \<open>The demo client's panel (public/app.js)\<close>

text \<open>
  The part of the page that reads \<open>/metrics\<close> and \<open>/ready\<close>: the regular expression of \<open>metric\<close> as a
  matcher on the whole text, the cells \<open>refreshMetrics\<close> sets from it, and the light of \<open>refreshHealth\<close>.
  \<open>number\<close> is JavaScript's \<open>Number\<close>.
\<close>

subsection \<open>metric\<close>

text \<open>
  \<open>^name{[^}]*labels[^}]*}\s+([0-9.e+-]+)$\<close>, or with an optional \<open>{}\<close> in place of the labels, at one
  position. White space and number characters exclude each other, so backtracking never changes a match.
\<close>

definition match_value :: "string \<Rightarrow> string option" where
  "match_value s =
     (let rest = dropWhile is_space s; v = takeWhile is_number_char rest; after = dropWhile is_number_char rest in
      if rest \<noteq> s \<and> v \<noteq> [] \<and> (after = [] \<or> is_terminator (hd after)) then Some v else None)"

definition match_labels :: "string option \<Rightarrow> string \<Rightarrow> string option" where
  "match_labels labels s = (case labels of
       None \<Rightarrow> Some (if starts_with ''{}'' s then drop 2 s else s)
     | Some l \<Rightarrow>
         (case s of
            c # s' \<Rightarrow>
              (let inside = takeWhile (\<lambda>c. c \<noteq> CHR ''}'') s'; after = dropWhile (\<lambda>c. c \<noteq> CHR ''}'') s' in
               if c = CHR ''{'' \<and> str_includes inside l \<and> after \<noteq> [] then Some (tl after) else None)
          | [] \<Rightarrow> None))"

definition match_here :: "string \<Rightarrow> string option \<Rightarrow> string \<Rightarrow> string option" where
  "match_here name labels s =
     (if starts_with name s
      then (case match_labels labels (drop (length name) s) of Some r \<Rightarrow> match_value r | None \<Rightarrow> None)
      else None)"

text \<open>The first match from the left; \<open>^\<close> matches at the start and after a line terminator.\<close>

fun match_from :: "string \<Rightarrow> string option \<Rightarrow> bool \<Rightarrow> string \<Rightarrow> string option" where
  "match_from name labels at_start [] = (if at_start then match_here name labels [] else None)"
| "match_from name labels at_start (c # s) =
     (case (if at_start then match_here name labels (c # s) else None) of
        Some v \<Rightarrow> Some v
      | None \<Rightarrow> match_from name labels (is_terminator c) s)"

definition metric :: "(string \<Rightarrow> rat) \<Rightarrow> string \<Rightarrow> string \<Rightarrow> string option \<Rightarrow> rat option" where
  "metric number t name labels = map_option number (match_from name labels True t)"

subsection \<open>refreshMetrics and refreshHealth\<close>

text \<open>The cells by their element id; a cell's \<open>zero\<close> class; the breaker's text; the light and its text.\<close>

record panel =
  pn_cell :: "string \<Rightarrow> rat option"
  pn_zero :: "string \<Rightarrow> bool"
  pn_breaker :: "string option"
  pn_dot :: string
  pn_status :: string

definition cell_value :: "rat option \<Rightarrow> rat" where
  "cell_value v = (case v of None \<Rightarrow> 0 | Some x \<Rightarrow> x)"

definition set_cell :: "string \<Rightarrow> rat option \<Rightarrow> bool \<Rightarrow> panel \<Rightarrow> panel" where
  "set_cell i v invertColour p =
     (let n = cell_value v in
      p\<lparr>pn_cell := (pn_cell p)(i := Some n),
        pn_zero := (if invertColour then (pn_zero p)(i := (n = 0)) else pn_zero p)\<rparr>)"

definition breaker_text :: "rat \<Rightarrow> string" where
  "breaker_text b = (if b = 1 then ''open'' else if b = 1 / 2 then ''half'' else ''closed'')"

definition show_metrics :: "(string \<Rightarrow> rat) \<Rightarrow> string \<Rightarrow> panel \<Rightarrow> panel" where
  "show_metrics number t p =
     (let m = metric number t;
          p1 = set_cell ''m_accepted'' (m ''events_ingested_total'' (Some (''result=\"accepted\"''))) False p;
          p2 = set_cell ''m_duplicate'' (m ''events_ingested_total'' (Some (''result=\"duplicate\"''))) False p1;
          p3 = set_cell ''m_conflict'' (m ''events_ingested_total'' (Some (''result=\"conflict\"''))) False p2;
          p4 = set_cell ''m_queue'' (m ''pipeline_queue_depth'' (Some (''state=\"waiting\"''))) False p3;
          p5 = set_cell ''m_outbox'' (m ''outbox_pending'' None) False p4;
          p6 = set_cell ''m_dlq'' (m ''dlq_depth'' None) True p5;
          p7 = set_cell ''m_abandoned'' (m ''outbox_messages_failed_total'' None) True p6
      in case m ''circuit_breaker_state'' (Some (''breaker=\"mistral\"'')) of
           None \<Rightarrow> p7
         | Some b \<Rightarrow> p7\<lparr>pn_breaker := Some (breaker_text b)\<rparr>)"

text \<open>\<open>Response.ok\<close> of a status.\<close>

definition status_ok :: "int \<Rightarrow> bool" where
  "status_ok st \<longleftrightarrow> 200 \<le> st \<and> st \<le> 299"

text \<open>\<open>None\<close> is a request that failed; otherwise its \<open>ok\<close> and its text. A failure waits for the next tick.\<close>

definition refreshMetrics :: "(string \<Rightarrow> rat) \<Rightarrow> (bool \<times> string) option \<Rightarrow> panel \<Rightarrow> panel" where
  "refreshMetrics number res p = (case res of
       None \<Rightarrow> p
     | Some (ok, t) \<Rightarrow> if \<not> ok then p else show_metrics number t p)"

definition middle_dot :: string where
  "middle_dot = [CHR 0xB7]"

definition refreshHealth :: "bool option \<Rightarrow> panel \<Rightarrow> panel" where
  "refreshHealth res p = (case res of
       None \<Rightarrow> p\<lparr>pn_dot := ''dot down'', pn_status := ''unreachable''\<rparr>
     | Some up \<Rightarrow> p\<lparr>pn_dot := ''dot '' @ (if up then ''up'' else ''down''),
         pn_status := (if up then ''live '' @ middle_dot @ '' postgres + redis reachable'' else ''not ready'')\<rparr>)"

subsection \<open>Matching a line\<close>

lemma takeWhile_stop: "list_all P xs \<Longrightarrow> \<not> P c \<Longrightarrow> takeWhile P (xs @ c # ys) = xs"
  by (induction xs) auto

lemma dropWhile_stop: "list_all P xs \<Longrightarrow> \<not> P c \<Longrightarrow> dropWhile P (xs @ c # ys) = c # ys"
  by (induction xs) auto

lemma line_feed_facts: "is_terminator line_feed" "\<not> is_number_char line_feed" "is_space line_feed" "\<not> is_name_char line_feed"
  by code_simp+

lemma space_facts: "is_space CHR '' ''" "\<not> is_name_char CHR '' ''" "\<not> is_name_char CHR ''{''" "\<not> is_name_char CHR ''#''"
  "\<not> is_space CHR ''{''"
  by code_simp+

lemma number_not_space: "is_number_char c \<Longrightarrow> \<not> is_space c"
  by (auto simp: is_number_char_def is_digit_def is_space_def code_def)

lemma first_other:
  assumes "\<not> list_all P v"
  obtains a y b where "v = a @ y # b" "list_all P a" "\<not> P y"
proof -
  from assms have "\<exists>a y b. v = a @ y # b \<and> list_all P a \<and> \<not> P y"
  proof (induction v)
    case (Cons c v)
    show ?case
    proof (cases "P c")
      case True
      with Cons obtain a y b where "v = a @ y # b" "list_all P a" "\<not> P y" by auto
      with True show ?thesis by (intro exI [of _ "c # a"] exI [of _ y] exI [of _ b]) simp
    next
      case False
      then show ?thesis by (intro exI [of _ "[]"] exI [of _ c] exI [of _ v]) simp
    qed
  qed simp
  with that show thesis by blast
qed

text \<open>The value after a sample's name and labels.\<close>

lemma match_value_sample:
  assumes "value_ok v"
  shows "match_value ('' '' @ v @ line_feed # rest) = (if list_all is_number_char v then Some v else None)"
proof -
  obtain c v' where v: "v = c # v'" "\<not> is_space c" using assms by (cases v) (auto simp: value_ok_def)
  have drop: "dropWhile is_space ('' '' @ v @ line_feed # rest) = v @ line_feed # rest"
    using v space_facts(1) by simp
  show ?thesis
  proof (cases "list_all is_number_char v")
    case True
    then have "takeWhile is_number_char (v @ line_feed # rest) = v"
      "dropWhile is_number_char (v @ line_feed # rest) = line_feed # rest"
      by (simp_all add: takeWhile_stop dropWhile_stop line_feed_facts)
    with True v show ?thesis unfolding match_value_def Let_def drop by (simp add: line_feed_facts space_facts)
  next
    case False
    then obtain a y b where y: "v = a @ y # b" "list_all is_number_char a" "\<not> is_number_char y"
      by (rule first_other)
    then have "dropWhile is_number_char (v @ line_feed # rest) = y # b @ line_feed # rest"
      using dropWhile_stop [OF y(2,3)] by simp
    moreover have "\<not> is_terminator y"
    proof -
      have "\<not> is_space y" using assms y(1) by (simp add: value_ok_def list_all_iff)
      then show ?thesis by (auto simp: is_terminator_def line_feed_def is_space_def code_def)
    qed
    ultimately show ?thesis using False unfolding match_value_def Let_def drop by simp
  qed
qed

lemma name_char_not_space: "is_name_char c \<Longrightarrow> \<not> is_space c"
  by (auto simp: is_name_char_def is_space_def is_lower_def is_upper_def is_digit_def code_def)

lemma punctuation:
  "\<not> is_name_char CHR ''}''" "\<not> is_name_char CHR ''{''" "\<not> is_name_char CHR ''=''" "\<not> is_name_char CHR ''#''"
  "\<not> is_name_char CHR 0x22" "\<not> is_name_char CHR '',''"
  by code_simp+

lemma name_free: "list_all is_name_char k \<Longrightarrow> \<not> is_name_char c \<Longrightarrow> c \<notin> set k"
  by (auto simp: list_all_iff)

lemma plain_free: "plain_value x \<Longrightarrow> c \<in> {CHR ''}'', CHR 0x22, CHR '','', CHR ''=''} \<or> is_terminator c \<Longrightarrow> c \<notin> set x"
  by (auto simp: plain_value_def list_all_iff)

lemma set_label_text: "set (label_text (k, x)) = set k \<union> {CHR ''='', CHR 0x22} \<union> set x"
  by (auto simp: label_text_def)

text \<open>The characters of a name end where another kind of character begins.\<close>

lemma name_prefix:
  assumes "list_all is_name_char N" and "starts_with N (n @ y # r)" and "\<not> is_name_char y"
  shows "\<exists>z. n = N @ z"
proof -
  obtain t where t: "n @ y # r = N @ t" using assms(2) by (auto simp: starts_with_iff)
  show ?thesis
  proof (cases "length N \<le> length n")
    case True
    from t have "take (length N) (n @ y # r) = take (length N) (N @ t)" by (rule arg_cong)
    with True have "take (length N) n = N" by simp
    then show ?thesis by (metis append_take_drop_id)
  next
    case False
    from t have "(n @ y # r) ! length n = (N @ t) ! length n" by (rule arg_cong)
    with False have "y = N ! length n" by (simp add: nth_append)
    with False assms(1,3) show ?thesis by (simp add: list_all_length)
  qed
qed

lemma no_value_at: "\<not> is_space c \<Longrightarrow> match_value (c # s) = None"
  by (simp add: match_value_def Let_def)

definition inside_text :: "(string \<times> string) list \<Rightarrow> string" where
  "inside_text ls = str_join '','' (map label_text ls)"

lemma set_inside:
  "c \<in> set (inside_text ls) \<Longrightarrow> c = CHR '','' \<or> (\<exists>kv \<in> set ls. c \<in> set (label_text kv))"
  by (cases ls) (auto simp: inside_text_def str_join_def simp del: split_paired_Ex split: if_splits)

lemma inside_closed:
  assumes "list_all (\<lambda>(k, x). list_all is_name_char k \<and> plain_value x) ls"
  shows "list_all (\<lambda>c. c \<noteq> CHR ''}'') (inside_text ls)"
proof -
  have one: "c \<noteq> CHR ''}''" if "kv \<in> set ls" "c \<in> set (label_text kv)" for c kv
  proof (cases kv)
    case (Pair k x)
    then have "list_all is_name_char k" "plain_value x" using assms that(1) by (auto simp: list_all_iff)
    then have "CHR ''}'' \<notin> set k" "CHR ''}'' \<notin> set x" using name_free punctuation plain_free by blast+
    with that(2) Pair show ?thesis by (auto simp: set_label_text)
  qed
  show ?thesis
    unfolding list_all_iff
  proof
    fix c assume "c \<in> set (inside_text ls)"
    from set_inside [OF this] one show "c \<noteq> CHR ''}''" by auto
  qed
qed

lemma labels_text_Cons: "labels_text (kv # ls) = CHR ''{'' # inside_text (kv # ls) @ ''}''"
  by (simp add: inside_text_def)

lemma inside_head: "\<exists>c s. inside_text ((k, x) # ls) = c # s \<and> (c = CHR ''='' \<or> c \<in> set k)"
  by (cases k) (simp_all add: inside_text_def str_join_def label_text_def)

definition number_text :: "string \<Rightarrow> string option" where
  "number_text v = (if list_all is_number_char v then Some v else None)"

text \<open>What a line answers to a search.\<close>

fun line_match :: "string \<Rightarrow> string option \<Rightarrow> exposition_line \<Rightarrow> string option" where
  "line_match N labels (Comment s) = None"
| "line_match N labels Blank = None"
| "line_match N labels (Sample (n, ls) v) =
     (if n = N \<and> (case labels of None \<Rightarrow> ls = [] | Some l \<Rightarrow> ls \<noteq> [] \<and> str_includes (inside_text ls) l)
      then number_text v else None)"

lemma match_after_name:
  assumes "line_ok (Sample (n, ls) v)"
  shows "(case match_labels labels (labels_text ls @ '' '' @ v @ line_feed # rest) of
      Some r \<Rightarrow> match_value r | None \<Rightarrow> None) = line_match n labels (Sample (n, ls) v)"
proof (cases ls)
  case Nil
  with assms show ?thesis
    by (simp add: match_labels_def match_value_sample [simplified] number_text_def split: option.split)
next
  case (Cons kv ls')
  obtain k x where kv: "kv = (k, x)" by (cases kv)
  have closed: "list_all (\<lambda>c. c \<noteq> CHR ''}'') (inside_text ls)" using assms inside_closed by simp
  note stop = takeWhile_stop [OF closed, of "CHR ''}''"] dropWhile_stop [OF closed, of "CHR ''}''"]
  obtain c s where head: "inside_text ls = c # s" "c = CHR ''='' \<or> c \<in> set k"
    using inside_head Cons kv by metis
  have c: "c \<noteq> CHR ''}''" using closed head(1) by simp
  let ?tail = "'' '' @ v @ line_feed # rest"
  have whole: "labels_text ls @ ?tail = CHR ''{'' # inside_text ls @ CHR ''}'' # ?tail"
    by (simp add: Cons inside_text_def)
  have val: "match_value ?tail = number_text v"
    using assms by (simp add: match_value_sample [simplified] number_text_def)
  show ?thesis
  proof (cases labels)
    case None
    have "\<not> starts_with ''{}'' (CHR ''{'' # inside_text ls @ CHR ''}'' # ?tail)" using c head(1) by simp
    then show ?thesis
      unfolding whole None by (simp add: match_labels_def no_value_at space_facts Cons)
  next
    case (Some l)
    have "match_labels labels (CHR ''{'' # inside_text ls @ CHR ''}'' # ?tail)
        = (if str_includes (inside_text ls) l then Some ?tail else None)"
      by (simp add: Some match_labels_def Let_def takeWhile_stop [OF closed] dropWhile_stop [OF closed])
    then show ?thesis unfolding whole using val Cons by (simp add: Some)
  qed
qed

lemma match_here_line:
  assumes "line_ok l" and "N \<noteq> []" and "list_all is_name_char N"
  shows "match_here N labels (line_text l @ line_feed # rest) = line_match N labels l"
proof (cases l)
  case (Comment s)
  have "\<not> starts_with N (CHR ''#'' # s @ line_feed # rest)"
    using assms(2,3) punctuation by (cases N) auto
  then show ?thesis by (simp add: Comment match_here_def)
next
  case Blank
  have "\<not> is_name_char line_feed" by code_simp
  then have "\<not> starts_with N (line_feed # rest)" using assms(2,3) by (cases N) auto
  then show ?thesis by (simp add: Blank match_here_def)
next
  case (Sample sr v)
  obtain n ls where sr: "sr = (n, ls)" by (cases sr)
  let ?tail = "labels_text ls @ '' '' @ v @ line_feed # rest"
  obtain y r where y: "?tail = y # r" "\<not> is_name_char y"
    using space_facts by (cases ls) auto
  have ok: "line_ok (Sample (n, ls) v)" using assms(1) Sample sr by simp
  show ?thesis
  proof (cases "n = N")
    case True
    then have "starts_with N (n @ ?tail)" by (auto simp: starts_with_iff)
    with True match_after_name [OF ok, of labels rest] show ?thesis by (simp add: Sample sr match_here_def)
  next
    case False
    have "match_here N labels (n @ ?tail) = None"
    proof (cases "starts_with N (n @ ?tail)")
      case True
      with name_prefix [OF assms(3) _ y(2)] y(1) obtain z where z: "n = N @ z" by metis
      with False obtain c z' where c: "z = c # z'" by (cases z) auto
      then have "is_name_char c" using ok z by simp
      then have "\<not> is_space c" "c \<noteq> CHR ''{''" "CHR ''{'' \<noteq> c" using name_char_not_space punctuation by blast+
      with z c show ?thesis
        by (simp add: match_here_def match_labels_def no_value_at split: option.split)
    qed (simp add: match_here_def)
    with False show ?thesis by (simp add: Sample sr)
  qed
qed

subsection \<open>Matching the text\<close>

lemma terminator_not:
  "is_name_char c \<Longrightarrow> \<not> is_terminator c" "\<not> is_space c \<Longrightarrow> \<not> is_terminator c"
  by (auto simp: is_terminator_def line_feed_def is_name_char_def is_lower_def is_upper_def is_digit_def
      is_space_def code_def)

lemma literals_plain: "\<not> is_terminator CHR '','' \<and> \<not> is_terminator CHR ''{'' \<and> \<not> is_terminator CHR ''}''
  \<and> \<not> is_terminator CHR ''='' \<and> \<not> is_terminator CHR 0x22 \<and> \<not> is_terminator CHR '' '' \<and> \<not> is_terminator CHR ''#''"
  by code_simp

lemma labels_without_terminators:
  assumes "list_all (\<lambda>(k, x). list_all is_name_char k \<and> plain_value x) ls" and "c \<in> set (labels_text ls)"
  shows "\<not> is_terminator c"
proof -
  have label: "\<not> is_terminator c" if "kv \<in> set ls" "c \<in> set (label_text kv)" for kv
  proof (cases kv)
    case (Pair k x)
    then have k: "list_all is_name_char k" and x: "plain_value x" using assms(1) that(1) by (auto simp: list_all_iff)
    from that(2) Pair consider "c \<in> set k" | "c = CHR ''=''" | "c = CHR 0x22" | "c \<in> set x" by (auto simp: set_label_text)
    then show ?thesis
    proof cases
      case 1
      with k terminator_not(1) show ?thesis by (auto simp: list_all_iff)
    next
      case 4
      with plain_free [OF x] show ?thesis by blast
    qed (use literals_plain in simp_all)
  qed
  show ?thesis
  proof (cases ls)
    case Nil
    with assms(2) show ?thesis by simp
  next
    case (Cons kv ls')
    with assms(2) have "c \<in> {CHR ''{'', CHR ''}''} \<or> c \<in> set (inside_text ls)" by (auto simp: inside_text_def)
    with set_inside [of c ls] show ?thesis using label literals_plain by auto
  qed
qed

lemma line_without_terminators:
  assumes "line_ok l"
  shows "list_all (\<lambda>c. \<not> is_terminator c) (line_text l)"
proof (cases l)
  case (Comment s)
  with assms literals_plain show ?thesis by simp
next
  case Blank
  then show ?thesis by simp
next
  case (Sample sr v)
  obtain n ls where sr: "sr = (n, ls)" by (cases sr)
  have "\<not> is_terminator c" if "c \<in> set n \<or> c \<in> set v \<or> c = CHR '' '' \<or> c \<in> set (labels_text ls)" for c
    using that assms labels_without_terminators [of ls c] terminator_not literals_plain
    by (auto simp: Sample sr value_ok_def list_all_iff)
  then show ?thesis by (auto simp: Sample sr list_all_iff)
qed

lemma match_from_skip:
  "list_all (\<lambda>c. \<not> is_terminator c) s \<Longrightarrow>
     match_from N labels False (s @ line_feed # rest) = match_from N labels True rest"
  by (induction s) (simp_all add: line_feed_facts)

lemma match_from_line:
  assumes "list_all (\<lambda>c. \<not> is_terminator c) s"
  shows "match_from N labels True (s @ line_feed # rest) =
     (case match_here N labels (s @ line_feed # rest) of Some v \<Rightarrow> Some v | None \<Rightarrow> match_from N labels True rest)"
proof (cases s)
  case Nil
  then show ?thesis by (simp add: line_feed_facts split: option.split)
next
  case (Cons c s')
  with assms have "match_from N labels (is_terminator c) (s' @ line_feed # rest) = match_from N labels True rest"
    using match_from_skip [of s'] by simp
  with Cons show ?thesis by (simp split: option.split)
qed

fun first_some :: "'a option list \<Rightarrow> 'a option" where
  "first_some [] = None"
| "first_some (Some x # xs) = Some x"
| "first_some (None # xs) = first_some xs"

lemma match_exposition:
  assumes "list_all line_ok ls" and "N \<noteq> []" and "list_all is_name_char N"
  shows "match_from N labels True (exposition ls) = first_some (map (line_match N labels) ls)"
  using assms(1)
proof (induction ls)
  case Nil
  have "\<not> starts_with N []" using assms(2) by (cases N) auto
  then show ?case by (simp add: exposition_def match_here_def)
next
  case (Cons l ls)
  have "exposition (l # ls) = line_text l @ line_feed # exposition ls" by (simp add: exposition_def)
  then have "match_from N labels True (exposition (l # ls)) = (case line_match N labels l of
      Some v \<Rightarrow> Some v | None \<Rightarrow> match_from N labels True (exposition ls))"
    using Cons.prems match_from_line [OF line_without_terminators] match_here_line [OF _ assms(2,3)] by simp
  with Cons show ?case by (cases "line_match N labels l") simp_all
qed

text \<open>Of one label, only its own value is found.\<close>

lemma label_includes:
  assumes "list_all is_name_char k" and "plain_value x" and "plain_value y"
  shows "str_includes (inside_text [(k, y)]) (label_text (k, x)) \<longleftrightarrow> x = y"
proof
  assume "str_includes (inside_text [(k, y)]) (label_text (k, x))"
  then obtain a b where ab: "k @ ''=\"'' @ y @ ''\"'' = a @ k @ ''=\"'' @ x @ ''\"'' @ b"
    by (auto simp: str_includes_iff inside_text_def str_join_def label_text_def)
  have free: "CHR ''='' \<notin> set k" "CHR ''='' \<notin> set y" "CHR 0x22 \<notin> set y" "CHR 0x22 \<notin> set x"
    using name_free [OF assms(1)] plain_free [OF assms(2)] plain_free [OF assms(3)] punctuation by blast+
  have len: "length (filter (\<lambda>c. c = CHR ''='') (k @ ''=\"'' @ y @ ''\"'')) = 1"
    using free by (auto simp: filter_empty_conv)
  have "CHR ''='' \<notin> set a"
  proof
    assume "CHR ''='' \<in> set a"
    then have "filter (\<lambda>c. c = CHR ''='') a \<noteq> []" by (auto simp: filter_empty_conv)
    then have "0 < length (filter (\<lambda>c. c = CHR ''='') a)" by blast
    with len show False unfolding ab by simp
  qed
  with free(1) have ak: "CHR ''='' \<notin> set (a @ k)" by simp
  have "k @ CHR ''='' # CHR 0x22 # y @ ''\"'' = (a @ k) @ CHR ''='' # CHR 0x22 # x @ ''\"'' @ b"
    using ab by simp
  with sep_append_inject [OF free(1) ak] have "CHR 0x22 # y @ ''\"'' = CHR 0x22 # x @ ''\"'' @ b" by simp
  then have "y @ CHR 0x22 # [] = x @ CHR 0x22 # b" by simp
  with sep_append_inject [OF free(3,4)] show "x = y" by simp
next
  assume "x = y"
  then have "inside_text [(k, y)] = [] @ label_text (k, x) @ []" by (simp add: inside_text_def str_join_def)
  then show "str_includes (inside_text [(k, y)]) (label_text (k, x))" unfolding str_includes_iff by blast
qed

lemma match_label:
  assumes "list_all line_ok ls" and "list_all labels_declared ls"
    and "metric_named N = Some d" and "md_labels d = [k]" and "N \<noteq> []" and "list_all is_name_char N"
    and "list_all is_name_char k" and "plain_value x"
    and "\<And>v. sample_of (N, [(k, x)]) ls = Some v \<Longrightarrow> list_all is_number_char v"
  shows "match_from N (Some (label_text (k, x))) True (exposition ls) = sample_of (N, [(k, x)]) ls"
  unfolding match_exposition [OF assms(1,5,6)]
  using assms(1,2,9)
proof (induction ls)
  case (Cons l ls)
  show ?case
  proof (cases l)
    case (Sample sr v)
    obtain n lb where sr: "sr = (n, lb)" by (cases sr)
    show ?thesis
    proof (cases "n = N")
      case True
      with Cons.prems(2) Sample sr assms(3,4) have "map fst lb = [k]" by simp
      then obtain y where lb: "lb = [(k, y)]" by auto
      with Cons.prems(1) Sample sr have "plain_value y" by simp
      from label_includes [OF assms(7,8) this] Cons Sample sr True lb show ?thesis
        by (auto simp: number_text_def)
    qed (use Cons Sample sr in simp)
  qed (use Cons in simp_all)
qed simp

lemma match_plain:
  assumes "list_all line_ok ls" and "list_all labels_declared ls"
    and "metric_named N = Some d" and "md_labels d = []" and "N \<noteq> []" and "list_all is_name_char N"
    and "\<And>v. sample_of (N, []) ls = Some v \<Longrightarrow> list_all is_number_char v"
  shows "match_from N None True (exposition ls) = sample_of (N, []) ls"
  unfolding match_exposition [OF assms(1,5,6)]
  using assms(1,2,7)
proof (induction ls)
  case (Cons l ls)
  show ?case
  proof (cases l)
    case (Sample sr v)
    obtain n lb where sr: "sr = (n, lb)" by (cases sr)
    with Cons Sample assms(3,4) show ?thesis by (cases "n = N") (simp_all add: number_text_def)
  qed (use Cons in simp_all)
qed simp

subsection \<open>The panel shows the metrics\<close>

lemma cell_of_sample:
  assumes "reads_as number x v"
  shows "of_rat (cell_value (map_option number v)) = x" and "cell_value (map_option number v) = 0 \<longleftrightarrow> x = 0"
  using assms by (cases v; auto simp: cell_value_def reads_as_def)+

lemma metric_label:
  assumes "scrape_ok number m ls" and "metric_named N = Some d" and "md_labels d = [k]"
    and "N \<noteq> []" and "list_all is_name_char N" and "list_all is_name_char k" and "plain_value x"
    and "reads_as number y (sample_of (N, [(k, x)]) ls)"
  shows "metric number (exposition ls) N (Some (label_text (k, x))) = map_option number (sample_of (N, [(k, x)]) ls)"
proof -
  have "list_all is_number_char v" if "sample_of (N, [(k, x)]) ls = Some v" for v
    using assms(8) that by (simp add: reads_as_def)
  with match_label [OF _ _ assms(2-7), of ls] assms(1) show ?thesis by (simp add: metric_def scrape_ok_def)
qed

lemma metric_plain:
  assumes "scrape_ok number m ls" and "metric_named N = Some d" and "md_labels d = []"
    and "N \<noteq> []" and "list_all is_name_char N" and "reads_as number y (sample_of (N, []) ls)"
  shows "metric number (exposition ls) N None = map_option number (sample_of (N, []) ls)"
proof -
  have "list_all is_number_char v" if "sample_of (N, []) ls = Some v" for v
    using assms(6) that by (simp add: reads_as_def)
  with match_plain [OF _ _ assms(2-5), of ls] assms(1) show ?thesis by (simp add: metric_def scrape_ok_def)
qed

text \<open>The searches of the page.\<close>

lemma page_names:
  "metric_named ''events_ingested_total'' \<noteq> None \<and> md_labels (the (metric_named ''events_ingested_total'')) = [''result'']"
  "metric_named ''pipeline_queue_depth'' \<noteq> None \<and> md_labels (the (metric_named ''pipeline_queue_depth'')) = [''state'']"
  "metric_named ''circuit_breaker_state'' \<noteq> None \<and> md_labels (the (metric_named ''circuit_breaker_state'')) = [''breaker'']"
  "metric_named ''outbox_pending'' \<noteq> None \<and> md_labels (the (metric_named ''outbox_pending'')) = []"
  "metric_named ''dlq_depth'' \<noteq> None \<and> md_labels (the (metric_named ''dlq_depth'')) = []"
  "metric_named ''outbox_messages_failed_total'' \<noteq> None \<and> md_labels (the (metric_named ''outbox_messages_failed_total'')) = []"
  by (simp_all add: metric_named_def registry_def)

lemma page_labels:
  "label_text (''result'', r) = ''result=\"'' @ r @ ''\"''" "label_text (''state'', r) = ''state=\"'' @ r @ ''\"''"
  "label_text (''breaker'', r) = ''breaker=\"'' @ r @ ''\"''"
  by (simp_all add: label_text_def)

lemma scrape_reads:
  assumes "scrape_ok number m ls"
  shows "reads_as number (real (counters m c)) (sample_of (counter_series c) ls)"
    and "reads_as number (gauges m g) (sample_of (gauge_series g) ls)"
  using assms by (simp_all add: scrape_ok_def)

lemma page_name_chars:
  "list_all is_name_char ''events_ingested_total''" "list_all is_name_char ''pipeline_queue_depth''"
  "list_all is_name_char ''circuit_breaker_state''" "list_all is_name_char ''outbox_pending''"
  "list_all is_name_char ''dlq_depth''" "list_all is_name_char ''outbox_messages_failed_total''"
  "list_all is_name_char ''result''" "list_all is_name_char ''state''" "list_all is_name_char ''breaker''"
  by code_simp+

lemma page_values:
  "plain_value ''accepted''" "plain_value ''duplicate''" "plain_value ''conflict''" "plain_value ''waiting''" "plain_value ''mistral''"
  by code_simp+

lemma page_metrics:
  assumes "scrape_ok number m ls"
  shows "r \<in> {''accepted'', ''duplicate'', ''conflict''} \<Longrightarrow>
      metric number (exposition ls) ''events_ingested_total'' (Some (''result=\"'' @ r @ ''\"''))
      = map_option number (sample_of (counter_series (EventsIngested r)) ls)"
    and "metric number (exposition ls) ''pipeline_queue_depth'' (Some ''state=\"waiting\"'')
      = map_option number (sample_of (gauge_series (QueueDepth ''waiting'')) ls)"
    and "metric number (exposition ls) ''circuit_breaker_state'' (Some ''breaker=\"mistral\"'')
      = map_option number (sample_of (gauge_series (CircuitBreakerState ''mistral'')) ls)"
    and "metric number (exposition ls) ''outbox_pending'' None
      = map_option number (sample_of (gauge_series OutboxPending) ls)"
    and "metric number (exposition ls) ''dlq_depth'' None = map_option number (sample_of (gauge_series DlqDepth) ls)"
    and "metric number (exposition ls) ''outbox_messages_failed_total'' None
      = map_option number (sample_of (counter_series OutboxFailed) ls)"
proof -
  show "metric number (exposition ls) ''events_ingested_total'' (Some (''result=\"'' @ r @ ''\"''))
      = map_option number (sample_of (counter_series (EventsIngested r)) ls)"
    if "r \<in> {''accepted'', ''duplicate'', ''conflict''}"
  proof -
    have "reads_as number (real (counters m (EventsIngested r))) (sample_of (''events_ingested_total'', [(''result'', r)]) ls)"
      using scrape_reads(1) [OF assms, of "EventsIngested r"] by simp
    moreover have "plain_value r" using that page_values by auto
    ultimately show ?thesis
      using metric_label [OF assms, where N = "''events_ingested_total''" and k = "''result''" and x = r]
        page_names(1) page_name_chars page_labels(1) by auto
  qed
  have waiting: "reads_as number (gauges m (QueueDepth ''waiting'')) (sample_of (''pipeline_queue_depth'', [(''state'', ''waiting'')]) ls)"
    using scrape_reads(2) [OF assms, of "QueueDepth ''waiting''"] by simp
  show "metric number (exposition ls) ''pipeline_queue_depth'' (Some ''state=\"waiting\"'')
      = map_option number (sample_of (gauge_series (QueueDepth ''waiting'')) ls)"
    using metric_label [OF assms _ _ _ page_name_chars(2,8) page_values(4) waiting] page_names(2) page_labels(2) by auto
  have mistral: "reads_as number (gauges m (CircuitBreakerState ''mistral''))
      (sample_of (''circuit_breaker_state'', [(''breaker'', ''mistral'')]) ls)"
    using scrape_reads(2) [OF assms, of "CircuitBreakerState ''mistral''"] by simp
  show "metric number (exposition ls) ''circuit_breaker_state'' (Some ''breaker=\"mistral\"'')
      = map_option number (sample_of (gauge_series (CircuitBreakerState ''mistral'')) ls)"
    using metric_label [OF assms _ _ _ page_name_chars(3,9) page_values(5) mistral] page_names(3) page_labels(3) by auto
  show "metric number (exposition ls) ''outbox_pending'' None
      = map_option number (sample_of (gauge_series OutboxPending) ls)"
    using metric_plain [OF assms _ _ _ page_name_chars(4)] scrape_reads(2) [OF assms, of OutboxPending] page_names(4) by auto
  show "metric number (exposition ls) ''dlq_depth'' None = map_option number (sample_of (gauge_series DlqDepth) ls)"
    using metric_plain [OF assms _ _ _ page_name_chars(5)] scrape_reads(2) [OF assms, of DlqDepth] page_names(5) by auto
  show "metric number (exposition ls) ''outbox_messages_failed_total'' None
      = map_option number (sample_of (counter_series OutboxFailed) ls)"
    using metric_plain [OF assms _ _ _ page_name_chars(6)] scrape_reads(1) [OF assms, of OutboxFailed] page_names(6) by auto
qed

lemma set_cell_simps:
  "pn_cell (set_cell i v k p) j = (if j = i then Some (cell_value v) else pn_cell p j)"
  "pn_zero (set_cell i v k p) j = (if k \<and> j = i then cell_value v = 0 else pn_zero p j)"
  "pn_breaker (set_cell i v k p) = pn_breaker p"
  by (simp_all add: set_cell_def Let_def)

lemma show_metrics_cells:
  fixes number t p
  defines "q \<equiv> show_metrics number t p" and "m \<equiv> metric number t"
  shows "pn_cell q ''m_accepted'' = Some (cell_value (m ''events_ingested_total'' (Some ''result=\"accepted\"'')))"
    and "pn_cell q ''m_duplicate'' = Some (cell_value (m ''events_ingested_total'' (Some ''result=\"duplicate\"'')))"
    and "pn_cell q ''m_conflict'' = Some (cell_value (m ''events_ingested_total'' (Some ''result=\"conflict\"'')))"
    and "pn_cell q ''m_queue'' = Some (cell_value (m ''pipeline_queue_depth'' (Some ''state=\"waiting\"'')))"
    and "pn_cell q ''m_outbox'' = Some (cell_value (m ''outbox_pending'' None))"
    and "pn_cell q ''m_dlq'' = Some (cell_value (m ''dlq_depth'' None))"
    and "pn_cell q ''m_abandoned'' = Some (cell_value (m ''outbox_messages_failed_total'' None))"
    and "pn_zero q ''m_dlq'' \<longleftrightarrow> cell_value (m ''dlq_depth'' None) = 0"
    and "pn_zero q ''m_abandoned'' \<longleftrightarrow> cell_value (m ''outbox_messages_failed_total'' None) = 0"
    and "pn_breaker q = (case m ''circuit_breaker_state'' (Some ''breaker=\"mistral\"'') of
          None \<Rightarrow> pn_breaker p | Some x \<Rightarrow> Some (breaker_text x))"
  unfolding q_def m_def show_metrics_def Let_def
  by (cases "metric number t ''circuit_breaker_state'' (Some ''breaker=\"mistral\"'')"; simp add: set_cell_simps)+

text \<open>
  C29: the panel tells the truth. Over any scrape in the Prometheus format, of comments, samples and empty
  lines, with any other metrics beside ours: after a refresh each of the seven cells shows the value of its counter or gauge, 0 for a series
  that was never touched; the two alarm cells are marked zero exactly when their value is; the breaker's
  text is that of its gauge, and stays when there is none; and a refresh whose request failed, or was
  answered with an error, changes nothing.
\<close>

theorem panel_shows_metrics:
  assumes "scrape_ok number m ls" and "a = scrape contentType (exposition ls)"
    and "p' = refreshMetrics number (Some (status_ok (sc_status a), sc_body a)) p"
  shows "map (\<lambda>i. map_option of_rat (pn_cell p' i))
        [''m_accepted'', ''m_duplicate'', ''m_conflict'', ''m_queue'', ''m_outbox'', ''m_dlq'', ''m_abandoned'']
      = map Some [real (counters m (EventsIngested ''accepted'')), real (counters m (EventsIngested ''duplicate'')),
          real (counters m (EventsIngested ''conflict'')), gauges m (QueueDepth ''waiting''), gauges m OutboxPending,
          gauges m DlqDepth, real (counters m OutboxFailed)]
    \<and> (pn_zero p' ''m_dlq'' \<longleftrightarrow> gauges m DlqDepth = 0) \<and> (pn_zero p' ''m_abandoned'' \<longleftrightarrow> counters m OutboxFailed = 0)
    \<and> (case sample_of (gauge_series (CircuitBreakerState ''mistral'')) ls of
         None \<Rightarrow> pn_breaker p' = pn_breaker p
       | Some v \<Rightarrow> pn_breaker p' = Some (breaker_text (number v)) \<and> of_rat (number v) = gauges m (CircuitBreakerState ''mistral''))
    \<and> refreshMetrics number None p = p \<and> refreshMetrics number (Some (False, t)) p = p"
proof -
  note at = page_metrics [OF assms(1)]
  note reads = scrape_reads [OF assms(1)]
  have ingested: "metric number (exposition ls) ''events_ingested_total'' (Some ''result=\"accepted\"'')
        = map_option number (sample_of (counter_series (EventsIngested ''accepted'')) ls)"
      "metric number (exposition ls) ''events_ingested_total'' (Some ''result=\"duplicate\"'')
        = map_option number (sample_of (counter_series (EventsIngested ''duplicate'')) ls)"
      "metric number (exposition ls) ''events_ingested_total'' (Some ''result=\"conflict\"'')
        = map_option number (sample_of (counter_series (EventsIngested ''conflict'')) ls)"
    using at(1) [of "''accepted''"] at(1) [of "''duplicate''"] at(1) [of "''conflict''"] by simp_all
  have p': "p' = show_metrics number (exposition ls) p" by (simp add: assms(2,3) refreshMetrics_def scrape_def status_ok_def)
  note cells = show_metrics_cells [of number "exposition ls" p, folded p', unfolded ingested at(2-6)]
  note vals = cell_of_sample [OF reads(1)] cell_of_sample [OF reads(2)]
  have "case sample_of (gauge_series (CircuitBreakerState ''mistral'')) ls of
         None \<Rightarrow> pn_breaker p' = pn_breaker p
       | Some v \<Rightarrow> pn_breaker p' = Some (breaker_text (number v)) \<and> of_rat (number v) = gauges m (CircuitBreakerState ''mistral'')"
    using cells(10) reads(2) [of "CircuitBreakerState ''mistral''"] unfolding reads_as_def
    by (cases "sample_of (gauge_series (CircuitBreakerState ''mistral'')) ls") (simp_all del: gauge_series.simps)
  moreover have "refreshMetrics number None p = p \<and> refreshMetrics number (Some (False, t)) p = p"
    by (simp add: refreshMetrics_def)
  ultimately show ?thesis
    unfolding list.map cells option.map vals by simp
qed

definition blank_panel :: panel where
  "blank_panel = \<lparr>pn_cell = (\<lambda>_. None), pn_zero = (\<lambda>_. False), pn_breaker = None, pn_dot = ''dot'', pn_status = ''''\<rparr>"

definition one_scrape :: "exposition_line list" where
  "one_scrape = [Comment '' TYPE events_ingested_total counter'',
     Sample (''events_ingested_total'', [(''result'', ''accepted'')]) ''1'', Blank,
     Comment '' TYPE outbox_pending gauge'', Sample (''outbox_pending'', []) ''0'']"

theorem panel_shows_metrics_witness:
  "map_option of_rat (pn_cell (refreshMetrics (\<lambda>s. if s = ''1'' then 1 else 0)
     (Some (status_ok (sc_status (scrape ''text/plain'' (exposition one_scrape))),
       sc_body (scrape ''text/plain'' (exposition one_scrape)))) blank_panel) ''m_accepted'') = Some (1 :: real)"
proof -
  let ?m = "inc (EventsIngested ''accepted'') no_metrics" and ?n = "\<lambda>s. if s = ''1'' then 1 else 0 :: rat"
  have "list_all line_ok one_scrape" "list_all labels_declared one_scrape" by code_simp+
  moreover have "reads_as ?n (real (counters ?m c)) (sample_of (counter_series c) one_scrape)" for c
    by (cases c) (simp_all add: one_scrape_def reads_as_def no_metrics_def is_number_char_def is_digit_def code_def)
  moreover have "reads_as ?n (gauges ?m g) (sample_of (gauge_series g) one_scrape)" for g
    by (cases g) (simp_all add: one_scrape_def reads_as_def no_metrics_def inc_def inc_by_def is_number_char_def
        is_digit_def code_def)
  ultimately have "scrape_ok ?n ?m one_scrape" unfolding scrape_ok_def by blast
  from panel_shows_metrics [OF this refl refl, of "''text/plain''" blank_panel] show ?thesis by (simp add: no_metrics_def)
qed

subsection \<open>The light\<close>

text \<open>The light is green exactly when the readiness probe found both stores.\<close>

lemma light_tells_readiness:
  assumes "terminus_laws T" and "p' = refreshHealth (Some (status_ok (readiness T postgres ping))) p"
  shows "pn_dot p' = ''dot up'' \<longleftrightarrow> postgres = Up \<and> (\<exists>t < 2000. ping = Some (t, Inr ''PONG''))"
    and "pn_dot p' = ''dot up'' \<or> pn_dot p' = ''dot down'' \<and> pn_status p' = ''not ready''"
proof -
  have ok: "status_ok (readiness T postgres ping) \<longleftrightarrow> readiness T postgres ping = 200"
    using probes_answer(3) [OF assms(1), of postgres ping] by (auto simp: status_ok_def)
  with assms(2) probes_answer(2) [OF assms(1), of postgres ping]
  show "pn_dot p' = ''dot up'' \<longleftrightarrow> postgres = Up \<and> (\<exists>t < 2000. ping = Some (t, Inr ''PONG''))"
    by (simp add: refreshHealth_def)
  show "pn_dot p' = ''dot up'' \<or> pn_dot p' = ''dot down'' \<and> pn_status p' = ''not ready''"
    by (simp add: assms(2) refreshHealth_def)
qed

end
