(* ===== verification/Demo_Attacks.thy ===== *)
theory Demo_Attacks
  imports Demo_Client Http_Handlers
begin

section \<open>The demo client against the service\<close>

text \<open>
  The client of \<open>Demo_Client\<close> talking to the handlers of \<open>Http_Handlers\<close>: the network carries each
  request through the rate limiter to \<open>post_events\<close> and its answer back as text. Every request is served by
  a host of its own (clock, fresh ids, faults). The verdicts of the attacks are then theorems about the service.
\<close>

subsection \<open>The service as the network\<close>

definition request_header :: "string \<Rightarrow> client_request \<Rightarrow> string option" where
  "request_header k q = map_of (map (\<lambda>(h, v). (str_lower h, v)) (cq_headers q)) k"

text \<open>
  What stands before every handler: the global throttler guard, the visitor's address, when the requests
  come, and the text of the guard's refusal.
\<close>

record 'g gate =
  gt_guard :: "'g guard"
  gt_ip :: string
  gt_clock :: "nat \<Rightarrow> int"
  gt_refusal :: string

definition through_gate :: "'g gate \<Rightarrow> EnvVars \<Rightarrow> nat \<Rightarrow> 'g \<Rightarrow> bool \<times> 'g" where
  "through_gate R env n g = admit (gt_guard R) env Post_Events (gt_ip R) (gt_clock R n) g"

text \<open>
  The world is the number of the next request, the guard's counts, and the service. A body that is not
  JSON is refused by the body parser, before the guard; the rest passes the guard first.
\<close>

definition api_net ::
  "json_lib \<Rightarrow> nest \<Rightarrow> 'g gate \<Rightarrow> (string \<Rightarrow> bool) \<Rightarrow> (nat \<Rightarrow> 'q ingest_host) \<Rightarrow> EnvVars \<Rightarrow>
   ((nat \<times> 'g) \<times> 'q api) network" where
  "api_net J N R isEmail H env q w =
     (case w of ((n, g), s) \<Rightarrow>
        (if cq_method q = ''POST'' \<and> cq_path q = ''/events'' then
           (let parsed = (case cq_body q of Some text \<Rightarrow> js_parse J text | None \<Rightarrow> Some JNull) in
            case parsed of
              None \<Rightarrow> (Some (400, ''''), ((Suc n, g), s))
            | Some json \<Rightarrow>
                (case through_gate R env n g of
                   (False, g') \<Rightarrow> (Some (429, gt_refusal R), ((Suc n, g'), s))
                 | (True, g') \<Rightarrow>
                     (case json of
                        JObj ps \<Rightarrow>
                          (case post_events N isEmail (H n) env (request_header ''idempotency-key'' q) ps s of
                             (a, s') \<Rightarrow> (Some (hx_status a, js_stringify J (hx_body a)), ((Suc n, g'), s')))
                      | _ \<Rightarrow> (Some (400, ''''), ((Suc n, g'), s)))))
         else (Some (404, ''''), ((Suc n, g), s))))"

text \<open>The guard admits the next \<open>k\<close> submissions.\<close>

definition lets_in :: "'g gate \<Rightarrow> EnvVars \<Rightarrow> nat \<Rightarrow> nat \<Rightarrow> 'g \<Rightarrow> 'g \<Rightarrow> bool" where
  "lets_in R env n k g g' \<longleftrightarrow>
     admit_all (gt_guard R) env (map (\<lambda>i. (Post_Events, gt_ip R, gt_clock R i)) [n..<n + k]) g = (replicate k True, g')"

lemma lets_in_0 [simp]: "lets_in R env n 0 g g' \<longleftrightarrow> g' = g"
  by (auto simp: lets_in_def)

lemma lets_in_Suc:
  assumes "lets_in R env n (Suc k) g g'"
  obtains g1 where "through_gate R env n g = (True, g1)" "lets_in R env (Suc n) k g1 g'"
proof -
  have "[n..<n + Suc k] = n # [Suc n..<Suc n + k]" using upt_conv_Cons [of n "n + Suc k"] by simp
  with assms have run: "admit_all (gt_guard R) env ((Post_Events, gt_ip R, gt_clock R n)
      # map (\<lambda>i. (Post_Events, gt_ip R, gt_clock R i)) [Suc n..<Suc n + k]) g = (True # replicate k True, g')"
    unfolding lets_in_def by (simp only: list.map replicate_Suc)
  obtain ok g1 where gate: "admit (gt_guard R) env Post_Events (gt_ip R) (gt_clock R n) g = (ok, g1)" by (rule prod.exhaust)
  from run gate show thesis
    by (intro that [of g1]) (auto simp: lets_in_def through_gate_def simp del: upt_Suc split: prod.splits)
qed

definition json_laws :: "json_lib \<Rightarrow> bool" where
  "json_laws J \<longleftrightarrow> (\<forall>j. js_parse J (js_stringify J j) = Some j)"

lemma key_header: "k \<noteq> '''' \<Longrightarrow> request_header ''idempotency-key'' (client_request J m path query bod (Some k)) = Some k"
proof -
  assume k: "k \<noteq> ''''"
  have "str_lower ''content-type'' = ''content-type''" "str_lower ''Idempotency-Key'' = ''idempotency-key''"
    by code_simp+
  with k show ?thesis by (simp add: request_header_def client_request_def)
qed

text \<open>What a submission through the network does to the page.\<close>

lemma post_event_api:
  assumes "json_laws J" and "key \<noteq> ''''" and "pg_world p = ((n, g), s)"
    and "through_gate R env n g = (True, g')" and "post_events N isEmail (H n) env (Some key) bod s = (a, s')"
  obtains p' where "post_event J (api_net J N R isEmail H env) bod key p = (Inr (hx_status a, hx_body a), p')"
    "pg_world p' = ((Suc n, g'), s')" "pg_verdicts p' = pg_verdicts p" "pg_current p' = pg_current p"
  using assms key_header [OF assms(2), of J "''POST''" "''/events''" "[]" "Some (JObj bod)"]
  by (auto simp: post_event_def call_def api_net_def json_laws_def client_request_def)

text \<open>One that the guard refuses reaches no handler.\<close>

lemma post_event_refused:
  assumes "json_laws J" and "pg_world p = ((n, g), s)" and "through_gate R env n g = (False, g')"
    and "post_event J (api_net J N R isEmail H env) bod key p = (res, p')"
  shows "snd (pg_world p') = s \<and> pg_verdicts p' = pg_verdicts p \<and> pg_current p' = pg_current p
    \<and> (\<exists>q. res = Inr (429, q))"
  using assms
  by (auto simp: post_event_def call_def api_net_def json_laws_def client_request_def Let_def split: option.splits)

lemma post_events_valid:
  assumes "validation_pipe isEmail ps = Some dto" and "ingest H env dto (Some key) s = (Inr r, s')"
  shows "post_events N isEmail H env (Some key) ps s = (\<lparr>hx_status = 202, hx_body = answer_json r\<rparr>, s')"
  using assms by (simp add: post_events_def)

lemma answer_json_fields:
  "json_field ''status'' (answer_json r) = Some (JStr (ingest_status_name (ir_status r)))"
  "json_field ''ticketId'' (answer_json r) = Some (str_or_null (ir_ticketId r))"
  "answer_json r \<noteq> JNull"
  by (simp_all add: answer_json_def json_field_def js_get_def)

lemma str_or_null_Some [simp]: "str_or_null (Some s) = JStr s"
  by (simp add: str_or_null_def)

lemma usable_nonempty: "assertUsableAsJobId key = Inr () \<Longrightarrow> key \<noteq> ''''"
  by (auto simp: assertUsableAsJobId_def matches_key_pattern_def)

lemma bad_keys:
  "assertUsableAsJobId ''order:123'' = Inl (BadRequestException bad_key_msg)"
  "assertUsableAsJobId ''12345'' = Inl (BadRequestException digits_key_msg)"
  by code_simp+

subsection \<open>The form\<close>

definition form_dto :: "string \<Rightarrow> string \<Rightarrow> string \<Rightarrow> create_event" where
  "form_dto subj bod email = \<lparr>ce_idempotencyKey = None, ce_subject = str_trim subj, ce_body = str_trim bod,
     ce_requesterEmail = (if str_trim email = '''' then None else Some (str_trim email)),
     ce_source = None, ce_metadata = None\<rparr>"

lemma form_json: "dto_json (form_dto subj bod email) = JObj (form_body subj bod email)"
  by (simp add: dto_json_def form_dto_def form_body_def opt_field_def)

lemma form_valid:
  "dto_ok isEmail (form_dto subj bod email) \<Longrightarrow>
     validation_pipe isEmail (form_body subj bod email) = Some (form_dto subj bod email)"
  by (rule validation_roundtrip [OF form_json])

definition conflict_dto :: create_event where
  "conflict_dto = \<lparr>ce_idempotencyKey = None, ce_subject = ''Something else entirely'',
     ce_body = ''A completely different message body.'', ce_requesterEmail = None,
     ce_source = None, ce_metadata = None\<rparr>"

lemma conflict_valid: "validation_pipe isEmail conflict_body = Some conflict_dto"
proof (rule validation_roundtrip)
  show "dto_json conflict_dto = JObj conflict_body"
    by (simp add: dto_json_def conflict_dto_def conflict_body_def opt_field_def)
  show "dto_ok isEmail conflict_dto"
    by (simp add: dto_ok_def conflict_dto_def max_len_def)
qed

lemma payload_plain:
  "ce_metadata dto = None \<Longrightarrow> plain_json (request_payload dto)"
  by (auto simp: request_payload_def str_or_null_def split: option.splits)

lemma payload_subject:
  "denote (request_payload a) = denote (request_payload b) \<Longrightarrow> ce_body a = ce_body b"
  by (auto simp: request_payload_def dest!: fun_cong [where x = "''body''"] split: option.splits)

subsection \<open>The verdicts\<close>

lemma duplicate_held:
  assumes "json_laws J" and "assertUsableAsJobId key = Inr ()" and "key_row key (ap_db s) = Some x"
    and "ik_status x = IK_COMPLETED" and "ik_ticketId x = Some t"
    and "ik_requestHash x = request_hash (H n) dto" and "validation_pipe isEmail bod = Some dto"
    and "ce_idempotencyKey dto = None" and "pg_world p = ((n, g), s)" and "through_gate R env n g = (True, g')"
    and "pg_current p = Some \<lparr>sm_key = key, sm_ticketId = Some (JStr t), sm_body = bod\<rparr>"
  obtains s' where "pg_world (click_attack attack_duplicate J (api_net J N R isEmail H env) p) = ((Suc n, g'), s')"
    "ap_db s' = ap_db s" "ap_queue s' = ap_queue s"
    "pg_verdicts (click_attack attack_duplicate J (api_net J N R isEmail H env) p) = True # pg_verdicts p"
    "pg_current (click_attack attack_duplicate J (api_net J N R isEmail H env) p) = pg_current p"
proof -
  let ?s' = "count_event ''duplicate'' s" and ?net = "api_net J N R isEmail H env"
  have "ingest (H n) env dto (Some key) s = (Inr (replay_answer key x), ?s')"
    by (rule replay_answers [OF assms(2-4)]) (simp_all add: assms(6) event_key_def)
  note run = post_events_valid [OF assms(7) this, of N]
  obtain p' where call: "post_event J ?net bod key p
      = (Inr (202, answer_json (replay_answer key x)), p')" "pg_world p' = ((Suc n, g'), ?s')"
      "pg_verdicts p' = pg_verdicts p" "pg_current p' = pg_current p"
    using post_event_api [where H = H, OF assms(1) usable_nonempty [OF assms(2)] assms(9,10) run] by auto
  have "ir_status (replay_answer key x) = Replayed" "ir_ticketId (replay_answer key x) = Some t"
    using assms(5) by (simp_all add: replay_answer_def Let_def)
  with call(1) have "attack_duplicate J ?net \<lparr>sm_key = key, sm_ticketId = Some (JStr t), sm_body = bod\<rparr> p
      = (Inr (), verdict True p')"
    by (simp add: attack_duplicate_def answer_json_fields strict_eq_def)
  then have click: "click_attack attack_duplicate J ?net p = verdict True p'"
    using assms(11) by (simp add: click_attack_def)
  show thesis
    by (rule that [of ?s']) (simp_all add: click verdict_def call)
qed

lemma conflict_held:
  assumes "json_laws J" and "filter_laws N" and "assertUsableAsJobId key = Inr ()"
    and "key_row key (ap_db s) = Some x" and "ik_requestHash x \<noteq> request_hash (H n) conflict_dto"
    and "pg_world p = ((n, g), s)" and "pg_current p = Some cur" and "sm_key cur = key"
    and "through_gate R env n g = (True, g')"
  obtains s' where "pg_world (click_attack attack_conflict J (api_net J N R isEmail H env) p) = ((Suc n, g'), s')"
    "ap_db s' = ap_db s" "ap_queue s' = ap_queue s"
    "pg_verdicts (click_attack attack_conflict J (api_net J N R isEmail H env) p) = True # pg_verdicts p"
    "pg_current (click_attack attack_conflict J (api_net J N R isEmail H env) p) = pg_current p"
proof -
  let ?s' = "count_event ''conflict'' s" and ?net = "api_net J N R isEmail H env"
  have "ingest (H n) env conflict_dto (Some key) s = (Inl conflict_error, ?s')"
    by (rule conflict_answers [OF assms(3-5)]) (simp add: event_key_def)
  then have run: "post_events N isEmail (H n) env (Some key) conflict_body s = (failed N conflict_error, ?s')"
    by (simp add: post_events_def conflict_valid)
  have "hx_status (failed N conflict_error) = 409"
    using assms(2) by (simp add: failed_def conflict_error_def filter_laws_def)
  with post_event_api [where H = H, OF assms(1) usable_nonempty [OF assms(3)] assms(6,9) run]
  obtain p' where call: "post_event J ?net conflict_body key p = (Inr (409, hx_body (failed N conflict_error)), p')"
      "pg_world p' = ((Suc n, g'), ?s')" "pg_verdicts p' = pg_verdicts p" "pg_current p' = pg_current p"
    by metis
  then have "attack_conflict J ?net cur p = (Inr (), verdict True p')"
    by (simp add: attack_conflict_def assms(8))
  then have click: "click_attack attack_conflict J ?net p = verdict True p'"
    using assms(7) by (simp add: click_attack_def)
  show thesis
    by (rule that [of ?s']) (simp_all add: click verdict_def call)
qed

lemma badkey_held:
  assumes "json_laws J" and "filter_laws N" and "validation_pipe isEmail (sm_body cur) = Some dto"
    and "pg_world p = ((n, g), s)" and "pg_current p = Some cur"
    and "through_gate R env n g = (True, g1)" and "through_gate R env (Suc n) g1 = (True, g2)"
  shows "pg_world (click_attack attack_badkey J (api_net J N R isEmail H env) p) = ((Suc (Suc n), g2), s)
    \<and> pg_verdicts (click_attack attack_badkey J (api_net J N R isEmail H env) p) = True # pg_verdicts p"
proof -
  let ?net = "api_net J N R isEmail H env"
  have bad: "\<exists>a. post_events N isEmail (H m) env (Some k) (sm_body cur) s = (a, s) \<and> hx_status a = 400"
    if "assertUsableAsJobId k = Inl e" for m k e
  proof -
    have "event_key (request_hash (H m) dto) dto (Some k) = k" by (simp add: event_key_def)
    with post_events_bad_key [OF assms(2,3), of "H m" "Some k" e env s] that
    have "hx_status (fst (post_events N isEmail (H m) env (Some k) (sm_body cur) s)) = 400"
      "snd (post_events N isEmail (H m) env (Some k) (sm_body cur) s) = s" by simp_all
    then show ?thesis by (metis prod.collapse)
  qed
  obtain a where a: "post_events N isEmail (H n) env (Some ''order:123'') (sm_body cur) s = (a, s)" "hx_status a = 400"
    using bad [OF bad_keys(1)] by blast
  obtain p1 where p1: "post_event J ?net (sm_body cur) ''order:123'' p = (Inr (400, hx_body a), p1)"
      "pg_world p1 = ((Suc n, g1), s)" "pg_verdicts p1 = pg_verdicts p"
    using post_event_api [where H = H, OF assms(1) _ assms(4,6) a(1)] a(2) by (metis list.distinct(1))
  obtain b where b: "post_events N isEmail (H (Suc n)) env (Some ''12345'') (sm_body cur) s = (b, s)" "hx_status b = 400"
    using bad [OF bad_keys(2)] by blast
  obtain p2 where p2: "post_event J ?net (sm_body cur) ''12345'' p1 = (Inr (400, hx_body b), p2)"
      "pg_world p2 = ((Suc (Suc n), g2), s)" "pg_verdicts p2 = pg_verdicts p1"
    using post_event_api [where H = H, OF assms(1) _ p1(2) assms(7) b(1)] b(2) by (metis list.distinct(1))
  have "attack_badkey J ?net cur p = (Inr (), verdict True p2)"
    by (simp add: attack_badkey_def p1(1) p2(1))
  then have click: "click_attack attack_badkey J ?net p = verdict True p2"
    using assms(5) by (simp add: click_attack_def)
  show ?thesis by (simp add: click verdict_def p2 p1)
qed

lemma submit_accepted:
  assumes "json_laws J" and "form_key demo input = key" and "key \<noteq> ''''" and "pg_world p = ((n, g), s)"
    and "through_gate R env n g = (True, g')"
    and "post_events N isEmail (H n) env (Some key) bod s = (\<lparr>hx_status = 202, hx_body = answer_json r\<rparr>, s')"
    and "ir_ticketId r = Some t"
  obtains p' where "submitTicket J (api_net J N R isEmail H env) demo input bod p = (True, p')"
    "pg_world p' = ((Suc n, g'), s')" "pg_verdicts p' = pg_verdicts p"
    "pg_current p' = Some \<lparr>sm_key = key, sm_ticketId = Some (JStr t), sm_body = bod\<rparr>"
proof -
  let ?p1 = "set_stage ''accepted'' ''active'' (resetPipeline (p\<lparr>pg_note := No_Note\<rparr>))"
  have p1: "pg_world ?p1 = ((n, g), s)" "pg_verdicts ?p1 = pg_verdicts p"
    using assms(4) by (simp_all add: set_stage_def resetPipeline_def)
  obtain p2 where p2: "post_event J (api_net J N R isEmail H env) bod key ?p1 = (Inr (202, answer_json r), p2)"
      "pg_world p2 = ((Suc n, g'), s')" "pg_verdicts p2 = pg_verdicts p"
    using post_event_api [where H = H, OF assms(1,3) p1(1) assms(5,6)] p1(2) by auto
  from p2(1) [unfolded post_event_def] show thesis
    using p2(2,3) assms(7)
    by (intro that [of "snd (submitTicket J (api_net J N R isEmail H env) demo input bod p)"])
       (simp_all add: submitTicket_def Let_def assms(2) answer_json_fields set_stage_def)
qed

text \<open>
  C28: the page's three deterministic attacks tell the truth, as long as the visitor is not rate limited. A
  visitor submits a valid form under a usable key the service does not know, nothing fails, the body is not
  the page's other content and SHA-256 does not collide on the two, and then resends it, reuses its key for
  the other content and tries the page's two unusable keys, with no request in between; if the throttler
  guard admits these five requests, the page starts polling and shows three verdicts that the service held:
  it replayed the same ticket, refused the reuse with 409 and the keys with 400; and the three left database
  and queue as the submission had made them, with one ticket more than before it. If the guard refuses the
  submission instead, it reaches no handler: the page does not poll, says that it was rate limited, keeps
  the submission it had, and database and queue are unchanged.
\<close>

theorem demo_attacks_hold:
  assumes "json_laws J" and "filter_laws N" and "form_key demo input = key" and "assertUsableAsJobId key = Inr ()"
    and "dto = form_dto subj text email" and "dto_ok isEmail dto" and "ce_body dto \<noteq> ce_body conflict_dto"
    and "\<And>n. ih_num (H n) = num \<and> ih_sha256 (H n) = sha" and "number_printer num"
    and "inj_on sha {canonical_text num (request_payload dto), canonical_text num (request_payload conflict_dto)}"
    and "pg_world p = ((0, g), s)" and "schema_ok (ap_db s)" and "key_row key (ap_db s) = None"
    and "ih_idemId (H 0) \<notin> values_of ik_id (idempotency_keys (ap_db s))"
    and "ih_eventId (H 0) \<notin> values_of ev_id (events (ap_db s))"
    and "ih_ticketId (H 0) \<notin> values_of tk_id (tickets (ap_db s))"
    and "ih_faults (H 0) = no_faults" and "ih_completed_err (H 0) = None"
    and "enqueue (ih_bull (H 0)) env (event_job (H 0) key (ih_ticketId (H 0)) (ih_eventId (H 0))) (ap_queue s)
      = (Inr jobId, q)"
    and "net = api_net J N R isEmail H env"
    and "submitTicket J net demo input (form_body subj text email) p = (polls, p1)"
    and "p2 = click_attack attack_badkey J net
       (click_attack attack_conflict J net (click_attack attack_duplicate J net p1))"
  shows "(lets_in R env 0 5 g g5 \<longrightarrow> polls \<and> pg_verdicts p2 = [True, True, True] @ pg_verdicts p
      \<and> ap_db (snd (pg_world p2)) = ap_db (snd (pg_world p1))
      \<and> ap_queue (snd (pg_world p2)) = ap_queue (snd (pg_world p1)) \<and> ap_queue (snd (pg_world p1)) = q
      \<and> length (tickets (ap_db (snd (pg_world p1)))) = Suc (length (tickets (ap_db s))))
    \<and> (\<not> fst (through_gate R env 0 g) \<longrightarrow>
        \<not> polls \<and> pg_note p1 = Rate_Limited \<and> pg_current p1 = pg_current p \<and> snd (pg_world p1) = s)"
proof (intro conjI impI)
  assume "lets_in R env 0 5 g g5"
  then have "lets_in R env 0 (Suc (Suc (Suc (Suc (Suc 0))))) g g5" by (simp add: eval_nat_numeral)
  then obtain g1 g2 g3 g4 where gates: "through_gate R env 0 g = (True, g1)" "through_gate R env 1 g1 = (True, g2)"
      "through_gate R env 2 g2 = (True, g3)" "through_gate R env 3 g3 = (True, g4)" "through_gate R env 4 g4 = (True, g5)"
    by (elim lets_in_Suc) (simp add: eval_nat_numeral)
  let ?bod = "form_body subj text email"
  have valid: "validation_pipe isEmail ?bod = Some dto" using form_valid assms(5,6) by simp
  have hashes: "request_hash (H n) d' = request_hash (H 0) d'" for n d' by (simp add: assms(8))
  have plain: "plain_json (request_payload dto)" "plain_json (request_payload conflict_dto)"
    by (simp_all add: payload_plain assms(5) form_dto_def conflict_dto_def)
  have "denote (request_payload dto) \<noteq> denote (request_payload conflict_dto)"
    using payload_subject assms(7) by blast
  with hash_iff_content [OF plain assms(9,10)]
  have "request_hash (H 0) conflict_dto \<noteq> request_hash (H 0) dto" by (simp only: assms(8)) simp
  moreover have key0: "key = event_key (request_hash (H 0) dto) dto (Some key)" by (simp add: event_key_def)
  moreover obtain s1 where run: "ingest (H 0) env dto (Some key) s = (Inr \<lparr>ir_status = Accepted,
        ir_idempotencyKey = key, ir_ticketId = Some (ih_ticketId (H 0)), ir_jobId = Some jobId\<rparr>, s1)"
      and after: "ap_queue s1 = q" "length (tickets (ap_db s1)) = Suc (length (tickets (ap_db s)))"
        "\<exists>x. key_row key (ap_db s1) = Some x \<and> ik_status x = IK_COMPLETED \<and> ik_ticketId x = Some (ih_ticketId (H 0))
          \<and> ik_requestHash x = request_hash (H 0) dto"
    using accepted_then_replayed_aux [OF assms(12) key0 assms(4,13-19)] by auto
  ultimately obtain x where row: "key_row key (ap_db s1) = Some x" "ik_status x = IK_COMPLETED"
      "ik_ticketId x = Some (ih_ticketId (H 0))" "ik_requestHash x = request_hash (H 0) dto"
      "ik_requestHash x \<noteq> request_hash (H 0) conflict_dto" by metis
  obtain p1' where "submitTicket J net demo input ?bod p = (True, p1')"
      and p1': "pg_world p1' = ((1, g1), s1)" "pg_verdicts p1' = pg_verdicts p"
        "pg_current p1' = Some \<lparr>sm_key = key, sm_ticketId = Some (JStr (ih_ticketId (H 0))), sm_body = ?bod\<rparr>"
    using submit_accepted [where H = H and n = 0, OF assms(1,3) usable_nonempty [OF assms(4)] assms(11)
        gates(1) post_events_valid [OF valid run]] assms(20) by auto
  with assms(21) have polls: "polls" "p1 = p1'" by simp_all
  have "ik_requestHash x = request_hash (H 1) dto" by (simp only: row(4) hashes [of 1])
  then obtain s2 where dup: "pg_world (click_attack attack_duplicate J net p1) = ((2, g2), s2)" "ap_db s2 = ap_db s1"
      "ap_queue s2 = ap_queue s1" "pg_verdicts (click_attack attack_duplicate J net p1) = True # pg_verdicts p"
      "pg_current (click_attack attack_duplicate J net p1) = pg_current p1"
    using duplicate_held [where H = H and n = 1, OF assms(1,4) row(1-3) _ valid _ p1'(1) gates(2) p1'(3)] p1'(2) polls(2) assms(5,20)
    by (auto simp: form_dto_def numeral_2_eq_2)
  let ?cur = "\<lparr>sm_key = key, sm_ticketId = Some (JStr (ih_ticketId (H 0))), sm_body = ?bod\<rparr>"
  let ?q2 = "click_attack attack_duplicate J net p1"
  have row2: "key_row key (ap_db s2) = Some x" by (simp add: dup(2) row(1))
  have ne: "ik_requestHash x \<noteq> request_hash (H 2) conflict_dto"
    using row(5) by (simp only: hashes [of 2] not_False_eq_True)
  have cur: "pg_current ?q2 = Some ?cur" "sm_key ?cur = key" "sm_body ?cur = ?bod"
    using dup(5) p1'(3) polls(2) by simp_all
  obtain s3 where con: "pg_world (click_attack attack_conflict J net ?q2) = ((Suc 2, g3), s3)"
      "ap_db s3 = ap_db s2" "ap_queue s3 = ap_queue s2"
      "pg_verdicts (click_attack attack_conflict J net ?q2) = True # pg_verdicts ?q2"
      "pg_current (click_attack attack_conflict J net ?q2) = pg_current ?q2"
    by (rule conflict_held [where H = H and n = 2 and isEmail = isEmail and env = env,
          OF assms(1,2,4) row2 ne dup(1) cur(1,2) gates(3), folded assms(20)])
  have bad: "pg_world p2 = ((Suc (Suc (Suc 2)), g5), s3)
      \<and> pg_verdicts p2 = True # pg_verdicts (click_attack attack_conflict J net ?q2)"
    unfolding assms(22) unfolding assms(20)
    by (rule badkey_held [where H = H, OF assms(1,2) _ con(1) [unfolded assms(20)] con(5) [unfolded cur(1), unfolded assms(20)]])
       (use gates(4,5) in \<open>simp_all add: valid eval_nat_numeral\<close>)
  show polls by (rule polls(1))
  show "pg_verdicts p2 = [True, True, True] @ pg_verdicts p"
    and "ap_db (snd (pg_world p2)) = ap_db (snd (pg_world p1))"
    and "ap_queue (snd (pg_world p2)) = ap_queue (snd (pg_world p1))" and "ap_queue (snd (pg_world p1)) = q"
    and "length (tickets (ap_db (snd (pg_world p1)))) = Suc (length (tickets (ap_db s)))"
    using bad polls(2) p1'(1) con(2-4) dup(2-4) after by simp_all
next
  let ?p0 = "set_stage ''accepted'' ''active'' (resetPipeline (p\<lparr>pg_note := No_Note\<rparr>))"
  assume "\<not> fst (through_gate R env 0 g)"
  then obtain g' where gate: "through_gate R env 0 g = (False, g')" by (metis prod.collapse)
  obtain res p' where call: "post_event J net (form_body subj text email) key ?p0 = (res, p')" by (rule prod.exhaust)
  have "pg_world ?p0 = ((0, g), s)" "pg_current ?p0 = pg_current p" using assms(11) by (simp_all add: set_stage_def resetPipeline_def)
  with post_event_refused [OF assms(1) _ gate call [unfolded assms(20)]] obtain b where
    refused: "snd (pg_world p') = s" "pg_current p' = pg_current p" "res = Inr (429, b)" by auto
  with assms(21) call have "(False, (set_stage ''accepted'' [] p')\<lparr>pg_note := Rate_Limited\<rparr>) = (polls, p1)"
    by (simp add: submitTicket_def post_event_def Let_def assms(3) note_of_def)
  then show "\<not> polls" and "pg_note p1 = Rate_Limited" and "pg_current p1 = pg_current p"
    and "snd (pg_world p1) = s"
    using refused by (auto simp: set_stage_def)
qed

subsection \<open>A visit\<close>

text \<open>JSON texts that read back: the printer of \<open>Canonical_Hash\<close>, and its inverse.\<close>

definition ref_json :: json_lib where
  "ref_json = \<lparr>js_parse = (\<lambda>text. if text \<in> range (stringify unary) then Some (inv (stringify unary) text) else None),
     js_stringify = stringify unary\<rparr>"

lemma ref_json_laws: "json_laws ref_json"
proof -
  have "inj (stringify unary)" by (rule injI) (simp add: stringify_inject [OF unary_printer])
  then show ?thesis by (simp add: json_laws_def ref_json_def)
qed

definition ref_nest :: nest where
  "ref_nest = \<lparr>ns_status = (\<lambda>e. case e of BadRequestException _ \<Rightarrow> 400 | NotFoundException _ \<Rightarrow> 404
       | ConflictException _ \<Rightarrow> 409 | _ \<Rightarrow> 500),
     ns_body = (\<lambda>e. JStr (exn_message e)), ns_invalid = (\<lambda>_. ''Bad Request'')\<rparr>"

lemma ref_nest_laws: "filter_laws ref_nest"
  by (simp add: filter_laws_def ref_nest_def)

definition first_page :: "((nat \<times> ref_hits_state) \<times> ref_queue api) page" where
  "first_page = \<lparr>pg_world = ((0, []), order_api), pg_log = [], pg_current = None, pg_stage = (\<lambda>_. ''''),
     pg_note = No_Note, pg_verdicts = []\<rparr>"

text \<open>One request a second, behind a guard with the default limits.\<close>

definition demo_gate :: "ref_hits_state gate" where
  "demo_gate = \<lparr>gt_guard = ref_guard, gt_ip = ''1.2.3.4'', gt_clock = (\<lambda>n. 1000 * int n),
     gt_refusal = ''ThrottlerException: Too Many Requests''\<rparr>"

abbreviation demo_net :: "((nat \<times> ref_hits_state) \<times> ref_queue api) network" where
  "demo_net \<equiv> api_net ref_json ref_nest demo_gate (\<lambda>_. True) (\<lambda>_. order_host) env_defaults"

theorem demo_attacks_hold_witness:
  "pg_verdicts (click_attack attack_badkey ref_json demo_net
     (click_attack attack_conflict ref_json demo_net
       (click_attack attack_duplicate ref_json demo_net
         (snd (submitTicket ref_json demo_net ''demo-1'' ''order-1'' (form_body ''Refund'' ''Please'' '''') first_page)))))
   = [True, True, True]"
proof -
  let ?dto = "form_dto ''Refund'' ''Please'' ''''"
  obtain polls p1 where sub: "submitTicket ref_json demo_net ''demo-1'' ''order-1'' (form_body ''Refund'' ''Please'' '''') first_page
      = (polls, p1)" by (rule prod.exhaust)
  have trim: "str_trim ''Refund'' = ''Refund''" "str_trim ''Please'' = ''Please''" "str_trim '''' = ''''"
    "str_trim ''order-1'' = ''order-1''" by code_simp+
  have key: "form_key ''demo-1'' ''order-1'' = ''order-1''" by (simp add: form_key_def trim)
  have dto: "dto_ok (\<lambda>_. True) ?dto" "ce_body ?dto \<noteq> ce_body conflict_dto"
    by (simp_all add: dto_ok_def form_dto_def trim max_len_def conflict_dto_def)
  have hosts: "ih_num order_host = unary \<and> ih_sha256 order_host = id" by (simp add: order_host_def)
  have db: "ap_db order_api = empty_db" "idempotency_keys empty_db = []" "events empty_db = []" "tickets empty_db = []"
    by (simp_all add: order_api_def empty_db_def)
  have enq: "enqueue (ih_bull order_host) env_defaults (event_job order_host ''order-1'' (ih_ticketId order_host)
        (ih_eventId order_host)) (ap_queue order_api)
      = (Inr ''order-1'', empty_queue\<lparr>rq_jobs := [(''order-1'', new_job (event_job order_host ''order-1'' ''t1'' ''e1'')
          (standard_opts env_defaults ''order-1''))]\<rparr>)"
    by (simp add: enqueue_def ref_bull_def empty_queue_def order_host_def standard_opts_def order_id_ok event_job_def
        order_api_def)
  have gate: "lets_in demo_gate env_defaults 0 5 [] (snd (admit_all ref_guard env_defaults
      (map (\<lambda>i. (Post_Events, gt_ip demo_gate, gt_clock demo_gate i)) [0..<5]) []))"
    by code_simp
  have page: "pg_world first_page = ((0, []), order_api)" "pg_verdicts first_page = []" by (simp_all add: first_page_def)
  have fine: "ih_faults order_host = no_faults" "ih_completed_err order_host = None" by (simp_all add: order_host_def)
  have schema: "schema_ok (ap_db order_api)" by (simp add: db(1) schema_ok_empty)
  have empty: "key_row ''order-1'' (ap_db order_api) = None"
    "ih_idemId order_host \<notin> values_of ik_id (idempotency_keys (ap_db order_api))"
    "ih_eventId order_host \<notin> values_of ev_id (events (ap_db order_api))"
    "ih_ticketId order_host \<notin> values_of tk_id (tickets (ap_db order_api))"
    by (simp_all add: db)
  from demo_attacks_hold [where H = "\<lambda>_. order_host" and sha = id, OF ref_json_laws ref_nest_laws key order_usable refl dto
      hosts unary_printer inj_on_id page(1) schema empty fine enq refl sub refl, THEN conjunct1, THEN mp, OF gate,
      THEN conjunct2, THEN conjunct1]
  show ?thesis by (simp only: sub page(2) snd_conv append_Nil2)
qed

end
