(* ===== verification/Demo_Form.thy ===== *)
theory Demo_Form
  imports Demo_Attacks Classifier
begin

section \<open>The demo client's form, race and wiring (public/app.js)\<close>

text \<open>
  The presets that fill the form, the race of twelve identical submissions, and what the page sets up when
  it loads. A preset is followed through the service: its submission passes the validation, its key is
  usable, and the rule-based classifier puts it where the preset's name says.
\<close>

subsection \<open>Presets\<close>

record preset =
  ps_subject :: string
  ps_body :: string
  ps_email :: string

definition PRESETS :: "(string \<times> preset) list" where
  "PRESETS =
     [(''billing'', \<lparr>ps_subject = ''Double charged on invoice'',
        ps_body = ''I was billed twice for the Pro plan this month, please refund the duplicate charge.'',
        ps_email = ''alex@example.com''\<rparr>),
      (''account'', \<lparr>ps_subject = ''Cannot log in to my account'',
        ps_body = ''The password reset email never arrives and my account is locked out.'',
        ps_email = ''sam@example.com''\<rparr>),
      (''outage'', \<lparr>ps_subject = ''Everything is down'',
        ps_body = ''The API returns 500 for every request. This is urgent, our checkout is broken.'',
        ps_email = ''ops@example.com''\<rparr>),
      (''feature'', \<lparr>ps_subject = ''Please add CSV export'',
        ps_body = ''It would be nice to export the report as CSV instead of copying it by hand.'',
        ps_email = ''jo@example.com''\<rparr>)]"

record form =
  fm_key :: string
  fm_subject :: string
  fm_body :: string
  fm_email :: string

definition demo_key :: "(int \<Rightarrow> string) \<Rightarrow> int \<Rightarrow> string" where
  "demo_key show_int now = ''demo-'' @ show_int now"

text \<open>A click on a chip; a name that is no preset throws before anything is set.\<close>

definition click_chip :: "(int \<Rightarrow> string) \<Rightarrow> int \<Rightarrow> string \<Rightarrow> form \<Rightarrow> form" where
  "click_chip show_int now name f = (case map_of PRESETS name of
       None \<Rightarrow> f
     | Some p \<Rightarrow> \<lparr>fm_key = demo_key show_int now, fm_subject = ps_subject p, fm_body = ps_body p,
         fm_email = ps_email p\<rparr>)"

subsection \<open>Loading the page\<close>

datatype refresh = Refresh_Health | Refresh_Metrics

text \<open>The calls made at once, then those on a timer with its period in milliseconds.\<close>

definition first_calls :: "refresh list" where
  "first_calls = [Refresh_Health, Refresh_Metrics]"

definition timers :: "(refresh \<times> int) list" where
  "timers = [(Refresh_Health, 15000), (Refresh_Metrics, 5000)]"

definition load_form :: "(int \<Rightarrow> string) \<Rightarrow> int \<Rightarrow> form \<Rightarrow> form" where
  "load_form show_int now f = f\<lparr>fm_key := demo_key show_int now\<rparr>"

text \<open>After an attack, held or failed, every button is enabled again and the metrics are refreshed.\<close>

definition attack_buttons :: "(string \<Rightarrow> bool) \<Rightarrow> 'w attack \<Rightarrow> json_lib \<Rightarrow> 'w network \<Rightarrow> 'w page \<Rightarrow>
    (string \<Rightarrow> bool) \<times> refresh list \<times> 'w page" where
  "attack_buttons disabled att J net p = (case pg_current p of
       None \<Rightarrow> (disabled, [], p)
     | Some _ \<Rightarrow> ((\<lambda>_. False), [Refresh_Metrics], click_attack att J net p))"

subsection \<open>The race\<close>

definition race_body :: "(string \<times> json) list" where
  "race_body = [(''subject'', JStr ''Concurrent submission''),
     (''body'', JStr ''Twelve identical requests fired at the same moment.'')]"

text \<open>
  The requests in the order the server answers them; \<open>Promise.all\<close> puts the results back into the order
  of the array, which the verdict does not depend on.
\<close>

fun race_calls :: "json_lib \<Rightarrow> 'w network \<Rightarrow> string \<Rightarrow> nat \<Rightarrow> 'w page \<Rightarrow> (exn + int \<times> json) list \<times> 'w page" where
  "race_calls J net key 0 p = ([], p)"
| "race_calls J net key (Suc n) p =
     (case post_event J net race_body key p of
        (r, p1) \<Rightarrow> (case race_calls J net key n p1 of (rs, p2) \<Rightarrow> (r # rs, p2)))"

definition attack_race :: "(int \<Rightarrow> string) \<Rightarrow> int \<Rightarrow> 'w attack" where
  "attack_race show_int now J net cur p =
     (case race_calls J net (''race-'' @ show_int now) 12 p of
        (rs, p1) \<Rightarrow> (Inr (), verdict (race_held (race_results rs)) p1))"

text \<open>
  One answer \<open>accepted\<close>, and every other without that status and with no other ticket: the race was held,
  in whatever order the answers came and however many are \<open>replayed\<close>, \<open>processing\<close>, refused or failed.
\<close>

lemma race_held_one:
  assumes "json_field ''status'' a = Some (JStr ''accepted'')" and "json_field ''ticketId'' a = Some (JStr t)"
    and "\<forall>(st, q) \<in> set xs \<union> set ys. json_field ''status'' q \<noteq> Some (JStr ''accepted'')
      \<and> (truthy (json_field ''ticketId'' q) \<longrightarrow> json_field ''ticketId'' q = Some (JStr t))"
  shows "race_held (xs @ (code0, a) # ys)"
proof -
  let ?acc = "\<lambda>(_, q). json_field ''status'' q = Some (JStr ''accepted'')"
  let ?ids = "\<lambda>rs. filter truthy (map (\<lambda>(_, q). json_field ''ticketId'' q) rs)"
  have others: "json_field ''status'' q \<noteq> Some (JStr ''accepted'')"
      "truthy (json_field ''ticketId'' q) \<Longrightarrow> json_field ''ticketId'' q = Some (JStr t)"
    if "(st, q) \<in> set xs \<union> set ys" for st q
    using assms(3) that by fast+
  have none: "filter ?acc zs = []" if "set zs \<subseteq> set xs \<union> set ys" for zs
    using that others(1) by (auto simp: filter_empty_conv)
  have "set (?ids (xs @ (code0, a) # ys)) \<subseteq> {Some (JStr t)}"
    using assms(2) others(2) by auto
  then have "card (set (?ids (xs @ (code0, a) # ys))) \<le> card {Some (JStr t)}" by (intro card_mono) auto
  then have "length (remdups (?ids (xs @ (code0, a) # ys))) \<le> 1" by (simp add: length_remdups_card_conv)
  moreover have "length (filter ?acc (xs @ (code0, a) # ys)) = 1"
    using none [of xs] none [of ys] assms(1) by simp
  ultimately show ?thesis by (simp only: race_held_def)
qed

subsection \<open>The presets in the service\<close>

lemma preset_validates:
  assumes "(name, ps) \<in> set PRESETS" and "isEmail (ps_email ps)"
  shows "validation_pipe isEmail (form_body (ps_subject ps) (ps_body ps) (ps_email ps))
    = Some (form_dto (ps_subject ps) (ps_body ps) (ps_email ps))"
proof -
  have trim: "list_all (\<lambda>(_, p). str_trim (ps_subject p) = ps_subject p \<and> str_trim (ps_body p) = ps_body p
      \<and> str_trim (ps_email p) = ps_email p \<and> ps_email p \<noteq> [] \<and> 1 \<le> length (ps_subject p)
      \<and> length (ps_subject p) \<le> 500 \<and> 1 \<le> length (ps_body p) \<and> length (ps_body p) \<le> 10000) PRESETS"
    by code_simp
  then have "dto_ok isEmail (form_dto (ps_subject ps) (ps_body ps) (ps_email ps))"
    using assms by (auto simp: list_all_iff dto_ok_def form_dto_def max_len_def)
  then show ?thesis by (rule form_valid)
qed

lemma demo_key_usable:
  assumes "list_all is_digit (show_int now)" and "length (show_int now) \<le> 200"
  shows "assertUsableAsJobId (demo_key show_int now) = Inr ()" "str_trim (demo_key show_int now) = demo_key show_int now"
proof -
  have chars: "list_all key_char (show_int now)" using assms(1) by (auto simp: list_all_iff key_char_def is_alnum_def)
  have start: "is_alnum CHR ''d''" "list_all key_char ''emo-''" "\<not> is_digit CHR ''d''" "\<not> is_space CHR ''d''" "\<not> is_space CHR ''-''"
    by code_simp+
  then show "assertUsableAsJobId (demo_key show_int now) = Inr ()"
    using assms chars by (simp add: assertUsableAsJobId_def matches_key_pattern_def demo_key_def)
  have digit: "\<not> is_space c" if "is_digit c" for c using that by (auto simp: is_digit_def is_space_def)
  have last: "\<not> is_space (last (demo_key show_int now))"
  proof (cases "show_int now" rule: rev_cases)
    case Nil
    then show ?thesis using start by (simp add: demo_key_def)
  next
    case (snoc ds d)
    then show ?thesis using assms(1) digit by (simp add: demo_key_def)
  qed
  have edge: "dropWhile is_space s = s" if "s \<noteq> [] \<Longrightarrow> \<not> is_space (hd s)" for s
    using that by (cases s) auto
  have "dropWhile is_space (demo_key show_int now) = demo_key show_int now"
    by (rule edge) (simp add: demo_key_def start)
  moreover have "dropWhile is_space (rev (demo_key show_int now)) = rev (demo_key show_int now)"
    by (rule edge) (use last in \<open>simp add: hd_rev\<close>)
  ultimately show "str_trim (demo_key show_int now) = demo_key show_int now" by (simp add: str_trim_def)
qed

text \<open>The texts the classifier sees, lower-cased.\<close>

lemma preset_texts:
  "map (\<lambda>(name, ps). (name, str_lower (str_trim (ps_subject ps) @ '' '' @ str_trim (ps_body ps)))) PRESETS =
    [(''billing'',
      ''double charged on invoice i was billed twice for the pro plan this month, please refund the duplicate charge.''),
     (''account'',
      ''cannot log in to my account the password reset email never arrives and my account is locked out.''),
     (''outage'',
      ''everything is down the api returns 500 for every request. this is urgent, our checkout is broken.''),
     (''feature'',
      ''please add csv export it would be nice to export the report as csv instead of copying it by hand.'')]"
  by code_simp

lemma preset_categories:
  "categorize ''double charged on invoice i was billed twice for the pro plan this month, please refund the duplicate charge.'' = BILLING"
  "categorize ''cannot log in to my account the password reset email never arrives and my account is locked out.'' = ACCOUNT"
  "categorize ''everything is down the api returns 500 for every request. this is urgent, our checkout is broken.'' = TECHNICAL"
  "categorize ''please add csv export it would be nice to export the report as csv instead of copying it by hand.'' = FEATURE_REQUEST"
  by (simp_all add: categorize_def any_word_def CATEGORY_KEYWORDS_def apostrophe_def)

lemma preset_priorities:
  "prioritize ''double charged on invoice i was billed twice for the pro plan this month, please refund the duplicate charge.'' = MEDIUM"
  "prioritize ''cannot log in to my account the password reset email never arrives and my account is locked out.'' = HIGH"
  "prioritize ''everything is down the api returns 500 for every request. this is urgent, our checkout is broken.'' = URGENT"
  "prioritize ''please add csv export it would be nice to export the report as csv instead of copying it by hand.'' = MEDIUM"
  by (simp_all add: prioritize_def any_word_def URGENT_WORDS_def HIGH_WORDS_def LOW_WORDS_def apostrophe_def)

lemma preset_triage:
  "map (\<lambda>(name, ps). let r = fallback_classify (new_ticket_row i now e (form_dto (ps_subject ps) (ps_body ps) (ps_email ps)))
      in (name, le_category r, le_priority r)) PRESETS
   = [(''billing'', BILLING, MEDIUM), (''account'', ACCOUNT, HIGH), (''outage'', TECHNICAL, URGENT),
      (''feature'', FEATURE_REQUEST, MEDIUM)]"
proof -
  have eq: "(\<lambda>(name, ps). let r = fallback_classify (new_ticket_row i now e (form_dto (ps_subject ps) (ps_body ps) (ps_email ps)))
        in (name :: string, le_category r, le_priority r))
      = (\<lambda>(name, text). (name, categorize text, prioritize text))
        \<circ> (\<lambda>(name, ps). (name, str_lower (str_trim (ps_subject ps) @ '' '' @ str_trim (ps_body ps))))"
    by (simp add: fun_eq_iff fallback_classify_def new_ticket_row_def form_dto_def Let_def)
  show ?thesis
    unfolding eq list.map_comp [symmetric] preset_texts by (simp only: list.map prod.case preset_categories preset_priorities)
qed

text \<open>
  Every preset of the page is triaged as its name says. A click on a chip, at any time, and the
  submission of the form it fills: the body passes the validation (the addresses being emails), the key is
  usable and stays as filled in; once accepted, the ticket of the fallback is BILLING, ACCOUNT, TECHNICAL
  and URGENT, or FEATURE_REQUEST, after the preset's name.
\<close>

lemma presets_are_triaged:
  assumes "map_of PRESETS name = Some ps" and "isEmail (ps_email ps)"
    and "list_all is_digit (show_int now)" and "length (show_int now) \<le> 200"
    and "f = click_chip show_int now name f0" and "dto = form_dto (fm_subject f) (fm_body f) (fm_email f)"
    and "r = fallback_classify (new_ticket_row i t e dto)"
  shows "validation_pipe isEmail (form_body (fm_subject f) (fm_body f) (fm_email f)) = Some dto
    \<and> assertUsableAsJobId (form_key other (fm_key f)) = Inr () \<and> form_key other (fm_key f) = demo_key show_int now
    \<and> (name, le_category r, le_priority r) \<in> {(''billing'', BILLING, MEDIUM), (''account'', ACCOUNT, HIGH),
        (''outage'', TECHNICAL, URGENT), (''feature'', FEATURE_REQUEST, MEDIUM)}"
proof -
  have f: "f = \<lparr>fm_key = demo_key show_int now, fm_subject = ps_subject ps, fm_body = ps_body ps, fm_email = ps_email ps\<rparr>"
    using assms(1,5) by (simp add: click_chip_def)
  have mem: "(name, ps) \<in> set PRESETS" using assms(1) by (rule map_of_SomeD)
  have "demo_key show_int now \<noteq> ''''" by (simp add: demo_key_def)
  then have key: "form_key other (fm_key f) = demo_key show_int now"
    using demo_key_usable(2) [of show_int now, OF assms(3,4)] by (simp add: form_key_def f)
  have "(name, le_category r, le_priority r) \<in> set (map (\<lambda>(name, ps).
      let r = fallback_classify (new_ticket_row i t e (form_dto (ps_subject ps) (ps_body ps) (ps_email ps)))
      in (name, le_category r, le_priority r)) PRESETS)"
    using mem unfolding assms(6,7) f by (force simp: Let_def)
  then show ?thesis
    using preset_validates [where isEmail = isEmail, OF mem assms(2)] demo_key_usable(1) [of show_int now, OF assms(3,4)] key
    unfolding preset_triage by (simp add: assms(6) f)
qed

lemma presets_are_triaged_witness:
  "le_priority (fallback_classify (new_ticket_row ''t1'' 0 ''e1'' (form_dto
     (fm_subject (click_chip (\<lambda>_. ''17'') 17 ''outage'' \<lparr>fm_key = '''', fm_subject = '''', fm_body = '''', fm_email = ''''\<rparr>))
     (fm_body (click_chip (\<lambda>_. ''17'') 17 ''outage'' \<lparr>fm_key = '''', fm_subject = '''', fm_body = '''', fm_email = ''''\<rparr>))
     (fm_email (click_chip (\<lambda>_. ''17'') 17 ''outage'' \<lparr>fm_key = '''', fm_subject = '''', fm_body = '''', fm_email = ''''\<rparr>)))))
   = URGENT"
proof -
  obtain ps where ps: "map_of PRESETS ''outage'' = Some ps" by (simp add: PRESETS_def)
  have digits: "list_all is_digit ''17''" "length ''17'' \<le> 200" by (simp_all add: is_digit_def code_def)
  from presets_are_triaged [of "''outage''" ps "\<lambda>_. True" "\<lambda>_. ''17''" 17, OF ps TrueI digits refl refl refl]
  show ?thesis by simp
qed

subsection \<open>The race against the service\<close>

definition race_dto :: create_event where
  "race_dto = \<lparr>ce_idempotencyKey = None, ce_subject = ''Concurrent submission'',
     ce_body = ''Twelve identical requests fired at the same moment.'', ce_requesterEmail = None,
     ce_source = None, ce_metadata = None\<rparr>"

lemma race_valid: "validation_pipe isEmail race_body = Some race_dto"
proof (rule validation_roundtrip)
  show "dto_json race_dto = JObj race_body"
    by (simp add: dto_json_def race_dto_def race_body_def opt_field_def)
  show "dto_ok isEmail race_dto" by (simp add: dto_ok_def race_dto_def max_len_def)
qed

text \<open>What a result of the race that lost says.\<close>

definition replayed_with :: "string \<Rightarrow> exn + int \<times> json \<Rightarrow> bool" where
  "replayed_with t r \<longleftrightarrow> (case r of
       Inl _ \<Rightarrow> False
     | Inr (st, q) \<Rightarrow> json_field ''status'' q = Some (JStr ''replayed'') \<and> json_field ''ticketId'' q = Some (JStr t))"

lemma race_replays:
  assumes "json_laws J" and "assertUsableAsJobId key = Inr ()" and "key_row key d = Some x"
    and "ik_status x = IK_COMPLETED" and "ik_ticketId x = Some t"
    and "\<And>m. request_hash (H m) race_dto = ik_requestHash x"
    and "pg_world p = ((n, g), s)" and "ap_db s = d" and "lets_in R env n k g g'"
  shows "\<exists>rs p'. race_calls J (api_net J N R isEmail H env) key k p = (rs, p') \<and> list_all (replayed_with t) rs
    \<and> ap_db (snd (pg_world p')) = d \<and> pg_verdicts p' = pg_verdicts p"
  using assms(7-9)
proof (induction k arbitrary: p n g s)
  case 0
  then show ?case by simp
next
  case (Suc k)
  let ?s' = "count_event ''duplicate'' s"
  obtain g1 where gate: "through_gate R env n g = (True, g1)" "lets_in R env (Suc n) k g1 g'"
    using Suc.prems(3) by (rule lets_in_Suc)
  have row: "key_row key (ap_db s) = Some x" using assms(3) Suc.prems(2) by simp
  have "ingest (H n) env race_dto (Some key) s = (Inr (replay_answer key x), ?s')"
    by (rule replay_answers [OF assms(2) row assms(4)]) (simp_all add: assms(6) event_key_def)
  note run = post_events_valid [OF race_valid this, of N isEmail]
  obtain p1 where call: "post_event J (api_net J N R isEmail H env) race_body key p
      = (Inr (202, answer_json (replay_answer key x)), p1)" "pg_world p1 = ((Suc n, g1), ?s')" "pg_verdicts p1 = pg_verdicts p"
    using post_event_api [where H = H, OF assms(1) usable_nonempty [OF assms(2)] Suc.prems(1) gate(1) run] by auto
  have "ir_status (replay_answer key x) = Replayed" "ir_ticketId (replay_answer key x) = Some t"
    using assms(5) by (simp_all add: replay_answer_def Let_def)
  then have "replayed_with t (Inr (202, answer_json (replay_answer key x)))"
    by (simp add: replayed_with_def answer_json_fields)
  moreover from Suc.IH [OF call(2) _ gate(2)] Suc.prems(2) obtain rs p' where
    "race_calls J (api_net J N R isEmail H env) key k p1 = (rs, p')" "list_all (replayed_with t) rs"
    "ap_db (snd (pg_world p')) = d" "pg_verdicts p' = pg_verdicts p1"
    by (auto simp: count_event_def)
  ultimately show ?case using call(1,3) by simp
qed

text \<open>
  Against the service, under a key that is free, with nothing failing and the limits of the throttler
  guard not reached: the first request served is
  accepted, the eleven others are answered with its ticket, one ticket is added, and the verdict holds.
\<close>

lemma race_against_service:
  assumes "json_laws J" and "key = ''race-'' @ show_int now" and "assertUsableAsJobId key = Inr ()"
    and "\<And>n. request_hash (H n) race_dto = request_hash (H 0) race_dto"
    and "pg_world p = ((0, g), s)" and "schema_ok (ap_db s)" and "key_row key (ap_db s) = None"
    and "ih_idemId (H 0) \<notin> values_of ik_id (idempotency_keys (ap_db s))"
    and "ih_eventId (H 0) \<notin> values_of ev_id (events (ap_db s))"
    and "ih_ticketId (H 0) \<notin> values_of tk_id (tickets (ap_db s))"
    and "ih_faults (H 0) = no_faults" and "ih_completed_err (H 0) = None"
    and "enqueue (ih_bull (H 0)) env (event_job (H 0) key (ih_ticketId (H 0)) (ih_eventId (H 0))) (ap_queue s)
      = (Inr jobId, q)"
    and "attack_race show_int now J (api_net J N R isEmail H env) cur p = (res, p')"
    and "lets_in R env 0 12 g g'"
  shows "pg_verdicts p' = True # pg_verdicts p
    \<and> length (tickets (ap_db (snd (pg_world p')))) = Suc (length (tickets (ap_db s)))"
proof -
  let ?net = "api_net J N R isEmail H env" and ?t = "ih_ticketId (H 0)"
  have key: "key = event_key (request_hash (H 0) race_dto) race_dto (Some key)" by (simp add: event_key_def)
  have "lets_in R env 0 (Suc 11) g g'" using assms(15) by simp
  then obtain g1 where gate: "through_gate R env 0 g = (True, g1)" "lets_in R env (Suc 0) 11 g1 g'" by (rule lets_in_Suc)
  obtain s1 x where run: "ingest (H 0) env race_dto (Some key) s = (Inr \<lparr>ir_status = Accepted,
        ir_idempotencyKey = key, ir_ticketId = Some ?t, ir_jobId = Some jobId\<rparr>, s1)"
      and added: "length (tickets (ap_db s1)) = Suc (length (tickets (ap_db s)))"
      and row: "key_row key (ap_db s1) = Some x" "ik_status x = IK_COMPLETED" "ik_ticketId x = Some ?t"
        "ik_requestHash x = request_hash (H 0) race_dto"
    using accepted_then_replayed_aux [OF assms(6) key assms(3,7-13)] by auto
  let ?a = "\<lparr>ir_status = Accepted, ir_idempotencyKey = key, ir_ticketId = Some ?t, ir_jobId = Some jobId\<rparr>"
  note first = post_events_valid [OF race_valid run, of N isEmail]
  obtain p1 where p1: "post_event J ?net race_body key p = (Inr (202, answer_json ?a), p1)" "pg_world p1 = ((Suc 0, g1), s1)"
      "pg_verdicts p1 = pg_verdicts p"
    using post_event_api [where H = H, OF assms(1) usable_nonempty [OF assms(3)] assms(5) gate(1) first] by auto
  have hash: "request_hash (H m) race_dto = ik_requestHash x" for m using assms(4) row(4) by simp
  obtain rs p2 where rest: "race_calls J ?net key 11 p1 = (rs, p2)" "list_all (replayed_with ?t) rs"
      "ap_db (snd (pg_world p2)) = ap_db s1" "pg_verdicts p2 = pg_verdicts p1"
    using race_replays [where H = H, OF assms(1,3) row(1-3) hash p1(2) refl gate(2)] by metis
  have "race_calls J ?net key 12 p = (Inr (202, answer_json ?a) # rs, p2)"
    using p1(1) rest(1) race_calls.simps(2) [of J ?net key 11 p] by simp
  then have p': "p' = verdict (race_held (race_results (Inr (202, answer_json ?a) # rs))) p2"
    using assms(14) unfolding attack_race_def assms(2) [symmetric] by simp
  have lost: "json_field ''status'' q \<noteq> Some (JStr ''accepted'')
      \<and> (truthy (json_field ''ticketId'' q) \<longrightarrow> json_field ''ticketId'' q = Some (JStr ?t))"
    if mem: "(st, q) \<in> set (race_results rs)" for st q
  proof -
    from mem obtain r where r: "r \<in> set rs" "(case r of Inl _ \<Rightarrow> (0, JObj []) | Inr y \<Rightarrow> y) = (st, q)"
      by (auto simp: race_results_def)
    with rest(2) have "replayed_with ?t r" by (simp add: list_all_iff)
    with r(2) show ?thesis by (cases r) (auto simp: replayed_with_def)
  qed
  have "race_held ([] @ (202, answer_json ?a) # race_results rs)"
    by (rule race_held_one [where t = ?t]) (use lost in \<open>auto simp: answer_json_fields\<close>)
  moreover have "race_results (Inr (202, answer_json ?a) # rs) = (202, answer_json ?a) # race_results rs"
    by (simp add: race_results_def)
  ultimately have held: "race_held (race_results (Inr (202, answer_json ?a) # rs))" by simp
  show ?thesis using p1(3) rest(3,4) added by (simp add: p' held verdict_def)
qed

end
