(* ===== verification/Seed.thy ===== *)
theory Seed
  imports Demo_Attacks
begin

section \<open>The seed script (scripts/seed.ts)\<close>

text \<open>
  The three sample tickets, posted one after the other to a running instance, and the exit code. The
  third sample has no key: the server derives one from the content, so a second seeding of the same
  database is answered with the tickets of the first and writes nothing.
\<close>

subsection \<open>Samples\<close>

record sample_event =
  sa_idempotencyKey :: "string option"
  sa_subject :: string
  sa_body :: string
  sa_requesterEmail :: "string option"
  sa_source :: "string option"

definition samples :: "sample_event list" where
  "samples =
     [\<lparr>sa_idempotencyKey = Some ''seed-billing-001'', sa_subject = ''Double charged on my invoice'',
        sa_body = ''I was billed twice for the Pro plan this month. Please refund the duplicate charge.'',
        sa_requesterEmail = Some ''alex@example.com'', sa_source = Some ''email''\<rparr>,
      \<lparr>sa_idempotencyKey = Some ''seed-tech-001'', sa_subject = ''App crashes on export'',
        sa_body = ''Every time I export a report to PDF the app freezes and I have to force quit.'',
        sa_requesterEmail = Some ''sam@example.com'', sa_source = Some ''web''\<rparr>,
      \<lparr>sa_idempotencyKey = None, sa_subject = ''How do I reset my password?'',
        sa_body = ''I forgot my password and the reset email never arrives.'',
        sa_requesterEmail = Some ''jordan@example.com'', sa_source = Some ''chat''\<rparr>]"

text \<open>\<open>JSON.stringify\<close> leaves out a property that is undefined.\<close>

definition sample_body :: "sample_event \<Rightarrow> (string \<times> json) list" where
  "sample_body a = opt_field ''idempotencyKey'' (map_option JStr (sa_idempotencyKey a))
     @ [(''subject'', JStr (sa_subject a)), (''body'', JStr (sa_body a))]
     @ opt_field ''requesterEmail'' (map_option JStr (sa_requesterEmail a))
     @ opt_field ''source'' (map_option JStr (sa_source a))"

definition BASE_URL :: "string option \<Rightarrow> string" where
  "BASE_URL port = ''http://localhost:'' @ (case port of Some p \<Rightarrow> p | None \<Rightarrow> ''3000'')"

subsection \<open>The script\<close>

datatype seed_line = Posted int json | Hint string | Failed exn

definition seed_request :: "json_lib \<Rightarrow> sample_event \<Rightarrow> client_request" where
  "seed_request J a = \<lparr>cq_method = ''POST'', cq_path = ''/events'', cq_query = [],
     cq_headers = [(''content-type'', ''application/json'')],
     cq_body = Some (js_stringify J (JObj (sample_body a)))\<rparr>"

text \<open>A rejected \<open>fetch\<close> and a body that is not JSON end the loop, before the line of that sample.\<close>

fun seed_posts :: "json_lib \<Rightarrow> 'w network \<Rightarrow> sample_event list \<Rightarrow> 'w \<Rightarrow> (exn + unit) \<times> seed_line list \<times> 'w" where
  "seed_posts J net [] w = (Inr (), [], w)"
| "seed_posts J net (a # as) w =
     (case net (seed_request J a) w of
        (None, w1) \<Rightarrow> (Inl (JsError ''fetch failed''), [], w1)
      | (Some (status, text), w1) \<Rightarrow>
          (case js_parse J text of
             None \<Rightarrow> (Inl (JsError ''not JSON''), [], w1)
           | Some j \<Rightarrow>
               (case seed_posts J net as w1 of (r, ls, w2) \<Rightarrow> (r, Posted status j # ls, w2))))"

text \<open>The two lines at the end; then the exit code and what was printed.\<close>

definition seed_hints :: "string option \<Rightarrow> seed_line list" where
  "seed_hints port = [Hint (CHR 0x0A # ''Inspect a ticket:  GET '' @ BASE_URL port @ ''/tickets/<id>''),
     Hint (''Webhook sink:      GET '' @ BASE_URL port @ ''/_sink/deliveries'')]"

definition seed_main :: "json_lib \<Rightarrow> (string \<Rightarrow> 'w network) \<Rightarrow> string option \<Rightarrow> 'w \<Rightarrow> int \<times> seed_line list \<times> 'w" where
  "seed_main J net port w =
     (case seed_posts J (net (BASE_URL port)) samples w of
        (Inl e, ls, w') \<Rightarrow> (1, ls @ [Failed e], w')
      | (Inr _, ls, w') \<Rightarrow> (0, ls @ seed_hints port, w'))"

lemma lengths: "length (seed_hints port) = 2" "length samples = 3"
  by (simp_all add: seed_hints_def samples_def)

text \<open>One line per sample, or fewer and exit code 1; the status of the answers does not matter.\<close>

lemma seed_posts_lines:
  assumes "seed_posts J net as w = (r, ls, w')"
  shows "length ls \<le> length as \<and> (length ls = length as \<longleftrightarrow> r = Inr ())"
  using assms
proof (induction as arbitrary: w ls)
  case Nil
  then show ?case by auto
next
  case (Cons a as)
  then show ?case by (auto split: prod.splits option.splits)
qed

lemma seed_exit_code:
  assumes "seed_main J net port w = (rc, ls, w')"
  shows "rc = 0 \<and> length ls = length samples + 2 \<or> rc = 1 \<and> length ls \<le> length samples"
proof -
  obtain r xs w1 where run: "seed_posts J (net (BASE_URL port)) samples w = (r, xs, w1)" by (metis prod_cases3)
  show ?thesis
  proof (cases r)
    case (Inl e)
    then have "rc = 1" "ls = xs @ [Failed e]" using assms by (simp_all add: seed_main_def run)
    then show ?thesis using seed_posts_lines [OF run] Inl by simp
  next
    case (Inr u)
    then have "rc = 0" "ls = xs @ seed_hints port" using assms by (simp_all add: seed_main_def run)
    then show ?thesis using seed_posts_lines [OF run] Inr by (simp add: lengths)
  qed
qed

subsection \<open>Against the service\<close>

definition sample_dto :: "sample_event \<Rightarrow> create_event" where
  "sample_dto a = \<lparr>ce_idempotencyKey = sa_idempotencyKey a, ce_subject = sa_subject a, ce_body = sa_body a,
     ce_requesterEmail = sa_requesterEmail a, ce_source = sa_source a, ce_metadata = None\<rparr>"

lemma samples_validate:
  assumes "a \<in> set samples" and "\<And>e. sa_requesterEmail a = Some e \<Longrightarrow> isEmail e"
  shows "validation_pipe isEmail (sample_body a) = Some (sample_dto a)"
proof (rule validation_roundtrip)
  show "dto_json (sample_dto a) = JObj (sample_body a)"
    by (simp add: dto_json_def sample_dto_def sample_body_def opt_field_def)
  show "dto_ok isEmail (sample_dto a)"
    using assms by (auto simp: samples_def dto_ok_def sample_dto_def max_len_def)
qed

text \<open>The samples with a key of their own are accepted by the guard.\<close>

lemma sample_keys_usable:
  "list_all (\<lambda>a. case sa_idempotencyKey a of None \<Rightarrow> True | Some k \<Rightarrow> assertUsableAsJobId k = Inr ()) samples"
  by code_simp

definition sample_key :: "(nat \<Rightarrow> 'q ingest_host) \<Rightarrow> sample_event \<Rightarrow> string" where
  "sample_key H a = event_key (request_hash (H 0) (sample_dto a)) (sample_dto a) None"

text \<open>A database in which a sample has been completed.\<close>

definition seeded :: "(nat \<Rightarrow> 'q ingest_host) \<Rightarrow> db \<Rightarrow> sample_event \<Rightarrow> bool" where
  "seeded H d a \<longleftrightarrow> assertUsableAsJobId (sample_key H a) = Inr ()
     \<and> (case key_row (sample_key H a) d of
          None \<Rightarrow> False
        | Some x \<Rightarrow> ik_status x = IK_COMPLETED \<and> ik_requestHash x = request_hash (H 0) (sample_dto a))"

lemma seed_post_api:
  assumes "json_laws J" and "validation_pipe isEmail (sample_body a) = Some dto"
    and "ingest (H n) env dto None s = (Inr r, s')" and "through_gate R env n g = (True, g')"
  shows "api_net J N R isEmail H env (seed_request J a) ((n, g), s)
    = (Some (202, js_stringify J (answer_json r)), ((Suc n, g'), s'))"
proof -
  have "request_header ''idempotency-key'' (seed_request J a) = None"
    unfolding request_header_def seed_request_def by code_simp
  then show ?thesis
    using assms by (simp add: api_net_def seed_request_def post_events_def json_laws_def)
qed

lemma seed_posts_again:
  assumes "json_laws J" and "set as \<subseteq> set samples" and "\<And>e. isEmail e"
    and "\<And>a. a \<in> set as \<Longrightarrow> seeded H d a" and "\<And>n dto. request_hash (H n) dto = request_hash (H 0) dto"
    and "ap_db s = d" and "lets_in R env n (length as) g g'"
  shows "\<exists>ls s'. seed_posts J (api_net J N R isEmail H env) as ((n, g), s) = (Inr (), ls, ((n + length as, g'), s'))
    \<and> ap_db s' = d \<and> ap_queue s' = ap_queue s
    \<and> list_all (\<lambda>l. \<exists>q. l = Posted 202 q \<and> json_field ''status'' q = Some (JStr ''replayed'')) ls"
  using assms(2,4,6,7)
proof (induction as arbitrary: n g s)
  case Nil
  then show ?case by simp
next
  case (Cons a as)
  let ?key = "sample_key H a" and ?s' = "count_event ''duplicate'' s"
  have "lets_in R env n (Suc (length as)) g g'" using Cons.prems(4) by simp
  then obtain g1 where gate: "through_gate R env n g = (True, g1)" "lets_in R env (Suc n) (length as) g1 g'"
    by (rule lets_in_Suc)
  from Cons.prems(2) [of a] obtain x where x: "assertUsableAsJobId ?key = Inr ()" "key_row ?key (ap_db s) = Some x"
      "ik_status x = IK_COMPLETED" "ik_requestHash x = request_hash (H n) (sample_dto a)"
    using assms(5) [of n "sample_dto a"] Cons.prems(3) by (auto simp: seeded_def split: option.splits)
  have "ingest (H n) env (sample_dto a) None s = (Inr (replay_answer ?key x), ?s')"
    by (rule replay_answers [OF x]) (simp add: sample_key_def assms(5) [of n])
  note sent = seed_post_api [where H = H, OF assms(1) samples_validate [where isEmail = isEmail, OF _ assms(3)] this gate(1), of N]
  have first: "api_net J N R isEmail H env (seed_request J a) ((n, g), s)
      = (Some (202, js_stringify J (answer_json (replay_answer ?key x))), ((Suc n, g1), ?s'))"
    by (rule sent) (use Cons.prems(1) in simp)
  have db: "ap_db ?s' = d" "ap_queue ?s' = ap_queue s" using Cons.prems(3) by (simp_all add: count_event_def)
  from Cons.IH [OF _ _ db(1) gate(2)] Cons.prems(1,2) obtain ls s' where
    rest: "seed_posts J (api_net J N R isEmail H env) as ((Suc n, g1), ?s') = (Inr (), ls, ((Suc n + length as, g'), s'))"
    "ap_db s' = d" "ap_queue s' = ap_queue s"
    "list_all (\<lambda>l. \<exists>q. l = Posted 202 q \<and> json_field ''status'' q = Some (JStr ''replayed'')) ls"
    using db(2) by auto
  have "json_field ''status'' (answer_json (replay_answer ?key x)) = Some (JStr ''replayed'')"
    by (simp add: answer_json_fields replay_answer_def Let_def)
  then show ?case
    using first rest assms(1) by (simp add: json_laws_def)
qed

text \<open>
  Seeding again: whatever the port, on a database in which the samples have been completed, with the
  limits of the throttler guard not reached, the script
  exits with 0, every sample is answered \<open>replayed\<close>, and database and queue are unchanged. The third
  sample relies on its content alone.
\<close>

lemma seeding_twice_adds_nothing:
  assumes "json_laws J" and "\<And>e. isEmail e" and "list_all (seeded H (ap_db s)) samples"
    and "\<And>n dto. request_hash (H n) dto = request_hash (H 0) dto"
    and "seed_main J (\<lambda>_. api_net J N R isEmail H env) port ((0, g), s) = (rc, ls, ((n, h), s'))"
    and "lets_in R env 0 3 g g'"
  shows "rc = 0 \<and> n = 3 \<and> ap_db s' = ap_db s \<and> ap_queue s' = ap_queue s
    \<and> list_all (\<lambda>l. \<exists>q. l = Posted 202 q \<and> json_field ''status'' q = Some (JStr ''replayed'')) (take 3 ls)"
proof -
  have again: "seeded H (ap_db s) a" if "a \<in> set samples" for a using assms(3) that by (simp add: list_all_iff)
  have gate: "lets_in R env 0 (length samples) g g'" using assms(6) by (simp add: lengths)
  obtain xs s1 where run: "seed_posts J (api_net J N R isEmail H env) samples ((0, g), s) = (Inr (), xs, ((0 + length samples, g'), s1))"
      "ap_db s1 = ap_db s" "ap_queue s1 = ap_queue s"
      "list_all (\<lambda>l. \<exists>q. l = Posted 202 q \<and> json_field ''status'' q = Some (JStr ''replayed'')) xs"
    using seed_posts_again [where H = H and isEmail = isEmail and n = 0 and N = N and env = env,
        OF assms(1) subset_refl assms(2) again assms(4) refl gate] by blast
  have xs: "length xs = 3" using seed_posts_lines [OF run(1)] by (simp add: lengths)
  have "seed_main J (\<lambda>_. api_net J N R isEmail H env) port ((0, g), s) = (0, xs @ seed_hints port, ((3, g'), s1))"
    by (simp add: seed_main_def run(1) lengths)
  with assms(5) have eqs: "rc = 0" "ls = xs @ seed_hints port" "n = 3" "s' = s1" by simp_all
  show ?thesis unfolding eqs using xs run(2-4) by simp
qed

end
