(* ===== verification/Wiring.thy ===== *)
theory Wiring
  imports Prelude
begin

section \<open>The modules and what they inject (src/**/*.module.ts)\<close>

text \<open>
  The application as Nest assembles it: every module with its imports, providers, controllers and
  exports, and the constructor parameters of every class as the tokens they inject. Nest is not under src/:
  what the libraries' modules export is the record \<open>nest_libs\<close>, of which \<open>libs_ok\<close> asks what their
  documentation promises. The rule of Nest is \<open>visible\<close>: a class sees what its own module provides, what
  the modules it imports export, and what a global module exports.
\<close>

subsection \<open>Tokens and modules\<close>

datatype token =
    Class string
  | Key string
  | Repository string
  | Queue_Of string

datatype library =
    Config_Root | Logger_Root | Type_Orm_Root | Type_Orm_Feature "string list"
  | Bull_Root | Bull_Queue string | Terminus_Module | Throttler_Root

text \<open>An import with a factory has the factory's injections and the imports of its own.\<close>

datatype import_of =
    Own string
  | Library library
  | Library_Async library "token list" "string list"

datatype export_of = Export token | Reexport library

record provider =
  pv_token :: token
  pv_injects :: "token list"

record module_def =
  mo_name :: string
  mo_global :: bool
  mo_imports :: "import_of list"
  mo_controllers :: "provider list"
  mo_providers :: "provider list"
  mo_exports :: "export_of list"
  mo_injects :: "token list"

definition injectable :: "string \<Rightarrow> token list \<Rightarrow> provider" where
  "injectable c ts = \<lparr>pv_token = Class c, pv_injects = ts\<rparr>"

definition provided :: "token \<Rightarrow> token list \<Rightarrow> provider" where
  "provided t ts = \<lparr>pv_token = t, pv_injects = ts\<rparr>"

subsection \<open>Constructors\<close>

definition APP_ENV :: token where
  "APP_ENV = Key ''APP_ENV''"

definition REDIS_CLIENT :: token where
  "REDIS_CLIENT = Key ''REDIS_CLIENT''"

definition ENRICHER :: token where
  "ENRICHER = Key ''ENRICHER''"

definition OUTBOX_DISPATCHER :: token where
  "OUTBOX_DISPATCHER = Key ''OUTBOX_DISPATCHER''"

definition pipeline_queue :: token where
  "pipeline_queue = Queue_Of ''ticket-pipeline''"

definition EventsController :: provider where
  "EventsController = injectable ''EventsController'' [Class ''EventsService'']"

definition EventsService :: provider where
  "EventsService = injectable ''EventsService''
     [Class ''IdempotencyService'', Class ''PipelineProducer'', Class ''DataSource'', Class ''MetricsService'']"

definition IdempotencyService :: provider where
  "IdempotencyService = injectable ''IdempotencyService'' [Repository ''IdempotencyKeyEntity'', APP_ENV]"

definition TicketsController :: provider where
  "TicketsController = injectable ''TicketsController'' [Class ''TicketsService'']"

definition TicketsService :: provider where
  "TicketsService = injectable ''TicketsService'' [Repository ''TicketEntity'']"

definition PipelineProducer :: provider where
  "PipelineProducer = injectable ''PipelineProducer'' [pipeline_queue, APP_ENV]"

definition TicketProcessor :: provider where
  "TicketProcessor = injectable ''TicketProcessor''
     [Class ''TicketsService'', ENRICHER, Class ''OutboxService'', Class ''DataSource'', Class ''MetricsService'',
      Class ''DlqService'', Class ''PipelineProducer'', APP_ENV]"

definition DlqService :: provider where
  "DlqService = injectable ''DlqService''
     [Repository ''DeadLetterEntity'', Class ''PipelineProducer'', Class ''MetricsService'']"

definition DlqController :: provider where
  "DlqController = injectable ''DlqController'' [Class ''DlqService'']"

definition PipelineObserver :: provider where
  "PipelineObserver = injectable ''PipelineObserver''
     [Class ''PipelineProducer'', Class ''DlqService'', Class ''MetricsService'']"

definition ReconcileSweeper :: provider where
  "ReconcileSweeper = injectable ''ReconcileSweeper'' [Class ''DataSource'', Class ''PipelineProducer'', APP_ENV]"

definition RetentionSweeper :: provider where
  "RetentionSweeper = injectable ''RetentionSweeper'' [Class ''DataSource'', Class ''MetricsService'', APP_ENV]"

definition OutboxService :: provider where
  "OutboxService = injectable ''OutboxService'' []"

definition OutboxRelay :: provider where
  "OutboxRelay = injectable ''OutboxRelay'' [Class ''DataSource'', OUTBOX_DISPATCHER, Class ''MetricsService'', APP_ENV]"

text \<open>\<open>WebhookDispatcher\<close> is only provided under the token of its port.\<close>

definition WebhookDispatcher :: provider where
  "WebhookDispatcher = provided OUTBOX_DISPATCHER [APP_ENV]"

definition SinkController :: provider where
  "SinkController = injectable ''SinkController'' []"

definition MistralClient :: provider where
  "MistralClient = injectable ''MistralClient'' [APP_ENV]"

definition MistralCircuitBreaker :: provider where
  "MistralCircuitBreaker = injectable ''MistralCircuitBreaker''
     [Class ''MistralClient'', APP_ENV, Class ''MetricsService'']"

definition FallbackClassifier :: provider where
  "FallbackClassifier = injectable ''FallbackClassifier'' []"

definition AiEnricher :: provider where
  "AiEnricher = injectable ''AiEnricher''
     [Class ''MistralClient'', Class ''MistralCircuitBreaker'', Class ''FallbackClassifier'',
      Class ''MetricsService'', APP_ENV]"

definition HealthController :: provider where
  "HealthController = injectable ''HealthController''
     [Class ''HealthCheckService'', Class ''TypeOrmHealthIndicator'', Class ''RedisHealthIndicator'']"

definition RedisHealthIndicator :: provider where
  "RedisHealthIndicator = injectable ''RedisHealthIndicator'' [REDIS_CLIENT, Class ''HealthIndicatorService'']"

definition MetricsService :: provider where
  "MetricsService = injectable ''MetricsService'' []"

definition MetricsController :: provider where
  "MetricsController = injectable ''MetricsController'' [Class ''MetricsService'']"

definition LandingController :: provider where
  "LandingController = injectable ''LandingController'' []"

subsection \<open>Modules\<close>

definition AppConfigModule :: module_def where
  "AppConfigModule = \<lparr>mo_name = ''AppConfigModule'', mo_global = True, mo_imports = [Library Config_Root],
     mo_controllers = [], mo_providers = [provided APP_ENV []],
     mo_exports = [Export APP_ENV, Reexport Config_Root], mo_injects = []\<rparr>"

definition DatabaseModule :: module_def where
  "DatabaseModule = \<lparr>mo_name = ''DatabaseModule'', mo_global = False,
     mo_imports = [Library_Async Type_Orm_Root [APP_ENV] []],
     mo_controllers = [], mo_providers = [], mo_exports = [], mo_injects = []\<rparr>"

definition RedisModule :: module_def where
  "RedisModule = \<lparr>mo_name = ''RedisModule'', mo_global = True, mo_imports = [], mo_controllers = [],
     mo_providers = [provided REDIS_CLIENT [APP_ENV]], mo_exports = [Export REDIS_CLIENT],
     mo_injects = [REDIS_CLIENT]\<rparr>"

definition MetricsModule :: module_def where
  "MetricsModule = \<lparr>mo_name = ''MetricsModule'', mo_global = True, mo_imports = [],
     mo_controllers = [MetricsController], mo_providers = [MetricsService],
     mo_exports = [Export (Class ''MetricsService'')], mo_injects = []\<rparr>"

definition HealthModule :: module_def where
  "HealthModule = \<lparr>mo_name = ''HealthModule'', mo_global = False, mo_imports = [Library Terminus_Module],
     mo_controllers = [HealthController], mo_providers = [RedisHealthIndicator], mo_exports = [], mo_injects = []\<rparr>"

definition LandingModule :: module_def where
  "LandingModule = \<lparr>mo_name = ''LandingModule'', mo_global = False, mo_imports = [],
     mo_controllers = [LandingController], mo_providers = [], mo_exports = [], mo_injects = []\<rparr>"

text \<open>The guard's own constructor is the throttler library's.\<close>

definition RateLimitModule :: module_def where
  "RateLimitModule = \<lparr>mo_name = ''RateLimitModule'', mo_global = False,
     mo_imports = [Own ''AppConfigModule'', Library_Async Throttler_Root [APP_ENV] [''AppConfigModule'']],
     mo_controllers = [], mo_providers = [provided (Key ''APP_GUARD'') []], mo_exports = [], mo_injects = []\<rparr>"

definition RetentionModule :: module_def where
  "RetentionModule = \<lparr>mo_name = ''RetentionModule'', mo_global = False,
     mo_imports = [Own ''AppConfigModule'', Own ''MetricsModule''],
     mo_controllers = [], mo_providers = [RetentionSweeper], mo_exports = [Export (Class ''RetentionSweeper'')],
     mo_injects = []\<rparr>"

definition IdempotencyModule :: module_def where
  "IdempotencyModule = \<lparr>mo_name = ''IdempotencyModule'', mo_global = False,
     mo_imports = [Library (Type_Orm_Feature [''IdempotencyKeyEntity''])],
     mo_controllers = [], mo_providers = [IdempotencyService], mo_exports = [Export (Class ''IdempotencyService'')],
     mo_injects = []\<rparr>"

definition TicketsModule :: module_def where
  "TicketsModule = \<lparr>mo_name = ''TicketsModule'', mo_global = False,
     mo_imports = [Library (Type_Orm_Feature [''TicketEntity''])],
     mo_controllers = [TicketsController], mo_providers = [TicketsService],
     mo_exports = [Export (Class ''TicketsService'')], mo_injects = []\<rparr>"

definition EventsModule :: module_def where
  "EventsModule = \<lparr>mo_name = ''EventsModule'', mo_global = False,
     mo_imports = [Library (Type_Orm_Feature [''EventEntity'', ''TicketEntity'']), Own ''IdempotencyModule'',
       Own ''PipelineModule''],
     mo_controllers = [EventsController], mo_providers = [EventsService], mo_exports = [], mo_injects = []\<rparr>"

definition PipelineModule :: module_def where
  "PipelineModule = \<lparr>mo_name = ''PipelineModule'', mo_global = False,
     mo_imports = [Library_Async Bull_Root [APP_ENV] [], Library (Bull_Queue ''ticket-pipeline''),
       Library (Type_Orm_Feature [''DeadLetterEntity'']), Own ''TicketsModule'', Own ''OutboxModule'',
       Own ''EnrichmentModule''],
     mo_controllers = [DlqController],
     mo_providers = [PipelineProducer, TicketProcessor, DlqService, PipelineObserver, ReconcileSweeper],
     mo_exports = [Export (Class ''PipelineProducer''), Export (Class ''ReconcileSweeper'')], mo_injects = []\<rparr>"

definition OutboxModule :: module_def where
  "OutboxModule = \<lparr>mo_name = ''OutboxModule'', mo_global = False,
     mo_imports = [Library (Type_Orm_Feature [''OutboxMessageEntity''])],
     mo_controllers = [SinkController], mo_providers = [OutboxService, OutboxRelay, WebhookDispatcher],
     mo_exports = [Export (Class ''OutboxService'')], mo_injects = []\<rparr>"

text \<open>\<open>ENRICHER\<close> is an alias: it injects the class it stands for.\<close>

definition EnrichmentModule :: module_def where
  "EnrichmentModule = \<lparr>mo_name = ''EnrichmentModule'', mo_global = False, mo_imports = [], mo_controllers = [],
     mo_providers = [MistralClient, MistralCircuitBreaker, FallbackClassifier, AiEnricher,
       provided ENRICHER [Class ''AiEnricher'']],
     mo_exports = [Export ENRICHER], mo_injects = []\<rparr>"

definition AppModule :: module_def where
  "AppModule = \<lparr>mo_name = ''AppModule'', mo_global = False,
     mo_imports = [Own ''AppConfigModule'', Library_Async Logger_Root [APP_ENV] [], Own ''DatabaseModule'',
       Own ''RedisModule'', Own ''MetricsModule'', Own ''HealthModule'', Own ''LandingModule'',
       Own ''RateLimitModule'', Own ''RetentionModule'', Own ''IdempotencyModule'', Own ''TicketsModule'',
       Own ''EventsModule'', Own ''PipelineModule'', Own ''OutboxModule''],
     mo_controllers = [], mo_providers = [], mo_exports = [], mo_injects = []\<rparr>"

definition modules :: "module_def list" where
  "modules = [AppConfigModule, DatabaseModule, RedisModule, MetricsModule, HealthModule, LandingModule,
     RateLimitModule, RetentionModule, IdempotencyModule, TicketsModule, EnrichmentModule, OutboxModule,
     PipelineModule, EventsModule, AppModule]"

subsection \<open>What a class sees\<close>

record nest_libs =
  lb_exports :: "library \<Rightarrow> token list"
  lb_globals :: "library \<Rightarrow> token list"

text \<open>What the libraries document: the repositories of \<open>forFeature\<close>, a registered queue, Terminus' services,
  and the connection of TypeORM's root module, which is global.\<close>

fun documented_exports :: "library \<Rightarrow> token list" where
  "documented_exports (Type_Orm_Feature es) = map Repository es"
| "documented_exports (Bull_Queue q) = [Queue_Of q]"
| "documented_exports Terminus_Module =
     [Class ''HealthCheckService'', Class ''HealthIndicatorService'', Class ''TypeOrmHealthIndicator'']"
| "documented_exports _ = []"

fun documented_globals :: "library \<Rightarrow> token list" where
  "documented_globals Type_Orm_Root = [Class ''DataSource'']"
| "documented_globals _ = []"

definition documented :: nest_libs where
  "documented = \<lparr>lb_exports = documented_exports, lb_globals = documented_globals\<rparr>"

definition libs_ok :: "nest_libs \<Rightarrow> bool" where
  "libs_ok L \<longleftrightarrow> (\<forall>l. set (documented_exports l) \<subseteq> set (lb_exports L l)
     \<and> set (documented_globals l) \<subseteq> set (lb_globals L l))"

definition module_named :: "module_def list \<Rightarrow> string \<Rightarrow> module_def option" where
  "module_named ms n = List.find (\<lambda>m. mo_name m = n) ms"

definition exports_of :: "nest_libs \<Rightarrow> module_def \<Rightarrow> token list" where
  "exports_of L m = concat (map (\<lambda>x. case x of Export t \<Rightarrow> [t] | Reexport l \<Rightarrow> lb_exports L l) (mo_exports m))"

definition own_exports :: "nest_libs \<Rightarrow> module_def list \<Rightarrow> string \<Rightarrow> token list" where
  "own_exports L ms n = (case module_named ms n of Some m \<Rightarrow> exports_of L m | None \<Rightarrow> [])"

fun imported :: "nest_libs \<Rightarrow> module_def list \<Rightarrow> import_of \<Rightarrow> token list" where
  "imported L ms (Own n) = own_exports L ms n"
| "imported L ms (Library l) = lb_exports L l"
| "imported L ms (Library_Async l ts ns) = lb_exports L l"

fun library_of :: "import_of \<Rightarrow> library option" where
  "library_of (Own n) = None"
| "library_of (Library l) = Some l"
| "library_of (Library_Async l ts ns) = Some l"

definition globals :: "nest_libs \<Rightarrow> module_def list \<Rightarrow> token list" where
  "globals L ms = concat (map (\<lambda>m. (if mo_global m then exports_of L m else [])
     @ concat (map (\<lambda>i. case library_of i of Some l \<Rightarrow> lb_globals L l | None \<Rightarrow> []) (mo_imports m))) ms)"

definition parts :: "module_def \<Rightarrow> provider list" where
  "parts m = mo_providers m @ mo_controllers m"

definition sees :: "nest_libs \<Rightarrow> module_def list \<Rightarrow> module_def \<Rightarrow> token list" where
  "sees L ms m = map pv_token (mo_providers m) @ concat (map (imported L ms) (mo_imports m)) @ globals L ms"

text \<open>A factory of an import sees the imports it names, and the globals.\<close>

fun factory_ok :: "nest_libs \<Rightarrow> module_def list \<Rightarrow> import_of \<Rightarrow> bool" where
  "factory_ok L ms (Library_Async l ts ns) = list_all (\<lambda>t. t \<in> set (concat (map (own_exports L ms) ns) @ globals L ms)) ts"
| "factory_ok L ms i = True"

definition injections :: "module_def \<Rightarrow> token list" where
  "injections m = mo_injects m @ concat (map pv_injects (parts m))"

definition resolves :: "nest_libs \<Rightarrow> module_def list \<Rightarrow> module_def \<Rightarrow> bool" where
  "resolves L ms m \<longleftrightarrow> list_all (\<lambda>t. t \<in> set (sees L ms m)) (injections m) \<and> list_all (factory_ok L ms) (mo_imports m)"

text \<open>What more a library exports hides nothing.\<close>

lemma exports_more: "libs_ok L \<Longrightarrow> set (exports_of documented m) \<subseteq> set (exports_of L m)"
  by (auto simp: exports_of_def documented_def libs_ok_def split: export_of.splits) blast+

lemma own_exports_more: "libs_ok L \<Longrightarrow> set (own_exports documented ms n) \<subseteq> set (own_exports L ms n)"
  using exports_more by (auto simp: own_exports_def split: option.split)

lemma imported_more: "libs_ok L \<Longrightarrow> set (imported documented ms i) \<subseteq> set (imported L ms i)"
  using own_exports_more by (cases i) (auto simp: documented_def libs_ok_def)

lemma globals_more: "libs_ok L \<Longrightarrow> set (globals documented ms) \<subseteq> set (globals L ms)"
  using exports_more by (fastforce simp: globals_def documented_def libs_ok_def split: option.splits)

lemma sees_more: "libs_ok L \<Longrightarrow> set (sees documented ms m) \<subseteq> set (sees L ms m)"
  using imported_more globals_more unfolding sees_def by fastforce

lemma factory_more: "libs_ok L \<Longrightarrow> factory_ok documented ms i \<Longrightarrow> factory_ok L ms i"
  using own_exports_more globals_more by (cases i) (fastforce simp: list_all_iff)+

lemma resolves_more: "libs_ok L \<Longrightarrow> resolves documented ms m \<Longrightarrow> resolves L ms m"
  using sees_more factory_more unfolding resolves_def list_all_iff by blast

subsection \<open>Construction\<close>

definition all_parts :: "module_def list \<Rightarrow> provider list" where
  "all_parts ms = concat (map parts ms)"

definition own_tokens :: "module_def list \<Rightarrow> token list" where
  "own_tokens ms = map pv_token (all_parts ms)"

text \<open>An order in which nothing is constructed twice or before what its constructor takes.\<close>

definition ready :: "provider list \<Rightarrow> token list \<Rightarrow> token \<Rightarrow> bool" where
  "ready ps built t = (case List.find (\<lambda>p. pv_token p = t) ps of
     None \<Rightarrow> False
   | Some p \<Rightarrow> list_all (\<lambda>d. d \<in> set built \<or> d \<notin> set (map pv_token ps)) (pv_injects p))"

fun constructs :: "provider list \<Rightarrow> token list \<Rightarrow> token list \<Rightarrow> bool" where
  "constructs ps built [] = True"
| "constructs ps built (t # ts) \<longleftrightarrow> ready ps built t \<and> constructs ps (t # built) ts"

lemma constructs_ready:
  "constructs ps built (pre @ t # post) \<Longrightarrow> ready ps (rev pre @ built) t"
  by (induction pre arbitrary: built) (simp, fastforce)

text \<open>A module is loaded when the root imports it, directly or not; imports are never circular.\<close>

inductive loaded :: "module_def list \<Rightarrow> string \<Rightarrow> bool" for ms where
  loaded_app: "loaded ms ''AppModule''"
| loaded_import: "loaded ms n \<Longrightarrow> module_named ms n = Some m \<Longrightarrow> Own k \<in> set (mo_imports m) \<Longrightarrow> loaded ms k"

fun imports_before :: "string list \<Rightarrow> module_def list \<Rightarrow> bool" where
  "imports_before ns [] = True"
| "imports_before ns (m # ms) \<longleftrightarrow>
     list_all (\<lambda>i. case i of Own n \<Rightarrow> n \<in> set ns | Library_Async l ts ks \<Rightarrow> set ks \<subseteq> set ns | Library l \<Rightarrow> True) (mo_imports m)
     \<and> imports_before (mo_name m # ns) ms"

definition registered :: "module_def list \<Rightarrow> string list" where
  "registered ms = remdups (concat (map (\<lambda>m. concat (map (\<lambda>i. case i of
     Library (Type_Orm_Feature es) \<Rightarrow> es | _ \<Rightarrow> []) (mo_imports m))) ms))"

lemmas constructor_defs = injectable_def provided_def APP_ENV_def REDIS_CLIENT_def ENRICHER_def OUTBOX_DISPATCHER_def
  pipeline_queue_def

lemma modules_resolve: "list_all (resolves documented modules) modules"
  by code_simp

lemma modules_acyclic: "imports_before [] modules"
  by code_simp

lemma tokens_distinct: "distinct (own_tokens modules)"
  by code_simp

definition start_order :: "token list" where
  "start_order = [APP_ENV, REDIS_CLIENT, Class ''MetricsService'', Class ''MetricsController'',
     Class ''RedisHealthIndicator'', Class ''HealthController'', Class ''LandingController'', Key ''APP_GUARD'',
     Class ''RetentionSweeper'', Class ''IdempotencyService'', Class ''TicketsService'', Class ''TicketsController'',
     Class ''MistralClient'', Class ''MistralCircuitBreaker'', Class ''FallbackClassifier'', Class ''AiEnricher'',
     ENRICHER, Class ''OutboxService'', OUTBOX_DISPATCHER, Class ''OutboxRelay'', Class ''SinkController'',
     Class ''PipelineProducer'', Class ''DlqService'', Class ''DlqController'', Class ''PipelineObserver'',
     Class ''ReconcileSweeper'', Class ''TicketProcessor'', Class ''EventsService'', Class ''EventsController'']"

lemma start_order_constructs: "constructs (all_parts modules) [] start_order"
  by code_simp

lemma start_order_distinct: "distinct start_order"
  by code_simp

lemma start_order_all: "set start_order = set (own_tokens modules)"
  by code_simp

lemma entities_registered: "registered modules
  = [''IdempotencyKeyEntity'', ''OutboxMessageEntity'', ''DeadLetterEntity'', ''EventEntity'', ''TicketEntity'']"
  by code_simp

lemma find_distinct:
  assumes "distinct (map f ps)" and "p \<in> set ps"
  shows "List.find (\<lambda>q. f q = f p) ps = Some p"
  using assms by (induction ps) (auto simp: rev_image_eqI)

lemma modules_loaded: "m \<in> set modules \<Longrightarrow> loaded modules (mo_name m)"
proof -
  have app: "module_named modules ''AppModule'' = Some AppModule"
      "module_named modules ''PipelineModule'' = Some PipelineModule" by code_simp+
  have step: "loaded modules k" if "Own k \<in> set (mo_imports AppModule)" for k
    using loaded_import [OF loaded_app app(1) that] .
  have "loaded modules ''PipelineModule''" by (rule step) (simp add: AppModule_def)
  then have enrichment: "loaded modules ''EnrichmentModule''"
    by (rule loaded_import [OF _ app(2)]) (simp add: PipelineModule_def)
  have names: "map mo_name modules = [''AppConfigModule'', ''DatabaseModule'', ''RedisModule'', ''MetricsModule'',
      ''HealthModule'', ''LandingModule'', ''RateLimitModule'', ''RetentionModule'', ''IdempotencyModule'',
      ''TicketsModule'', ''EnrichmentModule'', ''OutboxModule'', ''PipelineModule'', ''EventsModule'', ''AppModule'']"
    by code_simp
  assume "m \<in> set modules"
  then have "mo_name m \<in> set (map mo_name modules)" by simp
  then consider "Own (mo_name m) \<in> set (mo_imports AppModule)" | "mo_name m = ''EnrichmentModule''"
    | "mo_name m = ''AppModule''"
    unfolding names by (auto simp: AppModule_def)
  then show ?thesis using step enrichment loaded_app by cases auto
qed

text \<open>
  C31: the application comes up, whatever else the libraries export. Every module is loaded from the root and
  no import is circular; every token a constructor or a factory takes is visible in its module; each class has
  one provider, so its state (metrics, breaker, the guards of the sweepers and the relay) is shared by all
  who inject it; there is an order that constructs all of them, each after what its constructor takes; and
  the five entities are registered with the connection.
\<close>

theorem application_wires_up:
  assumes "libs_ok L"
  shows "(\<forall>m \<in> set modules. resolves L modules m \<and> loaded modules (mo_name m)) \<and> imports_before [] modules
    \<and> distinct (own_tokens modules)
    \<and> (\<exists>order. distinct order \<and> set order = set (own_tokens modules)
        \<and> (\<forall>pre post. \<forall>p \<in> set (all_parts modules). order = pre @ pv_token p # post \<longrightarrow>
            set (pv_injects p) \<inter> set (own_tokens modules) \<subseteq> set pre))
    \<and> set (registered modules) = {''EventEntity'', ''TicketEntity'', ''IdempotencyKeyEntity'', ''OutboxMessageEntity'',
        ''DeadLetterEntity''}"
proof -
  have "set (pv_injects p) \<inter> set (own_tokens modules) \<subseteq> set pre"
    if "p \<in> set (all_parts modules)" "start_order = pre @ pv_token p # post" for pre p post
  proof -
    have "ready (all_parts modules) (rev pre @ []) (pv_token p)"
      by (rule constructs_ready [where post = post]) (use start_order_constructs that(2) in simp)
    moreover have "List.find (\<lambda>q. pv_token q = pv_token p) (all_parts modules) = Some p"
      using find_distinct [OF _ that(1)] tokens_distinct by (simp add: own_tokens_def)
    ultimately show ?thesis by (auto simp: ready_def own_tokens_def list_all_iff)
  qed
  then have "\<exists>order. distinct order \<and> set order = set (own_tokens modules)
        \<and> (\<forall>pre post. \<forall>p \<in> set (all_parts modules). order = pre @ pv_token p # post \<longrightarrow>
            set (pv_injects p) \<inter> set (own_tokens modules) \<subseteq> set pre)"
    using start_order_distinct start_order_all by blast
  moreover have "\<forall>m \<in> set modules. resolves L modules m \<and> loaded modules (mo_name m)"
    using modules_resolve resolves_more [OF assms] modules_loaded by (simp add: list_all_iff)
  moreover have "set (registered modules) = {''EventEntity'', ''TicketEntity'', ''IdempotencyKeyEntity'',
      ''OutboxMessageEntity'', ''DeadLetterEntity''}"
    unfolding entities_registered by auto
  ultimately show ?thesis using modules_acyclic tokens_distinct by blast
qed

theorem application_wires_up_witness:
  "Class ''OutboxService'' \<in> set (sees documented modules PipelineModule)"
proof -
  have "libs_ok documented" by (simp add: libs_ok_def documented_def)
  moreover have "PipelineModule \<in> set modules" by (simp add: modules_def)
  ultimately have "resolves documented modules PipelineModule" using application_wires_up by blast
  then show ?thesis
    by (simp add: resolves_def injections_def parts_def PipelineModule_def TicketProcessor_def injectable_def)
qed

end
