(* ===== verification/Connections.thy ===== *)
theory Connections
  imports Config
begin

section \<open>Connections (src/config/data-source.ts, src/config/database.module.ts, src/redis)\<close>

text \<open>
  The options Postgres and Redis are opened with, from the validated environment. The running service and
  the migration command line share one builder; the service overrides two of its options. Paths are joined
  with slashes; \<open>base\<close> is the directory above the compiled or source file.
\<close>

subsection \<open>Redis\<close>

record redis_options =
  ro_host :: string
  ro_port :: int
  ro_password :: "string option"
  ro_maxRetriesPerRequest :: "int option"
  ro_enableReadyCheck :: bool

text \<open>\<open>REDIS_PASSWORD || undefined\<close>: an empty password is none.\<close>

definition buildRedisOptions :: "EnvVars \<Rightarrow> redis_options" where
  "buildRedisOptions env = \<lparr>ro_host = REDIS_HOST env, ro_port = REDIS_PORT env,
     ro_password = (case REDIS_PASSWORD env of Some p \<Rightarrow> if p = '''' then None else Some p | None \<Rightarrow> None),
     ro_maxRetriesPerRequest = None, ro_enableReadyCheck = True\<rparr>"

subsection \<open>Postgres\<close>

record data_source_options =
  ds_type :: string
  ds_host :: string
  ds_port :: int
  ds_username :: string
  ds_password :: string
  ds_database :: string
  ds_synchronize :: bool
  ds_entities :: "string list option"
  ds_migrations :: "string list"
  ds_migrationsTableName :: string
  ds_logging :: "string list"
  ds_autoLoadEntities :: bool
  ds_migrationsRun :: bool

definition path_join :: "string list \<Rightarrow> string" where
  "path_join = str_join ''/''"

text \<open>\<open>compiled\<close>: whether this file ends in .js. The last two options are off by default.\<close>

definition buildDataSourceOptions :: "string \<Rightarrow> bool \<Rightarrow> EnvVars \<Rightarrow> data_source_options" where
  "buildDataSourceOptions base compiled env =
     (let ext = (if compiled then ''js'' else ''ts'') in
      \<lparr>ds_type = ''postgres'', ds_host = POSTGRES_HOST env, ds_port = POSTGRES_PORT env,
       ds_username = POSTGRES_USER env, ds_password = POSTGRES_PASSWORD env, ds_database = POSTGRES_DB env,
       ds_synchronize = False,
       ds_entities = Some [path_join [base, ''**'', ''*.entity.'' @ ext]],
       ds_migrations = [path_join [base, ''migrations'', ''*.'' @ ext]],
       ds_migrationsTableName = ''typeorm_migrations'',
       ds_logging = (if NODE_ENV env = ''development'' then [''error'', ''warn'', ''migration''] else [''error'']),
       ds_autoLoadEntities = False, ds_migrationsRun = False\<rparr>)"

text \<open>The options of the running service: no glob, entities from the modules, migrations if asked for.\<close>

definition databaseModuleOptions :: "string \<Rightarrow> bool \<Rightarrow> EnvVars \<Rightarrow> data_source_options" where
  "databaseModuleOptions base compiled env =
     (buildDataSourceOptions base compiled env)
       \<lparr>ds_entities := None, ds_autoLoadEntities := True, ds_migrationsRun := DB_RUN_MIGRATIONS_ON_BOOT env\<rparr>"

text \<open>Service and command line reach the same database, and neither ever synchronises the schema.\<close>

lemma same_database:
  "databaseModuleOptions base compiled env = (buildDataSourceOptions base compiled env)
     \<lparr>ds_entities := ds_entities (databaseModuleOptions base compiled env), ds_autoLoadEntities := True,
      ds_migrationsRun := DB_RUN_MIGRATIONS_ON_BOOT env\<rparr>
   \<and> \<not> ds_synchronize (buildDataSourceOptions base compiled env)
   \<and> \<not> ds_synchronize (databaseModuleOptions base compiled env)"
  by (simp add: databaseModuleOptions_def buildDataSourceOptions_def Let_def)

end
