(* ===== verification/Startup.thy ===== *)
theory Startup
  imports Http_Handlers Demo_Client Wiring Connections
begin

section \<open>Startup and routing (src/main.ts, the controllers' decorators, the index of src/landing/)\<close>

text \<open>
  What \<open>bootstrap\<close> installs and in which order; the routes the decorators declare, as one table of methods
  and path patterns; and the index of them that \<open>GET /\<close> answers to a client that is no browser. Express,
  which dispatches a request, takes the first entry that matches; no request matches two, so the order in
  which the modules register their controllers does not matter.
\<close>

subsection \<open>bootstrap\<close>

text \<open>\<open>base\<close>: the directory above this file's.\<close>

datatype app_call =
    Use_Logger
  | Flush_Logs
  | Use_Correlation
  | Trust_Proxy int
  | Static_Assets string bool string
  | Validation_Pipe bool bool bool bool
  | Shutdown_Hooks
  | Listen int string

definition bootstrap :: "string \<Rightarrow> EnvVars \<Rightarrow> app_call list" where
  "bootstrap base env =
     [Use_Logger, Flush_Logs, Use_Correlation]
     @ (if TRUST_PROXY env then [Trust_Proxy 1] else [])
     @ [Static_Assets (path_join [base, ''public'']) False ''1h'',
        Validation_Pipe True True True False, Shutdown_Hooks, Listen (PORT env) ''0.0.0.0'']"

text \<open>
  Nothing is served before everything is installed, the correlation scope is opened around every request,
  static files included, and forwarded addresses are only trusted when the configuration says so.
\<close>

definition installed :: "string \<Rightarrow> EnvVars \<Rightarrow> app_call list" where
  "installed base env = butlast (bootstrap base env)"

lemma bootstrap_order:
  "bootstrap base env = installed base env @ [Listen (PORT env) ''0.0.0.0'']"
  "Listen p h \<notin> set (installed base env)"
  "(\<exists>n. Trust_Proxy n \<in> set (installed base env)) \<longleftrightarrow> TRUST_PROXY env"
  by (auto simp: installed_def bootstrap_def butlast_append)

lemma correlation_opened_first:
  "Static_Assets d i a \<in> set (dropWhile (\<lambda>c. c \<noteq> Use_Correlation) (bootstrap base env)) \<longleftrightarrow>
     Static_Assets d i a \<in> set (bootstrap base env)"
  by (simp add: bootstrap_def)

subsection \<open>Connections that fail\<close>

text \<open>
  The health client of src/redis/redis.module.ts, the queue of the producer and the worker. An emitter
  without a listener for \<open>error\<close> throws what it emits, which ends the process (\<open>None\<close>); otherwise every
  listener runs, here one that logs.
\<close>

definition emit_error :: "string list \<Rightarrow> string list option" where
  "emit_error listeners = (if listeners = [] then None else Some listeners)"

record redis_client =
  rc_options :: redis_options
  rc_on_error :: "string list"
  rc_open :: bool

definition new_redis_client :: "EnvVars \<Rightarrow> redis_client" where
  "new_redis_client env = \<lparr>rc_options = buildRedisOptions env, rc_on_error = [''redis client error''], rc_open = True\<rparr>"

definition redis_onModuleDestroy :: "redis_client \<Rightarrow> redis_client" where
  "redis_onModuleDestroy c = c\<lparr>rc_open := False\<rparr>"

definition producer_onModuleInit :: "string list \<Rightarrow> string list" where
  "producer_onModuleInit listeners = listeners @ [''pipeline queue error'']"

record worker =
  wk_queue :: string
  wk_concurrency :: nat
  wk_on_error :: "string list"

definition pipeline_worker :: worker where
  "pipeline_worker = \<lparr>wk_queue = ''ticket-pipeline'', wk_concurrency = 5, wk_on_error = [''pipeline worker error'']\<rparr>"

lemma connection_errors_are_survived:
  "emit_error (rc_on_error (new_redis_client env)) \<noteq> None" "emit_error (producer_onModuleInit ls) \<noteq> None"
  "emit_error (wk_on_error pipeline_worker) \<noteq> None"
  by (simp_all add: emit_error_def new_redis_client_def producer_onModuleInit_def pipeline_worker_def)

text \<open>The worker and the producer are on the queue the module registers, with the same options to reach Redis.\<close>

lemma same_queue: "Library (Bull_Queue (wk_queue pipeline_worker)) \<in> set (mo_imports PipelineModule)"
  "pipeline_queue = Queue_Of (wk_queue pipeline_worker)"
  by (simp_all add: pipeline_worker_def PipelineModule_def pipeline_queue_def)

subsection \<open>Routes\<close>

datatype segment = Lit string | Param string

record endpoint =
  ep_method :: string
  ep_path :: "segment list"
  ep_route :: route

definition controller :: "segment list \<Rightarrow> (string \<times> segment list \<times> route) list \<Rightarrow> endpoint list" where
  "controller prefix hs = map (\<lambda>(m, p, r). \<lparr>ep_method = m, ep_path = prefix @ p, ep_route = r\<rparr>) hs"

definition landing_routes :: "endpoint list" where
  "landing_routes = controller [] [(''GET'', [], Index)]"

definition events_routes :: "endpoint list" where
  "events_routes = controller [Lit ''events''] [(''POST'', [], Post_Events)]"

definition tickets_routes :: "endpoint list" where
  "tickets_routes = controller [Lit ''tickets''] [(''GET'', [Param ''id''], Get_Ticket)]"

definition dlq_routes :: "endpoint list" where
  "dlq_routes = controller [Lit ''dlq'']
     [(''GET'', [], List_Dlq), (''GET'', [Param ''id''], Get_Dlq), (''POST'', [Param ''id'', Lit ''replay''], Replay_Dlq)]"

definition sink_routes :: "endpoint list" where
  "sink_routes = controller [Lit ''_sink'']
     [(''POST'', [Lit ''webhook''], Sink_Webhook), (''GET'', [Lit ''deliveries''], Sink_Deliveries)]"

definition health_routes :: "endpoint list" where
  "health_routes = controller [] [(''GET'', [Lit ''health''], Health), (''GET'', [Lit ''ready''], Ready)]"

definition metrics_routes :: "endpoint list" where
  "metrics_routes = controller [] [(''GET'', [Lit ''metrics''], Metrics)]"

definition routes :: "endpoint list" where
  "routes = metrics_routes @ health_routes @ landing_routes @ tickets_routes @ sink_routes @ dlq_routes @ events_routes"

fun matches :: "segment list \<Rightarrow> string list \<Rightarrow> bool" where
  "matches [] [] = True"
| "matches (Lit s # p) (x # xs) \<longleftrightarrow> x = s \<and> matches p xs"
| "matches (Param n # p) (x # xs) \<longleftrightarrow> x \<noteq> '''' \<and> matches p xs"
| "matches _ _ = False"

definition serves :: "string \<Rightarrow> string list \<Rightarrow> endpoint \<Rightarrow> bool" where
  "serves m path e \<longleftrightarrow> ep_method e = m \<and> matches (ep_path e) path"

definition dispatch_route :: "string \<Rightarrow> string list \<Rightarrow> route option" where
  "dispatch_route m path = map_option ep_route (List.find (serves m path) routes)"

lemmas route_defs = routes_def landing_routes_def events_routes_def tickets_routes_def dlq_routes_def sink_routes_def
  health_routes_def metrics_routes_def controller_def

fun overlap :: "segment list \<Rightarrow> segment list \<Rightarrow> bool" where
  "overlap [] [] = True"
| "overlap (Lit s # p) (Lit t # q) \<longleftrightarrow> s = t \<and> overlap p q"
| "overlap (_ # p) (_ # q) = overlap p q"
| "overlap _ _ = False"

lemma matches_overlap: "matches p xs \<Longrightarrow> matches q xs \<Longrightarrow> overlap p q"
  by (induction p xs arbitrary: q rule: matches.induct) (auto elim: matches.elims)

lemma routes_disjoint:
  "list_all (\<lambda>d. list_all (\<lambda>e. ep_route d = ep_route e
     \<or> \<not> (ep_method d = ep_method e \<and> overlap (ep_path d) (ep_path e))) routes) routes"
  by code_simp

lemma served_once:
  assumes "d \<in> set routes" and "e \<in> set routes" and "serves m path d" and "serves m path e"
  shows "ep_route d = ep_route e"
  using assms routes_disjoint matches_overlap by (fastforce simp: list_all_iff serves_def)

text \<open>Every route has one entry, so dispatching is a matter of the table as a set.\<close>

lemma every_route_once: "distinct (map ep_route routes)" "set (map ep_route routes) = UNIV"
proof -
  show "distinct (map ep_route routes)" by (simp add: route_defs)
  have "r \<in> set (map ep_route routes)" for r by (cases r) (simp_all add: route_defs)
  then show "set (map ep_route routes) = UNIV" by blast
qed

lemma dispatch_route_iff:
  "dispatch_route m path = Some r \<longleftrightarrow> (\<exists>e \<in> set routes. serves m path e \<and> ep_route e = r)"
proof
  assume "dispatch_route m path = Some r"
  then show "\<exists>e \<in> set routes. serves m path e \<and> ep_route e = r"
    by (auto simp: dispatch_route_def find_Some_iff)
next
  assume "\<exists>e \<in> set routes. serves m path e \<and> ep_route e = r"
  then obtain e where e: "e \<in> set routes" "serves m path e" "ep_route e = r" by blast
  then obtain d where d: "List.find (serves m path) routes = Some d"
    by (cases "List.find (serves m path) routes") (auto simp: find_None_iff)
  then have "d \<in> set routes" "serves m path d" by (auto simp: find_Some_iff)
  with served_once [OF _ e(1) _ e(2)] d e(3) show "dispatch_route m path = Some r" by (simp add: dispatch_route_def)
qed

subsection \<open>The index of the routes\<close>

definition quoted :: "string \<Rightarrow> string" where
  "quoted s = CHR 0x27 # s @ [CHR 0x27]"

definition INDEX_endpoints :: "(string \<times> string) list" where
  "INDEX_endpoints =
     [(''POST /events'', ''Submit a ticket. 202 accepted|processing|replayed, 409 on key reuse with a different body, 400 on an unusable key. Send an Idempotency-Key header.''),
      (''GET /tickets/:id'', ''Ticket with its classification and status.''),
      (''GET /dlq'', ''Jobs that failed permanently. ?status=PENDING to filter.''),
      (''POST /dlq/:id/replay'', ''Replay one through its original idempotency key. Cannot duplicate a ticket.''),
      (''GET /metrics'', ''Prometheus exposition.''),
      (''GET /health'', ''Liveness. Checks nothing on purpose.''),
      (''GET /ready'', ''Readiness. Checks Postgres and Redis.'')]"

definition INDEX :: json where
  "INDEX = JObj
     [(''service'', JStr ''triage-engine''),
      (''summary'', JStr ''Ingests support tickets, classifies them with an LLM, and notifies a downstream system. Built so that nothing is ever silently lost.''),
      (''source'', JStr ''https://github.com/younesKAOUANI/triage-engine''),
      (''endpoints'', JObj (map (\<lambda>(k, d). (k, JStr d)) INDEX_endpoints)),
      (''demo'', JStr ''Open this URL in a browser for an interactive walkthrough.''),
      (''tryIt'', JStr (''curl -XPOST $BASE/events -H '' @ quoted ''content-type: application/json'' @ '' -H ''
         @ quoted ''Idempotency-Key: demo-1'' @ '' -d ''
         @ quoted ''{\"subject\":\"Double charged\",\"body\":\"Billed twice for the Pro plan, please refund\"}'')),
      (''note'', JStr ''A classification of DEGRADED with source FALLBACK is not an error. It means the model was unavailable, so a rule-based classifier ran instead and an AI upgrade was queued. The ticket is never dropped because the model is down.'')]"

datatype front_door = Send_File string | Send_Json json

definition index_answer :: "string \<Rightarrow> string option \<Rightarrow> front_door" where
  "index_answer cwd accept = (case landing_index accept of
       Index_Html \<Rightarrow> Send_File (path_join [cwd, ''public'', ''index.html''])
     | Index_Json \<Rightarrow> Send_Json INDEX)"

fun segment_text :: "segment \<Rightarrow> string" where
  "segment_text (Lit s) = CHR ''/'' # s"
| "segment_text (Param n) = ''/:'' @ n"

definition endpoint_text :: "endpoint \<Rightarrow> string" where
  "endpoint_text e = ep_method e @ '' '' @ concat (map segment_text (ep_path e))"

text \<open>The index names routes only, each once; it leaves out itself, the single dead letter and the sink.\<close>

definition listed :: "endpoint \<Rightarrow> bool" where
  "listed e \<longleftrightarrow> \<not> List.member [Index, Get_Dlq, Sink_Webhook, Sink_Deliveries] (ep_route e)"

lemma index_names_routes:
  "set (map fst INDEX_endpoints) = set (map endpoint_text (filter listed routes))" "distinct (map fst INDEX_endpoints)"
  by code_simp+

subsection \<open>The page's requests\<close>

definition path_segments :: "string \<Rightarrow> string list" where
  "path_segments p = filter (\<lambda>s. s \<noteq> '''') (str_split CHR ''/'' p)"

lemma page_paths:
  "dispatch_route ''POST'' (path_segments ''/events'') = Some Post_Events"
  "dispatch_route ''GET'' (path_segments ''/_sink/deliveries'') = Some Sink_Deliveries"
  "dispatch_route ''GET'' (path_segments ''/health'') = Some Health"
  "dispatch_route ''GET'' (path_segments ''/ready'') = Some Ready"
  "dispatch_route ''GET'' (path_segments ''/metrics'') = Some Metrics"
  "dispatch_route ''GET'' (path_segments ''/'') = Some Index"
  by code_simp+

lemma page_ticket_path:
  assumes "i \<noteq> ''''" and "CHR ''/'' \<notin> set i"
  shows "dispatch_route ''GET'' (path_segments (''/tickets/'' @ i)) = Some Get_Ticket"
proof -
  have "path_segments (''/tickets/'' @ i) = [''tickets'', i]"
    using assms by (simp add: path_segments_def str_split_free)
  then show ?thesis using assms(1) by (simp add: dispatch_route_iff serves_def route_defs)
qed

end
