(* ===== verification/Schema_Migration.thy ===== *)
theory Schema_Migration
  imports Entities
begin

section \<open>The migration (src/migrations/1700000000000-InitialSchema.ts)\<close>

text \<open>
  The statements of \<open>up\<close> and \<open>down\<close> as a datatype, the catalogue they change, and what makes Postgres
  refuse one: a name taken, a type, table or column that does not exist, a table or type something still
  depends on. The keys, UNIQUE constraints and foreign keys of the catalogue are then read as conditions on
  the database of \<open>Entities\<close>: they are exactly \<open>schema_ok\<close>, which the rest of the development assumes and
  keeps. NOT NULL and ON DELETE are compared with the entity rows and the deletes in \<open>Row_Types\<close>.
\<close>

subsection \<open>Statements and the catalogue\<close>

datatype on_delete = Restrict | Set_Null

datatype table_constraint =
    Unique_Constraint string string
  | Foreign_Key string string string string on_delete

record column_def =
  cd_name :: string
  cd_type :: string
  cd_not_null :: bool
  cd_default :: "string option"
  cd_primary :: bool

record table_def =
  td_name :: string
  td_columns :: "column_def list"
  td_constraints :: "table_constraint list"

definition primary_uuid :: "string \<Rightarrow> column_def" where
  "primary_uuid c = \<lparr>cd_name = c, cd_type = ''uuid'', cd_not_null = True,
     cd_default = Some ''gen_random_uuid()'', cd_primary = True\<rparr>"

definition required :: "string \<Rightarrow> string \<Rightarrow> string option \<Rightarrow> column_def" where
  "required c t def = \<lparr>cd_name = c, cd_type = t, cd_not_null = True, cd_default = def, cd_primary = False\<rparr>"

definition nullable :: "string \<Rightarrow> string \<Rightarrow> string option \<Rightarrow> column_def" where
  "nullable c t def = \<lparr>cd_name = c, cd_type = t, cd_not_null = False, cd_default = def, cd_primary = False\<rparr>"

text \<open>A partial index keeps its condition as column and value.\<close>

record index_def =
  xd_name :: string
  xd_table :: string
  xd_column :: string
  xd_where :: "(string \<times> string) option"

datatype ddl =
    Create_Extension string
  | Create_Type string "string list"
  | Create_Table table_def
  | Create_Index index_def
  | Drop_Table string
  | Drop_Type string

record catalogue =
  ct_extensions :: "string list"
  ct_types :: "(string \<times> string list) list"
  ct_tables :: "table_def list"
  ct_indexes :: "index_def list"

definition no_catalogue :: catalogue where
  "no_catalogue = \<lparr>ct_extensions = [], ct_types = [], ct_tables = [], ct_indexes = []\<rparr>"

definition builtin_types :: "string list" where
  "builtin_types = [''uuid'', ''text'', ''jsonb'', ''timestamptz'', ''real'', ''integer'']"

definition column_names :: "string \<Rightarrow> table_def list \<Rightarrow> string list" where
  "column_names t ts = concat (map (\<lambda>td. if td_name td = t then map cd_name (td_columns td) else []) ts)"

fun constraint_ok :: "table_def \<Rightarrow> table_def list \<Rightarrow> table_constraint \<Rightarrow> bool" where
  "constraint_ok td ts (Unique_Constraint n c) = (c \<in> set (map cd_name (td_columns td)))"
| "constraint_ok td ts (Foreign_Key n c t rc od) =
     (c \<in> set (map cd_name (td_columns td)) \<and> rc \<in> set (column_names t ts))"

fun references :: "string \<Rightarrow> table_constraint \<Rightarrow> bool" where
  "references t (Unique_Constraint n c) = False"
| "references t (Foreign_Key n c t' rc od) = (t' = t)"

subsection \<open>Execution\<close>

fun exec_ddl :: "ddl \<Rightarrow> catalogue \<Rightarrow> exn + catalogue" where
  "exec_ddl (Create_Extension e) s =
     Inr (if e \<in> set (ct_extensions s) then s else s\<lparr>ct_extensions := ct_extensions s @ [e]\<rparr>)"
| "exec_ddl (Create_Type n vs) s =
     (if n \<in> set (map fst (ct_types s)) then Inl (JsError n) else Inr (s\<lparr>ct_types := ct_types s @ [(n, vs)]\<rparr>))"
| "exec_ddl (Create_Table td) s =
     (if td_name td \<in> set (map td_name (ct_tables s))
        \<or> \<not> list_all (\<lambda>c. cd_type c \<in> set builtin_types \<or> cd_type c \<in> set (map fst (ct_types s))) (td_columns td)
        \<or> \<not> list_all (constraint_ok td (ct_tables s)) (td_constraints td)
      then Inl (JsError (td_name td)) else Inr (s\<lparr>ct_tables := ct_tables s @ [td]\<rparr>))"
| "exec_ddl (Create_Index xd) s =
     (if xd_name xd \<in> set (map xd_name (ct_indexes s))
        \<or> xd_column xd \<notin> set (column_names (xd_table xd) (ct_tables s))
      then Inl (JsError (xd_name xd)) else Inr (s\<lparr>ct_indexes := ct_indexes s @ [xd]\<rparr>))"
| "exec_ddl (Drop_Table t) s =
     (if list_ex (\<lambda>td. td_name td \<noteq> t \<and> list_ex (references t) (td_constraints td)) (ct_tables s)
      then Inl (JsError t)
      else Inr (s\<lparr>ct_tables := filter (\<lambda>td. td_name td \<noteq> t) (ct_tables s),
                  ct_indexes := filter (\<lambda>xd. xd_table xd \<noteq> t) (ct_indexes s)\<rparr>))"
| "exec_ddl (Drop_Type n) s =
     (if list_ex (\<lambda>td. list_ex (\<lambda>c. cd_type c = n) (td_columns td)) (ct_tables s) then Inl (JsError n)
      else Inr (s\<lparr>ct_types := filter (\<lambda>(m, _). m \<noteq> n) (ct_types s)\<rparr>))"

text \<open>Each statement is awaited; the first that throws ends the migration.\<close>

fun exec_all :: "ddl list \<Rightarrow> catalogue \<Rightarrow> exn + catalogue" where
  "exec_all [] s = Inr s"
| "exec_all (q # qs) s = (case exec_ddl q s of Inl e \<Rightarrow> Inl e | Inr s' \<Rightarrow> exec_all qs s')"

subsection \<open>The tables\<close>

definition events_table :: table_def where
  "events_table = \<lparr>td_name = ''events'', td_columns = [
     primary_uuid ''id'',
     required ''idempotency_key'' ''text'' None,
     required ''payload'' ''jsonb'' None,
     nullable ''source'' ''text'' None,
     required ''received_at'' ''timestamptz'' (Some ''now()'')],
   td_constraints = []\<rparr>"

definition tickets_table :: table_def where
  "tickets_table = \<lparr>td_name = ''tickets'', td_columns = [
     primary_uuid ''id'',
     required ''event_id'' ''uuid'' None,
     required ''subject'' ''text'' None,
     required ''body'' ''text'' None,
     nullable ''requester_email'' ''text'' None,
     required ''enrichment_status'' ''tickets_enrichment_status_enum'' (Some ''PENDING''),
     nullable ''category'' ''tickets_category_enum'' None,
     nullable ''priority'' ''tickets_priority_enum'' None,
     nullable ''summary'' ''text'' None,
     nullable ''confidence'' ''real'' None,
     nullable ''enrichment_source'' ''tickets_enrichment_source_enum'' None,
     required ''enrichment_attempts'' ''integer'' (Some ''0''),
     nullable ''enriched_at'' ''timestamptz'' None,
     required ''created_at'' ''timestamptz'' (Some ''now()''),
     required ''updated_at'' ''timestamptz'' (Some ''now()'')],
   td_constraints = [Foreign_Key ''fk_tickets_event'' ''event_id'' ''events'' ''id'' Restrict]\<rparr>"

definition idempotency_keys_table :: table_def where
  "idempotency_keys_table = \<lparr>td_name = ''idempotency_keys'', td_columns = [
     primary_uuid ''id'',
     required ''idempotency_key'' ''text'' None,
     required ''request_hash'' ''text'' None,
     required ''status'' ''idempotency_keys_status_enum'' (Some ''PENDING''),
     nullable ''ticket_id'' ''uuid'' None,
     nullable ''response_code'' ''integer'' None,
     nullable ''response_body'' ''jsonb'' None,
     nullable ''locked_at'' ''timestamptz'' None,
     required ''created_at'' ''timestamptz'' (Some ''now()''),
     required ''updated_at'' ''timestamptz'' (Some ''now()'')],
   td_constraints = [Unique_Constraint ''uq_idempotency_key'' ''idempotency_key'',
     Foreign_Key ''fk_idempotency_ticket'' ''ticket_id'' ''tickets'' ''id'' Set_Null]\<rparr>"

definition outbox_messages_table :: table_def where
  "outbox_messages_table = \<lparr>td_name = ''outbox_messages'', td_columns = [
     primary_uuid ''id'',
     required ''aggregate_type'' ''text'' None,
     required ''aggregate_id'' ''uuid'' None,
     required ''event_type'' ''text'' None,
     required ''payload'' ''jsonb'' None,
     required ''status'' ''outbox_messages_status_enum'' (Some ''PENDING''),
     required ''attempts'' ''integer'' (Some ''0''),
     required ''next_attempt_at'' ''timestamptz'' (Some ''now()''),
     nullable ''last_error'' ''text'' None,
     required ''dedup_key'' ''text'' None,
     required ''created_at'' ''timestamptz'' (Some ''now()''),
     nullable ''dispatched_at'' ''timestamptz'' None],
   td_constraints = [Unique_Constraint ''uq_outbox_dedup'' ''dedup_key'']\<rparr>"

definition dead_letters_table :: table_def where
  "dead_letters_table = \<lparr>td_name = ''dead_letters'', td_columns = [
     primary_uuid ''id'',
     required ''queue'' ''text'' None,
     required ''job_id'' ''text'' None,
     required ''idempotency_key'' ''text'' None,
     required ''payload'' ''jsonb'' None,
     required ''error_message'' ''text'' None,
     nullable ''error_stack'' ''text'' None,
     required ''attempts_made'' ''integer'' None,
     required ''status'' ''dead_letters_status_enum'' (Some ''PENDING''),
     required ''failed_at'' ''timestamptz'' None,
     nullable ''replayed_at'' ''timestamptz'' None,
     required ''created_at'' ''timestamptz'' (Some ''now()'')],
   td_constraints = []\<rparr>"

subsection \<open>up and down\<close>

definition enum_types :: "(string \<times> string list) list" where
  "enum_types =
     [(''tickets_enrichment_status_enum'', [''PENDING'', ''ENRICHED'', ''DEGRADED'', ''FAILED'']),
      (''tickets_category_enum'',
         [''BILLING'', ''TECHNICAL'', ''ACCOUNT'', ''FEATURE_REQUEST'', ''COMPLAINT'', ''OTHER'']),
      (''tickets_priority_enum'', [''LOW'', ''MEDIUM'', ''HIGH'', ''URGENT'']),
      (''tickets_enrichment_source_enum'', [''AI'', ''FALLBACK'']),
      (''idempotency_keys_status_enum'', [''PENDING'', ''COMPLETED'', ''FAILED'']),
      (''outbox_messages_status_enum'', [''PENDING'', ''SENT'', ''FAILED'']),
      (''dead_letters_status_enum'', [''PENDING'', ''REPLAYED''])]"

definition plain_index :: "string \<Rightarrow> string \<Rightarrow> string \<Rightarrow> index_def" where
  "plain_index n t c = \<lparr>xd_name = n, xd_table = t, xd_column = c, xd_where = None\<rparr>"

definition ix_outbox_due :: index_def where
  "ix_outbox_due = \<lparr>xd_name = ''ix_outbox_due'', xd_table = ''outbox_messages'',
     xd_column = ''next_attempt_at'', xd_where = Some (''status'', ''PENDING'')\<rparr>"

definition migration_up :: "ddl list" where
  "migration_up = Create_Extension ''pgcrypto'' # map (\<lambda>(n, vs). Create_Type n vs) enum_types @
     [Create_Table events_table,
      Create_Index (plain_index ''ix_events_idempotency_key'' ''events'' ''idempotency_key''),
      Create_Table tickets_table,
      Create_Index (plain_index ''ix_tickets_event_id'' ''tickets'' ''event_id''),
      Create_Index (plain_index ''ix_tickets_enrichment_status'' ''tickets'' ''enrichment_status''),
      Create_Table idempotency_keys_table,
      Create_Index (plain_index ''ix_idempotency_status'' ''idempotency_keys'' ''status''),
      Create_Table outbox_messages_table,
      Create_Index ix_outbox_due,
      Create_Table dead_letters_table,
      Create_Index (plain_index ''ix_dead_letters_status'' ''dead_letters'' ''status''),
      Create_Index (plain_index ''ix_dead_letters_idempotency_key'' ''dead_letters'' ''idempotency_key'')]"

definition migration_down :: "ddl list" where
  "migration_down =
     [Drop_Table ''dead_letters'', Drop_Table ''outbox_messages'', Drop_Table ''idempotency_keys'',
      Drop_Table ''tickets'', Drop_Table ''events'',
      Drop_Type ''dead_letters_status_enum'', Drop_Type ''outbox_messages_status_enum'',
      Drop_Type ''idempotency_keys_status_enum'', Drop_Type ''tickets_enrichment_source_enum'',
      Drop_Type ''tickets_priority_enum'', Drop_Type ''tickets_category_enum'',
      Drop_Type ''tickets_enrichment_status_enum'']"

text \<open>The catalogue after \<open>up\<close>.\<close>

definition migrated :: catalogue where
  "migrated = \<lparr>ct_extensions = [''pgcrypto''], ct_types = enum_types,
     ct_tables = [events_table, tickets_table, idempotency_keys_table, outbox_messages_table, dead_letters_table],
     ct_indexes = [plain_index ''ix_events_idempotency_key'' ''events'' ''idempotency_key'',
       plain_index ''ix_tickets_event_id'' ''tickets'' ''event_id'',
       plain_index ''ix_tickets_enrichment_status'' ''tickets'' ''enrichment_status'',
       plain_index ''ix_idempotency_status'' ''idempotency_keys'' ''status'', ix_outbox_due,
       plain_index ''ix_dead_letters_status'' ''dead_letters'' ''status'',
       plain_index ''ix_dead_letters_idempotency_key'' ''dead_letters'' ''idempotency_key'']\<rparr>"

lemma up_runs: "exec_all migration_up no_catalogue = Inr migrated"
  by code_simp

lemma down_runs: "exec_all migration_down migrated = Inr (no_catalogue\<lparr>ct_extensions := [''pgcrypto'']\<rparr>)"
  by code_simp

subsection \<open>The constraints on the rows\<close>

text \<open>The key columns of the tables, as the rows of \<open>Entities\<close> have them; \<open>None\<close> is NULL.\<close>

definition key_columns :: "db \<Rightarrow> ((string \<times> string) \<times> string option list) list" where
  "key_columns d =
     [((''events'', ''id''), map (\<lambda>r. Some (ev_id r)) (events d)),
      ((''tickets'', ''id''), map (\<lambda>r. Some (tk_id r)) (tickets d)),
      ((''tickets'', ''event_id''), map (\<lambda>r. Some (tk_eventId r)) (tickets d)),
      ((''idempotency_keys'', ''id''), map (\<lambda>r. Some (ik_id r)) (idempotency_keys d)),
      ((''idempotency_keys'', ''idempotency_key''), map (\<lambda>r. Some (ik_key r)) (idempotency_keys d)),
      ((''idempotency_keys'', ''ticket_id''), map ik_ticketId (idempotency_keys d)),
      ((''outbox_messages'', ''id''), map (\<lambda>r. Some (ob_id r)) (outbox_messages d)),
      ((''outbox_messages'', ''dedup_key''), map (\<lambda>r. Some (ob_dedupKey r)) (outbox_messages d)),
      ((''dead_letters'', ''id''), map (\<lambda>r. Some (dl_id r)) (dead_letters d))]"

definition column_values :: "db \<Rightarrow> string \<Rightarrow> string \<Rightarrow> string list" where
  "column_values d t c =
     (case map_of (key_columns d) (t, c) of Some vs \<Rightarrow> List.map_filter id vs | None \<Rightarrow> [])"

fun constraint_holds :: "db \<Rightarrow> string \<Rightarrow> table_constraint \<Rightarrow> bool" where
  "constraint_holds d t (Unique_Constraint n c) = distinct (column_values d t c)"
| "constraint_holds d t (Foreign_Key n c t' c' od) = (set (column_values d t c) \<subseteq> set (column_values d t' c'))"

definition enforced :: "catalogue \<Rightarrow> db \<Rightarrow> bool" where
  "enforced s d = list_all (\<lambda>td.
       list_all (\<lambda>c. distinct (column_values d (td_name td) (cd_name c))) (filter cd_primary (td_columns td))
     \<and> list_all (constraint_holds d (td_name td)) (td_constraints td)) (ct_tables s)"

lemma map_filter_id: "List.map_filter id (map (\<lambda>r. Some (f r)) xs) = map f xs"
  by (induction xs) (simp_all add: List.map_filter_def)

lemma set_map_filter_id: "v \<in> set (List.map_filter id xs) \<longleftrightarrow> Some v \<in> set xs"
  by (induction xs) (auto simp: List.map_filter_def)

lemma column_values:
  "column_values d ''events'' ''id'' = map ev_id (events d)"
  "column_values d ''tickets'' ''id'' = map tk_id (tickets d)"
  "column_values d ''tickets'' ''event_id'' = map tk_eventId (tickets d)"
  "column_values d ''idempotency_keys'' ''id'' = map ik_id (idempotency_keys d)"
  "column_values d ''idempotency_keys'' ''idempotency_key'' = map ik_key (idempotency_keys d)"
  "column_values d ''idempotency_keys'' ''ticket_id'' = List.map_filter id (map ik_ticketId (idempotency_keys d))"
  "column_values d ''outbox_messages'' ''id'' = map ob_id (outbox_messages d)"
  "column_values d ''outbox_messages'' ''dedup_key'' = map ob_dedupKey (outbox_messages d)"
  "column_values d ''dead_letters'' ''id'' = map dl_id (dead_letters d)"
  by (simp_all add: column_values_def key_columns_def map_filter_id)

lemma keys_of_tables:
  "filter cd_primary (td_columns events_table) = [primary_uuid ''id'']"
  "filter cd_primary (td_columns tickets_table) = [primary_uuid ''id'']"
  "filter cd_primary (td_columns idempotency_keys_table) = [primary_uuid ''id'']"
  "filter cd_primary (td_columns outbox_messages_table) = [primary_uuid ''id'']"
  "filter cd_primary (td_columns dead_letters_table) = [primary_uuid ''id'']"
  by (simp_all add: events_table_def tickets_table_def idempotency_keys_table_def outbox_messages_table_def
      dead_letters_table_def primary_uuid_def required_def nullable_def)

lemma names_of_tables:
  "td_name events_table = ''events''" "td_name tickets_table = ''tickets''"
  "td_name idempotency_keys_table = ''idempotency_keys''"
  "td_name outbox_messages_table = ''outbox_messages''" "td_name dead_letters_table = ''dead_letters''"
  "cd_name (primary_uuid c) = c"
  by (simp_all add: events_table_def tickets_table_def idempotency_keys_table_def outbox_messages_table_def
      dead_letters_table_def primary_uuid_def)

lemma constraints_of_tables:
  "td_constraints events_table = []"
  "td_constraints tickets_table = [Foreign_Key ''fk_tickets_event'' ''event_id'' ''events'' ''id'' Restrict]"
  "td_constraints idempotency_keys_table = [Unique_Constraint ''uq_idempotency_key'' ''idempotency_key'',
     Foreign_Key ''fk_idempotency_ticket'' ''ticket_id'' ''tickets'' ''id'' Set_Null]"
  "td_constraints outbox_messages_table = [Unique_Constraint ''uq_outbox_dedup'' ''dedup_key'']"
  "td_constraints dead_letters_table = []"
  by (simp_all add: events_table_def tickets_table_def idempotency_keys_table_def outbox_messages_table_def
      dead_letters_table_def)

lemma fk_tickets: "set (map tk_eventId (tickets d)) \<subseteq> set (map ev_id (events d)) \<longleftrightarrow> tickets_fk_ok d"
  by (auto simp: tickets_fk_ok_def values_of_def)

lemma fk_idempotency:
  "set (List.map_filter id (map ik_ticketId (idempotency_keys d))) \<subseteq> set (map tk_id (tickets d)) \<longleftrightarrow> idem_fk_ok d"
  unfolding subset_iff set_map_filter_id by (force simp: idem_fk_ok_def values_of_def)

lemma enforced_migrated: "enforced migrated d \<longleftrightarrow> schema_ok d"
proof -
  have "enforced migrated d \<longleftrightarrow> distinct (map ev_id (events d))
      \<and> (distinct (map tk_id (tickets d)) \<and> set (map tk_eventId (tickets d)) \<subseteq> set (map ev_id (events d)))
      \<and> (distinct (map ik_id (idempotency_keys d)) \<and> distinct (map ik_key (idempotency_keys d))
         \<and> set (List.map_filter id (map ik_ticketId (idempotency_keys d))) \<subseteq> set (map tk_id (tickets d)))
      \<and> (distinct (map ob_id (outbox_messages d)) \<and> distinct (map ob_dedupKey (outbox_messages d)))
      \<and> distinct (map dl_id (dead_letters d))"
    by (simp only: enforced_def migrated_def catalogue.simps list.pred_inject keys_of_tables names_of_tables
        constraints_of_tables constraint_holds.simps column_values simp_thms conj_assoc)
  then show ?thesis by (simp only: fk_tickets fk_idempotency schema_ok_def unique_by_def conj_ac)
qed

end
