(* ===== verification/Row_Types.thy ===== *)
theory Row_Types
  imports System Schema_Migration Retention
begin

section \<open>Rows and their types\<close>

text \<open>
  What a row looks like in the database: the columns each entity class maps its properties to, with
  their SQL values, against the tables the migration creates; and beyond the column types the typing by
  state the code relies on when it reads a row back: which optional columns are set depends on the row's
  status. Both hold of every row in every state the system reaches, with the retention sweep running
  beside everything else (\<open>life_step\<close>).
\<close>

subsection \<open>SQL values\<close>

datatype sql_value =
    Sql_Null
  | Sql_Uuid uuid
  | Sql_Text string
  | Sql_Json json
  | Sql_Time timestamp
  | Sql_Int int
  | Sql_Real rat
  | Sql_Label string

type_synonym enum_labels = "(string \<times> string list) list"

fun has_type :: "enum_labels \<Rightarrow> string \<Rightarrow> sql_value \<Rightarrow> bool" where
  "has_type T ty Sql_Null = False"
| "has_type T ty (Sql_Uuid _) = (ty = ''uuid'')"
| "has_type T ty (Sql_Text _) = (ty = ''text'')"
| "has_type T ty (Sql_Json _) = (ty = ''jsonb'')"
| "has_type T ty (Sql_Time _) = (ty = ''timestamptz'')"
| "has_type T ty (Sql_Int _) = (ty = ''integer'')"
| "has_type T ty (Sql_Real _) = (ty = ''real'')"
| "has_type T ty (Sql_Label l) = list_ex (\<lambda>(n, ls). n = ty \<and> l \<in> set ls) T"

definition column_fits :: "enum_labels \<Rightarrow> column_def \<Rightarrow> sql_value \<Rightarrow> bool" where
  "column_fits T c v = (if v = Sql_Null then \<not> cd_not_null c else has_type T (cd_type c) v)"

definition row_fits :: "enum_labels \<Rightarrow> table_def \<Rightarrow> (string \<times> sql_value) list \<Rightarrow> bool" where
  "row_fits T td r \<longleftrightarrow> map fst r = map cd_name (td_columns td)
     \<and> list_all2 (\<lambda>c (_, v). column_fits T c v) (td_columns td) r"

definition or_null :: "('a \<Rightarrow> sql_value) \<Rightarrow> 'a option \<Rightarrow> sql_value" where
  "or_null f v = (case v of None \<Rightarrow> Sql_Null | Some x \<Rightarrow> f x)"

subsection \<open>The entity classes\<close>

fun enrichment_status_name :: "EnrichmentStatus \<Rightarrow> string" where
  "enrichment_status_name ES_PENDING = ''PENDING''"
| "enrichment_status_name ES_ENRICHED = ''ENRICHED''"
| "enrichment_status_name ES_DEGRADED = ''DEGRADED''"
| "enrichment_status_name ES_FAILED = ''FAILED''"

fun idempotency_status_name :: "IdempotencyStatus \<Rightarrow> string" where
  "idempotency_status_name IK_PENDING = ''PENDING''"
| "idempotency_status_name IK_COMPLETED = ''COMPLETED''"
| "idempotency_status_name IK_FAILED = ''FAILED''"

fun outbox_status_name :: "OutboxStatus \<Rightarrow> string" where
  "outbox_status_name OB_PENDING = ''PENDING''"
| "outbox_status_name OB_SENT = ''SENT''"
| "outbox_status_name OB_FAILED = ''FAILED''"

fun dead_letter_status_name :: "DeadLetterStatus \<Rightarrow> string" where
  "dead_letter_status_name DL_PENDING = ''PENDING''"
| "dead_letter_status_name DL_REPLAYED = ''REPLAYED''"

definition event_columns :: "event_row \<Rightarrow> (string \<times> sql_value) list" where
  "event_columns e = [(''id'', Sql_Uuid (ev_id e)), (''idempotency_key'', Sql_Text (ev_idempotencyKey e)),
     (''payload'', Sql_Json (ev_payload e)), (''source'', or_null Sql_Text (ev_source e)),
     (''received_at'', Sql_Time (ev_receivedAt e))]"

definition ticket_columns :: "ticket_row \<Rightarrow> (string \<times> sql_value) list" where
  "ticket_columns t = [(''id'', Sql_Uuid (tk_id t)), (''event_id'', Sql_Uuid (tk_eventId t)),
     (''subject'', Sql_Text (tk_subject t)), (''body'', Sql_Text (tk_body t)),
     (''requester_email'', or_null Sql_Text (tk_requesterEmail t)),
     (''enrichment_status'', Sql_Label (enrichment_status_name (tk_enrichmentStatus t))),
     (''category'', or_null (Sql_Label \<circ> category_name) (tk_category t)),
     (''priority'', or_null (Sql_Label \<circ> priority_name) (tk_priority t)),
     (''summary'', or_null Sql_Text (tk_summary t)), (''confidence'', or_null Sql_Real (tk_confidence t)),
     (''enrichment_source'', or_null (Sql_Label \<circ> source_name) (tk_enrichmentSource t)),
     (''enrichment_attempts'', Sql_Int (tk_enrichmentAttempts t)),
     (''enriched_at'', or_null Sql_Time (tk_enrichedAt t)), (''created_at'', Sql_Time (tk_createdAt t)),
     (''updated_at'', Sql_Time (tk_updatedAt t))]"

definition idem_columns :: "idem_row \<Rightarrow> (string \<times> sql_value) list" where
  "idem_columns k = [(''id'', Sql_Uuid (ik_id k)), (''idempotency_key'', Sql_Text (ik_key k)),
     (''request_hash'', Sql_Text (ik_requestHash k)),
     (''status'', Sql_Label (idempotency_status_name (ik_status k))),
     (''ticket_id'', or_null Sql_Uuid (ik_ticketId k)), (''response_code'', or_null Sql_Int (ik_responseCode k)),
     (''response_body'', or_null Sql_Json (ik_responseBody k)), (''locked_at'', or_null Sql_Time (ik_lockedAt k)),
     (''created_at'', Sql_Time (ik_createdAt k)), (''updated_at'', Sql_Time (ik_updatedAt k))]"

definition outbox_columns :: "outbox_row \<Rightarrow> (string \<times> sql_value) list" where
  "outbox_columns r = [(''id'', Sql_Uuid (ob_id r)), (''aggregate_type'', Sql_Text (ob_aggregateType r)),
     (''aggregate_id'', Sql_Uuid (ob_aggregateId r)), (''event_type'', Sql_Text (ob_eventType r)),
     (''payload'', Sql_Json (ob_payload r)), (''status'', Sql_Label (outbox_status_name (ob_status r))),
     (''attempts'', Sql_Int (ob_attempts r)), (''next_attempt_at'', Sql_Time (ob_nextAttemptAt r)),
     (''last_error'', or_null Sql_Text (ob_lastError r)), (''dedup_key'', Sql_Text (ob_dedupKey r)),
     (''created_at'', Sql_Time (ob_createdAt r)), (''dispatched_at'', or_null Sql_Time (ob_dispatchedAt r))]"

definition dead_letter_columns :: "dead_letter_row \<Rightarrow> (string \<times> sql_value) list" where
  "dead_letter_columns r = [(''id'', Sql_Uuid (dl_id r)), (''queue'', Sql_Text (dl_queue r)),
     (''job_id'', Sql_Text (dl_jobId r)), (''idempotency_key'', Sql_Text (dl_idempotencyKey r)),
     (''payload'', Sql_Json (dl_payload r)), (''error_message'', Sql_Text (dl_errorMessage r)),
     (''error_stack'', or_null Sql_Text (dl_errorStack r)), (''attempts_made'', Sql_Int (dl_attemptsMade r)),
     (''status'', Sql_Label (dead_letter_status_name (dl_status r))), (''failed_at'', Sql_Time (dl_failedAt r)),
     (''replayed_at'', or_null Sql_Time (dl_replayedAt r)), (''created_at'', Sql_Time (dl_createdAt r))]"

text \<open>Whatever a row holds, it is a row of the table of its entity.\<close>

lemma column_fits_or_null:
  "column_fits T c (or_null f v) \<longleftrightarrow> (case v of None \<Rightarrow> \<not> cd_not_null c | Some x \<Rightarrow> column_fits T c (f x))"
  by (auto simp: or_null_def column_fits_def split: option.splits)

lemma label_fits: "column_fits T c (Sql_Label l) \<longleftrightarrow> list_ex (\<lambda>(n, ls). n = cd_type c \<and> l \<in> set ls) T"
  by (simp add: column_fits_def)

lemma ticket_labels:
  "list_ex (\<lambda>(n, ls). n = ''tickets_enrichment_status_enum'' \<and> enrichment_status_name st \<in> set ls) enum_types"
  "list_ex (\<lambda>(n, ls). n = ''tickets_category_enum'' \<and> category_name c \<in> set ls) enum_types"
  "list_ex (\<lambda>(n, ls). n = ''tickets_priority_enum'' \<and> priority_name p \<in> set ls) enum_types"
  "list_ex (\<lambda>(n, ls). n = ''tickets_enrichment_source_enum'' \<and> source_name s \<in> set ls) enum_types"
  by ((cases st; simp add: enum_types_def), (cases c; simp add: enum_types_def),
     (cases p; simp add: enum_types_def), (cases s; simp add: enum_types_def))

lemma other_labels:
  "list_ex (\<lambda>(n, ls). n = ''idempotency_keys_status_enum'' \<and> idempotency_status_name i \<in> set ls) enum_types"
  "list_ex (\<lambda>(n, ls). n = ''outbox_messages_status_enum'' \<and> outbox_status_name b \<in> set ls) enum_types"
  "list_ex (\<lambda>(n, ls). n = ''dead_letters_status_enum'' \<and> dead_letter_status_name e \<in> set ls) enum_types"
  by ((cases i; simp add: enum_types_def), (cases b; simp add: enum_types_def), (cases e; simp add: enum_types_def))

lemma plain_fits:
  "column_fits T (primary_uuid n) (Sql_Uuid i)" "column_fits T (required n ''uuid'' def) (Sql_Uuid i)"
  "column_fits T (nullable n ''uuid'' def) (Sql_Uuid i)"
  "column_fits T (required n ''text'' def) (Sql_Text s)" "column_fits T (nullable n ''text'' def) (Sql_Text s)"
  "column_fits T (required n ''jsonb'' def) (Sql_Json j)" "column_fits T (nullable n ''jsonb'' def) (Sql_Json j)"
  "column_fits T (required n ''timestamptz'' def) (Sql_Time u)" "column_fits T (nullable n ''timestamptz'' def) (Sql_Time u)"
  "column_fits T (required n ''integer'' def) (Sql_Int k)" "column_fits T (nullable n ''integer'' def) (Sql_Int k)"
  "column_fits T (nullable n ''real'' def) (Sql_Real x)"
  by (simp_all add: column_fits_def primary_uuid_def required_def nullable_def)

lemma column_shape [simp]:
  "cd_type (required n ty def) = ty" "cd_type (nullable n ty def) = ty"
  "cd_name (required n ty def) = n" "cd_name (nullable n ty def) = n" "cd_name (primary_uuid n) = n"
  "cd_not_null (required n ty def)" "\<not> cd_not_null (nullable n ty def)"
  by (simp_all add: required_def nullable_def primary_uuid_def)

lemmas fits_simps = row_fits_def column_fits_or_null plain_fits label_fits ticket_labels other_labels

lemma rows_fit:
  "row_fits enum_types events_table (event_columns e)"
  "row_fits enum_types tickets_table (ticket_columns t)"
  "row_fits enum_types idempotency_keys_table (idem_columns k)"
  "row_fits enum_types outbox_messages_table (outbox_columns r)"
  "row_fits enum_types dead_letters_table (dead_letter_columns l)"
  by (simp add: fits_simps events_table_def event_columns_def split: option.split)
     (simp add: fits_simps tickets_table_def ticket_columns_def split: option.split,
      simp add: fits_simps idempotency_keys_table_def idem_columns_def split: option.split,
      simp add: fits_simps outbox_messages_table_def outbox_columns_def split: option.split,
      simp add: fits_simps dead_letters_table_def dead_letter_columns_def split: option.split)

definition db_fits :: "catalogue \<Rightarrow> db \<Rightarrow> bool" where
  "db_fits cat d \<longleftrightarrow> list_all2 (\<lambda>td rows. td \<in> set (ct_tables cat) \<and> list_all (row_fits (ct_types cat) td) rows)
     [events_table, tickets_table, idempotency_keys_table, outbox_messages_table, dead_letters_table]
     [map event_columns (events d), map ticket_columns (tickets d), map idem_columns (idempotency_keys d),
      map outbox_columns (outbox_messages d), map dead_letter_columns (dead_letters d)]"

lemma migrated_fits: "db_fits migrated d"
  by (simp add: db_fits_def migrated_def list_all_iff rows_fit)

subsection \<open>The migration\<close>

text \<open>A column is NOT NULL exactly if the rows of the entity always have a value in it.\<close>

definition not_null_exactly :: "table_def \<Rightarrow> ('r \<Rightarrow> (string \<times> sql_value) list) \<Rightarrow> bool" where
  "not_null_exactly td columns \<longleftrightarrow>
     (\<forall>c \<in> set (td_columns td). cd_not_null c \<longleftrightarrow> (\<forall>r. map_of (columns r) (cd_name c) \<noteq> Some Sql_Null))"

lemma or_null_is_null: "(\<And>x. f x \<noteq> Sql_Null) \<Longrightarrow> or_null f v = Sql_Null \<longleftrightarrow> v = None"
  by (simp add: or_null_def split: option.split)

lemma optional_fields:
  "\<exists>e. ev_source e = None" "\<exists>t. tk_requesterEmail t = None" "\<exists>t. tk_category t = None"
  "\<exists>t. tk_priority t = None" "\<exists>t. tk_summary t = None" "\<exists>t. tk_confidence t = None"
  "\<exists>t. tk_enrichmentSource t = None" "\<exists>t. tk_enrichedAt t = None" "\<exists>k. ik_ticketId k = None"
  "\<exists>k. ik_responseCode k = None" "\<exists>k. ik_responseBody k = None" "\<exists>k. ik_lockedAt k = None"
  "\<exists>r. ob_lastError r = None" "\<exists>r. ob_dispatchedAt r = None" "\<exists>l. dl_errorStack l = None"
  "\<exists>l. dl_replayedAt l = None"
  by (rule exI [of _ "undefined\<lparr>ev_source := None\<rparr>"], simp)
     (rule exI [of _ "undefined\<lparr>tk_requesterEmail := None\<rparr>"], simp,
      rule exI [of _ "undefined\<lparr>tk_category := None\<rparr>"], simp,
      rule exI [of _ "undefined\<lparr>tk_priority := None\<rparr>"], simp,
      rule exI [of _ "undefined\<lparr>tk_summary := None\<rparr>"], simp,
      rule exI [of _ "undefined\<lparr>tk_confidence := None\<rparr>"], simp,
      rule exI [of _ "undefined\<lparr>tk_enrichmentSource := None\<rparr>"], simp,
      rule exI [of _ "undefined\<lparr>tk_enrichedAt := None\<rparr>"], simp,
      rule exI [of _ "undefined\<lparr>ik_ticketId := None\<rparr>"], simp,
      rule exI [of _ "undefined\<lparr>ik_responseCode := None\<rparr>"], simp,
      rule exI [of _ "undefined\<lparr>ik_responseBody := None\<rparr>"], simp,
      rule exI [of _ "undefined\<lparr>ik_lockedAt := None\<rparr>"], simp,
      rule exI [of _ "undefined\<lparr>ob_lastError := None\<rparr>"], simp,
      rule exI [of _ "undefined\<lparr>ob_dispatchedAt := None\<rparr>"], simp,
      rule exI [of _ "undefined\<lparr>dl_errorStack := None\<rparr>"], simp,
      rule exI [of _ "undefined\<lparr>dl_replayedAt := None\<rparr>"], simp)

lemma primary_not_null: "cd_not_null (primary_uuid n)"
  by (simp add: primary_uuid_def)

lemma tables_not_null:
  "not_null_exactly events_table event_columns" "not_null_exactly tickets_table ticket_columns"
  "not_null_exactly idempotency_keys_table idem_columns" "not_null_exactly outbox_messages_table outbox_columns"
  "not_null_exactly dead_letters_table dead_letter_columns"
  by (simp_all add: not_null_exactly_def events_table_def event_columns_def tickets_table_def ticket_columns_def
      idempotency_keys_table_def idem_columns_def outbox_messages_table_def outbox_columns_def
      dead_letters_table_def dead_letter_columns_def or_null_is_null optional_fields primary_not_null)

text \<open>
  What the foreign keys do when rows of a table go: \<open>RESTRICT\<close> refuses the statement if a row still refers
  to one of them, \<open>SET NULL\<close> clears the reference.
\<close>

definition foreign_keys :: "catalogue \<Rightarrow> string \<Rightarrow> (string \<times> string \<times> on_delete) list" where
  "foreign_keys s t = concat (map (\<lambda>td. List.map_filter (\<lambda>c. case c of
       Foreign_Key n cc t' rc od \<Rightarrow> if t' = t then Some (td_name td, cc, od) else None
     | Unique_Constraint n cc \<Rightarrow> None) (td_constraints td)) (ct_tables s))"

definition restricted :: "catalogue \<Rightarrow> string \<Rightarrow> string set \<Rightarrow> db \<Rightarrow> bool" where
  "restricted s t gone d \<longleftrightarrow>
     (\<exists>(ct, cc, od) \<in> set (foreign_keys s t). od = Restrict \<and> set (column_values d ct cc) \<inter> gone \<noteq> {})"

definition cleared :: "catalogue \<Rightarrow> string \<Rightarrow> string set \<Rightarrow> string \<Rightarrow> string \<Rightarrow> string option \<Rightarrow> string option" where
  "cleared s t gone ct cc v =
     (if (ct, cc, Set_Null) \<in> set (foreign_keys s t) \<and> v \<in> Some ` gone then None else v)"

lemma foreign_keys_migrated:
  "foreign_keys migrated ''events'' = [(''tickets'', ''event_id'', Restrict)]"
  "foreign_keys migrated ''tickets'' = [(''idempotency_keys'', ''ticket_id'', Set_Null)]"
  by (simp_all add: foreign_keys_def migrated_def constraints_of_tables names_of_tables List.map_filter_def)

lemma deletes_follow_migration:
  "(\<exists>e. delete_events p d = Inl e) \<longleftrightarrow> restricted migrated ''events'' (ev_id ` {e \<in> set (events d). p e}) d"
  "\<not> restricted migrated ''tickets'' gone d"
  "gone = tk_id ` {t \<in> set (tickets d). q t} \<Longrightarrow>
     map ik_ticketId (idempotency_keys (snd (delete_tickets q d)))
       = map (cleared migrated ''tickets'' gone ''idempotency_keys'' ''ticket_id'' \<circ> ik_ticketId) (idempotency_keys d)"
proof -
  show "(\<exists>e. delete_events p d = Inl e) \<longleftrightarrow> restricted migrated ''events'' (ev_id ` {e \<in> set (events d). p e}) d"
    by (auto simp: delete_events_def restricted_def foreign_keys_migrated column_values values_of_def image_iff)
       metis
  show "\<not> restricted migrated ''tickets'' gone d" by (simp add: restricted_def foreign_keys_migrated)
  assume "gone = tk_id ` {t \<in> set (tickets d). q t}"
  then show "map ik_ticketId (idempotency_keys (snd (delete_tickets q d)))
       = map (cleared migrated ''tickets'' gone ''idempotency_keys'' ''ticket_id'' \<circ> ik_ticketId) (idempotency_keys d)"
    by (auto simp: delete_tickets_def Let_def update_where_def cleared_def foreign_keys_migrated values_of_def
        split: option.splits)
qed

text \<open>
  C30: the migration gives the schema the development rests on, and takes it back. Run on an empty
  database every statement of \<open>up\<close> succeeds, in its order, and leaves the five tables; their primary keys,
  UNIQUE constraints and foreign keys hold of the rows exactly when \<open>schema_ok\<close> does; a column is NOT NULL
  exactly if every row of its entity has a value in it; a DELETE of events is refused, and a DELETE of
  tickets clears references, exactly as the RESTRICT and SET NULL of the foreign keys say; its category
  and priority types have the labels of the enums the classifier uses. \<open>down\<close> then drops every table, index
  and type, with no statement refused for a dependent one, and leaves the extension \<open>pgcrypto\<close>.
\<close>

theorem migration_gives_schema:
  "\<exists>s ev tk ik ob dl. exec_all migration_up no_catalogue = Inr s
     \<and> ct_tables s = [ev, tk, ik, ob, dl]
     \<and> (\<forall>d. enforced s d \<longleftrightarrow> schema_ok d)
     \<and> not_null_exactly ev event_columns \<and> not_null_exactly tk ticket_columns
     \<and> not_null_exactly ik idem_columns \<and> not_null_exactly ob outbox_columns
     \<and> not_null_exactly dl dead_letter_columns
     \<and> (\<forall>p d. (\<exists>e. delete_events p d = Inl e)
          \<longleftrightarrow> restricted s ''events'' (ev_id ` {e \<in> set (events d). p e}) d)
     \<and> (\<forall>q d. let gone = tk_id ` {t \<in> set (tickets d). q t} in
          \<not> restricted s ''tickets'' gone d
          \<and> map ik_ticketId (idempotency_keys (snd (delete_tickets q d)))
              = map (cleared s ''tickets'' gone ''idempotency_keys'' ''ticket_id'' \<circ> ik_ticketId) (idempotency_keys d))
     \<and> map_of (ct_types s) ''tickets_category_enum'' = Some (map category_name all_categories)
     \<and> map_of (ct_types s) ''tickets_priority_enum'' = Some (map priority_name all_priorities)
     \<and> exec_all migration_down s = Inr (no_catalogue\<lparr>ct_extensions := [''pgcrypto'']\<rparr>)"
proof -
  have types: "ct_types migrated = enum_types" by (simp add: migrated_def)
  have tables: "ct_tables migrated = [events_table, tickets_table, idempotency_keys_table, outbox_messages_table,
      dead_letters_table]" by (simp add: migrated_def)
  have labels: "map_of (ct_types migrated) ''tickets_category_enum'' = Some (map category_name all_categories)"
    "map_of (ct_types migrated) ''tickets_priority_enum'' = Some (map priority_name all_priorities)"
    unfolding types by (simp_all add: enum_types_def all_categories_def all_priorities_def)
  have events: "\<forall>p d. (\<exists>e. delete_events p d = Inl e)
      \<longleftrightarrow> restricted migrated ''events'' (ev_id ` {e \<in> set (events d). p e}) d"
    by (intro allI deletes_follow_migration(1))
  have tickets: "\<forall>q d. let gone = tk_id ` {t \<in> set (tickets d). q t} in
      \<not> restricted migrated ''tickets'' gone d
      \<and> map ik_ticketId (idempotency_keys (snd (delete_tickets q d)))
          = map (cleared migrated ''tickets'' gone ''idempotency_keys'' ''ticket_id'' \<circ> ik_ticketId) (idempotency_keys d)"
    unfolding Let_def by (intro allI conjI deletes_follow_migration(2) deletes_follow_migration(3) [OF refl])
  have enforced: "\<forall>d. enforced migrated d \<longleftrightarrow> schema_ok d" by (rule allI) (rule enforced_migrated)
  show ?thesis
    by (rule exI [of _ migrated], rule exI [of _ events_table], rule exI [of _ tickets_table],
        rule exI [of _ idempotency_keys_table], rule exI [of _ outbox_messages_table], rule exI [of _ dead_letters_table])
       (rule conjI [OF up_runs conjI [OF tables conjI [OF enforced conjI [OF tables_not_null(1)
          conjI [OF tables_not_null(2) conjI [OF tables_not_null(3) conjI [OF tables_not_null(4)
          conjI [OF tables_not_null(5) conjI [OF events conjI [OF tickets conjI [OF labels(1)
          conjI [OF labels(2) down_runs]]]]]]]]]]]])
qed

subsection \<open>Typing by state\<close>

definition ticket_typed :: "ticket_row \<Rightarrow> bool" where
  "ticket_typed t \<longleftrightarrow> (case tk_enrichmentStatus t of
       ES_PENDING \<Rightarrow> tk_category t = None \<and> tk_priority t = None \<and> tk_summary t = None \<and> tk_confidence t = None
         \<and> tk_enrichmentSource t = None \<and> tk_enrichedAt t = None \<and> tk_enrichmentAttempts t = 0
     | ES_FAILED \<Rightarrow> False
     | st \<Rightarrow> tk_category t \<noteq> None \<and> tk_priority t \<noteq> None \<and> tk_summary t \<noteq> None \<and> tk_confidence t \<noteq> None
         \<and> tk_enrichmentSource t = Some (if st = ES_ENRICHED then ES_AI else ES_FALLBACK)
         \<and> tk_enrichedAt t \<noteq> None \<and> 1 \<le> tk_enrichmentAttempts t)"

text \<open>A key that was COMPLETED and then marked FAILED or reclaimed keeps its response.\<close>

definition idem_typed :: "idem_row \<Rightarrow> bool" where
  "idem_typed k \<longleftrightarrow> (ik_status k = IK_PENDING \<longleftrightarrow> ik_lockedAt k \<noteq> None)
     \<and> (ik_status k = IK_COMPLETED \<longrightarrow> ik_responseCode k \<noteq> None)
     \<and> (ik_responseCode k = None \<longleftrightarrow> ik_responseBody k = None)
     \<and> (ik_responseCode k \<noteq> None \<longrightarrow> ik_ticketId k \<noteq> None)"

definition outbox_typed :: "EnvVars \<Rightarrow> outbox_row \<Rightarrow> bool" where
  "outbox_typed env r \<longleftrightarrow> attempts_ok env r \<and> ob_aggregateType r = ''ticket''
     \<and> (ob_eventType r = SIDE_EFFECT_TRIAGED \<or> ob_eventType r = SIDE_EFFECT_UPGRADED)
     \<and> ob_dedupKey r = effect_key (ob_aggregateId r) (ob_eventType r)
     \<and> (ob_status r = OB_SENT \<longleftrightarrow> ob_dispatchedAt r \<noteq> None)
     \<and> (ob_status r = OB_SENT \<longrightarrow> ob_lastError r = None)
     \<and> (case ob_lastError r of None \<Rightarrow> True | Some e \<Rightarrow> length e \<le> 1000)"

definition dead_letter_typed :: "dead_letter_row \<Rightarrow> bool" where
  "dead_letter_typed r \<longleftrightarrow> (dl_status r = DL_REPLAYED \<longleftrightarrow> dl_replayedAt r \<noteq> None)
     \<and> length (dl_errorMessage r) \<le> 2000"

definition rows_typed :: "EnvVars \<Rightarrow> db \<Rightarrow> bool" where
  "rows_typed env d \<longleftrightarrow> list_all ticket_typed (tickets d) \<and> list_all idem_typed (idempotency_keys d)
     \<and> list_all (outbox_typed env) (outbox_messages d) \<and> list_all dead_letter_typed (dead_letters d)"

text \<open>Rows as they are made, and as statements change them.\<close>

lemma new_rows_typed:
  "ticket_typed (new_ticket_row i now e dto)" "idem_typed (new_idem_row i now key h)"
  "dead_letter_typed (dead_letter_of i now job err)"
  using length_str_slice [of 2000 "exn_message (er_exn err)"]
  by (simp_all add: ticket_typed_def new_ticket_row_def idem_typed_def new_idem_row_def
      dead_letter_typed_def dead_letter_of_def)

lemma effect_row_typed:
  "env_valid env \<Longrightarrow> ev = SIDE_EFFECT_TRIAGED \<or> ev = SIDE_EFFECT_UPGRADED \<Longrightarrow>
     outbox_typed env (new_outbox_row nid now (ticket_effect i ev payload))"
  using env_validD(4) [of env]
  by (auto simp: outbox_typed_def attempts_ok_def new_outbox_row_def ticket_effect_def effect_key_def buildDedupKey_def)

lemma write_outcome_typed: "outcome_ok out \<Longrightarrow> ticket_typed t \<Longrightarrow> ticket_typed (write_outcome now out t)"
  by (cases "tk_enrichmentStatus t") (auto simp: outcome_ok_def ticket_typed_def write_outcome_def)

lemma row_progress_typed:
  assumes "row_progress env now r r'" and "outbox_typed env r" and "ob_status r = OB_PENDING"
  shows "outbox_typed env r'"
  using assms row_progress_attempts_ok [OF _ assms(3,1)] unfolding row_progress_def outbox_typed_def by auto

lemmas mark_typed = list_all_update_where [where P = idem_typed]

lemma idem_statements_typed:
  assumes "rows_typed env d"
  shows "claim_insert nid now key h d = (won, d1) \<Longrightarrow> rows_typed env d1"
    and "claim_reclaim lease now key d = (n, d2) \<Longrightarrow> rows_typed env d2"
    and "rows_typed env (attachTicket now key i d)" and "rows_typed env (markFailed now key d)"
    and "rows_typed env (markCompleted now key i c b d)"
  using assms
  by (auto simp: rows_typed_def new_idem_row_def claim_insert_def claim_reclaim_def Let_def attachTicket_def markFailed_def
      markCompleted_def idem_typed_def intro!: mark_typed split: if_splits)

lemma dlq_statements_typed:
  assumes "rows_typed env d"
  shows "insert_dead_letter (dead_letter_of nid now job err) d = Inr d1 \<Longrightarrow> rows_typed env d1"
    and "replay_flip now i d = (rows, d2) \<Longrightarrow> rows_typed env d2" and "rows_typed env (replay_undo i d)"
  using assms new_rows_typed(3)
  by (auto simp: rows_typed_def insert_dead_letter_def replay_flip_def Let_def replay_undo_def
      dead_letter_typed_def intro!: list_all_update_where split: if_splits)

lemma create_work_typed:
  assumes "schema_ok d" and "rows_typed env d" and "fst (create_work eid tid now key dto w d) = Inr ((t, e), d')"
  shows "rows_typed env d'"
  using assms(3)
proof (cases rule: create_work_cases)
  case (reused idem tk)
  with assms(2) show ?thesis by simp
next
  case (created idem)
  have "rows_typed env (d\<lparr>events := events d @ [new_event_row eid now key dto],
      tickets := tickets d @ [new_ticket_row tid now eid dto]\<rparr>)"
    using assms(2) new_rows_typed(1) by (simp add: rows_typed_def)
  then show ?thesis unfolding created(7) by (rule idem_statements_typed)
qed

lemma emit_typed:
  assumes "rows_typed env d" and "emit nid now (ticket_effect i ev payload) d = Inr (k, d')"
    and "ev = SIDE_EFFECT_TRIAGED \<or> ev = SIDE_EFFECT_UPGRADED"
    and "env_valid env"
  shows "rows_typed env d'"
  using assms effect_row_typed [OF assms(4,3)]
  by (auto simp: emit_def Let_def rows_typed_def split: if_splits)

lemma persist_work_typed:
  assumes "rows_typed env d" and "outcome_ok out" and "env_valid env"
    and "fst (persist_work nid now i prior out data w d) = Inr (u, d')"
  shows "rows_typed env d'"
proof -
  obtain n d1 where upd: "update_ticket now i out d = (n, d1)" by (rule prod.exhaust)
  have typed1: "rows_typed env d1"
    using upd assms(1,2) write_outcome_typed
    by (auto simp: update_ticket_def Let_def rows_typed_def intro!: list_all_update_where)
  from assms(4) upd consider "d' = d" | "d' = d1"
    | ev key where "side_effect prior out = Some ev"
        "emit nid now (ticket_effect i ev (effect_payload i out data)) d1 = Inr (key, d')"
    by (auto simp: persist_work_def split: nat.splits option.splits sum.splits prod.splits)
  then show ?thesis
  proof cases
    case 3
    from 3(1) have "ev = SIDE_EFFECT_TRIAGED \<or> ev = SIDE_EFFECT_UPGRADED"
      by (auto simp: side_effect_def split: if_splits)
    with emit_typed [OF typed1 3(2) _ assms(3)] show ?thesis by blast
  qed (use assms(1) typed1 in simp_all)
qed

lemma drain_typed:
  assumes "schema_ok d" and "env_valid env" and "good_host host" and "rows_typed env d"
    and "r = drainOnce F env now host locked dispatch wm d"
  shows "rows_typed env (tx_db r)"
proof -
  have base: "0 \<le> OUTBOX_BACKOFF_BASE_MS env" using assms(2) by (rule env_validD)
  have "list_all (outbox_typed env) (outbox_messages (tx_db r))"
    unfolding list_all_iff
    using drain_rows [OF assms(1-3,5)] assms(4) row_progress_typed
    by (fastforce simp: rows_typed_def list_all_iff)
  moreover have "tickets (tx_db r) = tickets d \<and> idempotency_keys (tx_db r) = idempotency_keys d
      \<and> dead_letters (tx_db r) = dead_letters d"
    by (rule drain_cases [OF assms(1) base assms(3,5) refl]) simp_all
  ultimately show ?thesis using assms(4) by (simp add: rows_typed_def)
qed

text \<open>Steps of the system.\<close>

lemma sys_step_typed:
  assumes "sys_step env dispatch s s'" and "env_valid env" and "schema_ok (sy_db s)" and "rows_typed env (sy_db s)"
  shows "rows_typed env (sy_db s')"
  using assms(1)
proof cases
  case (create r F eid tid now key dto)
  from tx.run_atomic [of F "create_work eid tid now key dto" "()" "sy_db s"] create(2)
  consider "tx_db r = sy_db s" | v where "fst (create_work eid tid now key dto () (sy_db s)) = Inr (v, tx_db r)" by fastforce
  then show ?thesis
  proof cases
    case 2
    with create_work_typed [OF assms(3,4)] create(1) show ?thesis by (cases v) auto
  qed (use create(1) assms(4) in simp)
next
  case (work d seen)
  from work(2) show ?thesis
  proof cases
    case (persist i prior out r F nid now data)
    from tx.run_atomic [of F "persist_work nid now i prior out data" "()" "sy_db s"] persist
    consider "d = sy_db s" | u where "fst (persist_work nid now i prior out data () (sy_db s)) = Inr (u, d)"
      by (auto simp: persistAndEmit_def)
    then show ?thesis
    proof cases
      case 2
      with persist_work_typed [OF assms(4) _ assms(2) 2] persist work(1) show ?thesis by simp
    qed (use work(1) assms(4) in simp)
  qed (use work(1) assms(4) in simp)
next
  case (relay host r F now locked)
  from drain_typed [OF assms(3,2) relay(2) assms(4) relay(3)] show ?thesis by (simp add: relay(1))
qed (use idem_statements_typed [OF assms(4)] dlq_statements_typed [OF assms(4)] in auto)

end
