(* ===== verification/Lifetime.thy ===== *)
theory Lifetime
  imports Row_Types Retention_Reopens
begin

section \<open>The system with retention\<close>

text \<open>
  A step of \<open>System\<close> or a sweep of the retention job, in any order. What the first relation could show
  of a statement's arguments Postgres enforces here: a step whose result would break a constraint of the
  schema does not happen (a late \<open>markCompleted\<close> whose ticket has been deleted is refused by the foreign
  key, and its transaction changes nothing). The reconcile sweep only reads the database.
\<close>

inductive life_step :: "EnvVars \<Rightarrow> 'w dispatcher \<Rightarrow> 'w sys \<Rightarrow> 'w sys \<Rightarrow> bool" for env dispatch where
  run: "sys_step env dispatch s s' \<Longrightarrow> schema_ok (sy_db s') \<Longrightarrow> life_step env dispatch s s'"
| retain: "retention_sweep env commit_error now rs m (sy_db s) = (p, rs', m', d) \<Longrightarrow>
     life_step env dispatch s (s\<lparr>sy_db := d\<rparr>)"

inductive life_reach :: "EnvVars \<Rightarrow> 'w dispatcher \<Rightarrow> 'w sys \<Rightarrow> 'w sys \<Rightarrow> bool" for env dispatch s0 where
  start: "life_reach env dispatch s0 s0"
| more: "life_reach env dispatch s0 s \<Longrightarrow> life_step env dispatch s s' \<Longrightarrow> life_reach env dispatch s0 s'"

lemma life_reach_trans:
  assumes "life_reach env dispatch s1 s2" and "life_reach env dispatch s0 s1"
  shows "life_reach env dispatch s0 s2"
  using assms by (induction rule: life_reach.induct) (auto intro: life_reach.more)

lemma sweep_db:
  assumes "retention_sweep env commit_error now rs m d = (p, rs', m', d')"
  shows "d' = d \<or> d' = retained (retention_cutoff env now) d"
proof -
  obtain q where "retention_work (retention_cutoff env now) d = Inr (q, retained (retention_cutoff env now) d)"
    using retention_work_eq [of "retention_cutoff env now" d] by blast
  with assms show ?thesis by (auto simp: retention_sweep_def split: option.splits)
qed

text \<open>Without retention, every path is one of these.\<close>

lemma sys_reach_life:
  assumes "sys_reach env dispatch s0 s" and "env_valid env" and "sys_inv env (\<lambda>_. UNIV) s0"
  shows "life_reach env dispatch s0 s"
  using assms(1)
proof (induction rule: sys_reach.induct)
  case start
  show ?case by (rule life_reach.start)
next
  case (more s s')
  have "sys_inv env (\<lambda>_. UNIV) s'"
    by (rule sys_inv_any [OF sys_reach.more [OF more.hyps(1,2)] assms(2,3)])
  then have "schema_ok (sy_db s')" by (simp add: sys_inv_def work_inv_def)
  with more show ?case by (blast intro: life_reach.more life_step.run)
qed

subsection \<open>Types\<close>

definition life_ok :: "EnvVars \<Rightarrow> 'w sys \<Rightarrow> bool" where
  "life_ok env s \<longleftrightarrow> schema_ok (sy_db s) \<and> rows_typed env (sy_db s)"

lemma life_ok_start: "life_ok env (sys_start w m)"
  using schema_ok_empty by (simp add: life_ok_def sys_start_def rows_typed_def empty_db_def)

lemma retained_typed: "rows_typed env d \<Longrightarrow> rows_typed env (retained cutoff d)"
  by (simp add: rows_typed_def retained_fields(1,4,5) retained_fields(2) [of cutoff d] list_all_delete_where)

lemma life_step_ok:
  assumes "life_step env dispatch s s'" and "env_valid env" and "life_ok env s"
  shows "life_ok env s'"
  using assms(1)
proof cases
  case run
  with sys_step_typed [OF run(1) assms(2)] assms(3) show ?thesis by (simp add: life_ok_def)
next
  case (retain ce now rs m p rs' m' d)
  from sweep_db [OF retain(2)] assms(3) show ?thesis
    by (auto simp: retain(1) life_ok_def retained_schema_ok retained_typed)
qed

lemma life_reach_ok:
  "life_reach env dispatch s0 s \<Longrightarrow> env_valid env \<Longrightarrow> life_ok env s0 \<Longrightarrow> life_ok env s"
  by (induction rule: life_reach.induct) (auto intro: life_step_ok)

lemmas life_ok_from_start = life_reach_ok [OF _ _ life_ok_start]

text \<open>
  C11: rows keep their types. In every state the system can reach with retention running: each row, as
  its entity maps it to columns, is a row of the table the migration created, in names, order, SQL types,
  enum labels and nullability; and the columns that are optional are typed by the row's status: a ticket
  has no enrichment exactly while it is PENDING, and is never FAILED; an AI triage is ENRICHED and a
  fallback one DEGRADED; a key holds a lease exactly while PENDING, and its response together with its
  ticket once it was COMPLETED; an outbox row carries one of the two effects of its ticket under that
  effect's dedup key, attempts within the limit, and a dispatch time exactly when SENT; a dead letter a
  replay time exactly when REPLAYED.
\<close>

theorem rows_keep_their_types:
  assumes "env_valid env" and "life_reach env dispatch (sys_start w m) s"
  shows "\<exists>cat. exec_all migration_up no_catalogue = Inr cat \<and> db_fits cat (sy_db s) \<and> enforced cat (sy_db s)
    \<and> rows_typed env (sy_db s)"
  using life_ok_from_start [OF assms(2,1)] up_runs migrated_fits enforced_migrated by (auto simp: life_ok_def)

lemma typed_ticket: "rows_typed env d \<Longrightarrow> tk_row i d = Some t \<Longrightarrow> ticket_typed t"
  by (auto simp: rows_typed_def list_all_iff dest!: row_with_SomeD)

lemma typed_key: "rows_typed env d \<Longrightarrow> key_row k d = Some x \<Longrightarrow> idem_typed x"
  by (auto simp: rows_typed_def list_all_iff dest!: row_with_SomeD)

subsection \<open>Replays\<close>

text \<open>
  C14: a replayed answer always leads somewhere. In every state the system can reach with retention
  running, a submission whose key is COMPLETED under the same content is answered \<open>replayed\<close> with the
  ticket of the key, changes no row, and that ticket can be fetched: neither the sweep nor any
  interleaving leaves a completed key without its ticket. The view shows a ticket that waits, PENDING and
  without any classification, or one that is classified, DEGRADED by the fallback or ENRICHED by the
  model, with category, priority, summary and confidence; never a FAILED one.
\<close>

theorem replayed_ticket_readable:
  assumes "env_valid env" and "life_reach env dispatch (sys_start w m) x" and "ap_db s = sy_db x"
    and "key = event_key (request_hash H dto) dto headerKey" and "assertUsableAsJobId key = Inr ()"
    and "key_row key (ap_db s) = Some k" and "ik_status k = IK_COMPLETED" and "ik_requestHash k = request_hash H dto"
  shows "\<exists>ans s' t v. ingest H env dto headerKey s = (Inr ans, s') \<and> ap_db s' = ap_db s
    \<and> ir_status ans = Replayed \<and> ir_ticketId ans = Some t
    \<and> getTicket t (ap_db s') = Inr v \<and> vt_id v = t
    \<and> (let en = vt_enrichment v in
        vw_status en = ES_PENDING \<and> vw_source en = None \<and> vw_category en = None \<and> vw_priority en = None
          \<and> vw_summary en = None \<and> vw_confidence en = None
      \<or> (vw_status en = ES_DEGRADED \<and> vw_source en = Some ES_FALLBACK
          \<or> vw_status en = ES_ENRICHED \<and> vw_source en = Some ES_AI)
        \<and> vw_category en \<noteq> None \<and> vw_priority en \<noteq> None \<and> vw_summary en \<noteq> None \<and> vw_confidence en \<noteq> None)"
proof -
  have ok: "schema_ok (ap_db s)" "rows_typed env (ap_db s)"
    using life_ok_from_start [OF assms(2,1)] assms(3) by (simp_all add: life_ok_def)
  have "idem_typed k" by (rule typed_key [OF ok(2) assms(6)])
  with assms(7) obtain t where t: "ik_ticketId k = Some t" by (auto simp: idem_typed_def)
  then have "t \<in> values_of tk_id (tickets (ap_db s))"
    using ok(1) assms(6) by (auto simp: schema_ok_def idem_fk_ok_def dest!: row_with_SomeD)
  then obtain r where r: "tk_row t (ap_db s) = Some r" by (metis not_None_eq row_with_None_iff)
  then have "getTicket t (ap_db s) = Inr (toView r)" "vt_id (toView r) = t"
    by (auto simp: getTicket_def findByIdOrThrow_def toView_def dest: row_with_SomeD)
  moreover from typed_ticket [OF ok(2) r] have
    "let en = vt_enrichment (toView r) in
        vw_status en = ES_PENDING \<and> vw_source en = None \<and> vw_category en = None \<and> vw_priority en = None
          \<and> vw_summary en = None \<and> vw_confidence en = None
      \<or> (vw_status en = ES_DEGRADED \<and> vw_source en = Some ES_FALLBACK
          \<or> vw_status en = ES_ENRICHED \<and> vw_source en = Some ES_AI)
        \<and> vw_category en \<noteq> None \<and> vw_priority en \<noteq> None \<and> vw_summary en \<noteq> None \<and> vw_confidence en \<noteq> None"
    by (cases "tk_enrichmentStatus r") (simp_all add: ticket_typed_def toView_def Let_def)
  moreover have "ir_status (replay_answer key k) = Replayed" "ir_ticketId (replay_answer key k) = Some t"
    using t by (simp_all add: replay_answer_def Let_def)
  ultimately show ?thesis
    using replay_answers [OF assms(5-8,4)] by (simp add: count_event_def)
qed

subsection \<open>How a ticket leaves\<close>

lemma sweep_ticket:
  assumes "schema_ok d" and "tk_row i d = Some t"
  shows "tk_row i (retained cutoff d) = (if old_ticket cutoff (retained cutoff d) t then None else Some t)"
proof -
  let ?r = "retained cutoff d"
  have t: "t \<in> set (tickets d)" "tk_id t = i" using assms(2) by (auto dest: row_with_SomeD)
  show ?thesis
  proof (cases "old_ticket cutoff ?r t")
    case True
    have "i \<notin> values_of tk_id (delete_where (old_ticket cutoff ?r) (tickets d))"
    proof
      assume "i \<in> values_of tk_id (delete_where (old_ticket cutoff ?r) (tickets d))"
      then obtain y where y: "y \<in> set (tickets d)" "\<not> old_ticket cutoff ?r y" "tk_id y = i"
        by (auto simp: values_of_def)
      with t assms(1) have "y = t" using unique_by_inj [of tk_id "tickets d" y t] by (auto simp: schema_ok_def)
      with True y show False by simp
    qed
    with True show ?thesis by (subst retained_fields(2)) (simp add: row_with_None_iff)
  next
    case False
    with t have "t \<in> set (tickets ?r)" by (subst retained_fields(2)) simp
    moreover have "unique_by tk_id (tickets ?r)" using retained_schema_ok [OF assms(1)] by (simp add: schema_ok_def)
    ultimately show ?thesis using False t(2) row_with_unique [of tk_id "tickets ?r" t] by simp
  qed
qed

lemma life_step_ticket:
  assumes "life_step env dispatch s s'" and "env_valid env" and "life_ok env s" and "tk_row i (sy_db s) = Some t"
  shows "(\<exists>t'. tk_row i (sy_db s') = Some t' \<and> later t t')
    \<or> (\<exists>now p. retention_work (retention_cutoff env now) (sy_db s) = Inr (p, sy_db s')
        \<and> tk_updatedAt t < retention_cutoff env now)
      \<and> tk_row i (sy_db s') = None \<and> tk_enrichmentStatus t = ES_ENRICHED
      \<and> (\<forall>k \<in> set (idempotency_keys (sy_db s')). ik_ticketId k \<noteq> Some i)"
  using assms(1)
proof cases
  case run
  with sys_step_later [OF run(1) assms(2) _ assms(4)] assms(3) show ?thesis by (simp add: life_ok_def)
next
  case (retain ce now rs m p rs' m' d)
  let ?c = "retention_cutoff env now"
  have ok: "schema_ok (sy_db s)" and "ticket_typed t"
    using assms(3) typed_ticket [OF _ assms(4)] by (auto simp: life_ok_def)
  then have "tk_enrichmentStatus t \<noteq> ES_FAILED" by (auto simp: ticket_typed_def)
  moreover have "tk_id t = i" using assms(4) by (auto dest: row_with_SomeD)
  ultimately have gone: "old_ticket ?c (retained ?c (sy_db s)) t \<Longrightarrow> tk_enrichmentStatus t = ES_ENRICHED
      \<and> tk_updatedAt t < ?c \<and> (\<forall>k \<in> set (idempotency_keys (retained ?c (sy_db s))). ik_ticketId k \<noteq> Some i)"
    by (auto simp: old_ticket_def)
  from sweep_db [OF retain(2)] show ?thesis
  proof
    assume "d = sy_db s"
    with assms(4) show ?thesis by (simp add: retain(1))
  next
    assume d: "d = retained ?c (sy_db s)"
    obtain q where "retention_work ?c (sy_db s) = Inr (q, d)" using retention_work_eq [of ?c "sy_db s"] d by blast
    with d gone sweep_ticket [OF ok assms(4), of ?c] show ?thesis
      by (cases "old_ticket ?c (retained ?c (sy_db s)) t") (auto simp: retain(1))
  qed
qed

text \<open>
  C13: a ticket leaves only triaged by the model, past the retention window and unreferenced. Along every
  run with retention, from any reachable state, a ticket is either still there, no earlier in its life than
  it was, or there was a moment before which it was ENRICHED and at which the statements of a retention
  sweep removed it, its last update being older than the cutoff of that sweep, with no key of the ledger
  naming it any more. So a ticket that still waits for the model, PENDING or DEGRADED, is never lost.
\<close>

theorem tickets_leave_enriched:
  assumes "env_valid env" and "life_reach env dispatch (sys_start w m) s" and "life_reach env dispatch s s'"
    and "tk_row i (sy_db s) = Some t"
  shows "(\<exists>t'. tk_row i (sy_db s') = Some t' \<and> later t t')
    \<or> (\<exists>s1 s2 t1. life_reach env dispatch s s1 \<and> life_step env dispatch s1 s2 \<and> life_reach env dispatch s2 s'
         \<and> (\<exists>now p. retention_work (retention_cutoff env now) (sy_db s1) = Inr (p, sy_db s2)
             \<and> tk_updatedAt t1 < retention_cutoff env now)
         \<and> tk_row i (sy_db s1) = Some t1 \<and> later t t1 \<and> tk_enrichmentStatus t1 = ES_ENRICHED
         \<and> tk_row i (sy_db s2) = None
         \<and> (\<forall>k \<in> set (idempotency_keys (sy_db s2)). ik_ticketId k \<noteq> Some i))"
  using assms(3)
proof (induction rule: life_reach.induct)
  case start
  with assms(4) show ?case by auto
next
  case (more s1 s2)
  have ok: "life_ok env s1"
    by (rule life_ok_from_start [OF life_reach_trans [OF more.hyps(1) assms(2)] assms(1)])
  from more.IH show ?case
  proof
    assume "\<exists>t'. tk_row i (sy_db s1) = Some t' \<and> later t t'"
    then obtain t1 where t1: "tk_row i (sy_db s1) = Some t1" "later t t1" by blast
    from life_step_ticket [OF more.hyps(2) assms(1) ok t1(1)] show ?case
    proof
      assume "\<exists>t'. tk_row i (sy_db s2) = Some t' \<and> later t1 t'"
      with t1(2) later_trans show ?case by blast
    next
      assume "(\<exists>now p. retention_work (retention_cutoff env now) (sy_db s1) = Inr (p, sy_db s2)
          \<and> tk_updatedAt t1 < retention_cutoff env now)
        \<and> tk_row i (sy_db s2) = None \<and> tk_enrichmentStatus t1 = ES_ENRICHED
        \<and> (\<forall>k \<in> set (idempotency_keys (sy_db s2)). ik_ticketId k \<noteq> Some i)"
      with more.hyps t1 life_reach.start show ?case by blast
    qed
  next
    assume "\<exists>s1' s2' t1. life_reach env dispatch s s1' \<and> life_step env dispatch s1' s2' \<and> life_reach env dispatch s2' s1
         \<and> (\<exists>now p. retention_work (retention_cutoff env now) (sy_db s1') = Inr (p, sy_db s2')
             \<and> tk_updatedAt t1 < retention_cutoff env now)
         \<and> tk_row i (sy_db s1') = Some t1 \<and> later t t1 \<and> tk_enrichmentStatus t1 = ES_ENRICHED
         \<and> tk_row i (sy_db s2') = None
         \<and> (\<forall>k \<in> set (idempotency_keys (sy_db s2')). ik_ticketId k \<noteq> Some i)"
    with more.hyps(2) life_reach.more show ?case by blast
  qed
qed

subsection \<open>Concrete runs\<close>

lemma order_life:
  "\<exists>s. life_reach env_defaults dispatch (sys_start w m) s \<and> sys_inv env_defaults (\<lambda>_. UNIV) s
     \<and> tk_row ''t1'' (sy_db s) = Some (new_ticket_row ''t1'' 3 ''e1'' order_request)
     \<and> (''order-1'', ''t1'') \<in> sy_issued s \<and> outbox_messages (sy_db s) = []
     \<and> (\<exists>k. idempotency_keys (sy_db s) = [k] \<and> ik_key k = ''order-1'' \<and> ik_requestHash k = ''h'' \<and> ik_createdAt k = 1)"
proof -
  obtain s where s: "sys_reach env_defaults dispatch (sys_start w m) s"
      "tk_row ''t1'' (sy_db s) = Some (new_ticket_row ''t1'' 3 ''e1'' order_request)"
      "(''order-1'', ''t1'') \<in> sy_issued s" "outbox_messages (sy_db s) = []"
      "\<exists>k. idempotency_keys (sy_db s) = [k] \<and> ik_key k = ''order-1'' \<and> ik_requestHash k = ''h'' \<and> ik_createdAt k = 1"
    using order_created by metis
  have "sys_inv env_defaults (\<lambda>_. UNIV) s" by (rule sys_inv_any [OF s(1) env_defaults_valid sys_start_inv])
  with s sys_reach_life [OF s(1) env_defaults_valid sys_start_inv] show ?thesis by blast
qed

theorem rows_keep_their_types_witness:
  "\<exists>s t. life_reach env_defaults (webhook_dispatch (\<lambda>_. []) env_defaults sink_fetch) (sys_start ([], {}) no_metrics) s
     \<and> tk_row ''t1'' (sy_db s) = Some t \<and> ticket_typed t \<and> row_fits enum_types tickets_table (ticket_columns t)"
proof -
  let ?t = "new_ticket_row ''t1'' 3 ''e1'' order_request"
  obtain s where s: "life_reach env_defaults (webhook_dispatch (\<lambda>_. []) env_defaults sink_fetch)
      (sys_start ([], {}) no_metrics) s" "tk_row ''t1'' (sy_db s) = Some ?t"
    using order_life by metis
  from rows_keep_their_types [OF env_defaults_valid s(1)]
  have "rows_typed env_defaults (sy_db s)" "db_fits migrated (sy_db s)" by (auto simp: up_runs)
  moreover from this(2) s(2) have "row_fits enum_types tickets_table (ticket_columns ?t)"
    by (auto simp: db_fits_def migrated_def list_all_iff dest!: row_with_SomeD)
  ultimately show ?thesis using s typed_ticket by blast
qed

text \<open>The submission completed.\<close>

lemma order_completed:
  "\<exists>s x k. life_reach env_defaults dispatch (sys_start w m) s \<and> life_reach env_defaults dispatch s x
     \<and> tk_row ''t1'' (sy_db s) = Some (new_ticket_row ''t1'' 3 ''e1'' order_request)
     \<and> sys_inv env_defaults (\<lambda>_. UNIV) x \<and> tickets (sy_db x) = tickets (sy_db s) \<and> outbox_messages (sy_db x) = []
     \<and> idempotency_keys (sy_db x) = [k] \<and> ik_key k = ''order-1'' \<and> ik_requestHash k = ''h'' \<and> ik_createdAt k = 1
     \<and> ik_status k = IK_COMPLETED"
proof -
  obtain s k where s: "life_reach env_defaults dispatch (sys_start w m) s" "sys_inv env_defaults (\<lambda>_. UNIV) s"
      "tk_row ''t1'' (sy_db s) = Some (new_ticket_row ''t1'' 3 ''e1'' order_request)"
      "(''order-1'', ''t1'') \<in> sy_issued s" "outbox_messages (sy_db s) = []" "idempotency_keys (sy_db s) = [k]"
      "ik_key k = ''order-1''" "ik_requestHash k = ''h''" "ik_createdAt k = 1"
    using order_life by metis
  let ?x = "s\<lparr>sy_db := markCompleted 9 ''order-1'' ''t1'' 202 JNull (sy_db s)\<rparr>"
  have step: "sys_step env_defaults dispatch s ?x" by (rule sys_step.complete [OF s(4)])
  have inv: "sys_inv env_defaults (\<lambda>_. UNIV) ?x"
    by (rule delivery_target.sys_step_inv [OF any_target step env_defaults_valid s(2)])
  have "life_reach env_defaults dispatch s ?x"
    by (rule sys_reach_life [OF sys_reach_one [OF step] env_defaults_valid s(2)])
  moreover obtain k' where "idempotency_keys (sy_db ?x) = [k']" "ik_key k' = ''order-1''" "ik_requestHash k' = ''h''"
      "ik_createdAt k' = 1" "ik_status k' = IK_COMPLETED"
    using s(6-9) by (simp add: markCompleted_def)
  ultimately show ?thesis using s(1,3,5) inv
    by (intro exI [of _ s] exI [of _ ?x] exI [of _ k']) simp
qed

theorem replayed_ticket_readable_witness:
  "\<exists>x ans s' v. life_reach env_defaults (webhook_dispatch (\<lambda>_. []) env_defaults sink_fetch) (sys_start ([], {}) no_metrics) x
     \<and> ingest (order_host\<lparr>ih_sha256 := (\<lambda>_. ''h'')\<rparr>) env_defaults order_request (Some ''order-1'')
         (order_api\<lparr>ap_db := sy_db x\<rparr>) = (Inr ans, s')
     \<and> ir_status ans = Replayed \<and> getTicket (the (ir_ticketId ans)) (ap_db s') = Inr v"
proof -
  let ?D = "webhook_dispatch (\<lambda>_. []) env_defaults sink_fetch" and ?H = "order_host\<lparr>ih_sha256 := (\<lambda>_. ''h'')\<rparr>"
  obtain s x k where x: "life_reach env_defaults ?D (sys_start ([], {}) no_metrics) s" "life_reach env_defaults ?D s x"
      "idempotency_keys (sy_db x) = [k]" "ik_key k = ''order-1''" "ik_requestHash k = ''h''" "ik_status k = IK_COMPLETED"
    using order_completed by metis
  have path: "life_reach env_defaults ?D (sys_start ([], {}) no_metrics) x" by (rule life_reach_trans [OF x(2,1)])
  have hash: "request_hash ?H order_request = ''h''" by (simp add: hashPayload_def)
  have key: "''order-1'' = event_key (request_hash ?H order_request) order_request (Some ''order-1'')"
    by (simp add: event_key_def)
  have usable: "assertUsableAsJobId ''order-1'' = Inr ()" by code_simp
  have db: "ap_db (order_api\<lparr>ap_db := sy_db x\<rparr>) = sy_db x" by simp
  have k: "key_row ''order-1'' (sy_db x) = Some k" using x(3,4) by simp
  from replayed_ticket_readable [OF env_defaults_valid path db key usable, unfolded db, OF k x(6)] x(5) hash
  show ?thesis using path by fastforce
qed

text \<open>Completed, triaged by the model, and old: the sweep takes key and ticket.\<close>

theorem tickets_leave_enriched_witness:
  "\<exists>s s' s1 t t1. life_reach env_defaults (webhook_dispatch (\<lambda>_. []) env_defaults sink_fetch) (sys_start ([], {}) no_metrics) s
     \<and> life_reach env_defaults (webhook_dispatch (\<lambda>_. []) env_defaults sink_fetch) s s'
     \<and> tk_row ''t1'' (sy_db s) = Some t \<and> tk_enrichmentStatus t = ES_PENDING \<and> tk_row ''t1'' (sy_db s') = None
     \<and> life_reach env_defaults (webhook_dispatch (\<lambda>_. []) env_defaults sink_fetch) s s1
     \<and> tk_row ''t1'' (sy_db s1) = Some t1 \<and> tk_enrichmentStatus t1 = ES_ENRICHED"
proof -
  let ?D = "webhook_dispatch (\<lambda>_. []) env_defaults sink_fetch"
  let ?t = "new_ticket_row ''t1'' 3 ''e1'' order_request"
  obtain s x k where x: "life_reach env_defaults ?D (sys_start ([], {}) no_metrics) s" "life_reach env_defaults ?D s x"
      "tk_row ''t1'' (sy_db s) = Some ?t" "sys_inv env_defaults (\<lambda>_. UNIV) x" "tickets (sy_db x) = tickets (sy_db s)"
      "outbox_messages (sy_db x) = []" "idempotency_keys (sy_db x) = [k]" "ik_createdAt k = 1" "ik_status k = IK_COMPLETED"
    using order_completed by metis
  have ok: "schema_ok (sy_db x)" using x(4) by (simp add: sys_inv_def work_inv_def)
  have row: "tk_row ''t1'' (sy_db x) = Some ?t" using x(3,5) by simp
  have pending: "tk_enrichmentStatus ?t = ES_PENDING" by (simp add: new_ticket_row_def)
  have may: "may_write ai_outcome ?t" using pending by (simp add: may_write_def)
  have fresh: "''o1'' \<notin> values_of ob_id (outbox_messages (sy_db x))" using x(6) by simp
  from triage_path [OF ok row outcomes_ok(2) may fresh] obtain y where
    y: "sys_reach env_defaults ?D x y" "tk_row ''t1'' (sy_db y) = Some (write_outcome 5 ai_outcome ?t)"
      "idempotency_keys (sy_db y) = [k]" "schema_ok (sy_db y)"
    using x(7) by metis
  let ?now = "15 + interval_ms (RETENTION_MAX_AGE_MS env_defaults)"
  let ?d = "retained 15 (sy_db y)"
  have cutoff: "retention_cutoff env_defaults ?now = 15" by (simp add: retention_cutoff_def)
  obtain p where p: "retention_work 15 (sy_db y) = Inr (p, ?d)" using retention_work_eq [of 15 "sy_db y"] by blast
  have sweep: "retention_sweep env_defaults None ?now retention_new no_metrics (sy_db y)
      = (p, retention_finally (retention_new\<lparr>rt_running := True\<rparr>), count_pruned p no_metrics, ?d)"
    by (simp add: retention_sweep_def retention_begin_def retention_new_def cutoff p)
  have gone: "tk_row ''t1'' ?d = None"
  proof -
    have "idempotency_keys ?d = []" using y(3) x(8,9) by (simp add: retained_fields(1) old_key_def)
    then have "old_ticket 15 ?d (write_outcome 5 ai_outcome ?t)"
      by (simp add: old_ticket_def outcome_status) (simp add: write_outcome_def)
    with sweep_ticket [OF y(4,2), of 15] show ?thesis by simp
  qed
  have "life_reach env_defaults ?D x y" by (rule sys_reach_life [OF y(1) env_defaults_valid x(4)])
  then have path: "life_reach env_defaults ?D s (y\<lparr>sy_db := ?d\<rparr>)"
    using life_reach.more [OF life_reach_trans [OF _ x(2)] life_step.retain [OF sweep]] by blast
  from tickets_leave_enriched [OF env_defaults_valid x(1) path x(3)] gone obtain s1 t1 where
    "life_reach env_defaults ?D s s1" "tk_row ''t1'' (sy_db s1) = Some t1" "tk_enrichmentStatus t1 = ES_ENRICHED"
    by auto
  with x(1,3) path pending gone show ?thesis
    by (intro exI [of _ s] exI [of _ "y\<lparr>sy_db := ?d\<rparr>"] exI [of _ s1] exI [of _ ?t] exI [of _ t1]) simp
qed

end
