(* ===== verification/Spec2Isabelle.thy ===== *)
theory Spec2Isabelle
  imports Finishing Relay_Faults Nul_Text Retention_Reopens Relay_Progress Mistral_Client
    Correlation_Trace Demo_Panel Demo_Form Seed Startup Lifetime
begin

text \<open>
  A verification development of triage-engine, a NestJS service that takes support tickets over HTTP,
  classifies them with a language model, and notifies a downstream system, so that no ticket is lost or
  announced twice. Paths below are under src/ of the repository (the TypeScript sources are src/src/).

  \<^bold>\<open>The program.\<close> \<open>POST /events\<close> derives an idempotency key and a hash of the content and claims the key in
  the table idempotency_keys. The winner of the claim creates an event and a ticket in one transaction,
  enqueues a BullMQ job under the key, and completes the key with the answer every later request gets. A
  worker takes the job, classifies the ticket through a circuit breaker and a bounded retry around the
  Mistral client, or with keyword rules when the model is unavailable, and writes the outcome together with
  a row of the outbox in one transaction; a DEGRADED outcome schedules a delayed upgrade. A relay polls
  the outbox, posts each row to a webhook and reschedules what fails; a failed job becomes a dead letter
  that an operator can replay; one sweeper re-drives tickets that stayed DEGRADED, another prunes old rows.

  \<^bold>\<open>What is modelled where.\<close>
  \<^item> \<open>Prelude\<close>, \<open>Js_Values\<close>: timestamps in microseconds, the exceptions as one datatype, SQL statements over
    tables as lists of rows, JavaScript strings and JSON values, maps in insertion order.
  \<^item> \<open>Config\<close>, \<open>Connections\<close>: src/config/ and src/redis/redis.constants.ts. The environment record, the
    checks of its schema (\<open>env_valid\<close>), the options of Postgres and Redis.
  \<^item> \<open>Entities\<close>: the five tables, one record per entity of the src/*/entities/ files, \<open>schema_ok\<close> for the constraints, and the
    insert and delete statements that check them. \<open>Schema_Migration\<close>: every DDL statement of
    src/migrations/, executed on a catalogue; its keys and foreign keys are shown to be \<open>schema_ok\<close>.
    \<open>Row_Types\<close>: the columns each entity maps its properties to, its NOT NULL columns and ON DELETE actions
    against the rows and the deletes, and which optional columns a row's status sets.
  \<^item> \<open>Transaction\<close>: src/common/database/transaction.helper.ts with every call that can throw; the locale
    \<open>atomic_runner\<close> is what callers use of it.
  \<^item> \<open>Idempotency\<close>, \<open>Claim_Race\<close>: src/idempotency/. The statements of the ledger, then any number of
    claimers interleaved statement by statement.
  \<^item> \<open>Canonical_Hash\<close>: src/common/hash/. Canonical JSON, its printer, the content hash.
  \<^item> \<open>Producer\<close>, \<open>Job_Ids\<close>: src/pipeline/pipeline.producer.ts and the key guard of the events service.
    BullMQ is the record \<open>bull\<close> with \<open>bull_laws\<close>; \<open>ref_bull\<close> is a queue that keeps them.
  \<^item> \<open>Tickets\<close>, \<open>Events\<close>: src/tickets/, src/events/. \<open>ingest\<close> is the whole of \<open>EventsService.ingest\<close>.
    \<open>Nul_Text\<close>: what becomes of a submission whose text Postgres cannot store.
  \<^item> \<open>Classifier\<close>, \<open>Llm_Schema\<close>, \<open>Mistral_Client\<close>, \<open>Ai_Enricher\<close>: src/enrichment/. The fallback rules, the
    zod schema of an answer, one call to the model, the retry loop. The port of src/pipeline/enricher.port.ts
    is the locale \<open>enricher_port\<close>, interpreted by \<open>ai_enrich\<close>.
  \<^item> \<open>Backoff\<close>: src/common/backoff/, over the reals, the random draw being an argument.
  \<^item> \<open>Processor\<close>, \<open>Processor_Race\<close>: src/pipeline/ticket.processor.ts. One job, the handling of a failed
    attempt, and workers interleaved between their read and their write.
  \<^item> \<open>Dlq\<close>: src/pipeline/dlq/. \<open>Reconcile\<close>: src/pipeline/reconcile.sweeper.ts. \<open>Retention\<close>,
    \<open>Retention_Reopens\<close>: src/retention/. \<open>Single_Flight\<close>: the guard both sweepers and the relay share.
  \<^item> \<open>Outbox\<close>, \<open>Outbox_Delivery\<close>, \<open>Delivery\<close>, \<open>Webhook_Delivery\<close>, \<open>Relay_Progress\<close>, \<open>Sink\<close>: src/outbox/. Emission,
    the relay's batch and tick, the webhook dispatcher, the bundled sink. A delivery target is the locale
    \<open>delivery_target\<close>, extended by \<open>webhook_target\<close> and interpreted by the sink. \<open>Relay_Faults\<close>: the same
    drain with any of its statements throwing, and the latency histogram; database and target are then those
    of some drain of \<open>Outbox\<close>.
  \<^item> \<open>Observability\<close>, \<open>Correlation_Trace\<close>, \<open>Probes\<close>: src/common/correlation/, src/common/logging/, the way of
    an id through the jobs the code makes of a job (\<open>lineage\<close>), the
    counters and gauges, src/health/, src/pipeline/pipeline.observer.ts. \<open>Metrics_Text\<close>: the metrics registered
    in src/observability/ and the text their scrape is.
  \<^item> \<open>Http_Api\<close>, \<open>Http_Handlers\<close>: src/common/rate-limit/, the controllers, the global pipe of src/main.ts.
  \<^item> \<open>Wiring\<close>: every src/**/*.module.ts and every constructor, as the tokens they provide, export and inject.
    \<open>Startup\<close>: src/main.ts, the routes the controllers' decorators declare, the index of src/landing/.
  \<^item> \<open>Demo_Client\<close>, \<open>Demo_Attacks\<close>: public/app.js, alone and against the handlers behind the throttler guard.
    \<open>Demo_Panel\<close>: its
    metrics and health panels, the regular expression as a matcher. \<open>Demo_Form\<close>: its presets, the race of
    twelve requests, what loading the page sets up. \<open>Seed\<close>: scripts/seed.ts.
  \<^item> \<open>System\<close>, \<open>System_Refinement\<close>: the components together. \<open>sys_step\<close> interleaves the atomic actions of
    requests, workers, the relay and dead-letter replays over one database; it knows no queue, so a worker may
    persist an outcome for any ticket at any time, which only adds paths to what is shown to hold on all of
    them. A run of \<open>ingest\<close> and of \<open>process_job\<close> is shown to be a path of it. \<open>Lifetime\<close> adds the retention sweep.
  \<^item> \<open>Hands\<close>, \<open>Custody\<close>, \<open>Custody_Runs\<close>: the database and the job queue together. \<open>Hands\<close> follows each PENDING
    ticket between the jobs of the queue, the handler of a failed job, the dead letters and their replays;
    \<open>plant_step\<close> of \<open>Custody\<close> adds those moves, BullMQ's own and the death of a process with what it had in its
    hands to \<open>sys_step\<close>; \<open>Custody_Runs\<close> shows the runs of \<open>ingest\<close>, \<open>process_job\<close>, \<open>onFailed\<close>, \<open>dlq_replay\<close>,
    \<open>drainOnce\<close> and \<open>reconcile_sweep\<close> to be paths of it.
  \<^item> \<open>Liveness\<close>, \<open>Finishing\<close>: the relay's passes over a webhook that answers, and then the live jobs of the
    queue, run by \<open>process_job\<close>, followed by those passes.

  \<^bold>\<open>State and effects.\<close> Every operation takes the state it reads (the \<open>db\<close> record, a queue \<open>'q\<close>, the metrics,
  a world \<open>'w\<close> behind the network) and returns it updated beside an answer \<open>exn + 'a\<close>. What a run takes from
  outside, clocks, fresh ids, random draws, which calls fail, is an argument or a host record
  (\<open>ingest_host\<close>, \<open>pipe_host\<close>, \<open>relay_host\<close>, \<open>tx_faults\<close>).

  \<^bold>\<open>What the lemmas show.\<close> At most one claimer wins a key within a lease; a key never gets a second ticket,
  whatever fails and however often it is retried; a completed request is replayed forever, until retention
  removes its key, which reopens it; refused requests write nothing; a ticket that retention does not delete
  only moves forward in its life and never from an AI result back to a fallback; an accepted ticket that is
  still PENDING is held by a live job, a replayable dead letter or the alarm counter, or by a failure handler
  or a replay at work, which is what a dying process, or an undo that throws, can still lose; until retention
  prunes its row, every triage is announced exactly once in the outbox; a SENT row was
  delivered, a FAILED one used up its attempts, enough spaced drains settle every row, and a drain whose
  statements throw changes no row; a failed job becomes a dead letter or raises the alarm counter, and a
  letter is replayed at most once; the enricher always answers; the correlation id of a request reaches the
  webhook; reading a ticket does not spend the write limit; the migration installs the constraints all of
  this rests on; and the demo page, its panel included, tells the truth about the service as long as it is not
  rate limited. With retention running beside everything
  else, every row keeps the type its table and its status give it, a ticket only leaves the database once
  it is enriched and old, and a replayed answer names a ticket that can be read. Once every live job has been
  run and the relay has drained over a webhook that answers, every PENDING ticket of a completed key that
  nothing had gone wrong with is triaged and announced. The presets of
  the page are triaged as their names say, and seeding twice adds nothing. The modules resolve: whatever is
  injected is visible and provided once, and no two routes serve the same request.

  \<^bold>\<open>Findings\<close>, each a theorem or lemma here: \<open>released_iff_started\<close> (a connection whose BEGIN throws is never
  released), \<open>enqueueReconcile_answers\<close> (a re-drive after a failed one is not counted),
  \<open>markFailed_reopens_completed_key\<close> (a slow run can undo another's completion),
  \<open>upgrade_can_go_unannounced\<close>, \<open>retention_reopens_key\<close>, \<open>reconcile_ttl_below_interval_iff\<close>,
  \<open>dlq_reads_hit_write_limit\<close>, \<open>poll_checks_twice\<close>, \<open>race_limited_reports_failure\<close>,
  \<open>crashed_replay_loses_ticket\<close> (a process that dies between the flip of a dead letter and its enqueue
  leaves a PENDING ticket nothing will ever run; \<open>crashed_replay_is_final\<close>: no endpoint and no sweep repairs it;
  and the same happens when the undo of a failed replay throws),
  \<open>nul_request_never_served\<close> (a valid submission with U+0000 in a text is answered by an error at every retry),
  and \<open>failed_mark_observed_twice\<close> (a dispatch whose UPDATE throws is observed twice by the latency histogram).

  \<^bold>\<open>Bounds and fuel.\<close> No definition runs out of fuel. Loops are structural over lists or over a count the
  code itself fixes: the retries of \<open>ai_enrich\<close> by MISTRAL_MAX_RETRIES, the 15 delivery checks and 30
  flood requests of the page; \<open>trim_log\<close> has a termination proof. Integers of the code are counters and
  milliseconds far below 2 to the 53 and are \<open>int\<close>; confidences are rationals, backoff delays reals.
  Characters are UTF-16 code units below 256.

  \<^bold>\<open>Not modelled.\<close> Third-party code is a parameter with laws: BullMQ (\<open>bull_laws\<close>), opossum's breaker, the
  Mistral SDK, zod's parser, SHA-256 and number printing, \<open>fetch\<close> (\<open>fetch_ok\<close>), the throttler guard
  (\<open>guard_laws\<close>), Nest's exception filter (\<open>filter_laws\<close>), Terminus (\<open>terminus_laws\<close>), the JSON object
  (\<open>json_laws\<close>), prom-client's rendering (\<open>scrape_ok\<close>), validator.js. How Nest resolves a token and express
  matches a path is written out as documented, with the exports of library modules a parameter
  (\<open>libs_ok\<close>). Postgres is the statements' documented meaning at READ COMMITTED: a statement is atomic, a
  transaction of the code that locks its row is one step. BullMQ keeps the failed job of a PENDING ticket
  until its handler has returned. A COMMIT that throws has rolled back; one that succeeded but whose reply was
  lost is not represented. Retention is a step of \<open>Lifetime\<close> only, not of \<open>System\<close>, \<open>Custody\<close> and \<open>Finishing\<close>. Left out: the observations of the
  enrichment histogram, the durations the other one records, log lines, and the wording of the page. Column types do not bound an integer to 32 bits or
  (outside \<open>Nul_Text\<close>) exclude the NUL character from a text. The timing of timers is modelled as which step comes next, not as
  real time.
\<close>

end
